(* ===== verification/Prelude.thy ===== *)
theory Prelude
  imports Main
begin

text \<open>
  Shared vocabulary of the development.  A TypeScript function that may throw is a HOL function
  into a sum type (\<open>Inl\<close> the thrown value); an \<open>async\<close> function that talks to an upstream is a
  state passer over a world \<open>'s\<close> (the upstream and everything else outside the process) that also
  may throw.  The combinators below are the sequencing, looping and catching constructs of the
  source; every component is written with them.
\<close>

named_theorems sum_simps \<open>sequencing of computations that may throw\<close>
named_theorems io_simps \<open>sequencing of computations on the world that may throw\<close>
named_theorems str_simps \<open>character classes and number printing\<close>

section \<open>Computations that may throw\<close>

fun bindE :: "'e + 'a \<Rightarrow> ('a \<Rightarrow> 'e + 'b) \<Rightarrow> 'e + 'b" where
  "bindE (Inl e) f = Inl e"
| "bindE (Inr a) f = f a"

text \<open>\<open>guardE\<close>: \<open>if (!c) throw e\<close>, then go on.\<close>

definition guardE :: "bool \<Rightarrow> 'e \<Rightarrow> 'e + unit" where
  "guardE c e = (if c then Inr () else Inl e)"

text \<open>A loop that maps a throwing function over a list in order, stopping at the first throw.\<close>

fun mapE :: "('a \<Rightarrow> 'e + 'b) \<Rightarrow> 'a list \<Rightarrow> 'e + 'b list" where
  "mapE f [] = Inr []"
| "mapE f (x # xs) = bindE (f x) (\<lambda>y. bindE (mapE f xs) (\<lambda>ys. Inr (y # ys)))"

text \<open>A loop with an accumulator, stopping at the first throw.\<close>

fun foldE :: "('a \<Rightarrow> 'b \<Rightarrow> 'e + 'b) \<Rightarrow> 'a list \<Rightarrow> 'b \<Rightarrow> 'e + 'b" where
  "foldE f [] b = Inr b"
| "foldE f (x # xs) b = bindE (f x b) (foldE f xs)"

text \<open>\<open>for (let i = 0; i < n; i++) x = f(x)\<close>.\<close>

fun iterE :: "('a \<Rightarrow> 'e + 'a) \<Rightarrow> nat \<Rightarrow> 'a \<Rightarrow> 'e + 'a" where
  "iterE f 0 x = Inr x"
| "iterE f (Suc n) x = bindE (f x) (iterE f n)"

lemma bindE_Inr_conv [sum_simps]:
  "bindE m f = Inr b \<longleftrightarrow> (\<exists>a. m = Inr a \<and> f a = Inr b)"
  by (cases m) auto

lemma bindE_Inl_conv [sum_simps]:
  "bindE m f = Inl e \<longleftrightarrow> m = Inl e \<or> (\<exists>a. m = Inr a \<and> f a = Inl e)"
  by (cases m) auto

lemma bindE_assoc: "bindE (bindE m f) g = bindE m (\<lambda>x. bindE (f x) g)"
  by (cases m) auto

lemma bindE_cong [fundef_cong]:
  "m = m' \<Longrightarrow> (\<And>a. m' = Inr a \<Longrightarrow> f a = f' a) \<Longrightarrow> bindE m f = bindE m' f'"
  by (cases m') auto

lemma guardE_Inr_conv [sum_simps]: "guardE c e = Inr u \<longleftrightarrow> c"
  by (simp add: guardE_def)

lemma guardE_Inl_conv [sum_simps]: "guardE c e = Inl e' \<longleftrightarrow> \<not> c \<and> e' = e"
  by (auto simp: guardE_def)

lemma guardE_simps [simp]: "guardE True e = Inr ()" "guardE False e = Inl e"
  by (simp_all add: guardE_def)

text \<open>An early \<open>return false\<close>.\<close>

lemma early_false [sum_simps]:
  "(if c then Inr False else m) = Inr True \<longleftrightarrow> \<not> c \<and> m = (Inr True :: 'e + bool)"
  by auto

lemma mapE_Inr_length: "mapE f xs = Inr ys \<Longrightarrow> length ys = length xs"
  by (induction xs arbitrary: ys) (auto simp: sum_simps)

lemma mapE_Inr_iff:
  "mapE f xs = Inr ys \<longleftrightarrow> list_all2 (\<lambda>x y. f x = Inr y) xs ys"
proof (induction xs arbitrary: ys)
  case (Cons x xs)
  show ?case by (cases ys) (auto simp: sum_simps Cons.IH)
qed auto

lemma mapE_Inl_iff:
  "mapE f xs = Inl e \<longleftrightarrow>
     (\<exists>us x vs. xs = us @ x # vs \<and> (\<forall>u \<in> set us. \<exists>y. f u = Inr y) \<and> f x = Inl e)"
proof (induction xs)
  case (Cons a xs)
  show ?case
  proof (cases "f a")
    case (Inl d)
    then show ?thesis by (auto simp: Cons_eq_append_conv intro: exI [of _ "[]"])
  next
    case (Inr b)
    have "mapE f (a # xs) = Inl e \<longleftrightarrow> mapE f xs = Inl e"
      using Inr by (auto simp: sum_simps)
    also have "\<dots> \<longleftrightarrow> (\<exists>us x vs. a # xs = us @ x # vs \<and> (\<forall>u \<in> set us. \<exists>y. f u = Inr y) \<and> f x = Inl e)"
      (is "_ \<longleftrightarrow> ?R")
    proof
      assume "mapE f xs = Inl e"
      then obtain us x vs where "xs = us @ x # vs" "\<forall>u \<in> set us. \<exists>y. f u = Inr y" "f x = Inl e"
        using Cons.IH by blast
      then show ?R using Inr by (intro exI [of _ "a # us"] exI [of _ x] exI [of _ vs]) auto
    next
      assume ?R
      then obtain us x vs where R: "a # xs = us @ x # vs" "\<forall>u \<in> set us. \<exists>y. f u = Inr y" "f x = Inl e"
        by blast
      with Inr have "us \<noteq> []" by (cases us) auto
      then obtain us' where "us = a # us'" using R(1) by (cases us) auto
      with R Cons.IH show "mapE f xs = Inl e" by auto
    qed
    finally show ?thesis .
  qed
qed simp

lemma mapE_all_Inr: "\<forall>x \<in> set xs. \<exists>y. f x = Inr y \<Longrightarrow> \<exists>ys. mapE f xs = Inr ys"
  by (induction xs) auto

lemma mapE_map: "(\<And>x. x \<in> set xs \<Longrightarrow> f x = Inr (g x)) \<Longrightarrow> mapE f xs = Inr (map g xs)"
  by (induction xs) auto

lemma mapE_append:
  "mapE f (xs @ ys) = bindE (mapE f xs) (\<lambda>us. bindE (mapE f ys) (\<lambda>vs. Inr (us @ vs)))"
  by (induction xs) (auto simp: bindE_assoc split: sum.split, (cases "mapE f ys"; simp)+)

lemma foldE_append: "foldE f (xs @ ys) b = bindE (foldE f xs b) (foldE f ys)"
proof (induction xs arbitrary: b)
  case (Cons x xs)
  then show ?case by (cases "f x b") auto
qed simp

lemma foldE_invariant:
  assumes "foldE f xs b = Inr b'" and "P b"
    and "\<And>x c c'. x \<in> set xs \<Longrightarrow> P c \<Longrightarrow> f x c = Inr c' \<Longrightarrow> P c'"
  shows "P b'"
  using assms
proof (induction xs arbitrary: b)
  case (Cons x xs)
  then obtain c where "f x b = Inr c" "foldE f xs c = Inr b'" by (auto simp: sum_simps)
  with Cons show ?case by (metis list.set_intros(1) list.set_intros(2))
qed simp

lemma iterE_pair: "iterE (\<lambda>p. bindE (f p) f) n x = iterE f (2 * n) x"
proof (induction n arbitrary: x)
  case (Suc n)
  show ?case
  proof (cases "f x")
    case (Inr b)
    with Suc show ?thesis by (cases "f b") simp_all
  qed simp
qed simp

lemma iterE_cong_inv:
  assumes "P x" and "\<And>y. P y \<Longrightarrow> f y = g y" and "\<And>y z. P y \<Longrightarrow> f y = Inr z \<Longrightarrow> P z"
  shows "iterE f n x = iterE g n x"
  using assms(1)
proof (induction n arbitrary: x)
  case (Suc n)
  then show ?case using assms(2,3) by (cases "g x") auto
qed simp

lemma iterE_Inr_rel:
  assumes "iterE f n x = Inr y" and "\<And>u. R u u" and "\<And>u v w. f u = Inr v \<Longrightarrow> R v w \<Longrightarrow> R u w"
  shows "R x y"
  using assms(1)
proof (induction n arbitrary: x)
  case (Suc n)
  then show ?case using assms(3) by (auto simp: sum_simps)
qed (simp add: assms(2))

section \<open>Computations on the world\<close>

text \<open>
  An \<open>async\<close> function: it takes the world, and returns or throws in a new world.  \<open>await\<close> is
  \<open>bindIO\<close>; requests are issued one at a time, in the order of the source.
\<close>

type_synonym ('s, 'e, 'a) io = "'s \<Rightarrow> ('e + 'a) \<times> 's"

definition returnIO :: "'a \<Rightarrow> ('s, 'e, 'a) io" where
  "returnIO a = (\<lambda>s. (Inr a, s))"

definition throwIO :: "'e \<Rightarrow> ('s, 'e, 'a) io" where
  "throwIO e = (\<lambda>s. (Inl e, s))"

definition bindIO :: "('s, 'e, 'a) io \<Rightarrow> ('a \<Rightarrow> ('s, 'e, 'b) io) \<Rightarrow> ('s, 'e, 'b) io" where
  "bindIO m f = (\<lambda>s. case m s of (Inl e, s') \<Rightarrow> (Inl e, s') | (Inr a, s') \<Rightarrow> f a s')"

text \<open>\<open>try { m } catch (e) { h(e) }\<close>.\<close>

definition catchIO :: "('s, 'e, 'a) io \<Rightarrow> ('e \<Rightarrow> ('s, 'e, 'a) io) \<Rightarrow> ('s, 'e, 'a) io" where
  "catchIO m h = (\<lambda>s. case m s of (Inl e, s') \<Rightarrow> h e s' | (Inr a, s') \<Rightarrow> (Inr a, s'))"

text \<open>A throwing pure computation inside an \<open>async\<close> function.\<close>

definition liftE :: "'e + 'a \<Rightarrow> ('s, 'e, 'a) io" where
  "liftE r = (\<lambda>s. (r, s))"

fun mapIO :: "('a \<Rightarrow> ('s, 'e, 'b) io) \<Rightarrow> 'a list \<Rightarrow> ('s, 'e, 'b list) io" where
  "mapIO f [] = returnIO []"
| "mapIO f (x # xs) = bindIO (f x) (\<lambda>y. bindIO (mapIO f xs) (\<lambda>ys. returnIO (y # ys)))"

text \<open>
  \<open>Promise.all(xs.map(f))\<close>: every call is started, and a failed one does not keep the others from
  running; the first failure is the result.  The calls are run in list order.
\<close>

fun allIO :: "('a \<Rightarrow> ('s, 'e, 'b) io) \<Rightarrow> 'a list \<Rightarrow> ('s, 'e, 'b list) io" where
  "allIO f [] = returnIO []"
| "allIO f (x # xs) = (\<lambda>s.
     (case f x s of (r, s') \<Rightarrow>
       (case allIO f xs s' of (rs, s'') \<Rightarrow>
         (bindE r (\<lambda>y. bindE rs (\<lambda>ys. Inr (y # ys))), s''))))"

text \<open>\<open>Promise.all([m, k])\<close>.\<close>

definition bothIO :: "('s, 'e, 'a) io \<Rightarrow> ('s, 'e, 'b) io \<Rightarrow> ('s, 'e, 'a \<times> 'b) io" where
  "bothIO m k = (\<lambda>s. case m s of (r, s') \<Rightarrow> (case k s' of (q, s'') \<Rightarrow>
     (bindE r (\<lambda>a. bindE q (\<lambda>b. Inr (a, b))), s'')))"

lemma bothIO_Inr_conv [io_simps]:
  "bothIO m k s = (Inr p, t) \<longleftrightarrow> (\<exists>u. m s = (Inr (fst p), u) \<and> k u = (Inr (snd p), t))"
  by (cases p) (auto simp: bothIO_def bindE_Inr_conv split: prod.splits)

lemma returnIO_run [io_simps]: "returnIO a s = (Inr a, s)"
  by (simp add: returnIO_def)

lemma throwIO_run [io_simps]: "throwIO e s = (Inl e, s)"
  by (simp add: throwIO_def)

lemma liftE_run [io_simps]: "liftE r s = (r, s)"
  by (simp add: liftE_def)

lemma bindIO_Inr_conv [io_simps]:
  "bindIO m f s = (Inr b, t) \<longleftrightarrow> (\<exists>a u. m s = (Inr a, u) \<and> f a u = (Inr b, t))"
  by (auto simp: bindIO_def split: prod.splits sum.splits)

lemma bindIO_Inl_conv [io_simps]:
  "bindIO m f s = (Inl e, t) \<longleftrightarrow>
     m s = (Inl e, t) \<or> (\<exists>a u. m s = (Inr a, u) \<and> f a u = (Inl e, t))"
  by (auto simp: bindIO_def split: prod.splits sum.splits)

lemma bindIO_run:
  "m s = (Inr a, s') \<Longrightarrow> bindIO m f s = f a s'"
  "m s = (Inl e, s') \<Longrightarrow> bindIO m f s = (Inl e, s')"
  by (simp_all add: bindIO_def)

lemma bindIO_returnIO [simp]: "bindIO (returnIO a) f = f a" "bindIO (throwIO e) f = throwIO e"
  by (auto simp: bindIO_def returnIO_def throwIO_def)

lemma bindIO_liftE: "bindIO (liftE r) f = (case r of Inl e \<Rightarrow> throwIO e | Inr a \<Rightarrow> f a)"
  by (auto simp: bindIO_def liftE_def throwIO_def split: sum.splits)

lemma catchIO_run:
  "m s = (Inr a, s') \<Longrightarrow> catchIO m h s = (Inr a, s')"
  "m s = (Inl e, s') \<Longrightarrow> catchIO m h s = h e s'"
  by (simp_all add: catchIO_def)

lemma catchIO_Inr_conv [io_simps]:
  "catchIO m h s = (Inr a, t) \<longleftrightarrow>
     m s = (Inr a, t) \<or> (\<exists>e u. m s = (Inl e, u) \<and> h e u = (Inr a, t))"
  by (auto simp: catchIO_def split: prod.splits sum.splits)

lemma allIO_Inr_length: "allIO f xs s = (Inr ys, s') \<Longrightarrow> length ys = length xs"
  by (induction xs arbitrary: ys s)
    (auto simp: io_simps sum_simps split: prod.splits)

text \<open>Where no call throws, \<open>Promise.all\<close> is the sequential loop.\<close>

lemma allIO_mapIO:
  "mapIO f xs s = (Inr ys, s') \<Longrightarrow> allIO f xs s = (Inr ys, s')"
proof (induction xs arbitrary: ys s)
  case (Cons x xs)
  then obtain y u zs where "f x s = (Inr y, u)" "mapIO f xs u = (Inr zs, s')" "ys = y # zs"
    by (auto simp: io_simps)
  with Cons.IH show ?case by simp
qed (simp add: io_simps)

lemma allIO_Inr_mapIO:
  "allIO f xs s = (Inr ys, s') \<Longrightarrow> mapIO f xs s = (Inr ys, s')"
proof (induction xs arbitrary: ys s)
  case (Cons x xs)
  obtain r u where fx: "f x s = (r, u)" by fastforce
  obtain rs v where al: "allIO f xs u = (rs, v)" by fastforce
  from Cons.prems fx al obtain y zs where "r = Inr y" "rs = Inr zs" "ys = y # zs" "v = s'"
    by (auto simp: sum_simps)
  with Cons.IH [of u zs] fx al show ?case by (auto simp: io_simps)
qed (simp add: io_simps)

section \<open>Strings and numbers\<close>

text \<open>
  A JavaScript string is a list of characters; all character classes the source tests are ASCII.
\<close>

definition is_digit :: "char \<Rightarrow> bool" where
  "is_digit c \<longleftrightarrow> c \<in> set ''0123456789''"

definition is_hex :: "char \<Rightarrow> bool" where
  "is_hex c \<longleftrightarrow> c \<in> set ''0123456789abcdefABCDEF''"

text \<open>\<open>toLowerCase\<close> on the ASCII letters, the only ones it is asked about.\<close>

definition lower_char :: "char \<Rightarrow> char" where
  "lower_char c =
     (let n = of_char c :: nat in if 65 \<le> n \<and> n \<le> 90 then char_of (n + 32) else c)"

definition toLowerCase :: "string \<Rightarrow> string" where
  "toLowerCase = map lower_char"

lemma length_toLowerCase [simp]: "length (toLowerCase s) = length s"
  by (simp add: toLowerCase_def)

lemma lower_char_idem [simp]: "lower_char (lower_char c) = lower_char c"
  by (auto simp: lower_char_def Let_def)

lemma toLowerCase_idem [simp]: "toLowerCase (toLowerCase s) = toLowerCase s"
  by (simp add: toLowerCase_def comp_def)

lemma toLowerCase_append: "toLowerCase (s @ t) = toLowerCase s @ toLowerCase t"
  by (simp add: toLowerCase_def)

text \<open>\<open>s.split(x)\<close> for a one-character separator.\<close>

fun split_on :: "char \<Rightarrow> string \<Rightarrow> string list" where
  "split_on x [] = [[]]"
| "split_on x (c # cs) =
     (if c = x then [] # split_on x cs
      else case split_on x cs of [] \<Rightarrow> [[c]] | w # ws \<Rightarrow> (c # w) # ws)"

text \<open>\<open>String(n)\<close> for a non-negative integer, and \<open>Number(s)\<close> of a digit string.\<close>

definition digit_char :: "nat \<Rightarrow> char" where
  "digit_char d = char_of (48 + d)"

fun string_of_nat :: "nat \<Rightarrow> string" where
  "string_of_nat n =
     (if n < 10 then [digit_char n] else string_of_nat (n div 10) @ [digit_char (n mod 10)])"

declare string_of_nat.simps [simp del]

definition string_of_int :: "int \<Rightarrow> string" where
  "string_of_int i = (if i < 0 then CHR ''-'' # string_of_nat (nat (- i)) else string_of_nat (nat i))"

definition digit_val :: "char \<Rightarrow> nat" where
  "digit_val c = of_char c - 48"

definition nat_of_string :: "string \<Rightarrow> nat" where
  "nat_of_string s = foldl (\<lambda>n c. 10 * n + digit_val c) 0 s"

lemma digit_val_char [simp]: "d < 10 \<Longrightarrow> digit_val (digit_char d) = d"
  by (simp add: digit_val_def digit_char_def)

lemma nat_of_string_snoc: "nat_of_string (s @ [c]) = 10 * nat_of_string s + digit_val c"
  by (simp add: nat_of_string_def)

lemma nat_of_string_string_of_nat [str_simps]: "nat_of_string (string_of_nat n) = n"
proof (induction n rule: string_of_nat.induct)
  case (1 n)
  show ?case
  proof (cases "n < 10")
    case True
    then show ?thesis by (simp add: string_of_nat.simps [of n] nat_of_string_def)
  next
    case False
    with 1 show ?thesis by (simp add: string_of_nat.simps [of n] nat_of_string_snoc)
  qed
qed

lemma digit_char_is_digit: "d < 10 \<Longrightarrow> is_digit (digit_char d)"
proof -
  have "list_all (\<lambda>d. is_digit (digit_char d)) [0, 1, 2, 3, 4, 5, 6, 7, 8, 9]" by code_simp
  moreover assume "d < 10"
  then have "d \<in> set [0, 1, 2, 3, 4, 5, 6, 7, 8, 9]" by auto
  ultimately show ?thesis by (metis list_all_iff)
qed

lemma string_of_nat_digits: "string_of_nat n \<noteq> [] \<and> list_all is_digit (string_of_nat n)"
proof (induction n rule: string_of_nat.induct)
  case (1 n)
  then show ?case
    by (auto simp: string_of_nat.simps [of n] digit_char_is_digit)
qed

lemma string_of_nat_inj: "string_of_nat m = string_of_nat n \<longleftrightarrow> m = n"
  by (metis nat_of_string_string_of_nat)

lemma string_of_nat_no_sign: "string_of_nat n \<noteq> CHR ''-'' # s"
  using string_of_nat_digits [of n] by (auto simp: is_digit_def)

lemma string_of_int_inj: "string_of_int a = string_of_int b \<Longrightarrow> a = b"
  using string_of_nat_no_sign string_of_nat_no_sign [symmetric]
  by (auto simp: string_of_int_def string_of_nat_inj split: if_splits)

text \<open>The range in which a double represents every integer exactly.\<close>

definition MAX_SAFE_INTEGER :: int where
  "MAX_SAFE_INTEGER = 9007199254740991"

definition isSafeInteger :: "int \<Rightarrow> bool" where
  "isSafeInteger i \<longleftrightarrow> - MAX_SAFE_INTEGER \<le> i \<and> i \<le> MAX_SAFE_INTEGER"

section \<open>Lists\<close>

text \<open>\<open>new Set(xs)\<close> read in insertion order: first occurrences.\<close>

fun dedupe_from :: "'a list \<Rightarrow> 'a list \<Rightarrow> 'a list" where
  "dedupe_from seen [] = []"
| "dedupe_from seen (x # xs) =
     (if x \<in> set seen then dedupe_from seen xs else x # dedupe_from (x # seen) xs)"

definition dedupe :: "'a list \<Rightarrow> 'a list" where
  "dedupe xs = dedupe_from [] xs"

lemma set_dedupe_from: "set (dedupe_from seen xs) = set xs - set seen"
  by (induction seen xs rule: dedupe_from.induct) auto

lemma distinct_dedupe_from: "distinct (dedupe_from seen xs)"
  by (induction seen xs rule: dedupe_from.induct) (auto simp: set_dedupe_from)

lemma set_dedupe [simp]: "set (dedupe xs) = set xs"
  by (simp add: dedupe_def set_dedupe_from)

lemma distinct_dedupe [simp]: "distinct (dedupe xs)"
  by (simp add: dedupe_def distinct_dedupe_from)

lemma distinct_dedupe_id: "distinct xs \<Longrightarrow> dedupe xs = xs"
proof -
  have "distinct xs \<Longrightarrow> set xs \<inter> set seen = {} \<Longrightarrow> dedupe_from seen xs = xs" for seen
    by (induction seen xs rule: dedupe_from.induct) auto
  then show "distinct xs \<Longrightarrow> dedupe xs = xs" by (simp add: dedupe_def)
qed

lemma filter_map_of_in_order:
  "distinct (map f xs) \<Longrightarrow> x \<in> set xs \<Longrightarrow> map_of (map (\<lambda>y. (f y, y)) xs) (f x) = Some x"
  by (simp add: map_of_eq_Some_iff comp_def rev_image_eqI)

end
