(* ===== verification/Errors.thy ===== *)
theory Errors
  imports Prelude
begin

text \<open>
  The error taxonomy of \<^verbatim>\<open>src/domain/errors.ts\<close>: one constructor per class, with the fields the
  code reads from it.  Everything thrown anywhere in the model is a value of \<open>thrown\<close>; the classes
  that are not an \<open>AppError\<close> (\<open>RangeError\<close>, \<open>TypeError\<close>, \<open>Error\<close>, and the private epoch mismatch of
  \<^verbatim>\<open>src/providers/cached.ts\<close>) are there too, because the HTTP
  boundary and several \<open>catch\<close> blocks tell them apart.  \<open>CreationBlockRolledBackError\<close> is the subclass
  of \<open>ProviderError\<close> of \<^verbatim>\<open>src/providers/blockfrost/blocks.ts\<close>, which that file tells apart.
\<close>

datatype error_code =
    UPSTREAM_ERROR | UPSTREAM_TIMEOUT | UPSTREAM_MALFORMED | BAD_REQUEST
  | NOT_IMPLEMENTED | FEATURE_UNAVAILABLE | CONFIG_ERROR | INTERNAL

text \<open>
  \<open>ProviderError message upstreamStatus details\<close>: the status when upstream answered at all, and the
  text of \<open>details\<close> when the cause is a response body.
\<close>

datatype thrown =
    ProviderError string "nat option" "string option"
  | ProviderTimeoutError string
  | MalformedUpstreamError string
  | BadRequestError string
  | NotImplementedError string
  | FeatureUnavailableError string
  | ConfigError string
  | JsRangeError string
  | JsTypeError string
  | JsError string
  | ProtocolParamsEpochMismatchError int int
  | CreationBlockRolledBackError

fun code_of :: "thrown \<Rightarrow> error_code option" where
  "code_of (ProviderError _ _ _) = Some UPSTREAM_ERROR"
| "code_of (ProviderTimeoutError _) = Some UPSTREAM_TIMEOUT"
| "code_of (MalformedUpstreamError _) = Some UPSTREAM_MALFORMED"
| "code_of (BadRequestError _) = Some BAD_REQUEST"
| "code_of (NotImplementedError _) = Some NOT_IMPLEMENTED"
| "code_of (FeatureUnavailableError _) = Some FEATURE_UNAVAILABLE"
| "code_of (ConfigError _) = Some CONFIG_ERROR"
| "code_of CreationBlockRolledBackError = Some UPSTREAM_ERROR"
| "code_of _ = None"

fun statusCode_of :: "thrown \<Rightarrow> nat option" where
  "statusCode_of (ProviderError _ _ _) = Some 502"
| "statusCode_of (ProviderTimeoutError _) = Some 504"
| "statusCode_of (MalformedUpstreamError _) = Some 502"
| "statusCode_of (BadRequestError _) = Some 400"
| "statusCode_of (NotImplementedError _) = Some 501"
| "statusCode_of (FeatureUnavailableError _) = Some 503"
| "statusCode_of (ConfigError _) = Some 500"
| "statusCode_of CreationBlockRolledBackError = Some 502"
| "statusCode_of _ = None"

fun message_of :: "thrown \<Rightarrow> string" where
  "message_of (ProviderError m _ _) = m"
| "message_of (ProviderTimeoutError m) = m"
| "message_of (MalformedUpstreamError m) = m"
| "message_of (BadRequestError m) = m"
| "message_of (NotImplementedError m) = m"
| "message_of (FeatureUnavailableError m) = m"
| "message_of (ConfigError m) = m"
| "message_of (JsRangeError m) = m"
| "message_of (JsTypeError m) = m"
| "message_of (JsError m) = m"
| "message_of (ProtocolParamsEpochMismatchError tipEpoch paramsEpoch) =
     ''protocol parameters for epoch '' @ string_of_int paramsEpoch @ '' do not match tip epoch '' @ string_of_int tipEpoch"
| "message_of CreationBlockRolledBackError = ''blockfrost creation block disappeared during UTxO read; retry''"

fun upstreamStatus_of :: "thrown \<Rightarrow> nat option" where
  "upstreamStatus_of (ProviderError _ st _) = st"
| "upstreamStatus_of _ = None"

definition isAppError :: "thrown \<Rightarrow> bool" where
  "isAppError e \<longleftrightarrow> code_of e \<noteq> None"

lemma isAppError_status: "isAppError e \<longleftrightarrow> (\<exists>st. statusCode_of e = Some st)"
  by (cases e) (auto simp: isAppError_def)

lemma statusCode_range: "statusCode_of e = Some st \<Longrightarrow> 400 \<le> st \<and> st \<le> 504"
  by (cases e) auto

lemma statusCode_client_fault: "statusCode_of e = Some st \<Longrightarrow> st < 500 \<longleftrightarrow> code_of e = Some BAD_REQUEST"
  by (cases e) auto

text \<open>The computations of the model: they throw \<open>thrown\<close> values.\<close>

type_synonym 'a result = "thrown + 'a"
type_synonym ('s, 'a) io_result = "('s, thrown, 'a) io"

end
