(* ===== verification/Json.thy ===== *)
theory Json
  imports Prelude
begin

text \<open>
  The JSON values the service writes (request bodies and cache-free outputs) and \<open>JSON.stringify\<close> on
  them.  Strings are UTF-8 bytes, so \<open>Buffer.byteLength(JSON.stringify(v))\<close> is the length of
  \<open>stringify v\<close>.
\<close>

datatype json =
    JNull
  | JBool bool
  | JInt int
  | JStr string
  | JArr "json list"
  | JObj "(string \<times> json) list"

definition hex_digit :: "nat \<Rightarrow> char" where
  "hex_digit d = (if d < 10 then digit_char d else char_of (87 + d))"

text \<open>The escapes of \<open>JSON.stringify\<close>: quote, backslash, and the control characters.\<close>

definition escape_char :: "char \<Rightarrow> string" where
  "escape_char c =
     (let n = of_char c :: nat in
      if n = 34 then [char_of (92::nat), char_of (34::nat)]
      else if n = 92 then [char_of (92::nat), char_of (92::nat)]
      else if n = 8 then char_of (92::nat) # ''b''
      else if n = 9 then char_of (92::nat) # ''t''
      else if n = 10 then char_of (92::nat) # ''n''
      else if n = 12 then char_of (92::nat) # ''f''
      else if n = 13 then char_of (92::nat) # ''r''
      else if n < 32 then char_of (92::nat) # ''u00'' @ [hex_digit (n div 16), hex_digit (n mod 16)]
      else [c])"

definition quote_string :: "string \<Rightarrow> string" where
  "quote_string s = [char_of (34::nat)] @ concat (map escape_char s) @ [char_of (34::nat)]"

fun intercalate :: "string \<Rightarrow> string list \<Rightarrow> string" where
  "intercalate sep [] = []"
| "intercalate sep [x] = x"
| "intercalate sep (x # y # xs) = x @ sep @ intercalate sep (y # xs)"

fun stringify :: "json \<Rightarrow> string" where
  "stringify JNull = ''null''"
| "stringify (JBool b) = (if b then ''true'' else ''false'')"
| "stringify (JInt i) = string_of_int i"
| "stringify (JStr s) = quote_string s"
| "stringify (JArr xs) = ''['' @ intercalate '','' (map stringify xs) @ '']''"
| "stringify (JObj fs) =
     ''{'' @ intercalate '','' (map (\<lambda>f. quote_string (fst f) @ '':'' @ stringify (snd f)) fs) @ ''}''"

definition byteLength :: "json \<Rightarrow> nat" where
  "byteLength v = length (stringify v)"

text \<open>The bytes between the brackets of an array: the items and the commas between them.\<close>

fun items_bytes :: "json list \<Rightarrow> nat" where
  "items_bytes [] = 0"
| "items_bytes [x] = byteLength x"
| "items_bytes (x # y # xs) = byteLength x + 1 + items_bytes (y # xs)"

lemma length_intercalate_items:
  "length (intercalate '','' (map stringify xs)) = items_bytes xs"
  by (induction xs rule: items_bytes.induct) (simp_all add: byteLength_def)

lemma byteLength_JArr: "byteLength (JArr xs) = 2 + items_bytes xs"
  by (simp add: byteLength_def length_intercalate_items)

lemma items_bytes_snoc:
  "items_bytes (xs @ [x]) = items_bytes xs + (if xs = [] then 0 else 1) + byteLength x"
  by (induction xs rule: items_bytes.induct) auto

lemma length_intercalate_cong:
  "length a = length b + n \<Longrightarrow>
     length (intercalate '','' (us @ a # vs)) = length (intercalate '','' (us @ b # vs)) + n"
proof (induction us)
  case Nil
  then show ?case by (cases vs) auto
next
  case (Cons u us)
  then show ?case by (cases us) (auto simp: neq_Nil_conv)
qed

text \<open>A request object that carries a list of items under one key, among other fields.\<close>

definition list_body ::
  "(string \<times> json) list \<Rightarrow> string \<Rightarrow> (string \<times> json) list \<Rightarrow> json list \<Rightarrow> json" where
  "list_body before key after chunk = JObj (before @ (key, JArr chunk) # after)"

text \<open>Its size is the size with no items and the bytes of the items: the linear walk is exact.\<close>

lemma byteLength_list_body:
  "byteLength (list_body before key after chunk) =
     byteLength (list_body before key after []) + items_bytes chunk"
  by (simp add: list_body_def byteLength_def)
    (rule length_intercalate_cong, simp add: length_intercalate_items)

end
