(* ===== verification/Js_Map.thy ===== *)
theory Js_Map
  imports Prelude
begin

text \<open>
  A JavaScript \<open>Map\<close> iterates in insertion order, and setting an existing key keeps its place.  The
  model is the list of its entries in that order.  The locale states what the components rely on;
  the association-list model is its interpretation.
\<close>

type_synonym ('k, 'v) js_map = "('k \<times> 'v) list"

definition jm_get :: "('k, 'v) js_map \<Rightarrow> 'k \<Rightarrow> 'v option" where
  "jm_get m k = map_of m k"

definition jm_keys :: "('k, 'v) js_map \<Rightarrow> 'k list" where
  "jm_keys m = map fst m"

fun jm_set :: "'k \<Rightarrow> 'v \<Rightarrow> ('k, 'v) js_map \<Rightarrow> ('k, 'v) js_map" where
  "jm_set k v [] = [(k, v)]"
| "jm_set k v ((k', v') # m) = (if k = k' then (k, v) # m else (k', v') # jm_set k v m)"

definition jm_delete :: "'k \<Rightarrow> ('k, 'v) js_map \<Rightarrow> ('k, 'v) js_map" where
  "jm_delete k m = filter (\<lambda>e. fst e \<noteq> k) m"

text \<open>\<open>for (const [k, v] of m) if (p(k, v)) m.delete(k)\<close>.\<close>

definition jm_delete_if :: "('k \<Rightarrow> 'v \<Rightarrow> bool) \<Rightarrow> ('k, 'v) js_map \<Rightarrow> ('k, 'v) js_map" where
  "jm_delete_if p m = filter (\<lambda>(k, v). \<not> p k v) m"

definition jm_wf :: "('k, 'v) js_map \<Rightarrow> bool" where
  "jm_wf m \<longleftrightarrow> distinct (jm_keys m)"

lemma jm_get_Nil [simp]: "jm_get [] k = None"
  by (simp add: jm_get_def)

lemma jm_get_set [simp]: "jm_get (jm_set k v m) k' = (if k' = k then Some v else jm_get m k')"
  by (induction k v m rule: jm_set.induct) (auto simp: jm_get_def)

lemma jm_get_delete [simp]: "jm_get (jm_delete k m) k' = (if k' = k then None else jm_get m k')"
  by (induction m) (auto simp: jm_get_def jm_delete_def)

lemma jm_keys_set: "jm_keys (jm_set k v m) = (if k \<in> set (jm_keys m) then jm_keys m else jm_keys m @ [k])"
  by (induction k v m rule: jm_set.induct) (auto simp: jm_keys_def)

lemma jm_keys_delete: "jm_keys (jm_delete k m) = filter (\<lambda>x. x \<noteq> k) (jm_keys m)"
  by (induction m) (auto simp: jm_keys_def jm_delete_def)

lemma jm_keys_delete_if_subset: "set (jm_keys (jm_delete_if p m)) \<subseteq> set (jm_keys m)"
  by (auto simp: jm_keys_def jm_delete_if_def)

lemma jm_wf_Nil [simp]: "jm_wf []"
  by (simp add: jm_wf_def jm_keys_def)

lemma jm_wf_set [simp]: "jm_wf m \<Longrightarrow> jm_wf (jm_set k v m)"
  by (auto simp: jm_wf_def jm_keys_set)

lemma jm_wf_delete [simp]: "jm_wf m \<Longrightarrow> jm_wf (jm_delete k m)"
  by (simp add: jm_wf_def jm_keys_delete)

lemma jm_wf_filter: "jm_wf m \<Longrightarrow> jm_wf (filter p m)"
  by (simp add: jm_wf_def jm_keys_def distinct_map_filter)

lemma jm_wf_delete_if [simp]: "jm_wf m \<Longrightarrow> jm_wf (jm_delete_if p m)"
  by (simp add: jm_delete_if_def jm_wf_filter)

lemma jm_wf_drop: "jm_wf m \<Longrightarrow> jm_wf (drop n m)"
  by (simp add: jm_wf_def jm_keys_def drop_map [symmetric])

lemma jm_get_Some_mem: "jm_get m k = Some v \<Longrightarrow> (k, v) \<in> set m"
  by (simp add: jm_get_def map_of_SomeD)

lemma jm_get_wf_iff: "jm_wf m \<Longrightarrow> jm_get m k = Some v \<longleftrightarrow> (k, v) \<in> set m"
  by (simp add: jm_get_def jm_wf_def jm_keys_def map_of_eq_Some_iff)

lemma jm_get_filter:
  "jm_wf m \<Longrightarrow> jm_get (filter p m) k = (case jm_get m k of None \<Rightarrow> None
     | Some v \<Rightarrow> if p (k, v) then Some v else None)"
proof (induction m)
  case (Cons e m)
  obtain k' v where e: "e = (k', v)" by fastforce
  with Cons.prems have wf: "jm_wf m" and new: "k' \<notin> fst ` set m"
    by (auto simp: jm_wf_def jm_keys_def)
  from new have "map_of m k' = None" "map_of (filter p m) k' = None"
    by (auto simp: map_of_eq_None_iff)
  with Cons.IH [OF wf] show ?case by (auto simp: e jm_get_def)
qed simp

lemma jm_get_delete_if:
  "jm_wf m \<Longrightarrow> jm_get (jm_delete_if p m) k = (case jm_get m k of None \<Rightarrow> None
     | Some v \<Rightarrow> if p k v then None else Some v)"
  by (simp add: jm_delete_if_def jm_get_filter split: option.split)

lemma jm_get_None_keys: "jm_get m k = None \<longleftrightarrow> k \<notin> set (jm_keys m)"
  by (auto simp: jm_get_def jm_keys_def map_of_eq_None_iff)

lemma jm_length_set_le: "length (jm_set k v m) \<le> Suc (length m)"
  by (induction k v m rule: jm_set.induct) auto

lemma jm_set_new: "jm_get m k = None \<Longrightarrow> jm_set k v m = m @ [(k, v)]"
  by (induction k v m rule: jm_set.induct) (auto simp: jm_get_def split: if_splits)

lemma jm_length_set_old: "jm_get m k \<noteq> None \<Longrightarrow> length (jm_set k v m) = length m"
  by (induction k v m rule: jm_set.induct) (auto simp: jm_get_def split: if_splits)

section \<open>The interface\<close>

locale finite_map =
  fixes get :: "'m \<Rightarrow> 'k \<Rightarrow> 'v option"
    and put :: "'k \<Rightarrow> 'v \<Rightarrow> 'm \<Rightarrow> 'm"
    and del :: "'k \<Rightarrow> 'm \<Rightarrow> 'm"
    and empty :: 'm
  assumes get_empty: "get empty k = None"
    and get_put: "get (put k v m) k' = (if k' = k then Some v else get m k')"
    and get_del: "get (del k m) k' = (if k' = k then None else get m k')"
begin

lemma get_put_all:
  "get (fold (\<lambda>(k, v). put k v) kvs m) k =
     (case map_of (rev kvs) k of Some v \<Rightarrow> Some v | None \<Rightarrow> get m k)"
proof (induction kvs arbitrary: m)
  case (Cons kv kvs)
  then show ?case
    by (cases kv) (auto simp: get_put map_add_def split: option.splits)
qed simp

lemma get_put_all_distinct:
  assumes "distinct (map fst kvs)"
  shows "get (fold (\<lambda>(k, v). put k v) kvs m) k =
    (case map_of kvs k of Some v \<Rightarrow> Some v | None \<Rightarrow> get m k)"
proof -
  have "map_of (rev kvs) = map_of kvs"
    using assms by (intro map_of_inject_set [THEN iffD2]) (auto simp: rev_map [symmetric])
  then show ?thesis by (simp add: get_put_all)
qed

lemma get_del_all: "get (fold del ks m) k = (if k \<in> set ks then None else get m k)"
  by (induction ks arbitrary: m) (auto simp: get_del)

end

interpretation jmap: finite_map jm_get jm_set jm_delete "[]"
  by unfold_locales auto

end
