(* ===== verification/Js_Num.thy ===== *)
theory Js_Num
  imports Complex_Main Prelude
begin

text \<open>
  A JavaScript number: a finite value (every double is a rational) or one of the three that are not
  finite.  Used where the source checks a number it was handed.
\<close>

datatype jsnum = JsNum rat | JsNaN | JsInfinity | JsNegInfinity

fun js_isFinite :: "jsnum \<Rightarrow> bool" where
  "js_isFinite (JsNum _) = True"
| "js_isFinite _ = False"

fun js_isSafeInteger :: "jsnum \<Rightarrow> bool" where
  "js_isSafeInteger (JsNum q) \<longleftrightarrow> q = of_int \<lfloor>q\<rfloor> \<and> isSafeInteger \<lfloor>q\<rfloor>"
| "js_isSafeInteger _ = False"

text \<open>\<open>a < b\<close>: false when either is \<open>NaN\<close>.\<close>

fun js_less :: "jsnum \<Rightarrow> jsnum \<Rightarrow> bool" where
  "js_less (JsNum a) (JsNum b) = (a < b)"
| "js_less (JsNum _) JsInfinity = True"
| "js_less JsNegInfinity (JsNum _) = True"
| "js_less JsNegInfinity JsInfinity = True"
| "js_less _ _ = False"

definition js_of_int :: "int \<Rightarrow> jsnum" where
  "js_of_int i = JsNum (of_int i)"

fun js_int :: "jsnum \<Rightarrow> int" where
  "js_int (JsNum q) = \<lfloor>q\<rfloor>"
| "js_int _ = 0"

lemma js_isSafeInteger_of_int [simp]: "js_isSafeInteger (js_of_int i) = isSafeInteger i"
  by (simp add: js_of_int_def)

lemma js_int_of_int [simp]: "js_int (js_of_int i) = i"
  by (simp add: js_of_int_def)

lemma js_safe_cases: "js_isSafeInteger v \<Longrightarrow> v = js_of_int (js_int v) \<and> isSafeInteger (js_int v)"
  by (cases v) (auto simp: js_of_int_def)

text \<open>The check both clients make on a whole-number setting: a safe integer in a range.\<close>

definition safe_in_range :: "jsnum \<Rightarrow> int \<Rightarrow> int \<Rightarrow> bool" where
  "safe_in_range v lo hi \<longleftrightarrow>
     js_isSafeInteger v \<and> \<not> js_less v (js_of_int lo) \<and> \<not> js_less (js_of_int hi) v"

lemma safe_in_range_iff:
  "safe_in_range v lo hi \<longleftrightarrow> (\<exists>i. v = js_of_int i \<and> isSafeInteger i \<and> lo \<le> i \<and> i \<le> hi)"
proof
  assume ok: "safe_in_range v lo hi"
  then have v: "v = js_of_int (js_int v)" "isSafeInteger (js_int v)"
    using js_safe_cases [of v] by (auto simp: safe_in_range_def)
  obtain i where i: "v = js_of_int i" "isSafeInteger i" using v by blast
  with ok have "lo \<le> i \<and> i \<le> hi" by (auto simp: safe_in_range_def js_of_int_def not_less)
  with i show "\<exists>i. v = js_of_int i \<and> isSafeInteger i \<and> lo \<le> i \<and> i \<le> hi" by blast
next
  assume "\<exists>i. v = js_of_int i \<and> isSafeInteger i \<and> lo \<le> i \<and> i \<le> hi"
  then obtain i where "v = js_of_int i" "isSafeInteger i" "lo \<le> i" "i \<le> hi" by blast
  then show "safe_in_range v lo hi"
    by (simp add: safe_in_range_def) (simp add: js_of_int_def not_less)
qed

section \<open>\<open>Number(s)\<close>\<close>

definition is_js_space :: "char \<Rightarrow> bool" where
  "is_js_space c \<longleftrightarrow> (of_char c :: nat) \<in> {9, 10, 11, 12, 13, 32}"

definition js_trim :: "string \<Rightarrow> string" where
  "js_trim s = rev (dropWhile is_js_space (rev (dropWhile is_js_space s)))"

definition pow10 :: "int \<Rightarrow> rat" where
  "pow10 e = (if 0 \<le> e then 10 ^ nat e else 1 / 10 ^ nat (- e))"

text \<open>Where a magnitude rounds to \<open>Infinity\<close>.\<close>

definition JS_OVERFLOW :: rat where
  "JS_OVERFLOW = 2 ^ 1024 - 2 ^ 970"

definition js_finite_or_inf :: "rat \<Rightarrow> jsnum" where
  "js_finite_or_inf q = (if q \<ge> JS_OVERFLOW then JsInfinity
     else if q \<le> - JS_OVERFLOW then JsNegInfinity else JsNum q)"

definition js_exponent :: "string \<Rightarrow> int option" where
  "js_exponent s = (case s of
     [] \<Rightarrow> Some 0
   | e # r \<Rightarrow>
       if e \<noteq> CHR ''e'' \<and> e \<noteq> CHR ''E'' then None
       else case r of
         [] \<Rightarrow> None
       | c # ds \<Rightarrow>
           if c = CHR ''-'' then (if ds \<noteq> [] \<and> list_all is_digit ds then Some (- int (nat_of_string ds)) else None)
           else let ds' = (if c = CHR ''+'' then ds else r) in
             if ds' \<noteq> [] \<and> list_all is_digit ds' then Some (int (nat_of_string ds')) else None)"

text \<open>An unsigned decimal literal, exactly; \<open>None\<close> when the text is not one.\<close>

definition js_decimal :: "string \<Rightarrow> rat option" where
  "js_decimal s =
     (let ip = takeWhile is_digit s; r1 = dropWhile is_digit s;
          dot = (r1 \<noteq> [] \<and> hd r1 = CHR ''.'');
          fp = (if dot then takeWhile is_digit (tl r1) else []);
          r2 = (if dot then dropWhile is_digit (tl r1) else r1) in
      if ip = [] \<and> fp = [] then None
      else map_option (\<lambda>e. of_nat (nat_of_string (ip @ fp)) * pow10 (e - int (length fp))) (js_exponent r2))"

definition radix_digit :: "char \<Rightarrow> nat" where
  "radix_digit c = (let n = of_char (lower_char c) :: nat in
     if is_digit c then digit_val c else if 97 \<le> n \<and> n \<le> 122 then n - 87 else 99)"

definition js_radix :: "nat \<Rightarrow> string \<Rightarrow> jsnum" where
  "js_radix b ds = (if ds \<noteq> [] \<and> list_all (\<lambda>c. radix_digit c < b) ds
     then js_finite_or_inf (of_nat (foldl (\<lambda>n c. b * n + radix_digit c) 0 ds)) else JsNaN)"

text \<open>The exact value of the literal (a double is the nearest one to it).\<close>

definition js_Number :: "string \<Rightarrow> jsnum" where
  "js_Number raw =
     (let s = js_trim raw; unsigned = (\<lambda>t. if t = ''Infinity'' then Some JsInfinity
            else map_option js_finite_or_inf (js_decimal t)) in
      if s = [] then JsNum 0
      else if length s \<ge> 2 \<and> take 2 (toLowerCase s) = ''0x'' then js_radix 16 (drop 2 s)
      else if length s \<ge> 2 \<and> take 2 (toLowerCase s) = ''0o'' then js_radix 8 (drop 2 s)
      else if length s \<ge> 2 \<and> take 2 (toLowerCase s) = ''0b'' then js_radix 2 (drop 2 s)
      else if hd s = CHR ''-'' then
        (case unsigned (tl s) of Some (JsNum q) \<Rightarrow> JsNum (- q) | Some JsInfinity \<Rightarrow> JsNegInfinity | _ \<Rightarrow> JsNaN)
      else if hd s = CHR ''+'' then (case unsigned (tl s) of Some v \<Rightarrow> v | None \<Rightarrow> JsNaN)
      else (case unsigned s of Some v \<Rightarrow> v | None \<Rightarrow> JsNaN))"

end
