(* ===== verification/Transport.thy ===== *)
theory Transport
  imports Errors Json Js_Map Js_Num
begin

text \<open>
  What both provider clients share.  \<open>fetch\<close>, the timer and the log are outside the process: they are
  the fields of \<open>net\<close>, functions on the world.  A response body that is JSON is an array of values or
  another value; a zod schema is a function that returns the row or \<open>None\<close> (\<open>safeParse\<close>).
\<close>

datatype http_body = NoBody | TextBody string | BytesBody string

record http_request =
  req_url :: string
  req_method :: string
  req_headers :: "(string, string) js_map"
  req_body :: http_body
  req_timeout :: int
  req_redirect :: "string option"

datatype 'j jvalue = JArray "'j list" | JOther 'j

datatype 'j json_outcome = JsonOk "'j jvalue" | JsonTimeout | JsonInvalid

record 'j http_response =
  res_ok :: bool
  res_status :: nat
  res_header :: "string \<Rightarrow> string option"
  res_json :: "'j json_outcome"
  res_text :: "string option"

datatype 'j fetch_outcome = FetchTimeout | FetchFailed | FetchResponse "'j http_response"

text \<open>A retry event, as the log hook gets it.\<close>

record RetryEvent =
  ev_path :: string
  ev_attempt :: nat
  ev_attempts :: nat
  ev_code :: error_code
  ev_message :: string

record ('s, 'j) net =
  doFetch :: "http_request \<Rightarrow> 's \<Rightarrow> 'j fetch_outcome \<times> 's"
  delayImpl :: "int \<Rightarrow> 's \<Rightarrow> 's"
  onRetry :: "RetryEvent \<Rightarrow> 's \<Rightarrow> 's"

type_synonym ('j, 'a) schema = "'j jvalue \<Rightarrow> 'a option"

definition z_array :: "('j \<Rightarrow> 'row option) \<Rightarrow> ('j, 'row list) schema" where
  "z_array row v = (case v of JArray js \<Rightarrow> those (map row js) | JOther _ \<Rightarrow> None)"

text \<open>
  A row type is the record a zod schema lets through; the structural part of the schema (which zod
  does) is a parameter \<open>dec\<close>, and the refinements the source writes are predicates checked on top of
  it.
\<close>

definition refine :: "('j \<Rightarrow> 'row option) \<Rightarrow> ('row \<Rightarrow> bool) \<Rightarrow> 'j \<Rightarrow> 'row option" where
  "refine dec ok j = (case dec j of None \<Rightarrow> None | Some r \<Rightarrow> if ok r then Some r else None)"

lemma refine_Some: "refine dec ok j = Some r \<longleftrightarrow> dec j = Some r \<and> ok r"
  by (auto simp: refine_def split: option.splits)

definition strip_slashes :: "string \<Rightarrow> string" where
  "strip_slashes s = rev (dropWhile (\<lambda>c. c = CHR ''/'') (rev s))"

lemma strip_slashes_end: "strip_slashes s = [] \<or> last (strip_slashes s) \<noteq> CHR ''/''"
proof -
  let ?d = "dropWhile (\<lambda>c. c = CHR ''/'') (rev s)"
  have "?d \<noteq> [] \<Longrightarrow> hd ?d \<noteq> CHR ''/''" using hd_dropWhile by blast
  then show ?thesis by (auto simp: strip_slashes_def last_rev)
qed

lemma those_map_Some: "those (map f xs) = Some ys \<longleftrightarrow> list_all2 (\<lambda>x y. f x = Some y) xs ys"
proof (induction xs arbitrary: ys)
  case (Cons x xs)
  then show ?case by (cases ys) (auto split: option.split)
qed auto

section \<open>Retrying a read\<close>

text \<open>
  The loop of \<open>read\<close> in both clients: the attempt number counts up from 1, and the loop ends with a
  value, with an error that is not worth another attempt, or at the limit.  \<open>onFail\<close> is what happens
  between two attempts.
\<close>

function retry_loop :: "(thrown \<Rightarrow> bool) \<Rightarrow> nat \<Rightarrow> (nat \<Rightarrow> thrown \<Rightarrow> 's \<Rightarrow> 's) \<Rightarrow>
    ('s, 'a) io_result \<Rightarrow> nat \<Rightarrow> 's \<Rightarrow> 'a result \<times> 's" where
  "retry_loop transient limit onFail load attempt s =
     (case load s of
        (Inr a, s') \<Rightarrow> (Inr a, s')
      | (Inl e, s') \<Rightarrow>
          if attempt \<ge> limit \<or> \<not> transient e then (Inl e, s')
          else retry_loop transient limit onFail load (attempt + 1) (onFail attempt e s'))"
  by pat_completeness auto
termination
  by (relation "measure (\<lambda>(_, limit, _, _, attempt, _). limit - attempt)") auto

declare retry_loop.simps [simp del]

text \<open>The outcomes of the successive calls of \<open>load\<close>.\<close>

function retry_trace :: "(thrown \<Rightarrow> bool) \<Rightarrow> nat \<Rightarrow> (nat \<Rightarrow> thrown \<Rightarrow> 's \<Rightarrow> 's) \<Rightarrow>
    ('s, 'a) io_result \<Rightarrow> nat \<Rightarrow> 's \<Rightarrow> 'a result list" where
  "retry_trace transient limit onFail load attempt s =
     (case load s of
        (Inr a, s') \<Rightarrow> [Inr a]
      | (Inl e, s') \<Rightarrow>
          if attempt \<ge> limit \<or> \<not> transient e then [Inl e]
          else Inl e # retry_trace transient limit onFail load (attempt + 1) (onFail attempt e s'))"
  by pat_completeness auto
termination
  by (relation "measure (\<lambda>(_, limit, _, _, attempt, _). limit - attempt)") auto

declare retry_trace.simps [simp del]

definition retry_outcome :: "(thrown \<Rightarrow> bool) \<Rightarrow> nat \<Rightarrow> 'a result \<Rightarrow> 'a result list \<Rightarrow> bool" where
  "retry_outcome transient limit r tr \<longleftrightarrow>
     tr \<noteq> [] \<and> r = last tr \<and> length tr \<le> limit \<and>
     (\<forall>x \<in> set (butlast tr). \<exists>e. x = Inl e \<and> transient e) \<and>
     (\<forall>e. r = Inl e \<longrightarrow> \<not> transient e \<or> length tr = limit)"

lemma retry_outcome_one:
  "0 < limit \<Longrightarrow> (\<forall>e. r = Inl e \<longrightarrow> \<not> transient e \<or> limit = 1) \<Longrightarrow> retry_outcome transient limit r [r]"
  by (auto simp: retry_outcome_def)

lemma retry_outcome_more:
  "retry_outcome transient limit r tr \<Longrightarrow> transient e \<Longrightarrow>
     retry_outcome transient (Suc limit) r (Inl e # tr)"
  by (auto simp: retry_outcome_def)

lemma retry_loop_outcome:
  assumes "attempt \<le> limit"
  shows "retry_outcome transient (Suc limit - attempt)
    (fst (retry_loop transient limit onFail load attempt s))
    (retry_trace transient limit onFail load attempt s)"
  using assms
proof (induction transient limit onFail load attempt s rule: retry_loop.induct)
  case (1 transient limit onFail load attempt s)
  obtain r s' where load: "load s = (r, s')" by fastforce
  show ?case
  proof (cases "\<exists>e. r = Inl e \<and> attempt < limit \<and> transient e")
    case True
    then obtain e where e: "r = Inl e" "attempt < limit" "transient e" by blast
    with load 1 have "retry_outcome transient (Suc limit - Suc attempt)
        (fst (retry_loop transient limit onFail load (attempt + 1) (onFail attempt e s')))
        (retry_trace transient limit onFail load (attempt + 1) (onFail attempt e s'))"
      by simp
    then have "retry_outcome transient (Suc (Suc limit - Suc attempt))
        (fst (retry_loop transient limit onFail load (attempt + 1) (onFail attempt e s')))
        (Inl e # retry_trace transient limit onFail load (attempt + 1) (onFail attempt e s'))"
      using e(3) by (rule retry_outcome_more)
    moreover have "Suc (Suc limit - Suc attempt) = Suc limit - attempt" using e(2) by simp
    ultimately show ?thesis
      using e load
      by (simp add: retry_loop.simps [of _ _ _ _ attempt s] retry_trace.simps [of _ _ _ _ attempt s])
  next
    case False
    then have "retry_outcome transient (Suc limit - attempt) r [r]"
      using 1(2) by (intro retry_outcome_one) auto
    with False load show ?thesis
      by (cases r)
        (auto simp: retry_loop.simps [of _ _ _ _ attempt s] retry_trace.simps [of _ _ _ _ attempt s])
  qed
qed

text \<open>A predicate every call of \<open>load\<close> and every wait keeps holds at the end.\<close>

lemma retry_loop_invariant:
  assumes "P s" and "\<And>s. P s \<Longrightarrow> P (snd (load s))" and "\<And>n e s. P s \<Longrightarrow> P (onFail n e s)"
  shows "P (snd (retry_loop transient limit onFail load attempt s))"
  using assms
proof (induction transient limit onFail load attempt s rule: retry_loop.induct)
  case (1 transient limit onFail load attempt s)
  obtain r s' where load: "load s = (r, s')" by fastforce
  with 1(3) [OF 1(2)] have P': "P s'" by simp
  show ?case
  proof (cases "\<exists>e. r = Inl e \<and> attempt < limit \<and> transient e")
    case True
    then obtain e where e: "r = Inl e" "attempt < limit" "transient e" by blast
    have "\<not> (limit \<le> attempt \<or> \<not> transient e)" using e by simp
    from 1(1) [OF load [symmetric] e(1) this 1(4) [OF P'] 1(3,4)]
    have "P (snd (retry_loop transient limit onFail load (attempt + 1) (onFail attempt e s')))" by simp
    with e load show ?thesis by (simp add: retry_loop.simps [of _ _ _ _ attempt s])
  next
    case False
    with load P' show ?thesis
      by (cases r) (auto simp: retry_loop.simps [of _ _ _ _ attempt s])
  qed
qed

text \<open>A value returned by the loop was returned by one call of \<open>load\<close>.\<close>

lemma retry_loop_Inr:
  "retry_loop transient limit onFail load attempt s = (Inr a, t) \<Longrightarrow> \<exists>s'. load s' = (Inr a, t)"
proof (induction transient limit onFail load attempt s rule: retry_loop.induct)
  case (1 transient limit onFail load attempt s)
  obtain r s' where load: "load s = (r, s')" by fastforce
  with 1 show ?case
    by (cases r) (auto simp: retry_loop.simps [of _ _ _ _ attempt s] split: if_splits)
qed

text \<open>
  What a client asks of its notion of a transient failure: only upstream's own failures count, and a
  status below 500 (our request is wrong, or upstream asks us to stop) never does.
\<close>

locale retry_policy =
  fixes transient :: "thrown \<Rightarrow> bool"
  assumes transient_upstream: "transient e \<Longrightarrow>
      code_of e \<in> {Some UPSTREAM_ERROR, Some UPSTREAM_TIMEOUT, Some UPSTREAM_MALFORMED}"
    and transient_status: "transient e \<Longrightarrow> upstreamStatus_of e = Some st \<Longrightarrow> 500 \<le> st"
begin

lemma transient_not_fault: "transient e \<Longrightarrow> statusCode_of e = Some st \<Longrightarrow> st \<in> {502, 504}"
  by (cases e) (auto dest: transient_upstream)

lemma client_error_final:
  assumes "load s = (Inl e, s')" and "upstreamStatus_of e = Some st" and "st < 500"
  shows "retry_loop transient limit onFail load attempt s = (Inl e, s')"
proof -
  have "\<not> transient e" using transient_status [of e st] assms(2,3) by auto
  with assms(1) show ?thesis by (simp add: retry_loop.simps [of _ _ _ _ attempt s])
qed

lemma retry_bounded:
  "1 \<le> limit \<Longrightarrow> length (retry_trace transient limit onFail load 1 s) \<le> limit"
  using retry_loop_outcome [of 1 limit transient onFail load s] by (simp add: retry_outcome_def)

end

section \<open>Watching the requests\<close>

text \<open>A network that also records the requests it is asked to send.\<close>

definition logged :: "('s, 'j) net \<Rightarrow> ('s \<times> http_request list, 'j) net" where
  "logged n = \<lparr>
     doFetch = (\<lambda>req (s, l). (case doFetch n req s of (r, s') \<Rightarrow> (r, (s', l @ [req])))),
     delayImpl = (\<lambda>ms (s, l). (delayImpl n ms s, l)),
     onRetry = (\<lambda>ev (s, l). (onRetry n ev s, l))\<rparr>"

lemma doFetch_logged: "doFetch (logged n) req sl =
    (fst (doFetch n req (fst sl)), (snd (doFetch n req (fst sl)), snd sl @ [req]))"
  by (cases sl) (simp add: logged_def split: prod.split)

lemma delayImpl_logged [simp]: "delayImpl (logged n) ms sl = (delayImpl n ms (fst sl), snd sl)"
  by (cases sl) (simp add: logged_def)

lemma onRetry_logged [simp]: "onRetry (logged n) ev sl = (onRetry n ev (fst sl), snd sl)"
  by (cases sl) (simp add: logged_def)

text \<open>\<open>Buffer.from(hex, 'hex')\<close> on a string of whole bytes.\<close>

definition hex_val :: "char \<Rightarrow> nat" where
  "hex_val c = (let n = of_char (lower_char c) :: nat in if n \<ge> 97 then n - 87 else n - 48)"

fun hex_bytes :: "string \<Rightarrow> string" where
  "hex_bytes (a # b # r) = char_of (16 * hex_val a + hex_val b) # hex_bytes r"
| "hex_bytes _ = []"

text \<open>\<open>path.includes(x)\<close>.\<close>

fun str_includes :: "string \<Rightarrow> string \<Rightarrow> bool" where
  "str_includes [] x \<longleftrightarrow> x = []"
| "str_includes (c # cs) x \<longleftrightarrow> take (length x) (c # cs) = x \<or> str_includes cs x"

text \<open>The \<open>application/x-www-form-urlencoded\<close> form of a string, as \<open>URLSearchParams\<close> writes it.\<close>

definition form_safe :: "char \<Rightarrow> bool" where
  "form_safe c \<longleftrightarrow>
     c \<in> set ''ABCDEFGHIJKLMNOPQRSTUVWXYZabcdefghijklmnopqrstuvwxyz0123456789*-._''"

definition upper_hex :: "nat \<Rightarrow> char" where
  "upper_hex d = (if d < 10 then digit_char d else char_of (55 + d))"

definition form_encode :: "string \<Rightarrow> string" where
  "form_encode s = concat (map (\<lambda>c.
     if form_safe c then [c]
     else if c = CHR '' '' then ''+''
     else let n = of_char c :: nat in [CHR ''%'', upper_hex (n div 16), upper_hex (n mod 16)]) s)"

fun form_pairs :: "(string \<times> string) list \<Rightarrow> string" where
  "form_pairs kvs = intercalate ''&'' (map (\<lambda>(k, v). form_encode k @ ''='' @ form_encode v) kvs)"

lemma form_encode_safe: "list_all form_safe s \<Longrightarrow> form_encode s = s"
  by (induction s) (auto simp: form_encode_def)

lemma is_digit_form_safe: "is_digit c \<Longrightarrow> form_safe c"
  by (auto simp: is_digit_def form_safe_def)

lemma form_encode_nat [simp]: "form_encode (string_of_nat n) = string_of_nat n"
  using string_of_nat_digits [of n]
  by (intro form_encode_safe) (auto simp: list_all_iff is_digit_form_safe)

text \<open>\<open>a < b\<close> on strings: by the first code unit that differs.\<close>

fun js_string_less :: "string \<Rightarrow> string \<Rightarrow> bool" where
  "js_string_less [] b \<longleftrightarrow> b \<noteq> []"
| "js_string_less (x # xs) [] \<longleftrightarrow> False"
| "js_string_less (x # xs) (y # ys) \<longleftrightarrow>
     (of_char x :: nat) < of_char y \<or> x = y \<and> js_string_less xs ys"

end
