(* ===== verification/Blockfrost_Client.thy ===== *)
theory Blockfrost_Client
  imports Transport
begin

text \<open>
  \<^verbatim>\<open>src/providers/blockfrost/client.ts\<close>: the same shape as the Koios client, with a rate limiter in
  front of every request, a bounded retry of a 429 that honours \<open>Retry-After\<close>, and reads for which a
  404 is an answer.  \<open>await limiter.acquire()\<close>, the clock and \<open>Date.parse\<close> (whose formats are the
  engine's) are fields of the network; the limiter itself is the theory \<open>Token_Bucket\<close>.
\<close>

section \<open>Settings\<close>

definition BF_READ_ATTEMPTS :: int where "BF_READ_ATTEMPTS = 3"
definition BF_BACKOFF_MS :: int where "BF_BACKOFF_MS = 150"
definition BF_TIMEOUT_MS :: int where "BF_TIMEOUT_MS = 10000"
definition BF_REQUESTS_PER_SECOND :: int where "BF_REQUESTS_PER_SECOND = 10"
definition BF_BURST_SIZE :: int where "BF_BURST_SIZE = 500"
definition BF_RATE_LIMIT_RETRIES :: int where "BF_RATE_LIMIT_RETRIES = 3"
definition MAX_RETRY_AFTER_MS :: int where "MAX_RETRY_AFTER_MS = 30000"
definition BF_MAX_TIMER_MS :: int where "BF_MAX_TIMER_MS = 2147483647"
definition MAX_RETRIES :: int where "MAX_RETRIES = 100"
definition MAX_BURST :: int where "MAX_BURST = 100000"
definition MIN_REQUESTS_PER_SECOND :: rat where "MIN_REQUESTS_PER_SECOND = 1 / 1000"
definition MAX_REQUESTS_PER_SECOND :: rat where "MAX_REQUESTS_PER_SECOND = 1000000"

datatype NumericBound = BoundCount int int | BoundDuration int | BoundRate

record BlockfrostConfig =
  bcfg_baseUrl :: string
  bcfg_projectId :: string
  bcfg_timeoutMs :: "jsnum option"
  bcfg_readAttempts :: "jsnum option"
  bcfg_retryBackoffMs :: "jsnum option"
  bcfg_requestsPerSecond :: "jsnum option"
  bcfg_burstSize :: "jsnum option"
  bcfg_rateLimitRetries :: "jsnum option"

record bf_client =
  bc_baseUrl :: string
  bc_projectId :: string
  bc_timeoutMs :: int
  bc_readAttempts :: nat
  bc_backoffMs :: int
  bc_rateLimitRetries :: nat
  bc_requestsPerSecond :: rat
  bc_burstSize :: nat

text \<open>\<open>show_num\<close> is \<open>String\<close> on numbers, only used in the message.\<close>

definition checkNumber :: "(jsnum \<Rightarrow> string) \<Rightarrow> jsnum option \<Rightarrow> jsnum \<Rightarrow> string \<Rightarrow> NumericBound \<Rightarrow> jsnum result" where
  "checkNumber show_num value fallback name bound =
     (case value of
        None \<Rightarrow> Inr fallback
      | Some v \<Rightarrow>
         let reject = (\<lambda>expected. Inl (ConfigError (''blockfrost '' @ name @ '' must be '' @ expected @
               '', got '' @ show_num v))) in
         case bound of
           BoundCount lo hi \<Rightarrow>
             if \<not> js_isSafeInteger v \<or> js_less v (js_of_int lo) \<or> js_less (js_of_int hi) v
             then reject (''a safe integer in ['' @ string_of_int lo @ '', '' @ string_of_int hi @ '']'')
             else Inr v
         | BoundDuration lo \<Rightarrow>
             if \<not> js_isSafeInteger v \<or> js_less v (js_of_int lo) \<or> js_less (js_of_int BF_MAX_TIMER_MS) v
             then reject (''a safe integer number of ms in ['' @ string_of_int lo @ '', 2147483647]'')
             else Inr v
         | BoundRate \<Rightarrow>
             if \<not> js_isFinite v \<or> js_less v (JsNum MIN_REQUESTS_PER_SECOND) \<or>
                js_less (JsNum MAX_REQUESTS_PER_SECOND) v
             then reject ''a finite rate in [0.001, 1000000] req/s''
             else Inr v)"

fun js_rat :: "jsnum \<Rightarrow> rat" where
  "js_rat (JsNum q) = q"
| "js_rat _ = 0"

definition createBlockfrostClient :: "(jsnum \<Rightarrow> string) \<Rightarrow> BlockfrostConfig \<Rightarrow> bf_client result" where
  "createBlockfrostClient show_num config =
     bindE (checkNumber show_num (bcfg_timeoutMs config) (js_of_int BF_TIMEOUT_MS) ''timeoutMs''
       (BoundDuration 1)) (\<lambda>timeout.
     bindE (checkNumber show_num (bcfg_readAttempts config) (js_of_int BF_READ_ATTEMPTS) ''readAttempts''
       (BoundCount 1 MAX_RETRIES)) (\<lambda>attempts.
     bindE (checkNumber show_num (bcfg_retryBackoffMs config) (js_of_int BF_BACKOFF_MS) ''retryBackoffMs''
       (BoundDuration 0)) (\<lambda>backoff.
     bindE (checkNumber show_num (bcfg_rateLimitRetries config) (js_of_int BF_RATE_LIMIT_RETRIES)
       ''rateLimitRetries'' (BoundCount 0 MAX_RETRIES)) (\<lambda>retries.
     bindE (checkNumber show_num (bcfg_requestsPerSecond config) (js_of_int BF_REQUESTS_PER_SECOND)
       ''requestsPerSecond'' BoundRate) (\<lambda>rps.
     bindE (checkNumber show_num (bcfg_burstSize config) (js_of_int BF_BURST_SIZE) ''burstSize''
       (BoundCount 1 MAX_BURST)) (\<lambda>burst.
     Inr \<lparr>bc_baseUrl = strip_slashes (bcfg_baseUrl config), bc_projectId = bcfg_projectId config,
          bc_timeoutMs = js_int timeout, bc_readAttempts = nat (js_int attempts),
          bc_backoffMs = js_int backoff, bc_rateLimitRetries = nat (js_int retries),
          bc_requestsPerSecond = js_rat rps, bc_burstSize = nat (js_int burst)\<rparr>))))))"

section \<open>One request\<close>

record ('s, 'j) bf_net = "('s, 'j) net" +
  limiterAcquire :: "'s \<Rightarrow> 's"
  clockNow :: "'s \<Rightarrow> rat"
  dateParse :: "string \<Rightarrow> jsnum"

record bf_init =
  bi_method :: string
  bi_body :: http_body
  bi_contentType :: "string option"

definition bf_get_init :: bf_init where
  "bf_get_init = \<lparr>bi_method = ''GET'', bi_body = NoBody, bi_contentType = None\<rparr>"

definition bf_http_request :: "bf_client \<Rightarrow> string \<Rightarrow> bf_init \<Rightarrow> http_request" where
  "bf_http_request c path i =
     (let h = [(''accept'', ''application/json''), (''project_id'', bc_projectId c)] in
      \<lparr>req_url = bc_baseUrl c @ path, req_method = bi_method i,
       req_headers = (case bi_contentType i of
          None \<Rightarrow> h | Some ct \<Rightarrow> if ct = [] then h else jm_set ''content-type'' ct h),
       req_body = bi_body i, req_timeout = bc_timeoutMs c, req_redirect = Some ''error''\<rparr>)"

definition retryAfterMs :: "('s, 'j) bf_net \<Rightarrow> 'j http_response \<Rightarrow> 's \<Rightarrow> int option" where
  "retryAfterMs n res s = (case res_header res ''retry-after'' of
     None \<Rightarrow> None
   | Some raw \<Rightarrow>
       if raw = [] then None
       else case js_Number raw of
         JsNum seconds \<Rightarrow> Some (max 0 \<lfloor>seconds * 1000\<rfloor>)
       | _ \<Rightarrow> (case dateParse n raw of
             JsNum d \<Rightarrow> Some (max 0 \<lfloor>d - clockNow n s\<rfloor>)
           | _ \<Rightarrow> None))"

definition fetchOnce :: "bf_client \<Rightarrow> ('s, 'j) bf_net \<Rightarrow> string \<Rightarrow> bf_init \<Rightarrow> ('s, 'j http_response) io_result" where
  "fetchOnce c n path i s =
     (case doFetch n (bf_http_request c path i) (limiterAcquire n s) of
        (FetchTimeout, s') \<Rightarrow> (Inl (ProviderTimeoutError (''blockfrost request timed out: '' @ path)), s')
      | (FetchFailed, s') \<Rightarrow> (Inl (ProviderError (''blockfrost request failed: '' @ path) None None), s')
      | (FetchResponse res, s') \<Rightarrow> (Inr res, s'))"

text \<open>The wait before a 429 is tried again.\<close>

definition wait_429 :: "bf_client \<Rightarrow> int option \<Rightarrow> nat \<Rightarrow> int" where
  "wait_429 c serverDelay attempt = (case serverDelay of
     Some d \<Rightarrow> d | None \<Rightarrow> min (bc_backoffMs c * int (attempt + 1)) MAX_RETRY_AFTER_MS)"

definition event_429 :: "bf_client \<Rightarrow> string \<Rightarrow> nat \<Rightarrow> RetryEvent" where
  "event_429 c path attempt = \<lparr>ev_path = path, ev_attempt = attempt + 1,
     ev_attempts = bc_rateLimitRetries c + 1, ev_code = UPSTREAM_ERROR,
     ev_message = ''blockfrost returned 429 for '' @ path\<rparr>"

function bf_request_loop :: "bf_client \<Rightarrow> ('s, 'j) bf_net \<Rightarrow> string \<Rightarrow> bf_init \<Rightarrow> bool \<Rightarrow> nat \<Rightarrow>
    ('s, 'j http_response) io_result" where
  "bf_request_loop c n path i retryOn429 attempt s =
     (case fetchOnce c n path i s of
        (Inl e, s') \<Rightarrow> (Inl e, s')
      | (Inr res, s') \<Rightarrow>
          if res_status res \<noteq> 429 \<or> \<not> retryOn429 \<or> attempt \<ge> bc_rateLimitRetries c then (Inr res, s')
          else
            let serverDelay = retryAfterMs n res s' in
            if serverDelay \<noteq> None \<and> the serverDelay > MAX_RETRY_AFTER_MS then (Inr res, s')
            else bf_request_loop c n path i retryOn429 (attempt + 1)
              (delayImpl n (wait_429 c serverDelay attempt) (onRetry n (event_429 c path attempt) s')))"
  by pat_completeness auto
termination
  by (relation "measure (\<lambda>(c, _, _, _, _, attempt, _). bc_rateLimitRetries c - attempt)") auto

declare bf_request_loop.simps [simp del]

definition bf_request :: "bf_client \<Rightarrow> ('s, 'j) bf_net \<Rightarrow> string \<Rightarrow> bf_init \<Rightarrow> bool \<Rightarrow>
    ('s, 'j http_response) io_result" where
  "bf_request c n path i retryOn429 = bf_request_loop c n path i retryOn429 0"

definition readBody :: "'j http_response \<Rightarrow> string \<Rightarrow> 'j jvalue result" where
  "readBody res path = (case res_json res of
     JsonOk d \<Rightarrow> Inr d
   | JsonTimeout \<Rightarrow> Inl (ProviderTimeoutError (''blockfrost response timed out: '' @ path))
   | JsonInvalid \<Rightarrow> Inl (MalformedUpstreamError (''blockfrost returned invalid json for '' @ path)))"

definition bf_parse :: "('j, 'a) schema \<Rightarrow> 'j jvalue \<Rightarrow> string \<Rightarrow> 'a result" where
  "bf_parse sch d path = (case sch d of
     None \<Rightarrow> Inl (MalformedUpstreamError (''blockfrost response shape mismatch for '' @ path))
   | Some a \<Rightarrow> Inr a)"

definition bf_failure :: "'j http_response \<Rightarrow> string \<Rightarrow> 'a result" where
  "bf_failure res path =
     Inl (ProviderError (''blockfrost returned '' @ string_of_nat (res_status res) @ '' for '' @ path)
       (Some (res_status res)) (Some (take 500 (case res_text res of None \<Rightarrow> [] | Some t \<Rightarrow> t))))"

section \<open>Reads and the write\<close>

fun bf_isTransient :: "thrown \<Rightarrow> bool" where
  "bf_isTransient (ProviderTimeoutError _) = True"
| "bf_isTransient (MalformedUpstreamError _) = True"
| "bf_isTransient (ProviderError _ st _) = (case st of None \<Rightarrow> True | Some s \<Rightarrow> s \<ge> 500)"
| "bf_isTransient CreationBlockRolledBackError = True"
| "bf_isTransient _ = False"

interpretation bf_retry: retry_policy bf_isTransient
proof unfold_locales
  fix e and st :: nat
  assume "bf_isTransient e"
  then show "code_of e \<in> {Some UPSTREAM_ERROR, Some UPSTREAM_TIMEOUT, Some UPSTREAM_MALFORMED}"
    by (cases e) auto
  assume "upstreamStatus_of e = Some st"
  with \<open>bf_isTransient e\<close> show "500 \<le> st" by (cases e) auto
qed

definition bf_onFail :: "bf_client \<Rightarrow> ('s, 'j) bf_net \<Rightarrow> string \<Rightarrow> nat \<Rightarrow> thrown \<Rightarrow> 's \<Rightarrow> 's" where
  "bf_onFail c n path attempt e s =
     delayImpl n (bc_backoffMs c * int attempt)
       (onRetry n \<lparr>ev_path = path, ev_attempt = attempt, ev_attempts = bc_readAttempts c,
          ev_code = (case code_of e of None \<Rightarrow> INTERNAL | Some k \<Rightarrow> k), ev_message = message_of e\<rparr> s)"

definition bf_read :: "bf_client \<Rightarrow> ('s, 'j) bf_net \<Rightarrow> string \<Rightarrow> ('s, 'a) io_result \<Rightarrow> ('s, 'a) io_result" where
  "bf_read c n path load = retry_loop bf_isTransient (bc_readAttempts c) (bf_onFail c n path) load 1"

definition bf_answer :: "('j, 'a) schema \<Rightarrow> string \<Rightarrow> 'j http_response \<Rightarrow> 'a result" where
  "bf_answer sch path res =
     (if \<not> res_ok res then bf_failure res path
      else bindE (readBody res path) (\<lambda>d. bf_parse sch d path))"

definition bf_get :: "bf_client \<Rightarrow> ('s, 'j) bf_net \<Rightarrow> ('j, 'a) schema \<Rightarrow> string \<Rightarrow> ('s, 'a) io_result" where
  "bf_get c n sch path =
     bf_read c n path (bindIO (bf_request c n path bf_get_init True) (\<lambda>res. liftE (bf_answer sch path res)))"

definition bf_getOrUndefined :: "bf_client \<Rightarrow> ('s, 'j) bf_net \<Rightarrow> ('j, 'a) schema \<Rightarrow> string \<Rightarrow>
    ('s, 'a option) io_result" where
  "bf_getOrUndefined c n sch path =
     bf_read c n path (bindIO (bf_request c n path bf_get_init True) (\<lambda>res. liftE (
       if res_status res = 404 then Inr None
       else bindE (bf_answer sch path res) (\<lambda>a. Inr (Some a)))))"

definition bf_submit :: "bf_client \<Rightarrow> ('s, 'j) bf_net \<Rightarrow> ('j, 'a) schema \<Rightarrow> string \<Rightarrow> string \<Rightarrow> string \<Rightarrow>
    ('s, 'a) io_result" where
  "bf_submit c n sch path bytes ct =
     bindIO (bf_request c n path \<lparr>bi_method = ''POST'', bi_body = BytesBody bytes, bi_contentType = Some ct\<rparr> False)
       (\<lambda>res. liftE (bf_answer sch path res))"

section \<open>What goes on the wire\<close>

datatype wire = Acquire | Send http_request | Wait int

text \<open>A network that records what is done with it.\<close>

definition traced :: "('s, 'j) bf_net \<Rightarrow> ('s \<times> wire list, 'j) bf_net" where
  "traced n = \<lparr>
     doFetch = (\<lambda>req (s, l). (case doFetch n req s of (r, s') \<Rightarrow> (r, (s', l @ [Send req])))),
     delayImpl = (\<lambda>ms (s, l). (delayImpl n ms s, l @ [Wait ms])),
     onRetry = (\<lambda>ev (s, l). (onRetry n ev s, l)),
     limiterAcquire = (\<lambda>(s, l). (limiterAcquire n s, l @ [Acquire])),
     clockNow = (\<lambda>(s, l). clockNow n s), dateParse = dateParse n\<rparr>"

lemma fetchOnce_traced:
  "snd (snd (fetchOnce c (traced n) path i sl)) = snd sl @ [Acquire, Send (bf_http_request c path i)]"
  by (cases sl) (simp add: fetchOnce_def traced_def split: prod.split fetch_outcome.split)

lemma delay_onRetry_traced:
  "snd (delayImpl (traced n) ms (onRetry (traced n) ev sl)) = snd sl @ [Wait ms]"
  by (cases sl) (simp add: traced_def)

text \<open>One call of \<open>request\<close>: sends, each after a token, and waits between them.\<close>

definition request_trace :: "http_request \<Rightarrow> int list \<Rightarrow> wire list" where
  "request_trace r ws = concat (map (\<lambda>w. [Acquire, Send r, Wait w]) ws) @ [Acquire, Send r]"

lemma retryAfterMs_nonneg: "retryAfterMs n res s = Some d \<Longrightarrow> 0 \<le> d"
  by (auto simp: retryAfterMs_def split: option.splits if_splits jsnum.splits)

lemma bf_request_loop_trace:
  assumes "0 \<le> bc_backoffMs c"
  shows "\<exists>ws. length ws \<le> (if retryOn429 then bc_rateLimitRetries c - attempt else 0) \<and>
    (\<forall>w \<in> set ws. 0 \<le> w \<and> w \<le> MAX_RETRY_AFTER_MS) \<and>
    snd (snd (bf_request_loop c (traced n) path i retryOn429 attempt s)) =
      snd s @ request_trace (bf_http_request c path i) ws"
proof (induction "bc_rateLimitRetries c - attempt" arbitrary: attempt s)
  case 0
  obtain r s' where f: "fetchOnce c (traced n) path i s = (r, s')" by (meson surj_pair)
  show ?case
    by (rule exI [of _ "[]"])
      (use f 0 fetchOnce_traced [of c n path i s] in
        \<open>cases r; simp add: bf_request_loop.simps [of _ _ _ _ _ attempt] request_trace_def\<close>)
next
  case (Suc d)
  obtain r s' where f: "fetchOnce c (traced n) path i s = (r, s')" by (meson surj_pair)
  then have tr: "snd s' = snd s @ [Acquire, Send (bf_http_request c path i)]"
    using fetchOnce_traced [of c n path i s] by simp
  show ?case
  proof (cases "\<exists>res. r = Inr res \<and> res_status res = 429 \<and> retryOn429 \<and>
      \<not> (retryAfterMs (traced n) res s' \<noteq> None \<and> the (retryAfterMs (traced n) res s') > MAX_RETRY_AFTER_MS)")
    case True
    then obtain res where res: "r = Inr res" "res_status res = 429" "retryOn429"
      "\<not> (retryAfterMs (traced n) res s' \<noteq> None \<and> the (retryAfterMs (traced n) res s') > MAX_RETRY_AFTER_MS)"
      by blast
    let ?w = "wait_429 c (retryAfterMs (traced n) res s') attempt"
    let ?s = "delayImpl (traced n) ?w (onRetry (traced n) (event_429 c path attempt) s')"
    have w: "0 \<le> ?w" "?w \<le> MAX_RETRY_AFTER_MS"
      using res(4) retryAfterMs_nonneg [of "traced n" res s'] assms
      by (auto simp: wait_429_def MAX_RETRY_AFTER_MS_def split: option.split)
    have d: "d = bc_rateLimitRetries c - Suc attempt" using Suc.hyps(2) by auto
    obtain ws where ws: "length ws \<le> bc_rateLimitRetries c - Suc attempt"
      "\<forall>w \<in> set ws. 0 \<le> w \<and> w \<le> MAX_RETRY_AFTER_MS"
      "snd (snd (bf_request_loop c (traced n) path i retryOn429 (Suc attempt) ?s)) =
        snd ?s @ request_trace (bf_http_request c path i) ws"
      using Suc.hyps(1) [OF d, of ?s] res(3) by auto
    have "\<not> bc_rateLimitRetries c \<le> attempt" using Suc.hyps(2) by simp
    then have "bf_request_loop c (traced n) path i retryOn429 attempt s =
        bf_request_loop c (traced n) path i retryOn429 (Suc attempt) ?s"
      using f res by (auto simp: bf_request_loop.simps [of _ _ _ _ _ attempt] Let_def)
    then show ?thesis
      using ws w tr res(3) Suc.hyps(2)
      by (intro exI [of _ "?w # ws"]) (simp add: delay_onRetry_traced request_trace_def)
  next
    case False
    then have "snd (bf_request_loop c (traced n) path i retryOn429 attempt s) = s'"
      using f by (cases r) (auto simp: bf_request_loop.simps [of _ _ _ _ _ attempt] Let_def)
    with tr show ?thesis by (intro exI [of _ "[]"]) (simp add: request_trace_def)
  qed
qed


lemma bindIO_liftE_snd: "snd (bindIO m (\<lambda>x. liftE (f x)) s) = snd (m s)"
  by (simp add: bindIO_def liftE_def split: prod.split sum.split)

text \<open>The sends of a read: each attempt is one call of \<open>request\<close>.\<close>

definition sends :: "wire list \<Rightarrow> http_request list" where
  "sends tr = List.map_filter (\<lambda>e. case e of Send r \<Rightarrow> Some r | _ \<Rightarrow> None) tr"

lemma sends_append [simp]: "sends (a @ b) = sends a @ sends b"
  by (simp add: sends_def map_filter_def)

lemma sends_simps [simp]: "sends [] = []" "sends (Send r # t) = r # sends t"
    "sends (Wait w # t) = sends t" "sends (Acquire # t) = sends t"
  by (simp_all add: sends_def map_filter_def)

lemma sends_request_trace: "sends (request_trace r ws) = replicate (Suc (length ws)) r"
  by (induction ws) (simp_all add: request_trace_def)

lemma bf_onFail_sends: "sends (snd (bf_onFail c (traced n) path k e s)) = sends (snd s)"
  by (cases s) (simp add: bf_onFail_def traced_def)

lemma bf_read_sends:
  assumes "\<And>s. \<exists>m. 1 \<le> m \<and> m \<le> k \<and> sends (snd (snd (load s))) = sends (snd s) @ replicate m r"
    and "1 \<le> bc_readAttempts c"
  shows "\<exists>m. 1 \<le> m \<and> m \<le> bc_readAttempts c * k \<and>
    sends (snd (snd (bf_read c (traced n) path load s))) = sends (snd s) @ replicate m r"
proof -
  have "\<exists>m. 1 \<le> m \<and> m \<le> (Suc limit - attempt) * k \<and>
      sends (snd (snd (retry_loop bf_isTransient limit (bf_onFail c (traced n) path) load attempt s))) =
      sends (snd s) @ replicate m r" if "attempt \<le> limit" for attempt limit s
    using that
  proof (induction "limit - attempt" arbitrary: attempt s)
    case 0
    obtain q s' where l: "load s = (q, s')" by (meson surj_pair)
    with assms(1) [of s] 0 show ?case
      by (cases q) (simp_all add: retry_loop.simps [of _ _ _ _ attempt])
  next
    case (Suc d)
    obtain q s' where l: "load s = (q, s')" by (meson surj_pair)
    obtain m where m: "1 \<le> m" "m \<le> k" "sends (snd s') = sends (snd s) @ replicate m r"
      using assms(1) [of s] l by auto
    show ?case
    proof (cases "\<exists>e. q = Inl e \<and> bf_isTransient e")
      case True
      then obtain e where e: "q = Inl e" "bf_isTransient e" by blast
      let ?s = "bf_onFail c (traced n) path attempt e s'"
      have d: "d = limit - Suc attempt" "Suc attempt \<le> limit" using Suc.hyps(2) by auto
      obtain m' where m': "1 \<le> m'" "m' \<le> (Suc limit - Suc attempt) * k"
        "sends (snd (snd (retry_loop bf_isTransient limit (bf_onFail c (traced n) path) load
           (Suc attempt) ?s))) = sends (snd ?s) @ replicate m' r"
        using Suc.hyps(1) [OF d, of ?s] by blast
      have "m + m' \<le> (Suc limit - attempt) * k"
      proof -
        have "Suc limit - attempt = Suc (Suc limit - Suc attempt)" using d by simp
        then show ?thesis using m(2) m'(2) by simp
      qed
      then show ?thesis
        using l e m m' Suc.hyps(2)
        by (intro exI [of _ "m + m'"])
          (simp add: retry_loop.simps [of _ _ _ _ attempt] bf_onFail_sends replicate_add)
    next
      case False
      then have "snd (retry_loop bf_isTransient limit (bf_onFail c (traced n) path) load attempt s) = s'"
        using l by (cases q) (auto simp: retry_loop.simps [of _ _ _ _ attempt])
      moreover have "k \<le> (Suc limit - attempt) * k"
      proof -
        have "1 \<le> Suc limit - attempt" using Suc.prems by linarith
        from mult_le_mono1 [OF this, of k] show ?thesis by simp
      qed
      with m(2) have "m \<le> (Suc limit - attempt) * k" by (rule order_trans)
      ultimately show ?thesis using m by (intro exI [of _ m]) simp
    qed
  qed
  from this [of 1 "bc_readAttempts c" s] assms(2) show ?thesis by (simp add: bf_read_def)
qed

lemma checkNumber_Inr:
  "checkNumber sh v d name b = Inr x \<Longrightarrow> v = None \<and> x = d \<or> v = Some x \<and>
     (case b of BoundCount lo hi \<Rightarrow> safe_in_range x lo hi | BoundDuration lo \<Rightarrow> safe_in_range x lo 2147483647
      | BoundRate \<Rightarrow> \<exists>q. x = JsNum q \<and> 1 / 1000 \<le> q \<and> q \<le> 1000000)"
  by (cases x) (auto simp: checkNumber_def safe_in_range_def BF_MAX_TIMER_MS_def MIN_REQUESTS_PER_SECOND_def
      MAX_REQUESTS_PER_SECOND_def Let_def not_less split: option.splits NumericBound.splits if_splits)

lemma checkNumber_count:
  "checkNumber sh v (js_of_int d) name (BoundCount lo hi) = Inr x \<Longrightarrow> lo \<le> d \<Longrightarrow> d \<le> hi \<Longrightarrow>
     lo \<le> js_int x \<and> js_int x \<le> hi"
  by (drule checkNumber_Inr) (auto simp: safe_in_range_iff)

lemma checkNumber_duration:
  "checkNumber sh v (js_of_int d) name (BoundDuration lo) = Inr x \<Longrightarrow> lo \<le> d \<Longrightarrow> d \<le> 2147483647 \<Longrightarrow>
     lo \<le> js_int x \<and> js_int x \<le> 2147483647"
  by (drule checkNumber_Inr) (auto simp: safe_in_range_iff)

lemma checkNumber_rate:
  "checkNumber sh v (js_of_int 10) name BoundRate = Inr x \<Longrightarrow> 1 / 1000 \<le> js_rat x \<and> js_rat x \<le> 1000000"
  by (drule checkNumber_Inr) (auto simp: js_of_int_def)

lemma createBlockfrostClient_bounds:
  assumes "createBlockfrostClient sh config = Inr c"
  shows "1 \<le> bc_timeoutMs c \<and> bc_timeoutMs c \<le> 2147483647" "1 \<le> bc_readAttempts c \<and> bc_readAttempts c \<le> 100"
    "0 \<le> bc_backoffMs c \<and> bc_backoffMs c \<le> 2147483647" "bc_rateLimitRetries c \<le> 100"
    "1 / 1000 \<le> bc_requestsPerSecond c \<and> bc_requestsPerSecond c \<le> 1000000"
    "1 \<le> bc_burstSize c \<and> bc_burstSize c \<le> 100000"
proof -
  obtain a b d e f g where knobs:
    "checkNumber sh (bcfg_timeoutMs config) (js_of_int 10000) ''timeoutMs'' (BoundDuration 1) = Inr a"
    "checkNumber sh (bcfg_readAttempts config) (js_of_int 3) ''readAttempts'' (BoundCount 1 100) = Inr b"
    "checkNumber sh (bcfg_retryBackoffMs config) (js_of_int 150) ''retryBackoffMs'' (BoundDuration 0) = Inr d"
    "checkNumber sh (bcfg_rateLimitRetries config) (js_of_int 3) ''rateLimitRetries'' (BoundCount 0 100) = Inr e"
    "checkNumber sh (bcfg_requestsPerSecond config) (js_of_int 10) ''requestsPerSecond'' BoundRate = Inr f"
    "checkNumber sh (bcfg_burstSize config) (js_of_int 500) ''burstSize'' (BoundCount 1 100000) = Inr g"
    and c: "bc_timeoutMs c = js_int a" "bc_readAttempts c = nat (js_int b)" "bc_backoffMs c = js_int d"
    "bc_rateLimitRetries c = nat (js_int e)" "bc_requestsPerSecond c = js_rat f" "bc_burstSize c = nat (js_int g)"
    using assms
    by (auto simp: createBlockfrostClient_def bindE_Inr_conv BF_TIMEOUT_MS_def BF_READ_ATTEMPTS_def
        BF_BACKOFF_MS_def BF_RATE_LIMIT_RETRIES_def BF_REQUESTS_PER_SECOND_def BF_BURST_SIZE_def
        MAX_RETRIES_def MAX_BURST_def)
  show "1 \<le> bc_timeoutMs c \<and> bc_timeoutMs c \<le> 2147483647" using checkNumber_duration [OF knobs(1)] c by simp
  show "1 \<le> bc_readAttempts c \<and> bc_readAttempts c \<le> 100"
    using checkNumber_count [OF knobs(2)] unfolding c by linarith
  show "0 \<le> bc_backoffMs c \<and> bc_backoffMs c \<le> 2147483647" using checkNumber_duration [OF knobs(3)] c by simp
  show "bc_rateLimitRetries c \<le> 100" using checkNumber_count [OF knobs(4)] unfolding c by linarith
  show "1 / 1000 \<le> bc_requestsPerSecond c \<and> bc_requestsPerSecond c \<le> 1000000"
    using checkNumber_rate [OF knobs(5)] c by simp
  show "1 \<le> bc_burstSize c \<and> bc_burstSize c \<le> 100000"
    using checkNumber_count [OF knobs(6)] unfolding c by linarith
qed

section \<open>Properties\<close>

text \<open>
  C4: one round trip of a read, whatever upstream answers, is a send, and after each 429 it retries one
  wait and one more send, at most as often as the client allows; every send comes right after a token
  of the limiter, the sends are all the same request (with the project id, and refusing to follow a
  redirect), no wait is negative or longer than thirty seconds, and a write is never retried on a 429.
  A \<open>Retry-After\<close> longer than that is not shortened: the 429 is the answer at once.
\<close>

theorem bf_request_wire:
  assumes "createBlockfrostClient show_num config = Inr c"
  shows "(\<exists>ws. length ws \<le> (if again then bc_rateLimitRetries c else 0) \<and>
      (\<forall>w \<in> set ws. 0 \<le> w \<and> w \<le> 30000) \<and>
      snd (snd (bf_request c (traced n) path i again s)) =
        snd s @ concat (map (\<lambda>w. [Acquire, Send (bf_http_request c path i), Wait w]) ws) @
          [Acquire, Send (bf_http_request c path i)]) \<and>
    req_redirect (bf_http_request c path i) = Some ''error'' \<and>
    jm_get (req_headers (bf_http_request c path i)) ''project_id'' = Some (bc_projectId c) \<and>
    (\<forall>res t d. fetchOnce c n path i v = (Inr res, t) \<longrightarrow> retryAfterMs n res t = Some d \<longrightarrow> 30000 < d \<longrightarrow>
       bf_request c n path i again v = (Inr res, t))"
proof (intro conjI)
  show "\<exists>ws. length ws \<le> (if again then bc_rateLimitRetries c else 0) \<and>
      (\<forall>w \<in> set ws. 0 \<le> w \<and> w \<le> 30000) \<and>
      snd (snd (bf_request c (traced n) path i again s)) =
        snd s @ concat (map (\<lambda>w. [Acquire, Send (bf_http_request c path i), Wait w]) ws) @
          [Acquire, Send (bf_http_request c path i)]"
    using bf_request_loop_trace [OF createBlockfrostClient_bounds(3) [OF assms, THEN conjunct1],
        of again 0 n path i s]
    by (cases again) (simp_all add: bf_request_def request_trace_def MAX_RETRY_AFTER_MS_def)
  show "req_redirect (bf_http_request c path i) = Some ''error''"
    "jm_get (req_headers (bf_http_request c path i)) ''project_id'' = Some (bc_projectId c)"
    by (simp_all add: bf_http_request_def Let_def jm_get_def split: option.split)
  show "\<forall>res t d. fetchOnce c n path i v = (Inr res, t) \<longrightarrow> retryAfterMs n res t = Some d \<longrightarrow> 30000 < d \<longrightarrow>
       bf_request c n path i again v = (Inr res, t)"
    by (simp add: bf_request_def bf_request_loop.simps [of _ _ _ _ _ 0 v] MAX_RETRY_AFTER_MS_def)
qed

definition bf_config :: BlockfrostConfig where
  "bf_config = \<lparr>bcfg_baseUrl = ''https://cardano-preprod.blockfrost.io/api/v0/'', bcfg_projectId = ''key'',
     bcfg_timeoutMs = None, bcfg_readAttempts = None, bcfg_retryBackoffMs = None,
     bcfg_requestsPerSecond = None, bcfg_burstSize = None, bcfg_rateLimitRetries = Some (JsNum 2)\<rparr>"

definition bf_default :: bf_client where
  "bf_default = \<lparr>bc_baseUrl = ''https://cardano-preprod.blockfrost.io/api/v0'', bc_projectId = ''key'',
     bc_timeoutMs = 10000, bc_readAttempts = 3, bc_backoffMs = 150, bc_rateLimitRetries = 2,
     bc_requestsPerSecond = 10, bc_burstSize = 500\<rparr>"

lemma createBlockfrostClient_default: "createBlockfrostClient sh bf_config = Inr bf_default"
  by (simp add: createBlockfrostClient_def bf_config_def bf_default_def checkNumber_def BF_TIMEOUT_MS_def
      BF_READ_ATTEMPTS_def BF_BACKOFF_MS_def BF_RATE_LIMIT_RETRIES_def BF_REQUESTS_PER_SECOND_def
      BF_BURST_SIZE_def MAX_RETRIES_def isSafeInteger_def MAX_SAFE_INTEGER_def strip_slashes_def js_of_int_def)

definition always :: "'j fetch_outcome \<Rightarrow> ('s, 'j) bf_net" where
  "always r = \<lparr>doFetch = (\<lambda>req s. (r, s)), delayImpl = (\<lambda>ms s. s), onRetry = (\<lambda>e s. s),
     limiterAcquire = (\<lambda>s. s), clockNow = (\<lambda>s. 0), dateParse = (\<lambda>s. JsNaN)\<rparr>"

theorem bf_request_wire_witness:
  "\<exists>ws. length ws \<le> 2 \<and> (\<forall>w \<in> set ws. 0 \<le> w \<and> w \<le> 30000) \<and>
     snd (snd (bf_request bf_default (traced (always (FetchResponse
        \<lparr>res_ok = False, res_status = 429, res_header = (\<lambda>h. Some ''2''), res_json = JsonInvalid :: int json_outcome,
         res_text = None\<rparr>))) ''/x'' bf_get_init True ((), []))) =
       concat (map (\<lambda>w. [Acquire, Send (bf_http_request bf_default ''/x'' bf_get_init), Wait w]) ws) @
          [Acquire, Send (bf_http_request bf_default ''/x'' bf_get_init)]"
  using bf_request_wire [where again = True and s = "((), [])"
      and i = bf_get_init and path = "''/x''" and n = "always (FetchResponse
        \<lparr>res_ok = False, res_status = 429, res_header = (\<lambda>h. Some ''2''), res_json = JsonInvalid :: int json_outcome,
         res_text = None\<rparr>)", OF createBlockfrostClient_default]
  by (simp add: bf_default_def)

text \<open>
  A Blockfrost write sends its transaction exactly once, whatever upstream answers, a 429 and a 5xx
  included, and answers with a value only when that one response was a success the schema accepts.
\<close>

theorem bf_submit_once:
  fixes n :: "('s, 'j) bf_net"
  shows "snd (snd (bf_submit c (traced n) sch path bytes ct s)) = snd s @ [Acquire, Send (bf_http_request c path
      \<lparr>bi_method = ''POST'', bi_body = BytesBody bytes, bi_contentType = Some ct\<rparr>)] \<and>
   (\<forall>a. fst (bf_submit c n sch path bytes ct v) = Inr a \<longrightarrow>
      (\<exists>res d. fst (doFetch n (bf_http_request c path \<lparr>bi_method = ''POST'', bi_body = BytesBody bytes,
          bi_contentType = Some ct\<rparr>) (limiterAcquire n v)) = FetchResponse res \<and>
        res_ok res \<and> res_json res = JsonOk d \<and> sch d = Some a))"
  (is "?once \<and> ?ok")
proof
  let ?i = "\<lparr>bi_method = ''POST'', bi_body = BytesBody bytes, bi_contentType = Some ct\<rparr>"
  have "snd (bf_request c m path ?i False s) = snd (fetchOnce c m path ?i s)" for m :: "('s \<times> wire list, 'j) bf_net" and s
    by (simp add: bf_request_def bf_request_loop.simps [of _ _ _ _ _ 0] split: prod.split sum.split)
  then show ?once
    using fetchOnce_traced [of c n path ?i s] by (simp add: bf_submit_def bindIO_liftE_snd)
  show ?ok
    by (auto simp: bf_submit_def bf_request_def bf_request_loop.simps [of _ _ _ _ _ 0] fetchOnce_def
        bindIO_def liftE_def bf_answer_def bf_failure_def readBody_def bf_parse_def bindE_Inr_conv
        split: prod.splits sum.splits fetch_outcome.splits if_splits json_outcome.splits option.splits)
qed

theorem bf_submit_once_witness:
  "snd (snd (bf_submit bf_default (traced (always (FetchTimeout :: int fetch_outcome))) (\<lambda>d. Some d) ''/tx/submit''
      ''x'' ''application/cbor'' ((), []))) =
   [] @ [Acquire, Send (bf_http_request bf_default ''/tx/submit''
      \<lparr>bi_method = ''POST'', bi_body = BytesBody ''x'', bi_contentType = Some ''application/cbor''\<rparr>)]"
  by (subst bf_submit_once [THEN conjunct1]) simp

text \<open>
  A Blockfrost read sends the same GET at most \<open>readAttempts * (rateLimitRetries + 1)\<close> times (never
  more than 10,100), and its outcome is that of its last attempt; a 404 is an answer of
  \<open>getOrUndefined\<close>, returned from the first attempt that sees it, and never a failure.
\<close>

theorem bf_get_attempts:
  assumes "createBlockfrostClient show_num config = Inr c"
  shows "(\<exists>m. 1 \<le> m \<and> m \<le> bc_readAttempts c * (bc_rateLimitRetries c + 1) \<and> m \<le> 10100 \<and>
      sends (snd (snd (bf_get c (traced n) sch path s))) =
        sends (snd s) @ replicate m (bf_http_request c path bf_get_init)) \<and>
    (\<exists>tr. retry_outcome bf_isTransient (bc_readAttempts c) (fst (bf_get c n sch path v)) tr) \<and>
    (\<forall>res t. bf_request c n path bf_get_init True v = (Inr res, t) \<longrightarrow> res_status res = 404 \<longrightarrow>
       bf_getOrUndefined c n sch path v = (Inr None, t))"
proof (intro conjI)
  let ?load = "\<lambda>n. bindIO (bf_request c n path bf_get_init True) (\<lambda>res. liftE (bf_answer sch path res))"
  have att: "1 \<le> bc_readAttempts c" "bc_readAttempts c \<le> 100" "bc_rateLimitRetries c \<le> 100"
    and backoff: "0 \<le> bc_backoffMs c"
    using createBlockfrostClient_bounds [OF assms] by auto
  have "\<exists>m. 1 \<le> m \<and> m \<le> bc_rateLimitRetries c + 1 \<and>
      sends (snd (snd (?load (traced n) s))) = sends (snd s) @ replicate m (bf_http_request c path bf_get_init)" for s
  proof -
    obtain ws where ws: "length ws \<le> bc_rateLimitRetries c"
      "snd (snd (bf_request_loop c (traced n) path bf_get_init True 0 s)) =
        snd s @ request_trace (bf_http_request c path bf_get_init) ws"
      using bf_request_loop_trace [OF backoff, of True 0 n path bf_get_init s] by auto
    then show ?thesis
      by (intro exI [of _ "Suc (length ws)"]) (simp add: bindIO_liftE_snd bf_request_def sends_request_trace)
  qed
  from bf_read_sends [OF this att(1), of n path s]
  obtain m where m: "1 \<le> m" "m \<le> bc_readAttempts c * (bc_rateLimitRetries c + 1)"
    "sends (snd (snd (bf_get c (traced n) sch path s))) =
        sends (snd s) @ replicate m (bf_http_request c path bf_get_init)"
    by (auto simp: bf_get_def)
  have "bc_readAttempts c * (bc_rateLimitRetries c + 1) \<le> 100 * 101"
    using att by (intro mult_le_mono) auto
  with m show "\<exists>m. 1 \<le> m \<and> m \<le> bc_readAttempts c * (bc_rateLimitRetries c + 1) \<and> m \<le> 10100 \<and>
      sends (snd (snd (bf_get c (traced n) sch path s))) =
        sends (snd s) @ replicate m (bf_http_request c path bf_get_init)"
    by (intro exI [of _ m]) auto
  show "\<exists>tr. retry_outcome bf_isTransient (bc_readAttempts c) (fst (bf_get c n sch path v)) tr"
    using retry_loop_outcome [OF att(1), of bf_isTransient "bf_onFail c n path" "?load n" v]
    by (auto simp: bf_get_def bf_read_def)
  show "\<forall>res t. bf_request c n path bf_get_init True v = (Inr res, t) \<longrightarrow> res_status res = 404 \<longrightarrow>
       bf_getOrUndefined c n sch path v = (Inr None, t)"
    by (simp add: bf_getOrUndefined_def bf_read_def retry_loop.simps [of _ _ _ _ _ v] bindIO_def liftE_def)
qed

theorem bf_get_attempts_witness:
  "bf_getOrUndefined bf_default (always (FetchResponse \<lparr>res_ok = False, res_status = 404, res_header = (\<lambda>h. None),
      res_json = JsonInvalid :: int json_outcome, res_text = None\<rparr>)) (\<lambda>d. Some d) ''/x'' () = (Inr None, ())"
proof -
  let ?n = "always (FetchResponse \<lparr>res_ok = False, res_status = 404, res_header = (\<lambda>h. None),
      res_json = JsonInvalid :: int json_outcome, res_text = None\<rparr>)"
  have "bf_request bf_default ?n ''/x'' bf_get_init True () =
      (Inr \<lparr>res_ok = False, res_status = 404, res_header = (\<lambda>h. None),
      res_json = JsonInvalid :: int json_outcome, res_text = None\<rparr>, ())"
    by (simp add: bf_request_def bf_request_loop.simps fetchOnce_def always_def)
  then show ?thesis
    using bf_get_attempts [where n = ?n and path = "''/x''"
        and sch = "\<lambda>d. Some d" and v = "()", OF createBlockfrostClient_default] by simp
qed

end
