(* ===== verification/Koios_Schema.thy ===== *)
theory Koios_Schema
  imports Errors Json
begin

text \<open>
  \<^verbatim>\<open>src/providers/koios/schema.ts\<close>: the values a Koios row may hold, and the packing of a batch into
  request bodies.  A zod schema is the type of what it lets through; its refinements are the
  predicates below.
\<close>

section \<open>Numbers and identifiers on the wire\<close>

text \<open>A lovelace-scale value: a JSON number or a string.\<close>

datatype numeric = Num int | NumStr string

definition all_digits :: "string \<Rightarrow> bool" where
  "all_digits s \<longleftrightarrow> s \<noteq> [] \<and> list_all is_digit s"

fun numeric_ok :: "numeric \<Rightarrow> bool" where
  "numeric_ok (Num i) \<longleftrightarrow> 0 \<le> i \<and> isSafeInteger i"
| "numeric_ok (NumStr s) \<longleftrightarrow> all_digits s"

fun canonical_digits :: "string \<Rightarrow> bool" where
  "canonical_digits [] = False"
| "canonical_digits [c] = is_digit c"
| "canonical_digits (c # cs) = (is_digit c \<and> c \<noteq> CHR ''0'' \<and> list_all is_digit cs)"

fun signedNumeric_ok :: "numeric \<Rightarrow> bool" where
  "signedNumeric_ok (Num i) \<longleftrightarrow> isSafeInteger i"
| "signedNumeric_ok (NumStr s) \<longleftrightarrow>
     (case s of [] \<Rightarrow> False | c # cs \<Rightarrow> if c = CHR ''-'' then canonical_digits cs else canonical_digits s)"

definition policyId_ok :: "string \<Rightarrow> bool" where
  "policyId_ok s \<longleftrightarrow> length s = 56 \<and> list_all is_hex s"

definition assetName_ok :: "string \<Rightarrow> bool" where
  "assetName_ok s \<longleftrightarrow> even (length s) \<and> length s \<le> 64 \<and> list_all is_hex s"

record assetItem =
  policy_id :: string
  asset_name :: string
  quantity_raw :: numeric

definition assetItem_ok :: "assetItem \<Rightarrow> bool" where
  "assetItem_ok a \<longleftrightarrow> policyId_ok (policy_id a) \<and> assetName_ok (asset_name a) \<and>
     numeric_ok (quantity_raw a)"

text \<open>The domain's \<open>Asset\<close> (\<^verbatim>\<open>src/domain/types/common.ts\<close>).\<close>

record Asset =
  policyId :: string
  assetName :: string
  quantity :: string

text \<open>\<open>String(v)\<close>, and the integer it stands for.\<close>

fun numeric_string :: "numeric \<Rightarrow> string" where
  "numeric_string (Num i) = string_of_int i"
| "numeric_string (NumStr s) = s"

fun numeric_val :: "numeric \<Rightarrow> int" where
  "numeric_val (Num i) = i"
| "numeric_val (NumStr s) =
     (case s of c # cs \<Rightarrow> if c = CHR ''-'' then - int (nat_of_string cs) else int (nat_of_string s)
      | [] \<Rightarrow> 0)"

definition mapAssets :: "assetItem list option \<Rightarrow> Asset list" where
  "mapAssets rows =
     map (\<lambda>a. \<lparr>policyId = policy_id a, assetName = asset_name a,
               quantity = numeric_string (quantity_raw a)\<rparr>)
       (case rows of None \<Rightarrow> [] | Some as \<Rightarrow> as)"

text \<open>\<open>BigInt(s)\<close> of a decimal string the service produced.\<close>

definition BigInt_of :: "string \<Rightarrow> int" where
  "BigInt_of s = numeric_val (NumStr s)"

lemma is_digit_not_minus: "is_digit c \<Longrightarrow> c \<noteq> CHR ''-''"
  by (auto simp: is_digit_def)

lemma string_of_nat_all_digits: "all_digits (string_of_nat n)"
  using string_of_nat_digits by (simp add: all_digits_def)

lemma BigInt_digits: "all_digits s \<Longrightarrow> BigInt_of s = int (nat_of_string s)"
  by (cases s) (auto simp: BigInt_of_def all_digits_def dest: is_digit_not_minus)

lemma BigInt_string_of_int [simp]: "BigInt_of (string_of_int i) = i"
  by (cases "i < 0")
    (simp_all add: BigInt_digits string_of_nat_all_digits string_of_int_def str_simps,
     simp add: BigInt_of_def str_simps)

text \<open>No digit of an amount is lost between the wire and the domain.\<close>

lemma BigInt_numeric_string [simp]: "BigInt_of (numeric_string v) = numeric_val v"
  by (cases v) (simp, simp add: BigInt_of_def)

lemma numeric_ok_string: "numeric_ok v \<Longrightarrow> all_digits (numeric_string v) \<and> 0 \<le> numeric_val v"
proof (cases v)
  case (Num i)
  assume "numeric_ok v"
  with Num show ?thesis by (simp add: string_of_int_def string_of_nat_all_digits)
next
  case (NumStr s)
  assume "numeric_ok v"
  with NumStr have "all_digits s" by simp
  with BigInt_digits [OF this] NumStr show ?thesis by (simp add: BigInt_of_def)
qed

section \<open>Packing\<close>

definition KOIOS_BODY_LIMIT_BYTES :: nat where
  "KOIOS_BODY_LIMIT_BYTES = 5120"

definition BODY_SAFETY_MARGIN_BYTES :: nat where
  "BODY_SAFETY_MARGIN_BYTES = 128"

text \<open>
  The loop of \<open>packBySize\<close>: \<open>chunks\<close> and \<open>current\<close> grow at their ends.  \<open>limit\<close> is an integer, since
  a small budget makes it negative.
\<close>

fun pack_loop :: "nat \<Rightarrow> nat \<Rightarrow> int \<Rightarrow> json list \<Rightarrow> json list list \<Rightarrow> json list \<Rightarrow> nat \<Rightarrow>
    (json list list \<times> json list) result" where
  "pack_loop budget envelope limit [] chunks current used = Inr (chunks, current)"
| "pack_loop budget envelope limit (item # items) chunks current used =
     (let itemBytes = byteLength item in
      if int (envelope + itemBytes) > limit
      then Inl (ProviderError (''koios request item is '' @ string_of_nat itemBytes @
                 '' bytes, which cannot fit in a '' @ string_of_nat budget @ ''-byte body'') None None)
      else
        let separator = (if current = [] then 0 else 1) in
        if current \<noteq> [] \<and> int (envelope + used + separator + itemBytes) > limit
        then pack_loop budget envelope limit items (chunks @ [current]) [item] itemBytes
        else pack_loop budget envelope limit items chunks (current @ [item])
               (used + separator + itemBytes))"

definition packBySize :: "json list \<Rightarrow> (json list \<Rightarrow> json) \<Rightarrow> nat \<Rightarrow> json list list result" where
  "packBySize items toBody budget =
     (if items = [] then Inr []
      else
        let limit = int budget - int BODY_SAFETY_MARGIN_BYTES;
            envelope = byteLength (toBody []) in
        bindE (pack_loop budget envelope limit items [] [] 0) (\<lambda>(chunks, current).
          Inr (if current = [] then chunks else chunks @ [current])))"

definition chunk_fits :: "nat \<Rightarrow> int \<Rightarrow> json list \<Rightarrow> bool" where
  "chunk_fits envelope limit c \<longleftrightarrow> c \<noteq> [] \<and> int (envelope + items_bytes c) \<le> limit"

lemma pack_loop_spec:
  assumes "pack_loop budget env limit items chunks current used = Inr (chunks', current')"
    and "\<forall>c \<in> set chunks. chunk_fits env limit c"
    and "current = [] \<or> chunk_fits env limit current" and "used = items_bytes current"
  shows "concat chunks' @ current' = concat chunks @ current @ items \<and>
    (\<forall>c \<in> set chunks'. chunk_fits env limit c) \<and> (current' = [] \<or> chunk_fits env limit current') \<and>
    (items \<noteq> [] \<longrightarrow> current' \<noteq> [])"
  using assms
proof (induction items arbitrary: chunks current used)
  case (Cons item items)
  have fit: "int (env + byteLength item) \<le> limit"
    using Cons.prems(1) by (auto simp: Let_def split: if_splits)
  show ?case
  proof (cases "current \<noteq> [] \<and> int (env + used + 1 + byteLength item) > limit")
    case True
    then have loop: "pack_loop budget env limit items (chunks @ [current]) [item] (byteLength item) =
        Inr (chunks', current')"
      using Cons.prems(1) fit by (simp add: Let_def)
    have old: "\<forall>c \<in> set (chunks @ [current]). chunk_fits env limit c"
      using True Cons.prems(2,3) by auto
    have new: "[item] = [] \<or> chunk_fits env limit [item]" using fit by (simp add: chunk_fits_def)
    have nonempty: "current' \<noteq> []" if "items = []" using loop that by auto
    show ?thesis using Cons.IH [OF loop old new] nonempty by fastforce
  next
    case False
    then have loop: "pack_loop budget env limit items chunks (current @ [item])
        (used + (if current = [] then 0 else 1) + byteLength item) = Inr (chunks', current')"
      using Cons.prems(1) fit by (auto simp: Let_def split: if_splits)
    have new: "current @ [item] = [] \<or> chunk_fits env limit (current @ [item])"
      using False fit Cons.prems(4) by (auto simp: chunk_fits_def items_bytes_snoc)
    have used: "used + (if current = [] then 0 else 1) + byteLength item = items_bytes (current @ [item])"
      using Cons.prems(4) by (simp add: items_bytes_snoc)
    have nonempty: "current' \<noteq> []" if "items = []" using loop that by auto
    show ?thesis using Cons.IH [OF loop Cons.prems(2) new used] nonempty by fastforce
  qed
qed simp

lemma pack_loop_Inl:
  "pack_loop budget env limit items chunks current used = Inl e \<Longrightarrow>
     \<exists>item \<in> set items. int (env + byteLength item) > limit"
  by (induction items arbitrary: chunks current used) (auto simp: Let_def split: if_splits)

lemma pack_loop_oversize:
  "item \<in> set items \<Longrightarrow> int (env + byteLength item) > limit \<Longrightarrow>
     \<exists>m. pack_loop budget env limit items chunks current used = Inl (ProviderError m None None)"
  by (induction items arbitrary: chunks current used) (auto simp: Let_def)

lemma packBySize_cases:
  "(case packBySize items (list_body before key after) budget of
      Inr chunks \<Rightarrow> concat chunks = items \<and> [] \<notin> set chunks \<and>
        (\<forall>c \<in> set chunks. int (byteLength (list_body before key after c)) \<le> int budget - 128)
    | Inl e \<Rightarrow> upstreamStatus_of e = None) \<and>
   ((\<exists>e. packBySize items (list_body before key after) budget = Inl e) \<longleftrightarrow>
     (\<exists>item \<in> set items. int (byteLength (list_body before key after [item])) > int budget - 128))"
proof (cases "items = []")
  case True
  then show ?thesis by (simp add: packBySize_def)
next
  case False
  let ?env = "byteLength (list_body before key after [])" and ?lim = "int budget - 128"
  let ?r = "pack_loop budget ?env ?lim items [] [] 0"
  have one: "byteLength (list_body before key after [item]) = ?env + byteLength item" for item
    by (subst byteLength_list_body) simp
  show ?thesis
  proof (cases ?r)
    case (Inl e)
    with pack_loop_Inl obtain item
      where item: "item \<in> set items" "int (?env + byteLength item) > ?lim" by metis
    obtain m where "?r = Inl (ProviderError m None None)" using pack_loop_oversize [OF item] by blast
    with Inl have "upstreamStatus_of e = None" by auto
    with False Inl item show ?thesis
      by (auto simp: packBySize_def Let_def BODY_SAFETY_MARGIN_BYTES_def one)
  next
    case (Inr p)
    obtain chunks current where p: "p = (chunks, current)" by fastforce
    from Inr p have r: "?r = Inr (chunks, current)" by simp
    have spec: "concat chunks @ current = items" "\<forall>c \<in> set chunks. chunk_fits ?env ?lim c"
      "current = [] \<or> chunk_fits ?env ?lim current" "current \<noteq> []"
      using pack_loop_spec [OF r] False by (auto simp: chunk_fits_def)
    have res: "packBySize items (list_body before key after) budget = Inr (chunks @ [current])"
      using False r spec(4) by (simp add: packBySize_def Let_def BODY_SAFETY_MARGIN_BYTES_def)
    have "\<not> int (?env + byteLength item) > ?lim" if "item \<in> set items" for item
      using pack_loop_oversize [OF that, where env = ?env and limit = ?lim and budget = budget
        and chunks = "[]" and current = "[]" and used = 0] r by auto
    moreover have "int (byteLength (list_body before key after c)) \<le> ?lim"
      if "c \<in> set (chunks @ [current])" for c
      using spec that byteLength_list_body [of before key after c] by (auto simp: chunk_fits_def)
    moreover have "[] \<notin> set (chunks @ [current])"
      using spec by (auto simp: chunk_fits_def)
    ultimately show ?thesis using spec(1) by (simp add: res one del: of_nat_add)
  qed
qed

lemma packBySize_plan:
  assumes "\<forall>item \<in> set items. int (byteLength (list_body before key after [item])) \<le> int budget - 128"
  obtains chunks where "packBySize items (list_body before key after) budget = Inr chunks"
    "concat chunks = items"
    "\<forall>c \<in> set chunks. int (byteLength (list_body before key after c)) \<le> int budget - 128"
proof -
  have "\<not> (\<exists>e. packBySize items (list_body before key after) budget = Inl e)"
    using packBySize_cases [of items before key after budget] assms by (meson not_less)
  then obtain chunks where c: "packBySize items (list_body before key after) budget = Inr chunks"
    by (cases "packBySize items (list_body before key after) budget") auto
  with packBySize_cases [of items before key after budget] show thesis by (auto intro: that)
qed

section \<open>Properties\<close>

text \<open>
  C15: packing neither loses, repeats nor reorders an item, makes no empty chunk, and every body it
  plans to send is, byte for byte as \<open>JSON.stringify\<close> writes it, at least the safety margin under the
  budget, whatever other fields the body carries; it refuses exactly when some item cannot fit in a
  request by itself.
\<close>

theorem packBySize_correct:
  "(case packBySize items (list_body before key after) budget of
      Inr chunks \<Rightarrow> concat chunks = items \<and> [] \<notin> set chunks \<and>
        (\<forall>c \<in> set chunks. int (byteLength (list_body before key after c)) \<le> int budget - 128)
    | Inl e \<Rightarrow> upstreamStatus_of e = None) \<and>
   ((\<exists>e. packBySize items (list_body before key after) budget = Inl e) \<longleftrightarrow>
     (\<exists>item \<in> set items. int (byteLength (list_body before key after [item])) > int budget - 128))"
  by (rule packBySize_cases)

theorem packBySize_correct_witness:
  "\<exists>chunks. packBySize [JStr ''abc'', JStr ''de''] (list_body [] ''_ids'' []) 150 = Inr chunks \<and>
     concat chunks = [JStr ''abc'', JStr ''de'']"
proof -
  have "\<not> (\<exists>item \<in> set [JStr ''abc'', JStr ''de'']. int (byteLength (list_body [] ''_ids'' [] [item])) > 150 - 128)"
    by code_simp
  then show ?thesis
    using packBySize_correct [of "[JStr ''abc'', JStr ''de'']" "[]" "''_ids''" "[]" 150]
    by (cases "packBySize [JStr ''abc'', JStr ''de''] (list_body [] ''_ids'' []) 150") auto
qed

text \<open>
  Assets pass from a Koios row to the domain without losing a digit: names are kept, in order,
  and for rows the schema lets through every quantity is a digit string whose value is the one on the
  wire, however large.
\<close>

lemma mapAssets_exact:
  assumes "list_all assetItem_ok rows"
  shows "length (mapAssets (Some rows)) = length rows \<and>
    (\<forall>i < length rows.
       policyId (mapAssets (Some rows) ! i) = policy_id (rows ! i) \<and>
       assetName (mapAssets (Some rows) ! i) = asset_name (rows ! i) \<and>
       all_digits (quantity (mapAssets (Some rows) ! i)) \<and>
       BigInt_of (quantity (mapAssets (Some rows) ! i)) = numeric_val (quantity_raw (rows ! i)))"
  using assms numeric_ok_string by (auto simp: mapAssets_def list_all_length assetItem_ok_def)

lemma mapAssets_exact_witness:
  "BigInt_of (quantity (mapAssets (Some [\<lparr>policy_id = replicate 56 CHR ''a'', asset_name = '''',
     quantity_raw = NumStr ''7682048683977123456''\<rparr>]) ! 0)) = 7682048683977123456"
proof -
  let ?rows = "[\<lparr>policy_id = replicate 56 CHR ''a'', asset_name = '''',
     quantity_raw = NumStr ''7682048683977123456''\<rparr>]"
  have "list_all assetItem_ok ?rows"
    by (simp add: assetItem_ok_def policyId_ok_def assetName_ok_def all_digits_def is_digit_def
        is_hex_def list_all_iff)
  from mapAssets_exact [OF this]
  have "BigInt_of (quantity (mapAssets (Some ?rows) ! 0)) = numeric_val (quantity_raw (?rows ! 0))"
    by auto
  also have "\<dots> = 7682048683977123456"
    by (simp add: nat_of_string_def digit_val_def)
  finally show ?thesis .
qed

end
