(* ===== verification/Domain.thy ===== *)
theory Domain
  imports Koios_Schema Js_Num "HOL-Library.Product_Lexorder"
begin

text \<open>
  The domain shapes of \<^verbatim>\<open>src/domain/types\<close> that the wallet reads share, and the selection of a history
  page that the drivers have in common.  An optional field is an \<open>option\<close>; a lovelace amount is a
  string, as in the source.
\<close>

record ReferenceScript =
  rs_hash :: string
  rs_size :: "nat option"
  rs_type :: "string option"
  rs_bytes :: "string option"

record Utxo =
  u_txHash :: string
  u_outputIndex :: int
  u_address :: string
  u_blockHeight :: nat
  u_value :: string
  u_assets :: "Asset list"
  u_datumHash :: "string option"
  u_inlineDatum :: "string option"
  u_referenceScriptHash :: "string option"
  u_referenceScript :: "ReferenceScript option"

record TxIo =
  io_address :: "string option"
  io_value :: string
  io_assets :: "Asset list"

record TxInput = TxIo +
  in_txHash :: string
  in_outputIndex :: nat

record Withdrawal =
  wd_stakeAddress :: string
  wd_amount :: string

datatype CertificateKind =
    Stake_registration | Stake_deregistration | Stake_delegation | Pool_registration
  | Pool_retirement | Vote_delegation | Drep_registration | Drep_update | Drep_deregistration
  | Committee_hot_auth | Committee_cold_resign | Move_instantaneous_rewards
  | Genesis_key_delegation | Other_certificate

record TxCertificate =
  ce_kind :: CertificateKind
  ce_index :: int

record WalletTransaction =
  wt_txHash :: string
  wt_block :: int
  wt_blockHash :: string
  wt_slot :: int
  wt_epoch :: int
  wt_blockTime :: int
  wt_fee :: string
  wt_ttl :: "nat option"
  wt_inputs :: "TxInput list"
  wt_outputs :: "TxIo list"
  wt_withdrawals :: "Withdrawal list"
  wt_certificates :: "TxCertificate list"
  wt_metadata :: "json option"

datatype TxLifecycle = Tx_pending | Tx_unknown | Tx_confirmed | Tx_rejected | Tx_expired
datatype OverlayAction = Overlay_retain | Overlay_reconcile | Overlay_rollback
datatype TxTerminalCode = TX_REJECTED | TX_EXPIRED

record TxStatus =
  ts_status :: TxLifecycle
  ts_seen :: bool
  ts_confirmations :: int
  ts_overlayAction :: OverlayAction
  ts_terminal :: "(TxTerminalCode \<times> string) option"

definition unknownTxStatus :: TxStatus where
  "unknownTxStatus = \<lparr>ts_status = Tx_unknown, ts_seen = False, ts_confirmations = 0,
     ts_overlayAction = Overlay_retain, ts_terminal = None\<rparr>"

definition pendingTxStatus :: TxStatus where
  "pendingTxStatus = \<lparr>ts_status = Tx_pending, ts_seen = False, ts_confirmations = 0,
     ts_overlayAction = Overlay_retain, ts_terminal = None\<rparr>"

definition confirmedTxStatus :: "int \<Rightarrow> TxStatus result" where
  "confirmedTxStatus k =
     (if \<not> isSafeInteger k \<or> k < 0
      then Inl (JsRangeError ''transaction confirmations must be a non-negative safe integer'')
      else Inr \<lparr>ts_status = Tx_confirmed, ts_seen = True, ts_confirmations = k,
        ts_overlayAction = Overlay_reconcile, ts_terminal = None\<rparr>)"

definition rejectedTxStatus :: TxStatus where
  "rejectedTxStatus = \<lparr>ts_status = Tx_rejected, ts_seen = False, ts_confirmations = 0,
     ts_overlayAction = Overlay_rollback,
     ts_terminal = Some (TX_REJECTED, ''The transaction was definitively rejected.'')\<rparr>"

definition expiredTxStatus :: TxStatus where
  "expiredTxStatus = \<lparr>ts_status = Tx_expired, ts_seen = False, ts_confirmations = 0,
     ts_overlayAction = Overlay_rollback,
     ts_terminal = Some (TX_EXPIRED, ''The transaction validity interval expired before confirmation.'')\<rparr>"

record ResolvedUtxo = Utxo +
  ru_spent :: bool

record AccountState =
  as_stakeAddress :: string
  as_registered :: bool
  as_balance :: string
  as_rewardsAvailable :: string
  as_rewardsSum :: string
  as_withdrawalsSum :: string
  as_delegatedPool :: "string option"
  as_delegatedDrep :: "string option"

datatype RewardKind =
    Reward_member | Reward_leader | Reward_treasury | Reward_reserves | Reward_refund
  | Reward_proposal_refund

record AccountReward =
  rw_earnedEpoch :: nat
  rw_spendableEpoch :: nat
  rw_amount :: string
  rw_kind :: RewardKind
  rw_poolId :: "string option"

record Tip =
  tip_block :: int
  tip_slot :: int
  tip_epoch :: int
  tip_hash :: string
  tip_blockTime :: int

record ProtocolParams =
  pp_epoch :: int
  pp_minFeeA :: int
  pp_minFeeB :: int
  pp_maxTxSize :: int
  pp_maxBlockBodySize :: int
  pp_keyDeposit :: string
  pp_poolDeposit :: string
  pp_minPoolCost :: string
  pp_coinsPerUtxoByte :: string
  pp_maxValueSize :: int
  pp_collateralPercent :: int
  pp_maxCollateralInputs :: int
  pp_priceMem :: rat
  pp_priceStep :: rat
  pp_maxTxExMem :: string
  pp_maxTxExSteps :: string
  pp_protocolVersion :: "int \<times> int"
  pp_costModels :: "json option"

record StatusInfo =
  si_version :: string
  si_network :: string
  si_provider :: string

definition asServerTime :: "int \<Rightarrow> int result" where
  "asServerTime v = (if \<not> isSafeInteger v \<or> v < 0
     then Inl (JsRangeError ''server time must be a non-negative safe integer'') else Inr v)"

section \<open>A page of history\<close>

text \<open>
  How many of the rows, oldest first, make a page: at most \<open>psize\<close>, and then any further row of the
  block the page ends in.  \<open>hs\<close> are the block heights of the sorted rows.
\<close>

function extend_boundary :: "int list \<Rightarrow> int \<Rightarrow> nat \<Rightarrow> nat" where
  "extend_boundary hs b e = (if e < length hs \<and> hs ! e = b then extend_boundary hs b (e + 1) else e)"
  by pat_completeness auto
termination
  by (relation "measure (\<lambda>(hs, b, e). length hs - e)") auto

declare extend_boundary.simps [simp del]

definition history_window :: "nat \<Rightarrow> ('row \<Rightarrow> int) \<Rightarrow> 'row list \<Rightarrow> 'row list" where
  "history_window psize height rows =
     (let sorted = sort_key height rows; hs = map height sorted;
          e = min psize (length sorted) in
      if e = 0 then [] else take (extend_boundary hs (hs ! (e - 1)) e) sorted)"

lemma extend_boundary_spec:
  assumes "e \<le> length hs"
  shows "e \<le> extend_boundary hs b e \<and> extend_boundary hs b e \<le> length hs \<and>
    (\<forall>i. e \<le> i \<and> i < extend_boundary hs b e \<longrightarrow> hs ! i = b) \<and>
    (extend_boundary hs b e < length hs \<longrightarrow> hs ! extend_boundary hs b e \<noteq> b)"
  using assms
proof (induction hs b e rule: extend_boundary.induct)
  case (1 hs b e)
  show ?case
  proof (cases "e < length hs \<and> hs ! e = b")
    case True
    with 1 have ih: "e + 1 \<le> extend_boundary hs b (e + 1)" "extend_boundary hs b (e + 1) \<le> length hs"
      "\<forall>i. e + 1 \<le> i \<and> i < extend_boundary hs b (e + 1) \<longrightarrow> hs ! i = b"
      "extend_boundary hs b (e + 1) < length hs \<longrightarrow> hs ! extend_boundary hs b (e + 1) \<noteq> b" by auto
    have eq: "extend_boundary hs b e = extend_boundary hs b (e + 1)"
      using True by (simp add: extend_boundary.simps [of hs b e])
    have "hs ! i = b" if "e \<le> i" "i < extend_boundary hs b (e + 1)" for i
      using that ih(3) True by (cases "i = e") auto
    with ih eq show ?thesis by auto
  next
    case False
    then have "extend_boundary hs b e = e" by (subst extend_boundary.simps) auto
    with False 1(2) show ?thesis by auto
  qed
qed

text \<open>
  A page is a stable prefix of the sorted rows, and no row that is left out shares a block with one
  that is in: the next cursor, the last block of the page, skips nothing.
\<close>

lemma history_window_prefix: "\<exists>rest. sort_key height rows = history_window psize height rows @ rest"
proof -
  have "\<exists>k. history_window psize height rows = take k (sort_key height rows)"
    by (auto simp: history_window_def Let_def intro: exI [of _ 0])
  then show ?thesis by (metis append_take_drop_id)
qed

lemma history_window_mset_subset: "set (history_window psize height rows) \<subseteq> set rows"
proof -
  obtain rest where "sort_key height rows = history_window psize height rows @ rest"
    using history_window_prefix by blast
  then show ?thesis by (metis set_append set_sort sup_ge1)
qed

lemma history_window_closed:
  assumes "0 < psize" and "sort_key height rows = history_window psize height rows @ rest"
    and "x \<in> set (history_window psize height rows)" and "y \<in> set rest"
  shows "height x < height y"
proof -
  let ?s = "sort_key height rows"
  let ?hs = "map height ?s" and ?e = "min psize (length (sort_key height rows))"
  have ne: "?e \<noteq> 0" using assms(1,3) by (auto simp: history_window_def Let_def)
  define b where "b = ?hs ! (?e - 1)"
  define k where "k = extend_boundary ?hs b ?e"
  have win: "history_window psize height rows = take k ?s"
    using ne unfolding history_window_def Let_def k_def b_def by (simp only: if_False)
  have k: "?e \<le> k" "k \<le> length ?hs" "\<forall>i. ?e \<le> i \<and> i < k \<longrightarrow> ?hs ! i = b"
    "k < length ?hs \<longrightarrow> ?hs ! k \<noteq> b"
    using extend_boundary_spec [of ?e ?hs b] by (auto simp: k_def)
  have sorted: "sorted ?hs" by simp
  have len: "length ?hs = length rows" by simp
  have "rest = drop k ?s" using assms(2) unfolding win by (metis append_eq_conv_conj length_take min.absorb2 k(2) length_map)
  with assms(4) obtain i where i': "i < length ?s - k" "y = drop k ?s ! i"
    by (auto simp: in_set_conv_nth)
  then have j: "k \<le> k + i" "k + i < length ?s" "y = ?s ! (k + i)" by auto
  define j where "j = k + i"
  note j = j [folded j_def]
  from assms(3) win obtain i where i: "i < k" "x = ?s ! i" by (auto simp: in_set_conv_nth)
  have klt: "k < length ?hs" using j(1,2) by simp
  have ib: "?hs ! i \<le> b"
  proof (cases "i < ?e")
    case True
    then have "i \<le> ?e - 1" by linarith
    then show ?thesis using sorted_nth_mono [OF sorted, of i "?e - 1"] ne k(1) klt
      by (auto simp: b_def)
  next
    case False
    then show ?thesis using k(3) i(1) by auto
  qed
  have "b \<le> ?hs ! k"
    using sorted_nth_mono [OF sorted, of "?e - 1" k] ne k(1) klt by (auto simp: b_def)
  then have "b < ?hs ! k" using k(4) klt by auto
  also have "?hs ! k \<le> ?hs ! j" using sorted_nth_mono [OF sorted j(1)] j(2) by simp
  finally show ?thesis using ib i(1,2) j(2,3) klt by auto
qed

lemma history_window_length:
  "min psize (length rows) \<le> length (history_window psize height rows)"
  using extend_boundary_spec [of "min psize (length rows)" "map height (sort_key height rows)"
      "map height (sort_key height rows) ! (min psize (length rows) - 1)"]
  by (auto simp: history_window_def Let_def)

end
