(* ===== verification/Blockfrost_Lists.thy ===== *)
theory Blockfrost_Lists
  imports Blockfrost_Client Domain
begin

text \<open>
  What the Blockfrost reads share: \<^verbatim>\<open>src/providers/blockfrost/schema.ts\<close> (amount lists) and
  \<^verbatim>\<open>pagination.ts\<close>.  A walk over \<open>count\<close>/\<open>page\<close> pages is one combinator, \<open>scan_pages\<close>; the loops of
  \<^verbatim>\<open>pagination.ts\<close>, \<^verbatim>\<open>account.ts\<close>, \<^verbatim>\<open>pools.ts\<close> and \<^verbatim>\<open>governance.ts\<close> are instances of it that differ in
  what a 404 and the page after the last one mean.
\<close>

section \<open>Path segments\<close>

definition uri_unreserved :: "char \<Rightarrow> bool" where
  "uri_unreserved c \<longleftrightarrow> is_digit c \<or> c \<in> set ''ABCDEFGHIJKLMNOPQRSTUVWXYZabcdefghijklmnopqrstuvwxyz-_.!~*()'' \<or>
     c = CHR 0x27"

text \<open>\<open>encodeURIComponent\<close> on a string given as its UTF-8 bytes.\<close>

definition encodeURIComponent :: "string \<Rightarrow> string" where
  "encodeURIComponent s = concat (map (\<lambda>c.
     if uri_unreserved c then [c]
     else let n = of_char c :: nat in [CHR ''%'', upper_hex (n div 16), upper_hex (n mod 16)]) s)"

lemma encodeURIComponent_plain: "list_all uri_unreserved s \<Longrightarrow> encodeURIComponent s = s"
  by (induction s) (auto simp: encodeURIComponent_def)

text \<open>No identifier can leave its path segment: neither a slash nor a query survives.\<close>

lemma upper_hex_unreserved: "n < 16 \<Longrightarrow> uri_unreserved (upper_hex n)"
proof -
  have "list_all (\<lambda>n. uri_unreserved (upper_hex n)) [0, 1, 2, 3, 4, 5, 6, 7, 8, 9, 10, 11, 12, 13, 14, 15]"
    by code_simp
  moreover assume "n < 16"
  then have "n \<in> set [0, 1, 2, 3, 4, 5, 6, 7, 8, 9, 10, 11, 12, 13, 14, 15]" by simp arith
  ultimately show ?thesis by (metis list_all_iff)
qed

lemma encodeURIComponent_segment:
  "c \<in> set (encodeURIComponent s) \<Longrightarrow> uri_unreserved c \<or> c = CHR ''%''"
proof (induction s)
  case (Cons d s)
  have "(of_char d :: nat) div 16 < 16" using nat_of_char_less_256 [of d] by linarith
  then have "uri_unreserved (upper_hex ((of_char d :: nat) div 16))"
    "uri_unreserved (upper_hex ((of_char d :: nat) mod 16))"
    by (auto intro: upper_hex_unreserved)
  with Cons show ?case by (auto simp: encodeURIComponent_def Let_def split: if_splits)
qed (simp add: encodeURIComponent_def)

section \<open>Amounts\<close>

text \<open>\<open>smallNumeric\<close>: a count sent as a number or as a string of digits.\<close>

definition smallNumeric :: "numeric \<Rightarrow> int option" where
  "smallNumeric v = (case v of
       Num i \<Rightarrow> if 0 \<le> i \<and> i \<le> MAX_SAFE_INTEGER then Some i else None
     | NumStr s \<Rightarrow> if all_digits s \<and> int (nat_of_string s) \<le> MAX_SAFE_INTEGER
         then Some (int (nat_of_string s)) else None)"

record amountItem =
  am_unit :: string
  am_quantity :: numeric

definition UNIT_PATTERN :: "string \<Rightarrow> bool" where
  "UNIT_PATTERN u \<longleftrightarrow> 56 \<le> length u \<and> length u \<le> 56 + 64 \<and> even (length u - 56) \<and> list_all is_hex u"

definition isValidUnit :: "string \<Rightarrow> bool" where
  "isValidUnit u \<longleftrightarrow> u = ''lovelace'' \<or> UNIT_PATTERN u"

definition amountItem_ok :: "amountItem \<Rightarrow> bool" where
  "amountItem_ok a \<longleftrightarrow> isValidUnit (am_unit a) \<and> numeric_ok (am_quantity a)"

definition amountList_ok :: "amountItem list \<Rightarrow> bool" where
  "amountList_ok l \<longleftrightarrow> list_all amountItem_ok l"

definition unit_asset :: "amountItem \<Rightarrow> Asset" where
  "unit_asset a = \<lparr>policyId = take 56 (am_unit a), assetName = drop 56 (am_unit a),
     quantity = numeric_string (am_quantity a)\<rparr>"

definition quoted :: "string \<Rightarrow> string" where
  "quoted s = CHR 0x27 # s @ [CHR 0x27]"

text \<open>The variables of \<open>splitAmount\<close>; \<open>sp_units\<close> is the caller's \<open>seenUnits\<close>.\<close>

record split_state =
  sp_value :: "string option"
  sp_assets :: "Asset list"
  sp_seen :: "string list"
  sp_units :: "(string, string) js_map option"

definition split_item :: "amountItem \<Rightarrow> split_state \<Rightarrow> split_state result" where
  "split_item a st =
     (let unitKey = toLowerCase (am_unit a) in
      if unitKey \<in> set (sp_seen st)
      then Inl (MalformedUpstreamError
             (''blockfrost returned a utxo amount with a duplicate '' @ quoted (am_unit a) @ '' unit''))
      else
        let prior = (case sp_units st of None \<Rightarrow> None | Some m \<Rightarrow> jm_get m unitKey) in
        if prior \<noteq> None \<and> prior \<noteq> Some (am_unit a)
        then Inl (MalformedUpstreamError
               (''blockfrost returned the same native-asset unit with different hexadecimal casing: '' @
                 quoted (the prior) @ '' and '' @ quoted (am_unit a)))
        else
          let st' = st\<lparr>sp_seen := unitKey # sp_seen st,
                sp_units := map_option (jm_set unitKey (am_unit a)) (sp_units st)\<rparr> in
          if am_unit a = ''lovelace'' then Inr (st'\<lparr>sp_value := Some (numeric_string (am_quantity a))\<rparr>)
          else Inr (st'\<lparr>sp_assets := sp_assets st' @ [unit_asset a]\<rparr>))"

definition splitAmount :: "amountItem list \<Rightarrow> (string, string) js_map option \<Rightarrow>
    ((string \<times> Asset list) \<times> (string, string) js_map option) result" where
  "splitAmount items seenUnits =
     bindE (foldE split_item items \<lparr>sp_value = None, sp_assets = [], sp_seen = [], sp_units = seenUnits\<rparr>)
       (\<lambda>st. case sp_value st of
          None \<Rightarrow> Inl (MalformedUpstreamError (''blockfrost returned a utxo amount with no '' @ quoted ''lovelace'' @ '' unit''))
        | Some v \<Rightarrow> Inr ((v, sp_assets st), sp_units st))"

text \<open>When the spelling of a unit agrees with the one seen before.\<close>

definition spelled_alike :: "(string, string) js_map option \<Rightarrow> amountItem \<Rightarrow> bool" where
  "spelled_alike units a \<longleftrightarrow> (case units of None \<Rightarrow> True
     | Some m \<Rightarrow> jm_get m (toLowerCase (am_unit a)) \<in> {None, Some (am_unit a)})"

definition native :: "amountItem list \<Rightarrow> amountItem list" where
  "native items = filter (\<lambda>a. am_unit a \<noteq> ''lovelace'') items"

definition add_units :: "amountItem list \<Rightarrow> (string, string) js_map \<Rightarrow> (string, string) js_map" where
  "add_units items m = fold (\<lambda>a. jm_set (toLowerCase (am_unit a)) (am_unit a)) items m"

lemma split_item_Inr:
  "split_item a st = Inr st' \<longleftrightarrow>
     toLowerCase (am_unit a) \<notin> set (sp_seen st) \<and> spelled_alike (sp_units st) a \<and>
     st' = \<lparr>sp_value = (if am_unit a = ''lovelace'' then Some (numeric_string (am_quantity a)) else sp_value st),
        sp_assets = sp_assets st @ map unit_asset (native [a]),
        sp_seen = toLowerCase (am_unit a) # sp_seen st,
        sp_units = map_option (jm_set (toLowerCase (am_unit a)) (am_unit a)) (sp_units st)\<rparr>"
  by (auto simp: split_item_def Let_def spelled_alike_def native_def split: option.splits if_splits)

lemma spelled_alike_other:
  "toLowerCase (am_unit b) \<noteq> k \<Longrightarrow> spelled_alike (map_option (jm_set k u) units) b \<longleftrightarrow> spelled_alike units b"
  by (auto simp: spelled_alike_def split: option.splits)

lemma split_fold:
  "foldE split_item items st = Inr st' \<longleftrightarrow>
     distinct (map (toLowerCase \<circ> am_unit) items) \<and>
     (\<forall>a \<in> set items. toLowerCase (am_unit a) \<notin> set (sp_seen st) \<and> spelled_alike (sp_units st) a) \<and>
     st' = \<lparr>sp_value = (case filter (\<lambda>a. am_unit a = ''lovelace'') items of
          [] \<Rightarrow> sp_value st | l \<Rightarrow> Some (numeric_string (am_quantity (last l)))),
        sp_assets = sp_assets st @ map unit_asset (native items),
        sp_seen = rev (map (toLowerCase \<circ> am_unit) items) @ sp_seen st,
        sp_units = map_option (add_units items) (sp_units st)\<rparr>"
proof (induction items arbitrary: st)
  case Nil
  show ?case by (cases st) (auto simp: native_def add_units_def fun_eq_iff option.map_ident)
next
  case (Cons a items)
  let ?k = "toLowerCase (am_unit a)"
  have other: "spelled_alike (map_option (jm_set ?k (am_unit a)) u) b \<longleftrightarrow> spelled_alike u b"
    if "?k \<noteq> toLowerCase (am_unit b)" for b u
    using that by (intro spelled_alike_other) auto
  have add: "map_option (add_units items) (map_option (jm_set ?k (am_unit a)) u) =
      map_option (add_units (a # items)) u" for u
    by (cases u) (simp_all add: add_units_def)
  have native: "map unit_asset (native [a]) @ map unit_asset (native items) = map unit_asset (native (a # items))"
    by (simp add: native_def)
  show ?case
    by (simp add: bindE_Inr_conv split_item_Inr Cons.IH add native split: list.split)
      (use other in \<open>auto simp: image_iff\<close>)
qed

text \<open>
  An amount list is split exactly when no unit occurs twice (in whatever letter case), every spelling
  agrees with the ones seen before, and there is a lovelace entry; then the assets are all the other
  entries in order, with every digit.
\<close>

lemma splitAmount_Inr:
  "splitAmount items units = Inr ((v, assets), units') \<longleftrightarrow>
     distinct (map (toLowerCase \<circ> am_unit) items) \<and> (\<forall>a \<in> set items. spelled_alike units a) \<and>
     (\<exists>a \<in> set items. am_unit a = ''lovelace'' \<and> v = numeric_string (am_quantity a)) \<and>
     assets = map unit_asset (native items) \<and> units' = map_option (add_units items) units"
  (is "?l \<longleftrightarrow> ?r")
proof -
  let ?love = "filter (\<lambda>a. am_unit a = ''lovelace'') items"
  have one: "a = last ?love" if "a \<in> set items" "am_unit a = ''lovelace''"
    "distinct (map (toLowerCase \<circ> am_unit) items)" for a
  proof -
    have "last ?love \<in> set ?love" using that by (intro last_in_set) (auto simp: filter_empty_conv)
    then have "last ?love \<in> set items" "am_unit (last ?love) = am_unit a" using that by auto
    with that(1,3) show ?thesis by (auto simp: distinct_map inj_on_def)
  qed
  have l: "?l \<longleftrightarrow> distinct (map (toLowerCase \<circ> am_unit) items) \<and> (\<forall>a \<in> set items. spelled_alike units a) \<and>
      ?love \<noteq> [] \<and> v = numeric_string (am_quantity (last ?love)) \<and>
      assets = map unit_asset (native items) \<and> units' = map_option (add_units items) units"
    unfolding splitAmount_def bindE_Inr_conv split_fold
    by (auto split: option.splits list.splits)
  have "last ?love \<in> set ?love" if "?love \<noteq> []" using that by (rule last_in_set)
  then show ?thesis unfolding l using one by (auto simp: filter_empty_conv)
qed

section \<open>Pages\<close>

text \<open>
  A loop over pages \<open>page\<close>, \<open>page + 1\<close>, \<dots> (\<open>left\<close> of them): it stops at a 404 (\<open>None\<close>), at a short page,
  or when \<open>enough\<close> rows are in hand; \<open>ScanFull\<close> is the cap running out on a full page.
\<close>

datatype 'row scan_end = ScanMissing nat | ScanDone "'row list" nat | ScanFull "'row list"

primrec scan_pages :: "nat \<Rightarrow> (nat \<Rightarrow> ('s, 'row list option) io_result) \<Rightarrow> nat \<Rightarrow> ('row list \<Rightarrow> bool) \<Rightarrow>
    nat \<Rightarrow> 'row list \<Rightarrow> ('s, 'row scan_end) io_result" where
  "scan_pages 0 fetch psize enough page rows = returnIO (ScanFull rows)"
| "scan_pages (Suc left) fetch psize enough page rows =
     bindIO (fetch page) (\<lambda>r. case r of
         None \<Rightarrow> returnIO (ScanMissing page)
       | Some batch \<Rightarrow>
           if length batch < psize \<or> enough (rows @ batch) then returnIO (ScanDone (rows @ batch) page)
           else scan_pages left fetch psize enough (page + 1) (rows @ batch))"

text \<open>The pages a run read, from page \<open>p\<close> on.\<close>

fun reads :: "(nat \<Rightarrow> ('s, 'row list option) io_result) \<Rightarrow> nat \<Rightarrow> 'row list list \<Rightarrow> 's \<Rightarrow> 's \<Rightarrow> bool" where
  "reads fetch p [] s t \<longleftrightarrow> s = t"
| "reads fetch p (b # bs) s t \<longleftrightarrow> (\<exists>u. fetch p s = (Inr (Some b), u) \<and> reads fetch (p + 1) bs u t)"

definition full_pages :: "nat \<Rightarrow> 'row list list \<Rightarrow> bool" where
  "full_pages psize bs \<longleftrightarrow> (\<forall>b \<in> set bs. psize \<le> length b)"

lemma scan_pages_Inr:
  "scan_pages left fetch psize enough page rows s = (Inr r, t) \<Longrightarrow>
    (case r of
       ScanDone rs p \<Rightarrow> \<exists>bs b. reads fetch page (bs @ [b]) s t \<and> rs = rows @ concat bs @ b \<and> full_pages psize bs \<and>
         p = page + length bs \<and> length bs < left \<and> (length b < psize \<or> enough rs)
     | ScanFull rs \<Rightarrow> \<exists>bs. reads fetch page bs s t \<and> rs = rows @ concat bs \<and> full_pages psize bs \<and> length bs = left
     | ScanMissing p \<Rightarrow> \<exists>bs u. reads fetch page bs s u \<and> fetch p u = (Inr None, t) \<and> full_pages psize bs \<and>
         p = page + length bs \<and> length bs < left)"
proof (induction left arbitrary: page rows s)
  case 0
  then show ?case by (auto simp: io_simps full_pages_def)
next
  case (Suc left)
  from Suc.prems obtain b u where b: "fetch page s = (Inr b, u)" by (auto simp: io_simps)
  show ?case
  proof (cases b)
    case None
    with Suc.prems b have "r = ScanMissing page" "u = t" by (auto simp: io_simps)
    with b None show ?thesis
      by (auto simp: full_pages_def intro!: exI [of _ "[]"] exI [of _ s])
  next
    case (Some batch)
    show ?thesis
    proof (cases "length batch < psize \<or> enough (rows @ batch)")
      case True
      with Suc.prems b Some have "r = ScanDone (rows @ batch) page" "u = t" by (auto simp: io_simps)
      with b Some True show ?thesis by (auto simp: full_pages_def intro!: exI [of _ "[]"] exI [of _ batch])
    next
      case False
      then have run: "scan_pages left fetch psize enough (page + 1) (rows @ batch) u = (Inr r, t)"
        using Suc.prems b Some by (auto simp: io_simps)
      have cons: "reads fetch page (batch # bs) s v \<longleftrightarrow> reads fetch (page + 1) bs u v" for bs v
        using b Some by simp
      have full: "full_pages psize (batch # bs) \<longleftrightarrow> full_pages psize bs" for bs
        using False by (auto simp: full_pages_def)
      show ?thesis
      proof (cases r)
        case (ScanMissing p)
        with Suc.IH [OF run] obtain bs v where "reads fetch (page + 1) bs u v" "fetch p v = (Inr None, t)"
          "full_pages psize bs" "p = page + 1 + length bs" "length bs < left" by auto
        then have "reads fetch page (batch # bs) s v \<and> fetch p v = (Inr None, t) \<and> full_pages psize (batch # bs) \<and>
          p = page + length (batch # bs) \<and> length (batch # bs) < Suc left"
          by (simp add: full del: reads.simps add: cons)
        then show ?thesis unfolding ScanMissing scan_end.case by blast
      next
        case (ScanDone rs p)
        with Suc.IH [OF run] obtain bs c where "reads fetch (page + 1) (bs @ [c]) u t" "rs = (rows @ batch) @ concat bs @ c"
          "full_pages psize bs" "p = page + 1 + length bs" "length bs < left" "length c < psize \<or> enough rs" by auto
        then have "reads fetch page ((batch # bs) @ [c]) s t \<and> rs = rows @ concat (batch # bs) @ c \<and>
          full_pages psize (batch # bs) \<and> p = page + length (batch # bs) \<and> length (batch # bs) < Suc left \<and>
          (length c < psize \<or> enough rs)"
          by (simp add: full del: reads.simps add: cons)
        then show ?thesis unfolding ScanDone scan_end.case by blast
      next
        case (ScanFull rs)
        with Suc.IH [OF run] obtain bs where "reads fetch (page + 1) bs u t" "rs = (rows @ batch) @ concat bs"
          "full_pages psize bs" "length bs = left" by auto
        then have "reads fetch page (batch # bs) s t \<and> rs = rows @ concat (batch # bs) \<and>
          full_pages psize (batch # bs) \<and> length (batch # bs) = Suc left"
          by (simp add: full del: reads.simps add: cons)
        then show ?thesis unfolding ScanFull scan_end.case by blast
      qed
    qed
  qed
qed

text \<open>A server that holds the list \<open>xs\<close> and serves it by pages.\<close>

definition page_of :: "nat \<Rightarrow> 'row list \<Rightarrow> nat \<Rightarrow> 'row list" where
  "page_of psize xs p = take psize (drop ((p - 1) * psize) xs)"

definition serves :: "(nat \<Rightarrow> ('s, 'row list option) io_result) \<Rightarrow> nat \<Rightarrow> 'row list \<Rightarrow> bool" where
  "serves fetch psize xs \<longleftrightarrow> (\<forall>p s. 1 \<le> p \<longrightarrow> fst (fetch p s) = Inr (Some (page_of psize xs p)))"

lemma scan_pages_serves:
  assumes serves: "serves fetch psize xs" and "0 < psize" and "k * psize \<le> length xs"
  shows "fst (scan_pages left fetch psize enough (Suc k) (take (k * psize) xs) s) =
      Inr (ScanFull (take ((k + left) * psize) xs)) \<and> (k + left) * psize \<le> length xs \<and> 
        (\<forall>i. k < i \<and> i \<le> k + left \<longrightarrow> \<not> enough (take (i * psize) xs)) \<or>
    (\<exists>i. k < i \<and> i \<le> k + left \<and>
      fst (scan_pages left fetch psize enough (Suc k) (take (k * psize) xs) s) = Inr (ScanDone (take (i * psize) xs) i) \<and>
      (length xs < i * psize \<or> enough (take (i * psize) xs)))"
  using assms(3)
proof (induction left arbitrary: k s)
  case 0
  then show ?case by (auto simp: io_simps)
next
  case (Suc left)
  let ?b = "page_of psize xs (Suc k)"
  obtain u where u: "fetch (Suc k) s = (Inr (Some ?b), u)"
    using serves [unfolded serves_def, rule_format, of "Suc k" s] by (cases "fetch (Suc k) s") auto
  have app: "take (k * psize) xs @ ?b = take (Suc k * psize) xs"
    by (simp add: page_of_def add.commute [of psize] take_add)
  show ?case
  proof (cases "length ?b < psize \<or> enough (take (Suc k * psize) xs)")
    case True
    have "length xs < Suc k * psize" if "length ?b < psize"
      using that Suc.prems by (auto simp: page_of_def min_def split: if_splits)
    with True u app show ?thesis
      by (intro disjI2 exI [of _ "Suc k"]) (auto simp: bindIO_def returnIO_def)
  next
    case False
    have le: "Suc k * psize \<le> length xs"
    proof -
      have "psize \<le> length ?b" using False by simp
      then show ?thesis using \<open>0 < psize\<close> by (auto simp: page_of_def min_def split: if_splits)
    qed
    have run: "fst (scan_pages (Suc left) fetch psize enough (Suc k) (take (k * psize) xs) s) =
        fst (scan_pages left fetch psize enough (Suc (Suc k)) (take (Suc k * psize) xs) u)"
      using False u app by (simp add: bindIO_def del: mult_Suc)
    from Suc.IH [OF le, of u] show ?thesis
    proof
      assume l: "fst (scan_pages left fetch psize enough (Suc (Suc k)) (take (Suc k * psize) xs) u) =
          Inr (ScanFull (take ((Suc k + left) * psize) xs)) \<and> (Suc k + left) * psize \<le> length xs \<and>
          (\<forall>i. Suc k < i \<and> i \<le> Suc k + left \<longrightarrow> \<not> enough (take (i * psize) xs))"
      have "\<not> enough (take (i * psize) xs)" if "k < i \<and> i \<le> k + Suc left" for i
        using l that False by (cases "i = Suc k") (auto simp del: mult_Suc)
      with l show ?thesis unfolding run by simp
    next
      assume "\<exists>i. Suc k < i \<and> i \<le> Suc k + left \<and>
        fst (scan_pages left fetch psize enough (Suc (Suc k)) (take (Suc k * psize) xs) u) =
          Inr (ScanDone (take (i * psize) xs) i) \<and> (length xs < i * psize \<or> enough (take (i * psize) xs))"
      then obtain i where "Suc k < i" "i \<le> Suc k + left"
        "fst (scan_pages left fetch psize enough (Suc (Suc k)) (take (Suc k * psize) xs) u) =
          Inr (ScanDone (take (i * psize) xs) i)" "length xs < i * psize \<or> enough (take (i * psize) xs)" by blast
      then show ?thesis unfolding run by (intro disjI2 exI [of _ i]) auto
    qed
  qed
qed

section \<open>\<open>collectPages\<close>\<close>

definition BF_PAGE_SIZE :: nat where "BF_PAGE_SIZE = 100"
definition BF_MAX_PAGES :: nat where "BF_MAX_PAGES = 500"

record page_opts =
  po_pageSize :: nat
  po_maxPages :: nat
  po_label :: "string option"

definition default_pages :: page_opts where
  "default_pages = \<lparr>po_pageSize = BF_PAGE_SIZE, po_maxPages = BF_MAX_PAGES, po_label = None\<rparr>"

definition page_path_at :: "string \<Rightarrow> nat \<Rightarrow> nat \<Rightarrow> string" where
  "page_path_at basePath pageSize page =
     basePath @ (if str_includes basePath ''?'' then ''&'' else ''?'') @ ''count='' @ string_of_nat pageSize @
       ''&page='' @ string_of_nat page"

text \<open>One page of a list that always exists.\<close>

definition list_page :: "bf_client \<Rightarrow> ('s, 'j) bf_net \<Rightarrow> ('j \<Rightarrow> 'row option) \<Rightarrow> string \<Rightarrow> nat \<Rightarrow> nat \<Rightarrow>
    ('s, 'row list option) io_result" where
  "list_page c n dec basePath pageSize page =
     bindIO (bf_get c n (z_array dec) (page_path_at basePath pageSize page)) (\<lambda>rows. returnIO (Some rows))"

definition enough_rows :: "nat option \<Rightarrow> 'row list \<Rightarrow> bool" where
  "enough_rows needed rows \<longleftrightarrow> (case needed of None \<Rightarrow> False | Some k \<Rightarrow> k \<le> length rows)"

text \<open>\<open>needed = None\<close> is \<open>Number.POSITIVE_INFINITY\<close>.\<close>

definition collectPages :: "bf_client \<Rightarrow> ('s, 'j) bf_net \<Rightarrow> ('j \<Rightarrow> 'row option) \<Rightarrow> string \<Rightarrow> nat option \<Rightarrow>
    page_opts \<Rightarrow> ('s, 'row list) io_result" where
  "collectPages c n dec basePath needed opts =
     (let fetch = list_page c n dec basePath (po_pageSize opts) in
      bindIO (scan_pages (po_maxPages opts) fetch (po_pageSize opts) (enough_rows needed) 1 []) (\<lambda>e. case e of
         ScanDone rows _ \<Rightarrow> returnIO rows
       | ScanMissing _ \<Rightarrow> returnIO []
       | ScanFull rows \<Rightarrow> bindIO (fetch (po_maxPages opts + 1)) (\<lambda>probe.
           if probe = Some [] then returnIO rows
           else throwIO (ProviderError (''blockfrost '' @
                  (case po_label opts of None \<Rightarrow> basePath | Some l \<Rightarrow> l) @ '' exceeds this provider'' @ [CHR 0x27] @
                  ''s '' @ string_of_nat (po_maxPages opts * po_pageSize opts) @ ''-row scan bound'') None None))))"

text \<open>A list read by \<open>get\<close> never answers 404, so the walk never sees \<open>ScanMissing\<close>.\<close>

lemma list_page_not_missing: "list_page c n dec basePath psize page s \<noteq> (Inr None, t)"
  by (auto simp: list_page_def io_simps)

text \<open>Whatever upstream answers, the rows are whole pages up to a short one, the needed number, or the end.\<close>

lemma collectPages_sound:
  assumes "collectPages c n dec basePath needed opts s = (Inr rows, t)"
  shows "\<exists>bs u. reads (list_page c n dec basePath (po_pageSize opts)) 1 bs s u \<and> rows = concat bs \<and>
    full_pages (po_pageSize opts) (butlast bs) \<and> length bs \<le> po_maxPages opts \<and>
    (u = t \<and> bs \<noteq> [] \<and> (length (last bs) < po_pageSize opts \<or> enough_rows needed rows) \<or>
     length bs = po_maxPages opts \<and>
       list_page c n dec basePath (po_pageSize opts) (po_maxPages opts + 1) u = (Inr (Some []), t))"
proof -
  let ?f = "list_page c n dec basePath (po_pageSize opts)"
  from assms obtain e u where e: "scan_pages (po_maxPages opts) ?f (po_pageSize opts) (enough_rows needed) 1 [] s = (Inr e, u)"
    "(case e of ScanDone rows _ \<Rightarrow> returnIO rows | ScanMissing _ \<Rightarrow> returnIO []
       | ScanFull rows \<Rightarrow> bindIO (?f (po_maxPages opts + 1)) (\<lambda>probe.
           if probe = Some [] then returnIO rows
           else throwIO (ProviderError (''blockfrost '' @
                  (case po_label opts of None \<Rightarrow> basePath | Some l \<Rightarrow> l) @ '' exceeds this provider'' @ [CHR 0x27] @
                  ''s '' @ string_of_nat (po_maxPages opts * po_pageSize opts) @ ''-row scan bound'') None None))) u
       = (Inr rows, t)"
    unfolding collectPages_def Let_def bindIO_Inr_conv by blast
  note run = scan_pages_Inr [OF e(1)]
  show ?thesis
  proof (cases e)
    case (ScanMissing p)
    with run show ?thesis by (auto simp: list_page_not_missing)
  next
    case (ScanDone rs p)
    with run e(2) obtain bs b where "reads ?f 1 (bs @ [b]) s u" "rs = concat bs @ b"
      "full_pages (po_pageSize opts) bs" "length bs < po_maxPages opts"
      "length b < po_pageSize opts \<or> enough_rows needed rs" "rs = rows" "u = t" by (auto simp: io_simps)
    then show ?thesis by (intro exI [of _ "bs @ [b]"] exI [of _ u]) auto
  next
    case (ScanFull rs)
    with run e(2) obtain bs where "reads ?f 1 bs s u" "rs = concat bs" "full_pages (po_pageSize opts) bs"
      "length bs = po_maxPages opts" "?f (po_maxPages opts + 1) u = (Inr (Some []), t)" "rs = rows"
      by (auto simp: io_simps split: if_splits)
    then show ?thesis
      by (intro exI [of _ bs] exI [of _ u]) (auto simp: full_pages_def dest: in_set_butlastD)
  qed
qed

text \<open>
  C30: against an upstream that holds a list, \<open>collectPages\<close> returns a prefix of it that is the whole
  list or has at least the rows the caller needs; a list longer than the scan bound is an error and
  never a shortened answer.
\<close>

theorem collectPages_exact:
  fixes n :: "('s, 'j) bf_net"
  assumes "\<And>p (s :: 's). 1 \<le> p \<Longrightarrow> fst (bf_get c n (z_array dec) (page_path_at basePath (po_pageSize opts) p) s) =
      Inr (take (po_pageSize opts) (drop ((p - 1) * po_pageSize opts) xs))"
    and "0 < po_pageSize opts"
  shows "case fst (collectPages c n dec basePath needed opts s) of
      Inr rows \<Rightarrow> \<exists>m. rows = take m xs \<and> (length xs \<le> m \<or> (\<exists>k. needed = Some k \<and> k \<le> m))
    | Inl e \<Rightarrow> po_maxPages opts * po_pageSize opts < length xs \<and> statusCode_of e = Some 502 \<and>
        (\<forall>k. needed = Some k \<longrightarrow> po_maxPages opts = 0 \<or> po_maxPages opts * po_pageSize opts < k)"
proof -
  let ?f = "list_page c n dec basePath (po_pageSize opts)" and ?sz = "po_pageSize opts" and ?mx = "po_maxPages opts"
  have serves: "serves ?f ?sz xs"
    using assms(1) by (auto simp: serves_def list_page_def page_of_def bindIO_def returnIO_def split: prod.split sum.split)
      (metis Inl_Inr_False fst_conv old.sum.inject(2) One_nat_def)+
  obtain r t where scan: "scan_pages ?mx ?f ?sz (enough_rows needed) 1 [] s = (r, t)" by fastforce
  from scan_pages_serves [OF serves assms(2), of 0 ?mx "enough_rows needed" s] scan
  consider (full) "r = Inr (ScanFull (take (?mx * ?sz) xs))" "?mx * ?sz \<le> length xs"
      "\<forall>i. 0 < i \<and> i \<le> ?mx \<longrightarrow> \<not> enough_rows needed (take (i * ?sz) xs)"
    | (finished) i where "0 < i" "i \<le> ?mx" "r = Inr (ScanDone (take (i * ?sz) xs) i)"
      "length xs < i * ?sz \<or> enough_rows needed (take (i * ?sz) xs)" by auto
  then show ?thesis
  proof cases
    case finished
    then have "fst (collectPages c n dec basePath needed opts s) = Inr (take (i * ?sz) xs)"
      using scan by (simp add: collectPages_def Let_def bindIO_def returnIO_def)
    with finished(4) show ?thesis
      by (auto simp: enough_rows_def split: option.splits intro!: exI [of _ "i * ?sz"])
  next
    case full
    let ?probe = "take ?sz (drop (?mx * ?sz) xs)"
    obtain u where u: "?f (?mx + 1) t = (Inr (Some ?probe), u)"
      using serves [unfolded serves_def, rule_format, of "?mx + 1" t]
      by (cases "?f (?mx + 1) t") (auto simp: page_of_def)
    have probe: "?probe = [] \<longleftrightarrow> length xs \<le> ?mx * ?sz" using assms(2) by simp
    show ?thesis
    proof (cases "length xs \<le> ?mx * ?sz")
      case True
      then have "fst (collectPages c n dec basePath needed opts s) = Inr (take (?mx * ?sz) xs)"
        using scan full u probe by (simp add: collectPages_def Let_def bindIO_def returnIO_def)
      with True show ?thesis by (auto intro!: exI [of _ "?mx * ?sz"])
    next
      case False
      then obtain m where "fst (collectPages c n dec basePath needed opts s) = Inl (ProviderError m None None)"
        using scan full u probe by (simp add: collectPages_def Let_def bindIO_def returnIO_def throwIO_def)
      moreover have "?mx = 0 \<or> ?mx * ?sz < k" if "needed = Some k" for k
        using full(3) [rule_format, of ?mx] that False by (auto simp: enough_rows_def not_le)
      ultimately show ?thesis using False by simp
    qed
  qed
qed

definition ok_json :: "'j jvalue \<Rightarrow> 'j fetch_outcome" where
  "ok_json v = FetchResponse \<lparr>res_ok = True, res_status = 200, res_header = (\<lambda>h. None), res_json = JsonOk v,
     res_text = None\<rparr>"

definition by_path :: "bf_client \<Rightarrow> (string \<Rightarrow> 'j fetch_outcome) \<Rightarrow> (unit, 'j) bf_net" where
  "by_path c f = (always FetchFailed)\<lparr>doFetch := (\<lambda>req s. (f (drop (length (bc_baseUrl c)) (req_url req)), s))\<rparr>"

lemma bf_request_by_path:
  "f path = FetchResponse res \<Longrightarrow> res_status res \<noteq> 429 \<Longrightarrow>
     bf_request c (by_path c f) path bf_get_init True s = (Inr res, s)"
  by (simp add: bf_request_def bf_request_loop.simps [of _ _ _ _ _ 0] fetchOnce_def by_path_def always_def
      bf_http_request_def Let_def)

lemma bf_get_by_path:
  "f path = ok_json v \<Longrightarrow> sch v = Some a \<Longrightarrow> bf_get c (by_path c f) sch path s = (Inr a, s)"
  using bf_request_by_path [of f path _ c s]
  by (simp add: bf_get_def bf_read_def retry_loop.simps [of _ _ _ _ "Suc 0"] bindIO_def liftE_def ok_json_def
      bf_answer_def readBody_def bf_parse_def)

lemma bf_getOrUndefined_by_path:
  "f path = ok_json v \<Longrightarrow> sch v = Some a \<Longrightarrow> bf_getOrUndefined c (by_path c f) sch path s = (Inr (Some a), s)"
  using bf_request_by_path [of f path _ c s]
  by (simp add: bf_getOrUndefined_def bf_read_def retry_loop.simps [of _ _ _ _ "Suc 0"] bindIO_def liftE_def ok_json_def
      bf_answer_def readBody_def bf_parse_def)

lemma page_path_at_inj: "page_path_at b k p = page_path_at b k q \<longleftrightarrow> p = q"
  by (simp add: page_path_at_def string_of_nat_inj)

definition three_pools :: "string \<Rightarrow> int fetch_outcome" where
  "three_pools path =
     (if path = page_path_at ''/pools'' 2 1 then ok_json (JArray [1, 2])
      else if path = page_path_at ''/pools'' 2 2 then ok_json (JArray [3])
      else ok_json (JArray []))"

lemma three_pools_pages:
  "1 \<le> p \<Longrightarrow> three_pools (page_path_at ''/pools'' 2 p) = ok_json (JArray (take 2 (drop ((p - 1) * 2) [1, 2, 3])))"
proof -
  assume "1 \<le> p"
  then consider "p = 1" | "p = 2" | "3 \<le> p" by linarith
  then show ?thesis
  proof cases
    case 3
    then have "3 \<le> (p - 1) * 2" by linarith
    then have "drop ((p - 1) * 2) [1, 2, 3 :: int] = []" by simp
    with 3 show ?thesis by (simp add: three_pools_def page_path_at_inj)
  qed (simp_all add: three_pools_def page_path_at_inj)
qed

theorem collectPages_exact_witness:
  "case fst (collectPages bf_default (by_path bf_default three_pools) Some ''/pools'' (Some 3)
       \<lparr>po_pageSize = 2, po_maxPages = 5, po_label = None\<rparr> ()) of
      Inr rows \<Rightarrow> \<exists>m. rows = take m [1, 2, 3] \<and> (length [1, 2, 3 :: int] \<le> m \<or> 3 \<le> m)
    | Inl e \<Rightarrow> False"
proof -
  let ?o = "\<lparr>po_pageSize = 2, po_maxPages = 5, po_label = None\<rparr>"
  have pages: "fst (bf_get bf_default (by_path bf_default three_pools) (z_array Some)
      (page_path_at ''/pools'' (po_pageSize ?o) p) s) = Inr (take (po_pageSize ?o) (drop ((p - 1) * po_pageSize ?o) [1, 2, 3]))"
    if "1 \<le> p" for p s
  proof -
    have "z_array Some (JArray xs) = Some xs" for xs :: "int list"
      by (simp add: z_array_def those_map_Some list.rel_eq)
    then show ?thesis
      using bf_get_by_path [where sch = "z_array Some" and c = bf_default and f = three_pools, OF three_pools_pages [OF that]] by simp
  qed
  show ?thesis
    using collectPages_exact [where n = "by_path bf_default three_pools" and c = bf_default and dec = Some
        and basePath = "''/pools''" and opts = ?o and xs = "[1, 2, 3]" and needed = "Some 3" and s = "()", OF pages]
    by (auto split: sum.splits)
qed

end
