(* ===== verification/Blockfrost_Account.thy ===== *)
theory Blockfrost_Account
  imports Blockfrost_Lists "HOL-Library.Multiset"
begin

text \<open>
  The account reads of the Blockfrost driver: \<^verbatim>\<open>src/providers/blockfrost/blocks.ts\<close> (creation-block
  heights and the retry after a rollback) and \<^verbatim>\<open>account.ts\<close> (state, UTxOs, rewards, addresses).
  A \<open>mapWithConcurrency\<close> over upstream reads is run here with its calls one after the other, in input
  order, the first failure stopping it; the interleavings are the subject of the theory Concurrency.
\<close>

section \<open>Creation-block heights\<close>

definition BLOCK_LOOKUP_ATTEMPTS :: nat where "BLOCK_LOOKUP_ATTEMPTS = 2"
definition UTXO_ROLLBACK_SCAN_ATTEMPTS :: nat where "UTXO_ROLLBACK_SCAN_ATTEMPTS = 3"

definition retryUtxoScanAfterRollback :: "('s, 'a) io_result \<Rightarrow> ('s, 'a) io_result" where
  "retryUtxoScanAfterRollback scan =
     retry_loop (\<lambda>e. e = CreationBlockRolledBackError) UTXO_ROLLBACK_SCAN_ATTEMPTS (\<lambda>_ _ s. s) scan 1"

text \<open>The schemas of both lookups hold one height.\<close>

definition height_ok :: "int \<Rightarrow> bool" where
  "height_ok h \<longleftrightarrow> 0 \<le> h \<and> isSafeInteger h"

definition block_path :: "string \<Rightarrow> string" where
  "block_path h = ''/blocks/'' @ encodeURIComponent h"

primrec lookup_block :: "nat \<Rightarrow> bf_client \<Rightarrow> ('s, 'j) bf_net \<Rightarrow> ('j jvalue \<Rightarrow> int option) \<Rightarrow> string \<Rightarrow>
    ('s, string \<times> nat) io_result" where
  "lookup_block 0 c n dec h = throwIO CreationBlockRolledBackError"
| "lookup_block (Suc left) c n dec h =
     bindIO (bf_getOrUndefined c n (refine dec height_ok) (block_path h)) (\<lambda>b. case b of
         Some height \<Rightarrow> returnIO (h, nat height)
       | None \<Rightarrow> lookup_block left c n dec h)"

definition resolveBlockHeights :: "bf_client \<Rightarrow> ('s, 'j) bf_net \<Rightarrow> ('j jvalue \<Rightarrow> int option) \<Rightarrow> string list \<Rightarrow>
    ('s, (string, nat) js_map) io_result" where
  "resolveBlockHeights c n dec blockHashes = mapIO (lookup_block BLOCK_LOOKUP_ATTEMPTS c n dec) (dedupe blockHashes)"

definition lookup_tx_height :: "bf_client \<Rightarrow> ('s, 'j) bf_net \<Rightarrow> ('j jvalue \<Rightarrow> int option) \<Rightarrow> string \<Rightarrow>
    ('s, (string \<times> nat) option) io_result" where
  "lookup_tx_height c n dec h =
     bindIO (bf_getOrUndefined c n (refine dec height_ok) (''/txs/'' @ encodeURIComponent h)) (\<lambda>b.
       returnIO (map_option (\<lambda>height. (h, nat height)) b))"

definition resolveTxBlockHeights :: "bf_client \<Rightarrow> ('s, 'j) bf_net \<Rightarrow> ('j jvalue \<Rightarrow> int option) \<Rightarrow> string list \<Rightarrow>
    ('s, (string, nat) js_map) io_result" where
  "resolveTxBlockHeights c n dec txHashes =
     bindIO (mapIO (lookup_tx_height c n dec) (dedupe txHashes)) (\<lambda>entries. returnIO (List.map_filter id entries))"

lemma lookup_block_key: "lookup_block k c n dec h s = (Inr e, t) \<Longrightarrow> fst e = h"
  by (induction k arbitrary: s) (auto simp: io_simps split: option.splits)

lemma mapIO_Inr_all2:
  "mapIO f xs s = (Inr ys, t) \<Longrightarrow> (\<And>x s y t. f x s = (Inr y, t) \<Longrightarrow> P x y) \<Longrightarrow> list_all2 P xs ys"
  by (induction xs arbitrary: ys s) (auto simp: io_simps)

lemma resolveBlockHeights_keys:
  assumes "resolveBlockHeights c n dec hs s = (Inr m, t)"
  shows "jm_keys m = dedupe hs"
proof -
  have "list_all2 (\<lambda>h e. fst e = h) (dedupe hs) m"
    using assms lookup_block_key unfolding resolveBlockHeights_def by (rule mapIO_Inr_all2)
  then show ?thesis
    unfolding jm_keys_def by (induction rule: list_all2_induct) auto
qed

lemma retry_rollback_Inr:
  "retryUtxoScanAfterRollback scan s = (Inr a, t) \<Longrightarrow> \<exists>u. scan u = (Inr a, t)"
  unfolding retryUtxoScanAfterRollback_def by (rule retry_loop_Inr)

section \<open>Account state\<close>

record bfAccountRow =
  ba_stake_address :: string
  ba_registered :: bool
  ba_controlled_amount :: numeric
  ba_rewards_sum :: numeric
  ba_withdrawals_sum :: numeric
  ba_withdrawable_amount :: numeric
  ba_pool_id :: "string option"
  ba_drep_id :: "string option"

definition bfAccountRow_ok :: "bfAccountRow \<Rightarrow> bool" where
  "bfAccountRow_ok r \<longleftrightarrow> numeric_ok (ba_controlled_amount r) \<and> numeric_ok (ba_rewards_sum r) \<and>
     numeric_ok (ba_withdrawals_sum r) \<and> numeric_ok (ba_withdrawable_amount r)"

definition account_path :: "string \<Rightarrow> string" where
  "account_path a = ''/accounts/'' @ encodeURIComponent a"

definition bf_account_state :: "string \<Rightarrow> bfAccountRow option \<Rightarrow> AccountState" where
  "bf_account_state stakeAddress r = (case r of
     None \<Rightarrow> \<lparr>as_stakeAddress = stakeAddress, as_registered = False, as_balance = ''0'',
       as_rewardsAvailable = ''0'', as_rewardsSum = ''0'', as_withdrawalsSum = ''0'',
       as_delegatedPool = None, as_delegatedDrep = None\<rparr>
   | Some r \<Rightarrow> \<lparr>as_stakeAddress = ba_stake_address r, as_registered = ba_registered r,
       as_balance = numeric_string (ba_controlled_amount r),
       as_rewardsAvailable = numeric_string (ba_withdrawable_amount r),
       as_rewardsSum = numeric_string (ba_rewards_sum r),
       as_withdrawalsSum = numeric_string (ba_withdrawals_sum r),
       as_delegatedPool = ba_pool_id r, as_delegatedDrep = ba_drep_id r\<rparr>)"

definition bf_getAccountState :: "bf_client \<Rightarrow> ('s, 'j) bf_net \<Rightarrow> ('j jvalue \<Rightarrow> bfAccountRow option) \<Rightarrow> string \<Rightarrow>
    ('s, AccountState) io_result" where
  "bf_getAccountState c n dec stakeAddress =
     bindIO (bf_getOrUndefined c n (refine dec bfAccountRow_ok) (account_path stakeAddress))
       (\<lambda>r. returnIO (bf_account_state stakeAddress r))"

section \<open>UTxOs\<close>

record bfUtxoRow =
  bu_address :: string
  bu_tx_hash :: string
  bu_output_index :: int
  bu_amount :: "amountItem list"
  bu_block :: string
  bu_data_hash :: "string option"
  bu_inline_datum :: "string option"
  bu_reference_script_hash :: "string option"

definition bfUtxoRow_ok :: "bfUtxoRow \<Rightarrow> bool" where
  "bfUtxoRow_ok r \<longleftrightarrow> 0 \<le> bu_output_index r \<and> isSafeInteger (bu_output_index r) \<and> amountList_ok (bu_amount r)"

definition bf_mapUtxo :: "bfUtxoRow \<Rightarrow> (string, string) js_map \<Rightarrow> (string, nat) js_map \<Rightarrow>
    (Utxo \<times> (string, string) js_map) result" where
  "bf_mapUtxo row seenUnits blockHeights =
     bindE (splitAmount (bu_amount row) (Some seenUnits)) (\<lambda>((v, assets), seenUnits').
       case jm_get blockHeights (bu_block row) of
         None \<Rightarrow> Inl (ProviderError ''blockfrost account utxo references a block whose height was not resolved'' None None)
       | Some h \<Rightarrow> Inr (\<lparr>u_txHash = bu_tx_hash row, u_outputIndex = bu_output_index row, u_address = bu_address row,
           u_blockHeight = h, u_value = v, u_assets = assets, u_datumHash = bu_data_hash row,
           u_inlineDatum = bu_inline_datum row, u_referenceScriptHash = bu_reference_script_hash row,
           u_referenceScript = None\<rparr>, the seenUnits'))"

text \<open>\<open>rows.map((row) => mapUtxo(row, seenUnits, blockHeights))\<close> with one \<open>seenUnits\<close>.\<close>

fun bf_mapUtxos :: "bfUtxoRow list \<Rightarrow> (string, string) js_map \<Rightarrow> (string, nat) js_map \<Rightarrow> Utxo list result" where
  "bf_mapUtxos [] units heights = Inr []"
| "bf_mapUtxos (r # rs) units heights =
     bindE (bf_mapUtxo r units heights) (\<lambda>(u, units').
       bindE (bf_mapUtxos rs units' heights) (\<lambda>us. Inr (u # us)))"

definition UTXO_PAGE_SIZE :: nat where "UTXO_PAGE_SIZE = 100"
definition UTXO_MAX_PAGES :: nat where "UTXO_MAX_PAGES = 50"
definition UTXO_CONSISTENCY_SCANS :: nat where "UTXO_CONSISTENCY_SCANS = 3"

record 'row UtxoScan =
  us_rows :: "'row list"
  us_keys :: "string list"
  us_needsVerification :: bool
  us_hasDuplicate :: bool

definition bf_utxoKey :: "bfUtxoRow \<Rightarrow> string" where
  "bf_utxoKey r = bu_tx_hash r @ ''#'' @ string_of_int (bu_output_index r)"

definition sameKeys :: "string list \<Rightarrow> string list \<Rightarrow> bool" where
  "sameKeys a b \<longleftrightarrow> length a = length b \<and> list_all2 (=) a b"

definition utxo_page :: "bf_client \<Rightarrow> ('s, 'j) bf_net \<Rightarrow> ('j \<Rightarrow> 'row option) \<Rightarrow> string \<Rightarrow> nat \<Rightarrow>
    ('s, 'row list option) io_result" where
  "utxo_page c n dec path page = bf_getOrUndefined c n (z_array dec)
     (path @ ''?count='' @ string_of_nat UTXO_PAGE_SIZE @ ''&page='' @ string_of_nat page @ ''&order=asc'')"

definition scan_of :: "('row \<Rightarrow> string) \<Rightarrow> 'row list \<Rightarrow> bool \<Rightarrow> 'row UtxoScan" where
  "scan_of key rows verify = \<lparr>us_rows = rows, us_keys = map key rows, us_needsVerification = verify,
     us_hasDuplicate = (\<not> distinct (map key rows))\<rparr>"

text \<open>One complete walk, for accounts and for addresses: they differ in the cap and in the messages.\<close>

definition scan_utxo_pages :: "('row \<Rightarrow> string) \<Rightarrow> nat \<Rightarrow> (nat \<Rightarrow> ('s, 'row list option) io_result) \<Rightarrow>
    thrown \<Rightarrow> thrown \<Rightarrow> ('s, 'row UtxoScan) io_result" where
  "scan_utxo_pages key maxPages fetch changed exceeds =
     bindIO (scan_pages maxPages fetch UTXO_PAGE_SIZE (\<lambda>_. False) 1 []) (\<lambda>e. case e of
         ScanMissing page \<Rightarrow> if page = 1 then returnIO (scan_of key [] False) else throwIO changed
       | ScanDone rows page \<Rightarrow> returnIO (scan_of key rows (page > 1))
       | ScanFull rows \<Rightarrow> bindIO (fetch (maxPages + 1)) (\<lambda>probe.
           if probe = None \<or> probe = Some [] then returnIO (scan_of key rows True) else throwIO exceeds))"

definition changed_during_read :: thrown where
  "changed_during_read = ProviderError ''blockfrost account utxos changed during paged read; retry'' None None"

definition scanAccountUtxos :: "bf_client \<Rightarrow> ('s, 'j) bf_net \<Rightarrow> ('j \<Rightarrow> bfUtxoRow option) \<Rightarrow> string \<Rightarrow>
    ('s, bfUtxoRow UtxoScan) io_result" where
  "scanAccountUtxos c n dec path =
     scan_utxo_pages bf_utxoKey UTXO_MAX_PAGES (utxo_page c n (refine dec bfUtxoRow_ok) path) changed_during_read
       (ProviderError (''blockfrost account utxos exceed this provider'' @ [CHR 0x27] @ ''s '' @
          string_of_nat (UTXO_MAX_PAGES * UTXO_PAGE_SIZE) @ ''-utxo scan bound'') None None)"

definition settle_utxos :: "bf_client \<Rightarrow> ('s, 'j) bf_net \<Rightarrow> ('j jvalue \<Rightarrow> int option) \<Rightarrow> bfUtxoRow list \<Rightarrow>
    ('s, Utxo list) io_result" where
  "settle_utxos c n dech rows =
     bindIO (resolveBlockHeights c n dech (map bu_block rows)) (\<lambda>heights. liftE (bf_mapUtxos rows [] heights))"

primrec agree_loop :: "nat \<Rightarrow> ('s, 'row UtxoScan) io_result \<Rightarrow> ('row list \<Rightarrow> ('s, 'a) io_result) \<Rightarrow> thrown \<Rightarrow>
    'row UtxoScan \<Rightarrow> ('s, 'a) io_result" where
  "agree_loop 0 scan settle changed previous = throwIO changed"
| "agree_loop (Suc left) scan settle changed previous =
     bindIO scan (\<lambda>current.
       if \<not> us_hasDuplicate previous \<and> \<not> us_hasDuplicate current \<and> sameKeys (us_keys previous) (us_keys current)
       then settle (us_rows current)
       else agree_loop left scan settle changed current)"

text \<open>The first scan is enough when it is one page without repeats.\<close>

definition read_agreed :: "('s, 'row UtxoScan) io_result \<Rightarrow> ('row list \<Rightarrow> ('s, 'a) io_result) \<Rightarrow> thrown \<Rightarrow>
    ('s, 'a) io_result" where
  "read_agreed scan settle changed = bindIO scan (\<lambda>previous.
     if \<not> us_needsVerification previous \<and> \<not> us_hasDuplicate previous then settle (us_rows previous)
     else agree_loop (UTXO_CONSISTENCY_SCANS - 1) scan settle changed previous)"

definition bf_getAccountUtxos :: "bf_client \<Rightarrow> ('s, 'j) bf_net \<Rightarrow> ('j \<Rightarrow> bfUtxoRow option) \<Rightarrow>
    ('j jvalue \<Rightarrow> int option) \<Rightarrow> string \<Rightarrow> ('s, Utxo list) io_result" where
  "bf_getAccountUtxos c n dec dech stakeAddress =
     retryUtxoScanAfterRollback (read_agreed (scanAccountUtxos c n dec (account_path stakeAddress @ ''/utxos''))
       (settle_utxos c n dech) changed_during_read)"

lemma sameKeys_eq [simp]: "sameKeys a b \<longleftrightarrow> a = b"
  by (auto simp: sameKeys_def list.rel_eq)

lemma agree_loop_Inr:
  "agree_loop left scan settle changed previous s = (Inr a, t) \<Longrightarrow>
    \<exists>prev cur u v. scan u = (Inr cur, v) \<and> settle (us_rows cur) v = (Inr a, t) \<and>
      us_keys prev = us_keys cur \<and> \<not> us_hasDuplicate cur \<and>
      (prev = previous \<and> u = s \<or> (\<exists>w. scan w = (Inr prev, u)))"
proof (induction left arbitrary: previous s)
  case (Suc left)
  then obtain cur v where cur: "scan s = (Inr cur, v)" by (auto simp: io_simps)
  show ?case
  proof (cases "\<not> us_hasDuplicate previous \<and> \<not> us_hasDuplicate cur \<and> us_keys previous = us_keys cur")
    case True
    with Suc.prems cur have "settle (us_rows cur) v = (Inr a, t)" by (auto simp: io_simps)
    with True cur show ?thesis by blast
  next
    case False
    with Suc.prems cur have "agree_loop left scan settle changed cur v = (Inr a, t)" by (auto simp: io_simps)
    from Suc.IH [OF this] cur show ?thesis by blast
  qed
qed (simp add: io_simps)

lemma read_agreed_Inr:
  assumes "read_agreed scan settle changed s = (Inr a, t)"
  shows "\<exists>sc s0 s1. scan s0 = (Inr sc, s1) \<and> \<not> us_hasDuplicate sc \<and> settle (us_rows sc) s1 = (Inr a, t) \<and>
    (\<not> us_needsVerification sc \<or> (\<exists>prev s'. us_keys prev = us_keys sc \<and> scan s' = (Inr prev, s0)))"
proof -
  obtain first w where first: "scan s = (Inr first, w)"
    and rest: "(if \<not> us_needsVerification first \<and> \<not> us_hasDuplicate first then settle (us_rows first)
      else agree_loop (UTXO_CONSISTENCY_SCANS - 1) scan settle changed first) w = (Inr a, t)"
    using assms by (auto simp: read_agreed_def bindIO_Inr_conv)
  show ?thesis
  proof (cases "\<not> us_needsVerification first \<and> \<not> us_hasDuplicate first")
    case True
    with first rest show ?thesis by auto
  next
    case False
    then have "agree_loop (UTXO_CONSISTENCY_SCANS - 1) scan settle changed first w = (Inr a, t)"
      using rest by (simp only: if_False)
    from agree_loop_Inr [OF this] first show ?thesis by blast
  qed
qed

text \<open>A scan read every row of the pages it covers; its fields say what it found.\<close>

lemma scan_utxo_pages_sound:
  assumes "scan_utxo_pages key maxPages fetch changed exceeds s = (Inr sc, t)" and "1 < maxPages"
  shows "us_keys sc = map key (us_rows sc) \<and> (us_hasDuplicate sc \<longleftrightarrow> \<not> distinct (us_keys sc)) \<and>
    (\<exists>bs u. reads fetch 1 bs s u \<and> us_rows sc = concat bs \<and>
       (length bs = 0 \<and> fetch 1 u = (Inr None, t) \<and> \<not> us_needsVerification sc \<or>
        length bs = 1 \<and> u = t \<and> \<not> us_needsVerification sc \<or>
        1 < length bs \<and> length bs \<le> maxPages \<and> us_needsVerification sc))"
proof -
  from assms(1) obtain e u where e: "scan_pages maxPages fetch UTXO_PAGE_SIZE (\<lambda>_. False) 1 [] s = (Inr e, u)"
    unfolding scan_utxo_pages_def bindIO_Inr_conv by blast
  note run = scan_pages_Inr [OF e]
  show ?thesis
  proof (cases e)
    case (ScanMissing p)
    with run assms e show ?thesis
      by (auto simp: scan_utxo_pages_def bindIO_def returnIO_def throwIO_def scan_of_def split: if_splits
          intro!: exI [of _ "[]"])
  next
    case (ScanDone rs p)
    with run obtain bs b where bs: "reads fetch 1 (bs @ [b]) s u" "rs = concat bs @ b" "p = 1 + length bs"
      "length bs < maxPages" by auto
    moreover have "sc = scan_of key rs (1 < p)" "u = t"
      using assms e ScanDone by (auto simp: scan_utxo_pages_def bindIO_def returnIO_def)
    ultimately show ?thesis
      by (cases "bs = []") (auto simp: scan_of_def intro!: exI [of _ "bs @ [b]"] exI [of _ t])
  next
    case (ScanFull rs)
    with run obtain bs where bs: "reads fetch 1 bs s u" "rs = concat bs" "length bs = maxPages" by auto
    moreover have "sc = scan_of key rs True"
      using assms e ScanFull
      by (auto simp: scan_utxo_pages_def bindIO_def returnIO_def throwIO_def split: prod.splits sum.splits if_splits)
    ultimately show ?thesis using assms(2) by (auto simp: scan_of_def intro!: exI [of _ bs] exI [of _ u])
  qed
qed

lemma scanAccountUtxos_sound:
  "scanAccountUtxos c n dec path s = (Inr sc, t) \<Longrightarrow>
     us_keys sc = map bf_utxoKey (us_rows sc) \<and> (us_hasDuplicate sc \<longleftrightarrow> \<not> distinct (us_keys sc))"
  unfolding scanAccountUtxos_def by (drule scan_utxo_pages_sound) (auto simp: UTXO_MAX_PAGES_def)

lemma bf_mapUtxos_Inr:
  "bf_mapUtxos rows units heights = Inr us \<Longrightarrow>
    list_all2 (\<lambda>r u. u_txHash u = bu_tx_hash r \<and> u_outputIndex u = bu_output_index r \<and>
      u_address u = bu_address r \<and> jm_get heights (bu_block r) = Some (u_blockHeight u) \<and>
      (\<exists>a \<in> set (bu_amount r). am_unit a = ''lovelace'' \<and> u_value u = numeric_string (am_quantity a)) \<and>
      u_assets u = map unit_asset (native (bu_amount r))) rows us"
proof (induction rows units heights arbitrary: us rule: bf_mapUtxos.induct)
  case (2 r rs units heights)
  from 2(2) obtain u units' us' where u: "bf_mapUtxo r units heights = Inr (u, units')"
    "bf_mapUtxos rs units' heights = Inr us'" "us = u # us'"
    by (auto simp: sum_simps)
  from 2(1) [OF _ refl u(2)] u(1,3) show ?case
    by (fastforce simp: bf_mapUtxo_def sum_simps splitAmount_Inr split: option.splits)
qed simp

definition utxo_ref :: "Utxo \<Rightarrow> string \<times> int" where
  "utxo_ref u = (u_txHash u, u_outputIndex u)"

lemma distinct_utxo_refs:
  assumes "list_all2 (\<lambda>r u. u_txHash u = bu_tx_hash r \<and> u_outputIndex u = bu_output_index r \<and> Q r u) rows us"
    and "distinct (map bf_utxoKey rows)"
  shows "distinct (map utxo_ref us)"
proof -
  have "map utxo_ref us = map (\<lambda>r. (bu_tx_hash r, bu_output_index r)) rows"
    using assms(1) by (induction rule: list_all2_induct) (auto simp: utxo_ref_def)
  moreover have "distinct (map (\<lambda>r. (bu_tx_hash r, bu_output_index r)) rows)"
    using assms(2) by (induction rows) (auto simp: bf_utxoKey_def)
  ultimately show ?thesis by simp
qed

section \<open>Properties of the UTxO read\<close>


text \<open>One account with one output, read from a server with one page.\<close>

definition one_utxo :: bfUtxoRow where
  "one_utxo = \<lparr>bu_address = ''addr1'', bu_tx_hash = ''ab'', bu_output_index = 0,
     bu_amount = [\<lparr>am_unit = ''lovelace'', am_quantity = NumStr ''5''\<rparr>], bu_block = ''b1'',
     bu_data_hash = None, bu_inline_datum = None, bu_reference_script_hash = None\<rparr>"

definition one_utxo_server :: "string \<Rightarrow> (bfUtxoRow + int) fetch_outcome" where
  "one_utxo_server path =
     (if path = ''/blocks/b1'' then ok_json (JOther (Inr 7))
      else if path = ''/accounts/stake1/utxos?count=100&page=1&order=asc'' then ok_json (JArray [Inl one_utxo])
      else FetchFailed)"

definition as_row :: "'a + 'b \<Rightarrow> 'a option" where
  "as_row j = (case j of Inl r \<Rightarrow> Some r | Inr _ \<Rightarrow> None)"

definition as_height :: "('a + 'b) jvalue \<Rightarrow> 'b option" where
  "as_height v = (case v of JOther (Inr h) \<Rightarrow> Some h | _ \<Rightarrow> None)"

lemma one_utxo_read:
  "bf_getAccountUtxos bf_default (by_path bf_default one_utxo_server) as_row as_height ''stake1'' () =
     (Inr [\<lparr>u_txHash = ''ab'', u_outputIndex = 0, u_address = ''addr1'', u_blockHeight = 7, u_value = ''5'',
        u_assets = [], u_datumHash = None, u_inlineDatum = None, u_referenceScriptHash = None,
        u_referenceScript = None\<rparr>], ())" (is "_ = (Inr ?us, ())")
proof -
  let ?n = "by_path bf_default one_utxo_server" and ?path = "account_path ''stake1'' @ ''/utxos''"
  have path: "?path @ ''?count='' @ string_of_nat UTXO_PAGE_SIZE @ ''&page='' @ string_of_nat (Suc 0) @ ''&order=asc'' =
      ''/accounts/stake1/utxos?count=100&page=1&order=asc''"
    unfolding UTXO_PAGE_SIZE_def by code_simp
  have ok: "z_array (refine as_row bfUtxoRow_ok) (JArray [Inl one_utxo]) = Some [one_utxo]"
    by (simp add: z_array_def refine_def as_row_def one_utxo_def bfUtxoRow_ok_def amountList_ok_def
        amountItem_ok_def isValidUnit_def all_digits_def is_digit_def isSafeInteger_def MAX_SAFE_INTEGER_def)
  have page: "utxo_page bf_default ?n (refine as_row bfUtxoRow_ok) ?path (Suc 0) () = (Inr (Some [one_utxo]), ())"
    unfolding utxo_page_def path
    by (rule bf_getOrUndefined_by_path [where v = "JArray [Inl one_utxo]"]) (simp_all add: one_utxo_server_def ok)
  have scan: "scanAccountUtxos bf_default ?n as_row ?path () = (Inr (scan_of bf_utxoKey [one_utxo] False), ())"
    using page by (simp add: scanAccountUtxos_def scan_utxo_pages_def UTXO_MAX_PAGES_def UTXO_PAGE_SIZE_def numeral_eq_Suc
        bindIO_def returnIO_def)
  have block: "block_path ''b1'' = ''/blocks/b1''" by code_simp
  have "bf_getOrUndefined bf_default ?n (refine as_height height_ok) (block_path ''b1'') () = (Inr (Some 7), ())"
    unfolding block
    by (rule bf_getOrUndefined_by_path [where v = "JOther (Inr 7)"])
      (simp_all add: one_utxo_server_def refine_def as_height_def height_ok_def isSafeInteger_def MAX_SAFE_INTEGER_def)
  then have heights: "resolveBlockHeights bf_default ?n as_height [''b1''] () = (Inr [(''b1'', 7)], ())"
    by (simp add: resolveBlockHeights_def BLOCK_LOOKUP_ATTEMPTS_def dedupe_def numeral_eq_Suc bindIO_def returnIO_def)
  have "bf_mapUtxos [one_utxo] [] [(''b1'', 7)] = Inr ?us"
    by (simp add: bf_mapUtxo_def splitAmount_def split_item_def one_utxo_def jm_get_def Let_def)
  then have "settle_utxos bf_default ?n as_height [one_utxo] () = (Inr ?us, ())"
    using heights by (simp add: settle_utxos_def bindIO_def liftE_def one_utxo_def)
  with scan show ?thesis
    by (simp add: bf_getAccountUtxos_def read_agreed_def retryUtxoScanAfterRollback_def retry_loop.simps [of _ _ _ _ "Suc 0"]
        bindIO_def scan_of_def)
qed


section \<open>Rewards and addresses\<close>

definition LIST_PAGE_SIZE :: nat where "LIST_PAGE_SIZE = 100"
definition REWARD_MAX_PAGES :: nat where "REWARD_MAX_PAGES = 100"
definition ADDRESS_MAX_PAGES :: nat where "ADDRESS_MAX_PAGES = 100"

datatype bf_reward_type = Bf_leader | Bf_member | Bf_pool_deposit_refund

record bfRewardRow =
  br_epoch :: nat
  br_amount :: numeric
  br_pool_id :: string
  br_type :: bf_reward_type

definition bfRewardRow_ok :: "bfRewardRow \<Rightarrow> bool" where
  "bfRewardRow_ok r \<longleftrightarrow> numeric_ok (br_amount r)"

fun REWARD_KIND :: "bf_reward_type \<Rightarrow> RewardKind" where
  "REWARD_KIND Bf_leader = Reward_leader"
| "REWARD_KIND Bf_member = Reward_member"
| "REWARD_KIND Bf_pool_deposit_refund = Reward_refund"

text \<open>One page of a resource that may not exist.\<close>

definition opt_page :: "bf_client \<Rightarrow> ('s, 'j) bf_net \<Rightarrow> ('j \<Rightarrow> 'row option) \<Rightarrow> string \<Rightarrow> string \<Rightarrow> nat \<Rightarrow>
    ('s, 'row list option) io_result" where
  "opt_page c n dec path suffix page = bf_getOrUndefined c n (z_array dec)
     (path @ ''?count='' @ string_of_nat LIST_PAGE_SIZE @ ''&page='' @ string_of_nat page @ suffix)"

text \<open>The walk over such a resource: a 404 on any page is the answer \<open>[]\<close>.\<close>

definition walk_opt_pages :: "bf_client \<Rightarrow> ('s, 'j) bf_net \<Rightarrow> ('j \<Rightarrow> 'row option) \<Rightarrow> string \<Rightarrow> string \<Rightarrow> nat \<Rightarrow> string \<Rightarrow>
    ('s, 'row list option) io_result" where
  "walk_opt_pages c n dec path suffix maxPages message =
     (let fetch = opt_page c n dec path suffix in
      bindIO (scan_pages maxPages fetch LIST_PAGE_SIZE (\<lambda>_. False) 1 []) (\<lambda>e. case e of
         ScanMissing _ \<Rightarrow> returnIO None
       | ScanDone rows _ \<Rightarrow> returnIO (Some rows)
       | ScanFull rows \<Rightarrow> bindIO (fetch (maxPages + 1)) (\<lambda>probe.
           if probe = None \<or> probe = Some [] then returnIO (Some rows)
           else throwIO (ProviderError message None None))))"

definition enumerateAccountAddresses :: "bf_client \<Rightarrow> ('s, 'j) bf_net \<Rightarrow> ('j \<Rightarrow> string option) \<Rightarrow> string \<Rightarrow>
    ('s, string list) io_result" where
  "enumerateAccountAddresses c n dec stakeAddress =
     bindIO (walk_opt_pages c n dec (account_path stakeAddress @ ''/addresses'') [] ADDRESS_MAX_PAGES
       (''blockfrost account addresses exceed this provider'' @ [CHR 0x27] @ ''s '' @
         string_of_nat (ADDRESS_MAX_PAGES * LIST_PAGE_SIZE) @ ''-address scan bound''))
       (\<lambda>r. returnIO (case r of None \<Rightarrow> [] | Some l \<Rightarrow> l))"

definition bf_map_reward :: "bfRewardRow \<Rightarrow> AccountReward" where
  "bf_map_reward r = \<lparr>rw_earnedEpoch = br_epoch r, rw_spendableEpoch = br_epoch r + 2,
     rw_amount = numeric_string (br_amount r), rw_kind = REWARD_KIND (br_type r),
     rw_poolId = (if REWARD_KIND (br_type r) = Reward_refund then None else Some (br_pool_id r))\<rparr>"

definition bf_reward_rows :: "nat option \<Rightarrow> bfRewardRow list \<Rightarrow> AccountReward list" where
  "bf_reward_rows afterEpoch rows =
     map bf_map_reward (sort_key br_epoch (filter (\<lambda>r. afterEpoch = None \<or> br_epoch r > the afterEpoch) rows))"

definition bf_getRewardHistory :: "bf_client \<Rightarrow> ('s, 'j) bf_net \<Rightarrow> ('j \<Rightarrow> bfRewardRow option) \<Rightarrow> string \<Rightarrow>
    nat option \<Rightarrow> ('s, AccountReward list) io_result" where
  "bf_getRewardHistory c n dec stakeAddress afterEpoch =
     bindIO (walk_opt_pages c n (refine dec bfRewardRow_ok) (account_path stakeAddress @ ''/rewards'') ''&order=asc''
         REWARD_MAX_PAGES (''blockfrost account rewards exceed this provider'' @ [CHR 0x27] @ ''s '' @
           string_of_nat (REWARD_MAX_PAGES * LIST_PAGE_SIZE) @ ''-reward scan bound''))
       (\<lambda>r. returnIO (case r of None \<Rightarrow> [] | Some rows \<Rightarrow> bf_reward_rows afterEpoch rows))"

text \<open>
  A 404 on a later page discards the rewards already read: the answer is the empty history, not an
  error.  (The UTxO walk above fails closed in the same situation.)
\<close>

lemma walk_404_later:
  assumes "opt_page c n dec path suffix 1 s = (Inr (Some rows), u)" and "100 \<le> length rows"
    and "opt_page c n dec path suffix 2 u = (Inr None, t)"
  shows "walk_opt_pages c n dec path suffix (Suc (Suc k)) m s = (Inr None, t)"
  using assms by (simp add: walk_opt_pages_def Let_def LIST_PAGE_SIZE_def bindIO_def returnIO_def numeral_2_eq_2)

lemma bf_reward_history_404_later:
  assumes "opt_page c n (refine dec bfRewardRow_ok) (account_path a @ ''/rewards'') ''&order=asc'' 1 s = (Inr (Some rows), u)"
    and "100 \<le> length rows"
    and "opt_page c n (refine dec bfRewardRow_ok) (account_path a @ ''/rewards'') ''&order=asc'' 2 u = (Inr None, t)"
  shows "bf_getRewardHistory c n dec a afterEpoch s = (Inr [], t)"
proof -
  have "walk_opt_pages c n (refine dec bfRewardRow_ok) (account_path a @ ''/rewards'') ''&order=asc''
      REWARD_MAX_PAGES m s = (Inr None, t)" for m
    using walk_404_later [OF assms, of 98] by (simp add: REWARD_MAX_PAGES_def)
  then show ?thesis by (simp add: bf_getRewardHistory_def bindIO_def returnIO_def)
qed

text \<open>The history keeps every reward earned after the cursor, oldest first, and every digit of it.\<close>

lemma bf_reward_rows_spec:
  "sorted (map rw_earnedEpoch (bf_reward_rows afterEpoch rows)) \<and>
   mset (bf_reward_rows afterEpoch rows) =
     mset (map bf_map_reward (filter (\<lambda>r. case afterEpoch of None \<Rightarrow> True | Some e \<Rightarrow> e < br_epoch r) rows))"
proof
  have "map rw_earnedEpoch (map bf_map_reward l) = map br_epoch l" for l
    by (simp add: bf_map_reward_def)
  then show "sorted (map rw_earnedEpoch (bf_reward_rows afterEpoch rows))"
    by (simp add: bf_reward_rows_def del: map_map)
  show "mset (bf_reward_rows afterEpoch rows) =
     mset (map bf_map_reward (filter (\<lambda>r. case afterEpoch of None \<Rightarrow> True | Some e \<Rightarrow> e < br_epoch r) rows))"
    by (cases afterEpoch) (simp_all add: bf_reward_rows_def)
qed

end
