(* ===== verification/Blockfrost_Tx.thy ===== *)
theory Blockfrost_Tx
  imports Blockfrost_Account "HOL-Library.Product_Lexorder"
begin

text \<open>
  The hydration of transactions by the Blockfrost driver, \<^verbatim>\<open>src/providers/blockfrost/tx-info.ts\<close>: one
  \<open>WalletTransaction\<close> is put together from up to nine resources.  The requests of a \<open>Promise.all\<close> run in
  list order, all of them even after a failure; the epoch cache is threaded through, holding the
  epochs already answered.  A metadata object keeps its labels in the order of the rows.
\<close>

section \<open>Rows\<close>

record txContentRow =
  xc_block :: string
  xc_block_height :: int
  xc_block_time :: int
  xc_slot :: int
  xc_index :: int
  xc_fees :: numeric
  xc_invalid_hereafter :: "numeric option"
  xc_withdrawal_count :: nat
  xc_delegation_count :: nat
  xc_stake_cert_count :: nat
  xc_mir_cert_count :: nat
  xc_pool_update_count :: nat
  xc_pool_retire_count :: nat

definition whole_ok :: "int \<Rightarrow> bool" where
  "whole_ok i \<longleftrightarrow> 0 \<le> i \<and> isSafeInteger i"

definition txContentRow_ok :: "txContentRow \<Rightarrow> bool" where
  "txContentRow_ok r \<longleftrightarrow> whole_ok (xc_block_height r) \<and> whole_ok (xc_block_time r) \<and> whole_ok (xc_slot r) \<and>
     whole_ok (xc_index r) \<and> numeric_ok (xc_fees r) \<and>
     (case xc_invalid_hereafter r of None \<Rightarrow> True | Some v \<Rightarrow> numeric_ok v)"

record utxoInputRow =
  xi_address :: string
  xi_amount :: "amountItem list"
  xi_tx_hash :: string
  xi_output_index :: nat
  xi_collateral :: bool
  xi_reference :: "bool option"

definition tx_hash_ok :: "string \<Rightarrow> bool" where
  "tx_hash_ok s \<longleftrightarrow> length s = 64 \<and> list_all is_hex s"

definition utxoInputRow_ok :: "utxoInputRow \<Rightarrow> bool" where
  "utxoInputRow_ok r \<longleftrightarrow> amountList_ok (xi_amount r) \<and> tx_hash_ok (xi_tx_hash r)"

record utxoOutputRow =
  xo_address :: string
  xo_amount :: "amountItem list"
  xo_output_index :: nat
  xo_data_hash :: "string option"
  xo_inline_datum :: "string option"
  xo_reference_script_hash :: "string option"
  xo_collateral :: bool
  xo_consumed_by_tx :: "string option"

definition utxoOutputRow_ok :: "utxoOutputRow \<Rightarrow> bool" where
  "utxoOutputRow_ok r \<longleftrightarrow> amountList_ok (xo_amount r)"

record txUtxosRow =
  xu_inputs :: "utxoInputRow list"
  xu_outputs :: "utxoOutputRow list"

definition txUtxosRow_ok :: "txUtxosRow \<Rightarrow> bool" where
  "txUtxosRow_ok r \<longleftrightarrow> list_all utxoInputRow_ok (xu_inputs r) \<and> list_all utxoOutputRow_ok (xu_outputs r)"

record bfWithdrawalRow =
  xw_address :: string
  xw_amount :: numeric

definition bfWithdrawalRow_ok :: "bfWithdrawalRow \<Rightarrow> bool" where
  "bfWithdrawalRow_ok r \<longleftrightarrow> numeric_ok (xw_amount r)"

record stakeCertRow =
  xs_cert_index :: int
  xs_registration :: bool

record metadataRow =
  xm_label :: string
  xm_json :: json

text \<open>The structural part of the schemas this file reads with.\<close>

record 'j tx_schemas =
  sc_content :: "'j jvalue \<Rightarrow> txContentRow option"
  sc_block :: "'j jvalue \<Rightarrow> int option"
  sc_utxos :: "'j jvalue \<Rightarrow> txUtxosRow option"
  sc_metadata :: "'j \<Rightarrow> metadataRow option"
  sc_withdrawal :: "'j \<Rightarrow> bfWithdrawalRow option"
  sc_stake :: "'j \<Rightarrow> stakeCertRow option"
  sc_index :: "'j \<Rightarrow> int option"

section \<open>Mapping\<close>

definition bf_mapTxIo :: "string \<Rightarrow> amountItem list \<Rightarrow> TxIo result" where
  "bf_mapTxIo address amount = bindE (splitAmount amount None) (\<lambda>((v, assets), _).
     Inr \<lparr>io_address = Some address, io_value = v, io_assets = assets\<rparr>)"

definition bf_mapTxInput :: "utxoInputRow \<Rightarrow> TxInput result" where
  "bf_mapTxInput r = bindE (bf_mapTxIo (xi_address r) (xi_amount r)) (\<lambda>t.
     Inr \<lparr>io_address = io_address t, io_value = io_value t, io_assets = io_assets t,
          in_txHash = xi_tx_hash r, in_outputIndex = xi_output_index r\<rparr>)"

definition mapMetadata :: "metadataRow list \<Rightarrow> json option" where
  "mapMetadata rows = (if rows = [] then None
     else Some (JObj (fold (\<lambda>r. jm_set (xm_label r) (xm_json r)) rows [])))"

text \<open>
  \<open>Number(s)\<close> of a string of digits: the nearest double, ties to even (below the range where it would
  be \<open>Infinity\<close>).
\<close>

fun bit_len :: "nat \<Rightarrow> nat" where
  "bit_len n = (if n = 0 then 0 else Suc (bit_len (n div 2)))"

declare bit_len.simps [simp del]

definition double_of_nat :: "nat \<Rightarrow> nat" where
  "double_of_nat n =
     (let e = bit_len n - 53; q = n div 2 ^ e; r = n mod 2 ^ e in
      if e = 0 then n
      else (if 2 * r > 2 ^ e \<or> (2 * r = 2 ^ e \<and> odd q) then q + 1 else q) * 2 ^ e)"

fun bf_ttl :: "numeric \<Rightarrow> nat" where
  "bf_ttl (Num i) = nat i"
| "bf_ttl (NumStr s) = double_of_nat (nat_of_string s)"

definition bf_map_withdrawal :: "bfWithdrawalRow \<Rightarrow> Withdrawal" where
  "bf_map_withdrawal r = \<lparr>wd_stakeAddress = xw_address r, wd_amount = numeric_string (xw_amount r)\<rparr>"

definition stake_cert :: "stakeCertRow \<Rightarrow> TxCertificate" where
  "stake_cert r = \<lparr>ce_kind = (if xs_registration r then Stake_registration else Stake_deregistration),
     ce_index = xs_cert_index r\<rparr>"

definition index_cert :: "CertificateKind \<Rightarrow> int \<Rightarrow> TxCertificate" where
  "index_cert kind i = \<lparr>ce_kind = kind, ce_index = i\<rparr>"

definition spent_input :: "utxoInputRow \<Rightarrow> bool" where
  "spent_input r \<longleftrightarrow> \<not> xi_collateral r \<and> xi_reference r \<noteq> Some True"

text \<open>The last step of \<open>hydrateOne\<close>, with everything read.\<close>

definition assemble_tx :: "string \<Rightarrow> txContentRow \<Rightarrow> txUtxosRow \<Rightarrow> metadataRow list \<Rightarrow> int \<Rightarrow> Withdrawal list \<Rightarrow>
    TxCertificate list \<Rightarrow> WalletTransaction result" where
  "assemble_tx h tx utxos metadata epoch withdrawals certificates =
     bindE (mapE bf_mapTxInput (filter spent_input (xu_inputs utxos))) (\<lambda>ins.
     bindE (mapE (\<lambda>o'. bf_mapTxIo (xo_address o') (xo_amount o')) (xu_outputs utxos)) (\<lambda>outs.
     Inr \<lparr>wt_txHash = h, wt_block = xc_block_height tx, wt_blockHash = xc_block tx, wt_slot = xc_slot tx,
       wt_epoch = epoch, wt_blockTime = xc_block_time tx, wt_fee = numeric_string (xc_fees tx),
       wt_ttl = map_option bf_ttl (xc_invalid_hereafter tx), wt_inputs = ins, wt_outputs = outs,
       wt_withdrawals = withdrawals, wt_certificates = certificates, wt_metadata = mapMetadata metadata\<rparr>))"

section \<open>Reading\<close>

definition tx_path :: "string \<Rightarrow> string" where
  "tx_path h = ''/txs/'' @ encodeURIComponent h"

type_synonym epoch_cache = "(string, int) js_map"

definition epochOf :: "bf_client \<Rightarrow> ('s, 'j) bf_net \<Rightarrow> 'j tx_schemas \<Rightarrow> string \<Rightarrow> epoch_cache \<Rightarrow>
    ('s, int \<times> epoch_cache) io_result" where
  "epochOf c n d blockHash cache = (case jm_get cache blockHash of
     Some e \<Rightarrow> returnIO (e, cache)
   | None \<Rightarrow> bindIO (bf_get c n (refine (sc_block d) whole_ok) (block_path blockHash)) (\<lambda>e.
       returnIO (e, jm_set blockHash e cache)))"

definition cert_list :: "bf_client \<Rightarrow> ('s, 'j) bf_net \<Rightarrow> ('j \<Rightarrow> 'row option) \<Rightarrow> ('row \<Rightarrow> TxCertificate) \<Rightarrow> string \<Rightarrow> string \<Rightarrow>
    ('s, TxCertificate list) io_result" where
  "cert_list c n dec f h suffix =
     bindIO (bf_get c n (z_array dec) (tx_path h @ ''/'' @ suffix)) (\<lambda>rows. returnIO (map f rows))"

definition cert_fetches :: "bf_client \<Rightarrow> ('s, 'j) bf_net \<Rightarrow> 'j tx_schemas \<Rightarrow> string \<Rightarrow> txContentRow \<Rightarrow>
    ('s, TxCertificate list) io_result list" where
  "cert_fetches c n d h tx =
     (let ix = refine (sc_index d) whole_ok in
      (if xc_stake_cert_count tx > 0 then [cert_list c n (refine (sc_stake d) (\<lambda>r. whole_ok (xs_cert_index r))) stake_cert h ''stakes''] else []) @
      (if xc_delegation_count tx > 0 then [cert_list c n ix (index_cert Stake_delegation) h ''delegations''] else []) @
      (if xc_mir_cert_count tx > 0 then [cert_list c n ix (index_cert Move_instantaneous_rewards) h ''mirs''] else []) @
      (if xc_pool_update_count tx > 0 then [cert_list c n ix (index_cert Pool_registration) h ''pool_updates''] else []) @
      (if xc_pool_retire_count tx > 0 then [cert_list c n ix (index_cert Pool_retirement) h ''pool_retires''] else []))"

definition fetchCertificates :: "bf_client \<Rightarrow> ('s, 'j) bf_net \<Rightarrow> 'j tx_schemas \<Rightarrow> string \<Rightarrow> txContentRow \<Rightarrow>
    ('s, TxCertificate list) io_result" where
  "fetchCertificates c n d h tx =
     bindIO (allIO id (cert_fetches c n d h tx)) (\<lambda>groups. returnIO (sort_key ce_index (concat groups)))"

definition fetchWithdrawals :: "bf_client \<Rightarrow> ('s, 'j) bf_net \<Rightarrow> 'j tx_schemas \<Rightarrow> string \<Rightarrow> txContentRow \<Rightarrow>
    ('s, Withdrawal list) io_result" where
  "fetchWithdrawals c n d h tx =
     (if xc_withdrawal_count tx > 0
      then bindIO (bf_get c n (z_array (refine (sc_withdrawal d) bfWithdrawalRow_ok)) (tx_path h @ ''/withdrawals''))
        (\<lambda>rows. returnIO (map bf_map_withdrawal rows))
      else returnIO [])"

record HydratedTx =
  hy_tx :: WalletTransaction
  hy_blockIndex :: int

definition hydrateOne :: "bf_client \<Rightarrow> ('s, 'j) bf_net \<Rightarrow> 'j tx_schemas \<Rightarrow> string \<Rightarrow> epoch_cache \<Rightarrow>
    ('s, HydratedTx \<times> epoch_cache) io_result" where
  "hydrateOne c n d h cache =
     bindIO (bothIO (bf_get c n (refine (sc_content d) txContentRow_ok) (tx_path h))
            (bothIO (bf_get c n (refine (sc_utxos d) txUtxosRow_ok) (tx_path h @ ''/utxos''))
                    (bf_get c n (z_array (sc_metadata d)) (tx_path h @ ''/metadata''))))
       (\<lambda>(tx, utxos, metadata).
     bindIO (bothIO (epochOf c n d (xc_block tx) cache)
            (bothIO (fetchWithdrawals c n d h tx) (fetchCertificates c n d h tx)))
       (\<lambda>((epoch, cache'), withdrawals, certificates).
     liftE (bindE (assemble_tx h tx utxos metadata epoch withdrawals certificates)
       (\<lambda>t. Inr (\<lparr>hy_tx = t, hy_blockIndex = xc_index tx\<rparr>, cache')))))"

primrec hydrate_each :: "bf_client \<Rightarrow> ('s, 'j) bf_net \<Rightarrow> 'j tx_schemas \<Rightarrow> string list \<Rightarrow> epoch_cache \<Rightarrow>
    ('s, HydratedTx list) io_result" where
  "hydrate_each c n d [] cache = returnIO []"
| "hydrate_each c n d (h # hs) cache =
     bindIO (hydrateOne c n d h cache) (\<lambda>(t, cache').
       bindIO (hydrate_each c n d hs cache') (\<lambda>ts. returnIO (t # ts)))"

definition hydrateTransactions :: "bf_client \<Rightarrow> ('s, 'j) bf_net \<Rightarrow> 'j tx_schemas \<Rightarrow> string list \<Rightarrow>
    ('s, WalletTransaction list) io_result" where
  "hydrateTransactions c n d hashes =
     (if hashes = [] then returnIO []
      else bindIO (hydrate_each c n d hashes []) (\<lambda>hydrated.
        returnIO (map hy_tx (sort_key (\<lambda>e. (wt_block (hy_tx e), hy_blockIndex e)) hydrated))))"

section \<open>Time to live\<close>

lemma bit_len_le: "n < 2 ^ k \<Longrightarrow> bit_len n \<le> k"
proof (induction k arbitrary: n)
  case 0
  then show ?case by (simp add: bit_len.simps [of 0])
next
  case (Suc k)
  then have "n div 2 < 2 ^ k" by simp
  from Suc.IH [OF this] show ?case by (simp add: bit_len.simps [of n])
qed

lemma double_of_nat_exact: "n < 2 ^ 53 \<Longrightarrow> double_of_nat n = n"
  using bit_len_le [of n 53] by (simp add: double_of_nat_def Let_def)

text \<open>Below \<open>2 ^ 53\<close> a ttl is exact; the largest slot number is not.\<close>

lemma bf_ttl_exact: "numeric_ok v \<Longrightarrow> numeric_val v < 2 ^ 53 \<Longrightarrow> int (bf_ttl v) = numeric_val v"
proof (cases v)
  case (NumStr s)
  assume ok: "numeric_ok v" "numeric_val v < 2 ^ 53"
  with NumStr have "numeric_val v = int (nat_of_string s)"
    using BigInt_digits [of s] by (simp add: BigInt_of_def)
  with ok NumStr show ?thesis by (simp add: double_of_nat_exact)
qed simp

lemma bf_ttl_inexact: "bf_ttl (NumStr ''18446744073709551615'') = 18446744073709551616"
proof -
  have "nat_of_string ''18446744073709551615'' = 18446744073709551615"
    by (simp add: nat_of_string_def digit_val_def)
  moreover have "double_of_nat 18446744073709551615 = 18446744073709551616"
    by (simp add: double_of_nat_def bit_len.simps Let_def)
  ultimately show ?thesis by simp
qed

section \<open>What a hydrated transaction says\<close>

text \<open>Every field of \<open>t\<close> was answered by upstream for \<open>h\<close> (its epoch for the block it names).\<close>

definition tx_answered :: "bf_client \<Rightarrow> ('s, 'j) bf_net \<Rightarrow> 'j tx_schemas \<Rightarrow> string \<Rightarrow> WalletTransaction \<Rightarrow> int \<Rightarrow> bool" where
  "tx_answered c n d h t ix \<longleftrightarrow> (\<exists>row utxos s1 t1 s2 t2 s3 t3.
     bf_get c n (refine (sc_content d) txContentRow_ok) (tx_path h) s1 = (Inr row, t1) \<and>
     bf_get c n (refine (sc_utxos d) txUtxosRow_ok) (tx_path h @ ''/utxos'') s2 = (Inr utxos, t2) \<and>
     bf_get c n (refine (sc_block d) whole_ok) (block_path (xc_block row)) s3 = (Inr (wt_epoch t), t3) \<and>
     wt_txHash t = h \<and> wt_block t = xc_block_height row \<and> ix = xc_index row \<and> wt_blockHash t = xc_block row \<and>
     wt_fee t = numeric_string (xc_fees row) \<and>
     map (\<lambda>i. (in_txHash i, in_outputIndex i)) (wt_inputs t) =
       map (\<lambda>r. (xi_tx_hash r, xi_output_index r))
         (filter (\<lambda>r. \<not> xi_collateral r \<and> xi_reference r \<noteq> Some True) (xu_inputs utxos)) \<and>
     list_all2 (\<lambda>r o'. io_address o' = Some (xo_address r) \<and> io_assets o' = map unit_asset (native (xo_amount r)) \<and>
       (\<exists>a \<in> set (xo_amount r). am_unit a = ''lovelace'' \<and> io_value o' = numeric_string (am_quantity a)))
       (xu_outputs utxos) (wt_outputs t) \<and>
     sorted (map ce_index (wt_certificates t)))"

definition cache_answered :: "bf_client \<Rightarrow> ('s, 'j) bf_net \<Rightarrow> 'j tx_schemas \<Rightarrow> epoch_cache \<Rightarrow> bool" where
  "cache_answered c n d cache \<longleftrightarrow> (\<forall>b e. jm_get cache b = Some e \<longrightarrow>
     (\<exists>s t. bf_get c n (refine (sc_block d) whole_ok) (block_path b) s = (Inr e, t)))"

lemma epochOf_answered:
  "epochOf c n d b cache s = (Inr (e, cache'), t) \<Longrightarrow> cache_answered c n d cache \<Longrightarrow>
     cache_answered c n d cache' \<and> (\<exists>s t. bf_get c n (refine (sc_block d) whole_ok) (block_path b) s = (Inr e, t))"
  by (auto simp: epochOf_def cache_answered_def io_simps split: option.splits if_splits) blast+

lemma mapTxIo_Inr:
  "bf_mapTxIo a amount = Inr o' \<Longrightarrow> io_address o' = Some a \<and> io_assets o' = map unit_asset (native amount) \<and>
     (\<exists>x \<in> set amount. am_unit x = ''lovelace'' \<and> io_value o' = numeric_string (am_quantity x))"
  by (auto simp: bf_mapTxIo_def sum_simps splitAmount_Inr)

lemma mapTxInput_refs:
  "mapE bf_mapTxInput rows = Inr ins \<Longrightarrow>
     map (\<lambda>i. (in_txHash i, in_outputIndex i)) ins = map (\<lambda>r. (xi_tx_hash r, xi_output_index r)) rows"
  by (induction rows arbitrary: ins) (auto simp: sum_simps bf_mapTxInput_def)

lemma hydrateOne_answered:
  assumes "hydrateOne c n d h cache s = (Inr (y, cache'), t)" and "cache_answered c n d cache"
  shows "tx_answered c n d h (hy_tx y) (hy_blockIndex y) \<and> cache_answered c n d cache'"
proof -
  from assms(1) obtain tx utxos md s1 s2 s3 epoch wds certs s4 s5 u where
    tx: "bf_get c n (refine (sc_content d) txContentRow_ok) (tx_path h) s = (Inr tx, s1)"
    and utxos: "bf_get c n (refine (sc_utxos d) txUtxosRow_ok) (tx_path h @ ''/utxos'') s1 = (Inr utxos, s2)"
    and epoch: "epochOf c n d (xc_block tx) cache s3 = (Inr (epoch, cache'), s4)"
    and certs: "fetchCertificates c n d h tx s5 = (Inr certs, t)"
    and asm: "assemble_tx h tx utxos md epoch wds certs = Inr (hy_tx y)" "hy_blockIndex y = xc_index tx"
    by (fastforce simp: hydrateOne_def io_simps sum_simps split_def)
  from asm(1) obtain ins outs where ins: "mapE bf_mapTxInput (filter spent_input (xu_inputs utxos)) = Inr ins"
    and outs: "mapE (\<lambda>o'. bf_mapTxIo (xo_address o') (xo_amount o')) (xu_outputs utxos) = Inr outs"
    and t: "hy_tx y = \<lparr>wt_txHash = h, wt_block = xc_block_height tx, wt_blockHash = xc_block tx, wt_slot = xc_slot tx,
       wt_epoch = epoch, wt_blockTime = xc_block_time tx, wt_fee = numeric_string (xc_fees tx),
       wt_ttl = map_option bf_ttl (xc_invalid_hereafter tx), wt_inputs = ins, wt_outputs = outs,
       wt_withdrawals = wds, wt_certificates = certs, wt_metadata = mapMetadata md\<rparr>"
    by (auto simp: assemble_tx_def sum_simps)
  have outs': "list_all2 (\<lambda>r o'. io_address o' = Some (xo_address r) \<and> io_assets o' = map unit_asset (native (xo_amount r)) \<and>
       (\<exists>a \<in> set (xo_amount r). am_unit a = ''lovelace'' \<and> io_value o' = numeric_string (am_quantity a)))
       (xu_outputs utxos) outs"
    using outs unfolding mapE_Inr_iff by (rule list_all2_mono) (rule mapTxIo_Inr)
  have sorted: "sorted (map ce_index certs)"
    using certs by (auto simp: fetchCertificates_def io_simps)
  obtain s6 t6 where "bf_get c n (refine (sc_block d) whole_ok) (block_path (xc_block tx)) s6 = (Inr epoch, t6)"
    "cache_answered c n d cache'"
    using epochOf_answered [OF epoch assms(2)] by blast
  with tx utxos asm(2) t mapTxInput_refs [OF ins] outs' sorted show ?thesis
    unfolding tx_answered_def spent_input_def by auto
qed

lemma hydrate_each_answered:
  "hydrate_each c n d hs cache s = (Inr ys, t) \<Longrightarrow> cache_answered c n d cache \<Longrightarrow>
     list_all2 (\<lambda>h y. tx_answered c n d h (hy_tx y) (hy_blockIndex y)) hs ys"
proof (induction hs arbitrary: cache s ys)
  case (Cons h hs)
  from Cons.prems(1) obtain y cache' u ys' where "hydrateOne c n d h cache s = (Inr (y, cache'), u)"
    "hydrate_each c n d hs cache' u = (Inr ys', t)" "ys = y # ys'"
    by (auto simp: io_simps)
  with Cons.IH [of cache' u ys'] hydrateOne_answered [of c n d h cache s y cache' u] Cons.prems(2) show ?case by simp
qed (simp add: io_simps)

lemma tx_answered_hash: "tx_answered c n d h t ix \<Longrightarrow> wt_txHash t = h"
  by (auto simp: tx_answered_def)

lemma hydrate_each_hashes:
  "list_all2 (\<lambda>h y. tx_answered c n d h (hy_tx y) (hy_blockIndex y)) hs ys \<Longrightarrow> map (wt_txHash \<circ> hy_tx) ys = hs"
  by (induction rule: list_all2_induct) (auto dest: tx_answered_hash)

text \<open>
  C32: a page the Blockfrost driver hydrates holds exactly the transactions asked for, oldest block
  first, and each is put together from what upstream answered for that very hash: the inputs are the
  regular ones, in order and with their references (no collateral, no reference input), every output
  carries its own lovelace and all its assets, the certificates are in on-chain order, and the epoch is
  the one answered for the transaction's own block, even when the lookup was shared.
\<close>

theorem hydrateTransactions_sound:
  assumes "hydrateTransactions c n d hashes s = (Inr txs, t)"
  shows "mset (map wt_txHash txs) = mset hashes \<and> sorted (map wt_block txs) \<and>
    (\<forall>tx \<in> set txs. \<exists>row utxos s1 t1 s2 t2 s3 t3.
       bf_get c n (refine (sc_content d) txContentRow_ok) (tx_path (wt_txHash tx)) s1 = (Inr row, t1) \<and>
       bf_get c n (refine (sc_utxos d) txUtxosRow_ok) (tx_path (wt_txHash tx) @ ''/utxos'') s2 = (Inr utxos, t2) \<and>
       bf_get c n (refine (sc_block d) whole_ok) (block_path (xc_block row)) s3 = (Inr (wt_epoch tx), t3) \<and>
       wt_block tx = xc_block_height row \<and> wt_fee tx = numeric_string (xc_fees row) \<and>
       map (\<lambda>i. (in_txHash i, in_outputIndex i)) (wt_inputs tx) =
         map (\<lambda>r. (xi_tx_hash r, xi_output_index r))
           (filter (\<lambda>r. \<not> xi_collateral r \<and> xi_reference r \<noteq> Some True) (xu_inputs utxos)) \<and>
       list_all2 (\<lambda>r o'. io_address o' = Some (xo_address r) \<and> io_assets o' = map unit_asset (native (xo_amount r)) \<and>
         (\<exists>a \<in> set (xo_amount r). am_unit a = ''lovelace'' \<and> io_value o' = numeric_string (am_quantity a)))
         (xu_outputs utxos) (wt_outputs tx) \<and>
       sorted (map ce_index (wt_certificates tx)))"
proof (cases "hashes = []")
  case True
  with assms show ?thesis by (simp add: hydrateTransactions_def io_simps)
next
  case False
  with assms obtain ys where ys: "hydrate_each c n d hashes [] s = (Inr ys, t)"
    and txs: "txs = map hy_tx (sort_key (\<lambda>e. (wt_block (hy_tx e), hy_blockIndex e)) ys)"
    by (auto simp: hydrateTransactions_def io_simps)
  have all: "list_all2 (\<lambda>h y. tx_answered c n d h (hy_tx y) (hy_blockIndex y)) hashes ys"
    using hydrate_each_answered [OF ys] by (simp add: cache_answered_def)
  have "mset (map wt_txHash txs) = image_mset (wt_txHash \<circ> hy_tx) (mset ys)"
    unfolding txs by (simp add: multiset.map_comp)
  also have "\<dots> = mset hashes" using hydrate_each_hashes [OF all] by (metis mset_map)
  finally have hashes: "mset (map wt_txHash txs) = mset hashes" .
  have "sorted (map (\<lambda>e. (wt_block (hy_tx e), hy_blockIndex e)) (sort_key (\<lambda>e. (wt_block (hy_tx e), hy_blockIndex e)) ys))"
    by (rule sorted_sort_key)
  then have "sorted (map (fst \<circ> (\<lambda>e. (wt_block (hy_tx e), hy_blockIndex e))) (sort_key (\<lambda>e. (wt_block (hy_tx e), hy_blockIndex e)) ys))"
    unfolding sorted_map by (rule sorted_wrt_mono_rel [rotated]) (auto simp: less_eq_prod_def)
  then have sorted: "sorted (map wt_block txs)" unfolding txs by (simp add: comp_def)
  have "tx_answered c n d (wt_txHash tx) tx (hy_blockIndex y)" if "y \<in> set ys" "tx = hy_tx y" for tx y
    using all that tx_answered_hash by (fastforce simp: list_all2_conv_all_nth in_set_conv_nth)
  then have "\<exists>ix. tx_answered c n d (wt_txHash tx) tx ix" if "tx \<in> set txs" for tx
    using that unfolding txs by auto
  with hashes sorted show ?thesis unfolding tx_answered_def by blast
qed

text \<open>One payment, with a collateral input, as upstream answers it.\<close>

datatype tx_json = TxC txContentRow | TxB int | TxU txUtxosRow | TxM metadataRow

definition pay_content :: txContentRow where
  "pay_content = \<lparr>xc_block = ''b1'', xc_block_height = 7, xc_block_time = 70, xc_slot = 700, xc_index = 2,
     xc_fees = Num 5, xc_invalid_hereafter = None, xc_withdrawal_count = 0, xc_delegation_count = 0,
     xc_stake_cert_count = 0, xc_mir_cert_count = 0, xc_pool_update_count = 0, xc_pool_retire_count = 0\<rparr>"

definition pay_utxos :: txUtxosRow where
  "pay_utxos = \<lparr>xu_inputs = [
       \<lparr>xi_address = ''a1'', xi_amount = [\<lparr>am_unit = ''lovelace'', am_quantity = Num 9\<rparr>],
        xi_tx_hash = replicate 64 CHR ''c'', xi_output_index = 0, xi_collateral = False, xi_reference = None\<rparr>,
       \<lparr>xi_address = ''a1'', xi_amount = [\<lparr>am_unit = ''lovelace'', am_quantity = Num 9\<rparr>],
        xi_tx_hash = replicate 64 CHR ''d'', xi_output_index = 0, xi_collateral = True, xi_reference = None\<rparr>],
     xu_outputs = [\<lparr>xo_address = ''a2'', xo_amount = [\<lparr>am_unit = ''lovelace'', am_quantity = Num 4\<rparr>],
        xo_output_index = 0, xo_data_hash = None, xo_inline_datum = None, xo_reference_script_hash = None,
        xo_collateral = False, xo_consumed_by_tx = None\<rparr>]\<rparr>"

definition pay_server :: "string \<Rightarrow> tx_json fetch_outcome" where
  "pay_server path =
     (if path = ''/txs/ab'' then ok_json (JOther (TxC pay_content))
      else if path = ''/txs/ab/utxos'' then ok_json (JOther (TxU pay_utxos))
      else if path = ''/txs/ab/metadata'' then ok_json (JArray [])
      else if path = ''/blocks/b1'' then ok_json (JOther (TxB 3))
      else FetchFailed)"

definition pay_schemas :: "tx_json tx_schemas" where
  "pay_schemas = \<lparr>sc_content = (\<lambda>v. case v of JOther (TxC r) \<Rightarrow> Some r | _ \<Rightarrow> None),
     sc_block = (\<lambda>v. case v of JOther (TxB e) \<Rightarrow> Some e | _ \<Rightarrow> None),
     sc_utxos = (\<lambda>v. case v of JOther (TxU r) \<Rightarrow> Some r | _ \<Rightarrow> None),
     sc_metadata = (\<lambda>j. case j of TxM r \<Rightarrow> Some r | _ \<Rightarrow> None),
     sc_withdrawal = (\<lambda>_. None), sc_stake = (\<lambda>_. None), sc_index = (\<lambda>_. None)\<rparr>"

lemma pay_hydrated:
  "\<exists>tx. hydrateTransactions bf_default (by_path bf_default pay_server) pay_schemas [''ab''] () = (Inr [tx], ()) \<and>
     wt_txHash tx = ''ab''"
proof -
  let ?n = "by_path bf_default pay_server" and ?d = pay_schemas
  have paths: "tx_path ''ab'' = ''/txs/ab''" "block_path ''b1'' = ''/blocks/b1''" by code_simp+
  have small: "whole_ok 7" "whole_ok 70" "whole_ok 700" "whole_ok 2" "whole_ok 3"
    by (simp_all add: whole_ok_def isSafeInteger_def MAX_SAFE_INTEGER_def)
  have c: "bf_get bf_default ?n (refine (sc_content ?d) txContentRow_ok) (tx_path ''ab'') () = (Inr pay_content, ())"
    unfolding paths
    by (rule bf_get_by_path [where v = "JOther (TxC pay_content)"])
      (simp_all add: pay_server_def refine_def pay_schemas_def txContentRow_ok_def pay_content_def small
        isSafeInteger_def MAX_SAFE_INTEGER_def)
  have u: "bf_get bf_default ?n (refine (sc_utxos ?d) txUtxosRow_ok) (tx_path ''ab'' @ ''/utxos'') () = (Inr pay_utxos, ())"
    unfolding paths
    by (rule bf_get_by_path [where v = "JOther (TxU pay_utxos)"])
      (simp_all add: pay_server_def refine_def pay_schemas_def txUtxosRow_ok_def utxoInputRow_ok_def utxoOutputRow_ok_def
        pay_utxos_def amountList_ok_def amountItem_ok_def isValidUnit_def tx_hash_ok_def is_hex_def list_all_iff
        isSafeInteger_def MAX_SAFE_INTEGER_def)
  have m: "bf_get bf_default ?n (z_array (sc_metadata ?d)) (tx_path ''ab'' @ ''/metadata'') () = (Inr [], ())"
    unfolding paths
    by (rule bf_get_by_path [where v = "JArray []"]) (simp_all add: pay_server_def z_array_def)
  have e: "bf_get bf_default ?n (refine (sc_block ?d) whole_ok) (block_path ''b1'') () = (Inr 3, ())"
    unfolding paths
    by (rule bf_get_by_path [where v = "JOther (TxB 3)"]) (simp_all add: pay_server_def refine_def pay_schemas_def small)
  have "\<exists>tx. assemble_tx ''ab'' pay_content pay_utxos [] 3 [] [] = Inr tx \<and> wt_txHash tx = ''ab''"
    by (simp add: assemble_tx_def pay_utxos_def spent_input_def bf_mapTxInput_def bf_mapTxIo_def splitAmount_def
        split_item_def Let_def)
  then obtain tx where tx: "assemble_tx ''ab'' pay_content pay_utxos [] 3 [] [] = Inr tx" "wt_txHash tx = ''ab''" by blast
  have one: "hydrateOne bf_default ?n ?d ''ab'' [] () =
      (Inr (\<lparr>hy_tx = tx, hy_blockIndex = 2\<rparr>, [(''b1'', 3)]), ())"
    using c u m e tx(1)
    by (simp add: hydrateOne_def bothIO_def bindIO_def returnIO_def liftE_def epochOf_def fetchWithdrawals_def
        fetchCertificates_def cert_fetches_def pay_content_def)
  have "hydrateTransactions bf_default ?n ?d [''ab''] () = (Inr [tx], ())"
    using one by (simp add: hydrateTransactions_def bindIO_def returnIO_def)
  with tx(2) show ?thesis by blast
qed

theorem hydrateTransactions_sound_witness:
  "\<exists>txs. hydrateTransactions bf_default (by_path bf_default pay_server) pay_schemas [''ab''] () = (Inr txs, ()) \<and>
     mset (map wt_txHash txs) = {#''ab''#} \<and> sorted (map wt_block txs)"
proof -
  obtain tx where tx: "hydrateTransactions bf_default (by_path bf_default pay_server) pay_schemas [''ab''] () = (Inr [tx], ())"
    using pay_hydrated by blast
  from hydrateTransactions_sound [OF tx] tx show ?thesis by auto
qed

end
