(* ===== verification/Blockfrost_History.thy ===== *)
theory Blockfrost_History
  imports Blockfrost_Tx
begin

text \<open>
  Transaction history in the Blockfrost driver: the walk over an address set in
  \<^verbatim>\<open>src/providers/blockfrost/tx-info.ts\<close> (\<open>advanceCursor\<close>, \<open>mergePage\<close>, \<open>addressSetTxHistory\<close>), which
  the account history of \<^verbatim>\<open>account.ts\<close> feeds with the addresses of an account.  The loop that
  settles the oldest page ends because every cursor it advances gets nearer to \<open>LIST_MAX_PAGES\<close>.
\<close>

definition BF_HISTORY_PAGE_SIZE :: nat where "BF_HISTORY_PAGE_SIZE = 50"
definition LIST_MAX_PAGES :: nat where "LIST_MAX_PAGES = 200"

record bfAddressTxRow =
  ax_tx_hash :: string
  ax_tx_index :: int
  ax_block_height :: int

definition bfAddressTxRow_ok :: "bfAddressTxRow \<Rightarrow> bool" where
  "bfAddressTxRow_ok r \<longleftrightarrow> whole_ok (ax_tx_index r) \<and> whole_ok (ax_block_height r)"

record AddressCursor =
  cu_address :: string
  cu_page :: nat
  cu_rows :: "bfAddressTxRow list"
  cu_full :: bool
  cu_done :: bool

definition address_path :: "string \<Rightarrow> string" where
  "address_path a = ''/addresses/'' @ encodeURIComponent a"

definition address_txs_page :: "bf_client \<Rightarrow> ('s, 'j) bf_net \<Rightarrow> ('j \<Rightarrow> bfAddressTxRow option) \<Rightarrow> nat option \<Rightarrow>
    string \<Rightarrow> nat \<Rightarrow> ('s, bfAddressTxRow list option) io_result" where
  "address_txs_page c n dec afterBlock a page =
     bf_getOrUndefined c n (z_array (refine dec bfAddressTxRow_ok))
       (address_path a @ ''/transactions?count='' @ string_of_nat LIST_PAGE_SIZE @ ''&page='' @ string_of_nat page @
        ''&order=asc'' @ (case afterBlock of None \<Rightarrow> [] | Some b \<Rightarrow> ''&from='' @ string_of_nat b))"

definition after_cursor :: "nat option \<Rightarrow> bfAddressTxRow \<Rightarrow> bool" where
  "after_cursor afterBlock r \<longleftrightarrow> (case afterBlock of None \<Rightarrow> True | Some b \<Rightarrow> ax_block_height r > int b)"

text \<open>\<open>fetch a p\<close> reads page \<open>p\<close> of the address \<open>a\<close>.\<close>

definition advanceCursor :: "(string \<Rightarrow> nat \<Rightarrow> ('s, bfAddressTxRow list option) io_result) \<Rightarrow> nat option \<Rightarrow>
    AddressCursor \<Rightarrow> ('s, AddressCursor) io_result" where
  "advanceCursor fetch afterBlock cursor =
     (if cu_done cursor then returnIO cursor
      else
        let page = cu_page cursor + 1 in
        bindIO (fetch (cu_address cursor) page) (\<lambda>r. case r of
            None \<Rightarrow> returnIO (cursor\<lparr>cu_page := page, cu_done := True\<rparr>)
          | Some pageRows \<Rightarrow>
              let full = (length pageRows = LIST_PAGE_SIZE) in
              returnIO (cursor\<lparr>cu_page := page, cu_rows := cu_rows cursor @ filter (after_cursor afterBlock) pageRows,
                cu_full := full, cu_done := (\<not> full \<or> page \<ge> LIST_MAX_PAGES)\<rparr>)))"

definition by_hash :: "bfAddressTxRow list \<Rightarrow> (string, bfAddressTxRow) js_map" where
  "by_hash rows = foldl (\<lambda>m r. if jm_get m (ax_tx_hash r) = None then jm_set (ax_tx_hash r) r m else m) [] rows"

definition tx_order :: "bfAddressTxRow \<Rightarrow> int \<times> int" where
  "tx_order r = (ax_block_height r, ax_tx_index r)"

definition mergePage :: "AddressCursor list \<Rightarrow> bfAddressTxRow list \<times> int option" where
  "mergePage cursors =
     (let byHash = by_hash (concat (map cu_rows cursors)) in
      if byHash = [] then ([], None)
      else
        let sorted = sort_key tx_order (map snd byHash); hs = map ax_block_height sorted;
            e = min BF_HISTORY_PAGE_SIZE (length sorted); b = hs ! (e - 1) in
        (take (extend_boundary hs b e) sorted, Some b))"

text \<open>Which cursors may still hold rows of the page.\<close>

definition needing :: "int option \<Rightarrow> AddressCursor \<Rightarrow> bool" where
  "needing boundaryBlock cursor \<longleftrightarrow>
     \<not> (cu_done cursor \<or> \<not> cu_full cursor) \<and>
     (boundaryBlock = None \<or> cu_rows cursor = [] \<or> ax_block_height (last (cu_rows cursor)) \<le> the boundaryBlock)"

definition advance_needing :: "(string \<Rightarrow> nat \<Rightarrow> ('s, bfAddressTxRow list option) io_result) \<Rightarrow> nat option \<Rightarrow>
    AddressCursor list \<Rightarrow> ('s, AddressCursor list) io_result" where
  "advance_needing fetch afterBlock cursors =
     (let boundaryBlock = snd (mergePage cursors) in
      mapIO (\<lambda>cu. if needing boundaryBlock cu then advanceCursor fetch afterBlock cu else returnIO cu) cursors)"

definition cursor_left :: "AddressCursor \<Rightarrow> nat" where
  "cursor_left cu = (if cu_done cu then 0 else Suc (LIST_MAX_PAGES - cu_page cu))"

lemma advance_left:
  "advanceCursor fetch after cu s = (Inr cu', t) \<Longrightarrow> \<not> cu_done cu \<Longrightarrow> cursor_left cu' < cursor_left cu"
  by (auto simp: advanceCursor_def Let_def io_simps cursor_left_def split: option.splits) arith

lemma advance_list_left:
  "mapIO (\<lambda>cu. if needing b cu then advanceCursor fetch after cu else returnIO cu) cus s = (Inr cus', t) \<Longrightarrow>
     sum_list (map cursor_left cus') \<le> sum_list (map cursor_left cus) \<and>
     ((\<exists>cu \<in> set cus. needing b cu) \<longrightarrow> sum_list (map cursor_left cus') < sum_list (map cursor_left cus))"
proof (induction cus arbitrary: s cus')
  case (Cons cu cus)
  from Cons.prems obtain cu' u cus'' where step: "(if needing b cu then advanceCursor fetch after cu else returnIO cu) s = (Inr cu', u)"
    and rest: "mapIO (\<lambda>cu. if needing b cu then advanceCursor fetch after cu else returnIO cu) cus u = (Inr cus'', t)"
    and eq: "cus' = cu' # cus''" by (auto simp: io_simps)
  have "needing b cu \<Longrightarrow> cursor_left cu' < cursor_left cu" "\<not> needing b cu \<Longrightarrow> cu' = cu"
    using step advance_left [of fetch after cu s cu' u] by (auto simp: needing_def io_simps)
  with Cons.IH [OF rest] eq show ?case by (cases "needing b cu") auto
qed (simp add: io_simps)

function settle_page :: "(string \<Rightarrow> nat \<Rightarrow> ('s, bfAddressTxRow list option) io_result) \<Rightarrow> nat option \<Rightarrow>
    AddressCursor list \<Rightarrow> ('s, AddressCursor list) io_result" where
  "settle_page fetch afterBlock cursors s =
     (if \<not> list_ex (needing (snd (mergePage cursors))) cursors then (Inr cursors, s)
      else case advance_needing fetch afterBlock cursors s of
          (Inl e, s') \<Rightarrow> (Inl e, s')
        | (Inr cursors', s') \<Rightarrow> settle_page fetch afterBlock cursors' s')"
  by pat_completeness auto
termination
  by (relation "measure (\<lambda>(_, _, cursors, _). sum_list (map cursor_left cursors))")
    (auto simp: advance_needing_def Let_def list_ex_iff dest!: sym [of _ "mapIO _ _ _"] advance_list_left)

declare settle_page.simps [simp del]

definition first_cursor :: "string \<Rightarrow> AddressCursor" where
  "first_cursor a = \<lparr>cu_address = a, cu_page = 0, cu_rows = [], cu_full = False, cu_done = False\<rparr>"

definition address_set_page :: "(string \<Rightarrow> nat \<Rightarrow> ('s, bfAddressTxRow list option) io_result) \<Rightarrow> string list \<Rightarrow>
    nat option \<Rightarrow> ('s, bfAddressTxRow list) io_result" where
  "address_set_page fetch addresses afterBlock =
     bindIO (mapIO (\<lambda>a. advanceCursor fetch afterBlock (first_cursor a)) addresses) (\<lambda>cursors.
     bindIO (settle_page fetch afterBlock cursors) (\<lambda>cursors'.
     returnIO (fst (mergePage cursors'))))"

definition addressSetTxHistory :: "bf_client \<Rightarrow> ('s, 'j) bf_net \<Rightarrow> ('j \<Rightarrow> bfAddressTxRow option) \<Rightarrow>
    'j tx_schemas \<Rightarrow> string list \<Rightarrow> nat option \<Rightarrow> ('s, WalletTransaction list) io_result" where
  "addressSetTxHistory c n dec d addresses afterBlock =
     (if addresses = [] then returnIO []
      else bindIO (address_set_page (address_txs_page c n dec afterBlock) addresses afterBlock) (\<lambda>page.
        hydrateTransactions c n d (map ax_tx_hash page)))"

definition bf_getTxHistory :: "bf_client \<Rightarrow> ('s, 'j) bf_net \<Rightarrow> ('j \<Rightarrow> string option) \<Rightarrow> ('j \<Rightarrow> bfAddressTxRow option) \<Rightarrow>
    'j tx_schemas \<Rightarrow> string \<Rightarrow> nat option \<Rightarrow> ('s, WalletTransaction list) io_result" where
  "bf_getTxHistory c n deca dec d stakeAddress afterBlock =
     bindIO (enumerateAccountAddresses c n deca stakeAddress) (\<lambda>addresses.
       addressSetTxHistory c n dec d addresses afterBlock)"

section \<open>The merge\<close>

lemma by_hash_step:
  "by_hash (rows @ [r]) =
     (if jm_get (by_hash rows) (ax_tx_hash r) = None then jm_set (ax_tx_hash r) r (by_hash rows) else by_hash rows)"
  by (simp add: by_hash_def)

lemma by_hash_spec:
  "jm_wf (by_hash rows) \<and> (\<forall>(k, r) \<in> set (by_hash rows). k = ax_tx_hash r \<and> r \<in> set rows) \<and>
     set (jm_keys (by_hash rows)) = ax_tx_hash ` set rows"
proof (induction rows rule: rev_induct)
  case (snoc r rows)
  then show ?case
    by (auto simp: by_hash_step jm_set_new jm_wf_def jm_keys_def jm_get_None_keys image_iff)
qed (simp add: by_hash_def jm_keys_def)

text \<open>Where equal hashes are equal rows, the values are the set of rows, without repeats.\<close>

lemma by_hash_values:
  assumes "inj_on ax_tx_hash (set rows)"
  shows "set (map snd (by_hash rows)) = set rows \<and> distinct (map snd (by_hash rows))"
proof -
  have vals: "\<forall>(k, r) \<in> set (by_hash rows). k = ax_tx_hash r \<and> r \<in> set rows"
    and keys: "set (jm_keys (by_hash rows)) = ax_tx_hash ` set rows" and wf: "jm_wf (by_hash rows)"
    using by_hash_spec [of rows] by auto
  have "map fst (by_hash rows) = map ax_tx_hash (map snd (by_hash rows))" using vals by auto
  then have "distinct (map ax_tx_hash (map snd (by_hash rows)))"
    using wf unfolding jm_wf_def jm_keys_def by metis
  then have dist: "distinct (map snd (by_hash rows))" by (metis distinct_map)
  have "r \<in> set (map snd (by_hash rows))" if r: "r \<in> set rows" for r
  proof -
    have "ax_tx_hash r \<in> set (jm_keys (by_hash rows))" using keys r by blast
    then obtain r' where "(ax_tx_hash r, r') \<in> set (by_hash rows)" by (auto simp: jm_keys_def)
    moreover from this vals have "r' \<in> set rows" "ax_tx_hash r' = ax_tx_hash r" by auto
    then have "r' = r" using assms r by (meson inj_onD)
    ultimately show ?thesis by force
  qed
  with vals dist show ?thesis by fastforce
qed

lemma sort_key_sorted_id: "sorted (map f xs) \<Longrightarrow> sort_key f xs = xs"
proof (induction xs)
  case (Cons x xs)
  then show ?case by (simp add: insort_is_Cons)
qed simp

text \<open>The page of a merge is the history window of the merged rows, and its last block is the boundary.\<close>

lemma heights_sorted: "sorted (map ax_block_height (sort_key tx_order rows))"
proof -
  have "sorted (map tx_order (sort_key tx_order rows))" by simp
  then show ?thesis
    unfolding sorted_map by (rule sorted_wrt_mono_rel [rotated]) (auto simp: tx_order_def less_eq_prod_def)
qed

lemma mergePage_window:
  "fst (mergePage cursors) =
     history_window 50 ax_block_height (sort_key tx_order (map snd (by_hash (concat (map cu_rows cursors)))))"
proof (cases "by_hash (concat (map cu_rows cursors)) = []")
  case True
  then show ?thesis by (simp add: mergePage_def history_window_def)
next
  case False
  then have "min 50 (length (by_hash (concat (map cu_rows cursors)))) = 0 \<longleftrightarrow> False"
    by (simp add: min_def)
  with False sort_key_sorted_id [OF heights_sorted, of "map snd (by_hash (concat (map cu_rows cursors)))"]
  show ?thesis by (simp add: mergePage_def history_window_def Let_def BF_HISTORY_PAGE_SIZE_def)
      (auto simp: min_def split: if_splits)
qed

lemma mergePage_boundary:
  assumes "snd (mergePage cursors) = Some b" and "x \<in> set (fst (mergePage cursors))"
  shows "ax_block_height x \<le> b"
proof -
  define s where "s = sort_key tx_order (map snd (by_hash (concat (map cu_rows cursors))))"
  let ?hs = "map ax_block_height s" and ?e = "min BF_HISTORY_PAGE_SIZE (length s)"
  have ne: "by_hash (concat (map cu_rows cursors)) \<noteq> []" using assms(1) by (auto simp: mergePage_def)
  then have page: "fst (mergePage cursors) = take (extend_boundary ?hs b ?e) s" and b: "b = ?hs ! (?e - 1)"
    using assms(1) by (auto simp: mergePage_def Let_def s_def)
  have e: "0 < ?e" using ne by (simp add: s_def BF_HISTORY_PAGE_SIZE_def)
  have ext: "\<forall>i. ?e \<le> i \<and> i < extend_boundary ?hs b ?e \<longrightarrow> ?hs ! i = b" "extend_boundary ?hs b ?e \<le> length ?hs"
    using extend_boundary_spec [of ?e ?hs b] by auto
  obtain i where i: "i < extend_boundary ?hs b ?e" "x = s ! i" "i < length s"
    using assms(2) unfolding page by (auto simp: in_set_conv_nth)
  show ?thesis
  proof (cases "i < ?e")
    case True
    then have "?hs ! i \<le> ?hs ! (?e - 1)"
      using e heights_sorted [of "map snd (by_hash (concat (map cu_rows cursors)))", folded s_def]
      by (intro sorted_nth_mono) auto
    with i b show ?thesis by simp
  next
    case False
    with ext i show ?thesis by auto
  qed
qed

lemma by_hash_Nil: "by_hash rows = [] \<longleftrightarrow> rows = []"
  using by_hash_spec [of rows] by (cases rows) (auto simp: jm_keys_def by_hash_def)

lemma mergePage_None: "snd (mergePage cursors) = None \<longleftrightarrow> concat (map cu_rows cursors) = []"
  by (simp add: mergePage_def Let_def by_hash_Nil del: concat_eq_Nil_conv)

section \<open>The walk against a server that holds the histories\<close>

text \<open>The oldest transactions of \<open>F\<close>: at least \<open>k\<close> of them if there are that many, and whole blocks.\<close>

definition oldest_page :: "nat \<Rightarrow> bfAddressTxRow set \<Rightarrow> bfAddressTxRow list \<Rightarrow> bool" where
  "oldest_page k F page \<longleftrightarrow>
     sorted_wrt (\<lambda>x y. tx_order x < tx_order y) page \<and> set page \<subseteq> F \<and>
     (\<forall>x \<in> set page. \<forall>y \<in> F - set page. ax_block_height x < ax_block_height y) \<and>
     (set page = F \<or> k \<le> length page)"

definition cursor_inv :: "(string \<Rightarrow> bfAddressTxRow list) \<Rightarrow> nat option \<Rightarrow> AddressCursor \<Rightarrow> bool" where
  "cursor_inv hist after cu \<longleftrightarrow>
     cu_rows cu = filter (after_cursor after) (take (cu_page cu * 100) (hist (cu_address cu))) \<and>
     (cu_done cu \<longrightarrow> length (hist (cu_address cu)) \<le> cu_page cu * 100) \<and>
     (\<not> cu_done cu \<and> 0 < cu_page cu \<longrightarrow> cu_full cu)"

text \<open>What upstream holds: per address its rows, by height; at most twenty thousand of them.\<close>

definition holds_histories :: "(string \<Rightarrow> nat \<Rightarrow> ('s, bfAddressTxRow list option) io_result) \<Rightarrow>
    (string \<Rightarrow> bfAddressTxRow list) \<Rightarrow> string list \<Rightarrow> bool" where
  "holds_histories fetch hist addresses \<longleftrightarrow> (\<forall>a \<in> set addresses.
     serves (fetch a) 100 (hist a) \<and> sorted (map ax_block_height (hist a)) \<and> length (hist a) \<le> 20000)"

lemma cursor_advance_inv:
  assumes "holds_histories fetch hist addresses" and "cu_address cu \<in> set addresses" and "cursor_inv hist after cu"
  shows "\<exists>cu'. fst (advanceCursor fetch after cu s) = Inr cu' \<and> cursor_inv hist after cu' \<and>
    cu_address cu' = cu_address cu \<and> (0 < cu_page cu \<or> \<not> cu_done cu \<longrightarrow> 0 < cu_page cu')"
proof (cases "cu_done cu")
  case True
  with assms(3) show ?thesis by (simp add: advanceCursor_def returnIO_def)
next
  case False
  let ?h = "hist (cu_address cu)" and ?p = "cu_page cu"
  let ?b = "page_of 100 ?h (Suc ?p)"
  have "fst (fetch (cu_address cu) (Suc ?p) s) = Inr (Some ?b)"
    using assms(1,2) by (auto simp: holds_histories_def serves_def)
  then obtain u where u: "fetch (cu_address cu) (Suc ?p) s = (Inr (Some ?b), u)"
    by (cases "fetch (cu_address cu) (Suc ?p) s") auto
  have take: "take (?p * 100) ?h @ ?b = take (Suc ?p * 100) ?h"
    by (simp add: page_of_def add.commute [of 100] take_add)
  have len: "length ?h \<le> Suc ?p * 100" if "length ?b \<noteq> 100"
    using that by (auto simp: page_of_def min_def split: if_splits)
  have cap: "length ?h \<le> Suc ?p * 100" if "200 \<le> Suc ?p"
  proof -
    have "length ?h \<le> 200 * 100" using assms(1,2) by (simp add: holds_histories_def)
    also have "\<dots> \<le> Suc ?p * 100" using that by (rule mult_le_mono1)
    finally show ?thesis .
  qed
  show ?thesis
    using False u assms(3) len cap
    by (simp add: advanceCursor_def Let_def bindIO_def returnIO_def cursor_inv_def LIST_PAGE_SIZE_def LIST_MAX_PAGES_def
        filter_append [symmetric] take del: filter_append mult_Suc) blast
qed

lemma mapIO_all2:
  assumes "\<And>x s. x \<in> set xs \<Longrightarrow> \<exists>y. fst (f x s) = Inr y \<and> P x y"
  shows "\<exists>ys. fst (mapIO f xs s) = Inr ys \<and> list_all2 P xs ys"
  using assms
proof (induction xs arbitrary: s)
  case (Cons x xs)
  obtain y u where y: "f x s = (Inr y, u)" "P x y"
    using Cons.prems [of x s] by (cases "f x s") auto
  obtain ys v where ys: "mapIO f xs u = (Inr ys, v)" "list_all2 P xs ys"
    using Cons.IH [of u] Cons.prems by (cases "mapIO f xs u") auto
  with y show ?case by (simp add: bindIO_def returnIO_def)
qed (simp add: returnIO_def)

definition cursors_inv :: "(string \<Rightarrow> bfAddressTxRow list) \<Rightarrow> nat option \<Rightarrow> string list \<Rightarrow> AddressCursor list \<Rightarrow> bool" where
  "cursors_inv hist after addresses cursors \<longleftrightarrow>
     map cu_address cursors = addresses \<and> (\<forall>cu \<in> set cursors. cursor_inv hist after cu \<and> 0 < cu_page cu)"

lemma cursors_inv_all2:
  "list_all2 (\<lambda>a cu. cu_address cu = a \<and> cursor_inv hist after cu \<and> 0 < cu_page cu) addresses cursors \<longleftrightarrow>
     cursors_inv hist after addresses cursors"
  unfolding cursors_inv_def
  by (induction cursors arbitrary: addresses) (auto simp: list_all2_Cons2)

lemma settle_page_inv:
  assumes "holds_histories fetch hist addresses" and "cursors_inv hist after addresses cursors"
  shows "\<exists>cus. fst (settle_page fetch after cursors s) = Inr cus \<and> cursors_inv hist after addresses cus \<and>
    \<not> list_ex (needing (snd (mergePage cus))) cus"
  using assms
proof (induction fetch after cursors s rule: settle_page.induct)
  case (1 fetch after cursors s)
  let ?b = "snd (mergePage cursors)"
  show ?case
  proof (cases "list_ex (needing ?b) cursors")
    case False
    then show ?thesis using 1(3) by (simp add: settle_page.simps [of fetch after cursors s])
  next
    case True
    let ?step = "\<lambda>cu. if needing ?b cu then advanceCursor fetch after cu else returnIO cu"
    have "\<exists>cu'. fst (?step cu s) = Inr cu' \<and> cu_address cu' = cu_address cu \<and> cursor_inv hist after cu' \<and> 0 < cu_page cu'"
      if "cu \<in> set cursors" for cu s
    proof (cases "needing ?b cu")
      case True
      have "cu_address cu \<in> set addresses" "cursor_inv hist after cu" "0 < cu_page cu"
        using that 1(3) by (auto simp: cursors_inv_def)
      with True cursor_advance_inv [OF 1(2), of cu after s] show ?thesis by auto
    next
      case False
      with that 1(3) show ?thesis by (auto simp: cursors_inv_def returnIO_def)
    qed
    from mapIO_all2 [of cursors ?step, OF this] obtain cus
      where cus: "fst (mapIO ?step cursors s) = Inr cus"
        "list_all2 (\<lambda>cu cu'. cu_address cu' = cu_address cu \<and> cursor_inv hist after cu' \<and> 0 < cu_page cu') cursors cus"
      by blast
    then obtain u where u: "advance_needing fetch after cursors s = (Inr cus, u)"
      by (cases "mapIO ?step cursors s") (auto simp: advance_needing_def)
    have "map cu_address cus = map cu_address cursors" "\<forall>cu \<in> set cus. cursor_inv hist after cu \<and> 0 < cu_page cu"
      using cus(2) by (induction rule: list_all2_induct) auto
    with 1(3) have inv: "cursors_inv hist after addresses cus" by (simp add: cursors_inv_def)
    have "\<not> \<not> list_ex (needing ?b) cursors" using True by simp
    from 1(1) [OF this u [symmetric] refl 1(2) inv] u True show ?thesis
      by (simp add: settle_page.simps [of fetch after cursors s])
  qed
qed

definition held :: "(string \<Rightarrow> bfAddressTxRow list) \<Rightarrow> nat option \<Rightarrow> string list \<Rightarrow> bfAddressTxRow set" where
  "held hist after addresses = {r. \<exists>a \<in> set addresses. r \<in> set (hist a) \<and> after_cursor after r}"

text \<open>A row a cursor has not read is above everything it has, and so above the boundary.\<close>

lemma unread_above:
  assumes "cursor_inv hist after cu" and "0 < cu_page cu" and "\<not> needing (Some b) cu"
    and "sorted (map ax_block_height (hist (cu_address cu)))"
    and "r \<in> set (hist (cu_address cu))" and "after_cursor after r" and "r \<notin> set (cu_rows cu)"
  shows "b < ax_block_height r \<and> (\<exists>l \<in> set (cu_rows cu). b < ax_block_height l)"
proof -
  let ?h = "hist (cu_address cu)" and ?k = "cu_page cu * 100"
  have rows: "cu_rows cu = filter (after_cursor after) (take ?k ?h)" using assms(1) by (simp add: cursor_inv_def)
  then have drop: "r \<in> set (drop ?k ?h)"
  proof -
    have "r \<in> set (take ?k ?h @ drop ?k ?h)" using assms(5) by simp
    then show ?thesis using assms(6,7) rows by (auto simp del: append_take_drop_id)
  qed
  then have "\<not> cu_done cu" using assms(1) by (auto simp: cursor_inv_def)
  then have "cu_rows cu \<noteq> []" "b < ax_block_height (last (cu_rows cu))"
    using assms(1-3) by (auto simp: needing_def cursor_inv_def)
  then have l: "last (cu_rows cu) \<in> set (cu_rows cu)" "b < ax_block_height (last (cu_rows cu))" by auto
  then have "last (cu_rows cu) \<in> set (take ?k ?h)" using rows by auto
  moreover have "sorted (map ax_block_height (take ?k ?h) @ map ax_block_height (drop ?k ?h))"
    using assms(4) by (simp flip: map_append)
  ultimately have "ax_block_height (last (cu_rows cu)) \<le> ax_block_height r"
    using drop by (auto simp: sorted_append)
  with l show ?thesis by (meson less_le_trans)
qed

lemma settled_page:
  assumes holds: "holds_histories fetch hist addresses" and inv: "cursors_inv hist after addresses cus"
    and settled: "\<not> list_ex (needing (snd (mergePage cus))) cus"
    and inj: "inj_on ax_tx_hash (held hist after addresses)" "inj_on tx_order (held hist after addresses)"
  shows "oldest_page 50 (held hist after addresses) (fst (mergePage cus))"
proof -
  let ?F = "held hist after addresses" and ?rows = "concat (map cu_rows cus)"
  let ?page = "fst (mergePage cus)"
  define S where "S = sort_key tx_order (map snd (by_hash ?rows))"
  have cu: "cu_address cu \<in> set addresses" "cursor_inv hist after cu" "0 < cu_page cu"
    "\<not> needing (snd (mergePage cus)) cu" "sorted (map ax_block_height (hist (cu_address cu)))" if "cu \<in> set cus" for cu
    using that inv settled holds by (auto simp: cursors_inv_def list_ex_iff holds_histories_def)
  have sub: "set ?rows \<subseteq> ?F"
    using cu by (fastforce simp: held_def cursor_inv_def dest: in_set_takeD)
  have S: "set S = set ?rows" "distinct S"
    using by_hash_values [OF inj_on_subset [OF inj(1) sub]] by (auto simp: S_def)
  have pw: "?page = history_window 50 ax_block_height S" by (simp add: mergePage_window S_def)
  have sorted: "sort_key ax_block_height S = S" unfolding S_def by (rule sort_key_sorted_id [OF heights_sorted])
  obtain rest where rest: "S = ?page @ rest" using history_window_prefix [of ax_block_height S 50] sorted pw by metis
  have strict: "sorted_wrt (\<lambda>x y. tx_order x < tx_order y) S"
  proof -
    have "distinct (map tx_order S)"
      using S sub inj(2) by (auto simp: distinct_map intro: inj_on_subset)
    moreover have "sorted (map tx_order S)" by (simp add: S_def)
    ultimately have "sorted_wrt (<) (map tx_order S)" by (simp add: strict_sorted_iff)
    then show ?thesis by (simp add: sorted_wrt_map)
  qed
  have closed: "ax_block_height x < ax_block_height y" if "x \<in> set ?page" "y \<in> set rest" for x y
  proof (rule history_window_closed [of 50 ax_block_height S rest])
    show "sort_key ax_block_height S = history_window 50 ax_block_height S @ rest" using sorted rest pw by metis
    show "x \<in> set (history_window 50 ax_block_height S)" using that(1) pw by metis
  qed (use that(2) in simp_all)
  have unread: "\<exists>b. snd (mergePage cus) = Some b \<and> b < ax_block_height y \<and> (\<exists>l \<in> set S. b < ax_block_height l)"
    if y: "y \<in> ?F - set S" for y
  proof -
    obtain a where a: "a \<in> set addresses" "y \<in> set (hist a)" "after_cursor after y" using y by (auto simp: held_def)
    then obtain cur where cur: "cur \<in> set cus" "cu_address cur = a" using inv by (auto simp: cursors_inv_def)
    have out: "y \<notin> set (cu_rows cur)" using y S(1) cur(1) by auto
    show ?thesis
    proof (cases "snd (mergePage cus)")
      case None
      then have "cu_rows cur = []" using cur(1) by (simp add: mergePage_None)
      then have "cu_done cur" using cu [OF cur(1)] None by (auto simp: needing_def cursor_inv_def)
      then have "take (cu_page cur * 100) (hist a) = hist a" using cu(2) [OF cur(1)] cur(2) by (simp add: cursor_inv_def)
      with out cu(2) [OF cur(1)] a cur(2) show ?thesis by (simp add: cursor_inv_def)
    next
      case (Some b)
      with unread_above [of hist after cur b y] cu [OF cur(1)] a cur(2) out
      have "b < ax_block_height y" "\<exists>l \<in> set (cu_rows cur). b < ax_block_height l" by auto
      with Some S(1) cur(1) show ?thesis by auto
    qed
  qed
  have below: "ax_block_height x < ax_block_height y" if x: "x \<in> set ?page" and y: "y \<in> ?F - set ?page" for x y
  proof (cases "y \<in> set S")
    case True
    then have "y \<in> set rest" using y rest by (metis DiffD2 Un_iff set_append)
    with x closed show ?thesis by blast
  next
    case False
    with y unread [of y] obtain b where "snd (mergePage cus) = Some b" "b < ax_block_height y" by blast
    with mergePage_boundary [of cus b x] x show ?thesis by simp
  qed
  have enough: "set ?page = ?F \<or> 50 \<le> length ?page"
  proof (rule disjCI)
    assume few: "\<not> 50 \<le> length ?page"
    then have "length S \<le> length ?page"
      using history_window_length [of 50 S ax_block_height] pw by (simp add: min_def split: if_splits)
    then have "rest = []" using rest by (metis add_le_same_cancel1 le_zero_eq length_0_conv length_append)
    then have page: "?page = S" using rest by simp
    have False if "y \<in> ?F - set S" for y
      using unread [OF that] mergePage_boundary [of cus] page by (metis not_le)
    then show "set ?page = ?F" using page S(1) sub by auto
  qed
  have "sorted_wrt (\<lambda>x y. tx_order x < tx_order y) ?page" using strict rest by (metis sorted_wrt_append)
  moreover have "set ?page \<subseteq> ?F" using rest S(1) sub by (metis Un_subset_iff set_append)
  ultimately show ?thesis using below enough by (auto simp: oldest_page_def)
qed

text \<open>
  C31: when upstream holds the histories of the addresses, a page of Blockfrost history is made of exactly
  the oldest transactions after the cursor: merged over all addresses without repeats, in chain order,
  at least fifty of them when there are that many, and never splitting a block, so the next cursor
  skips nothing, although only the first page of most addresses is read.
\<close>

theorem bf_history_page:
  fixes n :: "('s, 'j) bf_net"
  assumes "\<And>a p (s :: 's). a \<in> set addresses \<Longrightarrow> 1 \<le> p \<Longrightarrow>
      fst (address_txs_page c n dec after a p s) = Inr (Some (take 100 (drop ((p - 1) * 100) (hist a))))"
    and "\<And>a. a \<in> set addresses \<Longrightarrow> sorted (map ax_block_height (hist a)) \<and> length (hist a) \<le> 20000"
    and "inj_on ax_tx_hash {r. \<exists>a \<in> set addresses. r \<in> set (hist a) \<and> after_cursor after r}"
    and "inj_on tx_order {r. \<exists>a \<in> set addresses. r \<in> set (hist a) \<and> after_cursor after r}"
  shows "\<exists>page u. addressSetTxHistory c n dec d addresses after s = hydrateTransactions c n d (map ax_tx_hash page) u \<and>
    oldest_page 50 {r. \<exists>a \<in> set addresses. r \<in> set (hist a) \<and> after_cursor after r} page"
proof -
  let ?f = "address_txs_page c n dec after"
  have holds: "holds_histories ?f hist addresses"
    using assms(1,2) by (auto simp: holds_histories_def serves_def page_of_def)
  have "\<exists>cu. fst (advanceCursor ?f after (first_cursor a) s) = Inr cu \<and>
      cu_address cu = a \<and> cursor_inv hist after cu \<and> 0 < cu_page cu" if "a \<in> set addresses" for a s
    using cursor_advance_inv [OF holds, of "first_cursor a" after s] that
    by (auto simp: first_cursor_def cursor_inv_def)
  from mapIO_all2 [of addresses "\<lambda>a. advanceCursor ?f after (first_cursor a)", OF this]
  obtain cus where c: "fst (mapIO (\<lambda>a. advanceCursor ?f after (first_cursor a)) addresses s) = Inr cus"
    "cursors_inv hist after addresses cus"
    unfolding cursors_inv_all2 [symmetric] by blast
  then obtain u where u: "mapIO (\<lambda>a. advanceCursor ?f after (first_cursor a)) addresses s = (Inr cus, u)"
    by (cases "mapIO (\<lambda>a. advanceCursor ?f after (first_cursor a)) addresses s") auto
  from settle_page_inv [OF holds c(2), of u] obtain cus'
    where s': "fst (settle_page ?f after cus u) = Inr cus'" and settled: "cursors_inv hist after addresses cus'"
      "\<not> list_ex (needing (snd (mergePage cus'))) cus'"
    by blast
  from s' obtain v where v: "settle_page ?f after cus u = (Inr cus', v)" by (cases "settle_page ?f after cus u") auto
  have page: "oldest_page 50 (held hist after addresses) (fst (mergePage cus'))"
    using settled_page [OF holds settled] assms(3,4) by (simp add: held_def)
  have "address_set_page ?f addresses after s = (Inr (fst (mergePage cus')), v)"
    using u v by (simp add: address_set_page_def bindIO_def returnIO_def)
  then have run: "addresses \<noteq> [] \<Longrightarrow> addressSetTxHistory c n dec d addresses after s =
      hydrateTransactions c n d (map ax_tx_hash (fst (mergePage cus'))) v"
    by (simp add: addressSetTxHistory_def bindIO_def)
  show ?thesis
  proof (cases "addresses = []")
    case True
    then show ?thesis
      by (intro exI [of _ "[]"] exI [of _ s]) (simp add: addressSetTxHistory_def hydrateTransactions_def oldest_page_def)
  next
    case False
    with run page show ?thesis unfolding held_def by blast
  qed
qed

text \<open>An address with one transaction.\<close>

definition one_row :: bfAddressTxRow where
  "one_row = \<lparr>ax_tx_hash = ''ab'', ax_tx_index = 0, ax_block_height = 9\<rparr>"

definition row_url :: "nat \<Rightarrow> string" where
  "row_url p = ''/addresses/a1/transactions?count=100&page='' @ string_of_nat p @ ''&order=asc''"

definition row_server :: "string \<Rightarrow> bfAddressTxRow fetch_outcome" where
  "row_server path = ok_json (JArray (if path = row_url 1 then [one_row] else []))"

definition no_details :: "bfAddressTxRow tx_schemas" where
  "no_details = \<lparr>sc_content = (\<lambda>_. None), sc_block = (\<lambda>_. None), sc_utxos = (\<lambda>_. None),
     sc_metadata = (\<lambda>_. None), sc_withdrawal = (\<lambda>_. None), sc_stake = (\<lambda>_. None), sc_index = (\<lambda>_. None)\<rparr>"

lemma row_pages:
  assumes "1 \<le> p"
  shows "fst (address_txs_page bf_default (by_path bf_default row_server) Some None ''a1'' p s) =
    Inr (Some (take 100 (drop ((p - 1) * 100) [one_row])))"
proof -
  have url: "address_path ''a1'' @ ''/transactions?count='' @ string_of_nat LIST_PAGE_SIZE @ ''&page='' @
      string_of_nat p @ ''&order=asc'' @ [] = row_url p"
  proof -
    have "address_path ''a1'' = ''/addresses/a1''" "string_of_nat LIST_PAGE_SIZE = ''100''"
      unfolding LIST_PAGE_SIZE_def by code_simp+
    then show ?thesis by (simp add: row_url_def)
  qed
  have dec: "z_array (refine Some bfAddressTxRow_ok) (JArray (if row_url p = row_url 1 then [one_row] else [])) =
      Some (take 100 (drop ((p - 1) * 100) [one_row]))"
    using assms
    by (cases "p = 1") (simp_all add: row_url_def string_of_nat_inj z_array_def refine_def one_row_def
        bfAddressTxRow_ok_def whole_ok_def isSafeInteger_def MAX_SAFE_INTEGER_def)
  show ?thesis
    unfolding address_txs_page_def option.case url
    using bf_getOrUndefined_by_path [where f = row_server and path = "row_url p" and c = bf_default
        and sch = "z_array (refine Some bfAddressTxRow_ok)" and v = "JArray (if row_url p = row_url 1 then [one_row] else [])"] dec
    by (simp add: row_server_def)
qed

theorem bf_history_page_witness:
  "\<exists>page u. addressSetTxHistory bf_default (by_path bf_default row_server) Some no_details [''a1''] None () =
      hydrateTransactions bf_default (by_path bf_default row_server) no_details (map ax_tx_hash page) u \<and>
    oldest_page 50 {one_row} page"
  using bf_history_page [of "[''a1'']" bf_default "by_path bf_default row_server" Some None "\<lambda>_. [one_row]" no_details "()"]
    row_pages by (simp add: after_cursor_def)

end
