(* ===== verification/Blockfrost_Refs.thy ===== *)
theory Blockfrost_Refs
  imports Blockfrost_History "HOL-Library.Sublist"
begin

text \<open>
  The transaction and address operations of the Blockfrost driver, \<^verbatim>\<open>src/providers/blockfrost/tx.ts\<close> and
  \<^verbatim>\<open>addresses.ts\<close>, with the spent-state helpers of \<^verbatim>\<open>tx-info.ts\<close> they use: submission, transaction
  status, outputs by reference, used addresses and UTxOs of addresses.
\<close>

section \<open>Spent state of an output\<close>

definition fetchTxUtxos :: "bf_client \<Rightarrow> ('s, 'j) bf_net \<Rightarrow> ('j jvalue \<Rightarrow> txUtxosRow option) \<Rightarrow> string \<Rightarrow>
    ('s, txUtxosRow option) io_result" where
  "fetchTxUtxos c n dec h = bf_getOrUndefined c n (refine dec txUtxosRow_ok) (tx_path h @ ''/utxos'')"

record addressUtxoRefRow =
  rf_tx_hash :: string
  rf_output_index :: nat

definition ref_page :: "bf_client \<Rightarrow> ('s, 'j) bf_net \<Rightarrow> ('j \<Rightarrow> addressUtxoRefRow option) \<Rightarrow> string \<Rightarrow> nat \<Rightarrow>
    ('s, addressUtxoRefRow list option) io_result" where
  "ref_page c n dec address page = bf_getOrUndefined c n (z_array dec)
     (address_path address @ ''/utxos?count='' @ string_of_nat LIST_PAGE_SIZE @ ''&page='' @ string_of_nat page @ ''&order=desc'')"

primrec collateral_loop :: "nat \<Rightarrow> (nat \<Rightarrow> ('s, addressUtxoRefRow list option) io_result) \<Rightarrow> string \<Rightarrow> nat \<Rightarrow> nat \<Rightarrow>
    ('s, bool option) io_result" where
  "collateral_loop 0 fetch wanted outputIndex page = returnIO None"
| "collateral_loop (Suc left) fetch wanted outputIndex page =
     bindIO (fetch page) (\<lambda>r. case r of
         None \<Rightarrow> returnIO (Some True)
       | Some rows \<Rightarrow>
           if list_ex (\<lambda>row. toLowerCase (rf_tx_hash row) = wanted \<and> rf_output_index row = outputIndex) rows
           then returnIO (Some False)
           else if length rows < LIST_PAGE_SIZE then returnIO (Some True)
           else collateral_loop left fetch wanted outputIndex (page + 1))"

definition resolveCollateralSpent :: "bf_client \<Rightarrow> ('s, 'j) bf_net \<Rightarrow> ('j \<Rightarrow> addressUtxoRefRow option) \<Rightarrow> string \<Rightarrow>
    string \<Rightarrow> nat \<Rightarrow> ('s, bool option) io_result" where
  "resolveCollateralSpent c n dec address txHash outputIndex =
     collateral_loop LIST_MAX_PAGES (ref_page c n dec address) (toLowerCase txHash) outputIndex 1"

definition resolveOutputSpent :: "bf_client \<Rightarrow> ('s, 'j) bf_net \<Rightarrow> ('j \<Rightarrow> addressUtxoRefRow option) \<Rightarrow> string \<Rightarrow> nat \<Rightarrow>
    utxoOutputRow \<Rightarrow> ('s, bool option) io_result" where
  "resolveOutputSpent c n dec txHash outputIndex output =
     (if xo_consumed_by_tx output \<noteq> None then returnIO (Some True)
      else if \<not> xo_collateral output then returnIO (Some False)
      else resolveCollateralSpent c n dec (xo_address output) txHash outputIndex)"

definition mapResolvedOutput :: "string \<Rightarrow> nat \<Rightarrow> utxoOutputRow \<Rightarrow> bool \<Rightarrow> nat \<Rightarrow> ResolvedUtxo result" where
  "mapResolvedOutput txHash outputIndex output spent blockHeight =
     bindE (splitAmount (xo_amount output) None) (\<lambda>((v, assets), _).
       Inr \<lparr>u_txHash = txHash, u_outputIndex = int outputIndex, u_address = xo_address output,
         u_blockHeight = blockHeight, u_value = v, u_assets = assets, u_datumHash = xo_data_hash output,
         u_inlineDatum = xo_inline_datum output, u_referenceScriptHash = xo_reference_script_hash output,
         u_referenceScript = None, ru_spent = spent\<rparr>)"

section \<open>Outputs by reference\<close>

record OutputRef =
  or_ref :: string
  or_hash :: string
  or_index :: nat

text \<open>\<open>slice(0, indexOf('#'))\<close> and \<open>slice(indexOf('#') + 1)\<close>; without a hash sign \<open>indexOf\<close> is \<open>-1\<close>.\<close>

definition before_hash :: "string \<Rightarrow> string" where
  "before_hash s = (if CHR ''#'' \<in> set s then takeWhile (\<lambda>c. c \<noteq> CHR ''#'') s else butlast s)"

definition after_hash :: "string \<Rightarrow> string" where
  "after_hash s = (if CHR ''#'' \<in> set s then tl (dropWhile (\<lambda>c. c \<noteq> CHR ''#'') s) else s)"

definition parseRef :: "string \<Rightarrow> OutputRef option" where
  "parseRef ref =
     (if \<not> tx_hash_ok (before_hash ref) \<or> \<not> all_digits (after_hash ref) then None
      else if int (nat_of_string (after_hash ref)) > MAX_SAFE_INTEGER then None
      else Some \<lparr>or_ref = ref, or_hash = toLowerCase (before_hash ref), or_index = nat_of_string (after_hash ref)\<rparr>)"

definition spentKey :: "OutputRef \<Rightarrow> string" where
  "spentKey r = or_hash r @ ''#'' @ string_of_nat (or_index r)"

text \<open>\<open>xs.flatMap((p) => p === undefined ? [] : [f(p)])\<close>.\<close>

definition present :: "'a option list \<Rightarrow> 'a list" where
  "present xs = concat (map (\<lambda>p. case p of None \<Rightarrow> [] | Some a \<Rightarrow> [a]) xs)"

definition found_outputs :: "OutputRef list \<Rightarrow> (string, txUtxosRow option) js_map \<Rightarrow> (OutputRef \<times> utxoOutputRow) list" where
  "found_outputs parsed byHash = concat (map (\<lambda>p.
     case jm_get byHash (or_hash p) of
       Some (Some utxos) \<Rightarrow> (case List.find (\<lambda>o'. xo_output_index o' = or_index p) (xu_outputs utxos) of
           None \<Rightarrow> [] | Some o' \<Rightarrow> [(p, o')])
     | _ \<Rightarrow> []) parsed)"

definition by_spent_key :: "(OutputRef \<times> utxoOutputRow) list \<Rightarrow> (string, OutputRef \<times> utxoOutputRow) js_map" where
  "by_spent_key found = fold (\<lambda>e. jm_set (spentKey (fst e)) e) found []"

fun resolved_outputs :: "(string, bool option) js_map \<Rightarrow> (string, nat) js_map \<Rightarrow> (OutputRef \<times> utxoOutputRow) list \<Rightarrow>
    ResolvedUtxo list result" where
  "resolved_outputs spentByKey heights [] = Inr []"
| "resolved_outputs spentByKey heights ((r, output) # es) =
     (case jm_get spentByKey (spentKey r) of
        Some (Some spent) \<Rightarrow> (case jm_get heights (or_hash r) of
            Some h \<Rightarrow> bindE (mapResolvedOutput (or_hash r) (or_index r) output spent h) (\<lambda>u.
              bindE (resolved_outputs spentByKey heights es) (\<lambda>us. Inr (u # us)))
          | None \<Rightarrow> resolved_outputs spentByKey heights es)
      | _ \<Rightarrow> resolved_outputs spentByKey heights es)"

record 'j ref_schemas =
  rs_utxos :: "'j jvalue \<Rightarrow> txUtxosRow option"
  rs_refs :: "'j \<Rightarrow> addressUtxoRefRow option"
  rs_height :: "'j jvalue \<Rightarrow> int option"

definition spent_of :: "bf_client \<Rightarrow> ('s, 'j) bf_net \<Rightarrow> 'j ref_schemas \<Rightarrow> OutputRef \<times> utxoOutputRow \<Rightarrow>
    ('s, bool option) io_result" where
  "spent_of c n d e = resolveOutputSpent c n (rs_refs d) (or_hash (fst e)) (or_index (fst e)) (snd e)"

definition bf_getUtxosByRef :: "bf_client \<Rightarrow> ('s, 'j) bf_net \<Rightarrow> 'j ref_schemas \<Rightarrow> string list \<Rightarrow>
    ('s, ResolvedUtxo list) io_result" where
  "bf_getUtxosByRef c n d refs =
     (if refs = [] then returnIO []
      else
        let parsed = present (map parseRef refs); uniqueHashes = dedupe (map or_hash parsed) in
        bindIO (mapIO (fetchTxUtxos c n (rs_utxos d)) uniqueHashes) (\<lambda>fetched.
        let found = found_outputs parsed (zip uniqueHashes fetched); distinct = map snd (by_spent_key found) in
        bindIO (mapIO (spent_of c n d) distinct) (\<lambda>states.
        bindIO (resolveTxBlockHeights c n (rs_height d) (map (or_hash \<circ> fst) found)) (\<lambda>heights.
        liftE (resolved_outputs (zip (map (spentKey \<circ> fst) distinct) states) heights found)))))"

section \<open>Submission and status\<close>

definition bf_submitTx :: "bf_client \<Rightarrow> ('s, 'j) bf_net \<Rightarrow> ('j jvalue \<Rightarrow> string option) \<Rightarrow> string \<Rightarrow>
    ('s, string) io_result" where
  "bf_submitTx c n dec cborHex =
     (if cborHex = [] \<or> \<not> list_all is_hex cborHex \<or> odd (length cborHex)
      then throwIO (BadRequestError ''transaction must be a hex-encoded CBOR string'')
      else bf_submit c n (refine dec tx_hash_ok) ''/tx/submit'' (hex_bytes cborHex) ''application/cbor'')"

fun is_provider_error :: "thrown \<Rightarrow> bool" where
  "is_provider_error (ProviderError _ _ _) = True"
| "is_provider_error (ProviderTimeoutError _) = True"
| "is_provider_error CreationBlockRolledBackError = True"
| "is_provider_error _ = False"

text \<open>The mempool lookup: the hash it names, nothing, or \<open>None\<close> outside when it failed and that is tolerated.\<close>

definition mempool_lookup :: "bf_client \<Rightarrow> ('s, 'j) bf_net \<Rightarrow> ('j jvalue \<Rightarrow> string option) \<Rightarrow> string \<Rightarrow>
    ('s, string option option) io_result" where
  "mempool_lookup c n dec h =
     catchIO (bindIO (bf_getOrUndefined c n (refine dec tx_hash_ok) (''/mempool/'' @ encodeURIComponent h)) (\<lambda>m. returnIO (Some m)))
       (\<lambda>e. if is_provider_error e then returnIO None else throwIO e)"

record 'j status_schemas =
  ss_tx :: "'j jvalue \<Rightarrow> string option"
  ss_block :: "'j jvalue \<Rightarrow> int option"
  ss_mempool :: "'j jvalue \<Rightarrow> string option"

definition bf_getTxStatus :: "bf_client \<Rightarrow> ('s, 'j) bf_net \<Rightarrow> 'j status_schemas \<Rightarrow> string \<Rightarrow> ('s, TxStatus) io_result" where
  "bf_getTxStatus c n d hash =
     (let h = toLowerCase hash in
      bindIO (bf_getOrUndefined c n (ss_tx d) (tx_path h)) (\<lambda>tx. case tx of
          None \<Rightarrow> bindIO (mempool_lookup c n (ss_mempool d) h) (\<lambda>m. case m of
              None \<Rightarrow> returnIO unknownTxStatus
            | Some None \<Rightarrow> returnIO unknownTxStatus
            | Some (Some found) \<Rightarrow>
                if toLowerCase found \<noteq> h
                then throwIO (MalformedUpstreamError ''blockfrost returned mempool content for a different transaction'')
                else returnIO pendingTxStatus)
        | Some block \<Rightarrow> bindIO (bf_get c n (refine (ss_block d) whole_ok) (block_path block)) (\<lambda>k.
            liftE (confirmedTxStatus k))))"

section \<open>Addresses\<close>

definition is_used :: "bf_client \<Rightarrow> ('s, 'j) bf_net \<Rightarrow> ('j jvalue \<Rightarrow> string option) \<Rightarrow> string \<Rightarrow> ('s, bool) io_result" where
  "is_used c n dec a = bindIO (bf_getOrUndefined c n dec (address_path a)) (\<lambda>r. returnIO (r \<noteq> None))"

definition bf_filterUsedAddresses :: "bf_client \<Rightarrow> ('s, 'j) bf_net \<Rightarrow> ('j jvalue \<Rightarrow> string option) \<Rightarrow> string list \<Rightarrow>
    ('s, string list) io_result" where
  "bf_filterUsedAddresses c n dec addresses =
     (if addresses = [] then returnIO []
      else bindIO (mapIO (is_used c n dec) addresses) (\<lambda>checks.
        returnIO (map fst (filter snd (zip addresses checks)))))"

definition notImplemented :: "string \<Rightarrow> string option \<Rightarrow> 'a result" where
  "notImplemented what reason = Inl (NotImplementedError (case reason of Some r \<Rightarrow> r
     | None \<Rightarrow> ''blockfrost driver does not implement '' @ what @ '' yet; see issue #4 for what is left''))"

definition bf_filterUsedPaymentCredentials :: "string list \<Rightarrow> ('s, string list) io_result" where
  "bf_filterUsedPaymentCredentials credentials = liftE (notImplemented ''filterUsedPaymentCredentials''
     (Some (''blockfrost exposes no payment-credential index; there is no endpoint that resolves usage '' @
        ''by payment credential the way koios /credential_txs does, so this read cannot be served '' @
        ''on blockfrost '' @ map char_of [226, 128, 148 :: nat] @
        '' use filterUsedAddresses with derived addresses instead (see issue #111)'')))"

record bfAddressUtxoRow =
  bd_address :: "string option"
  bd_tx_hash :: string
  bd_output_index :: int
  bd_amount :: "amountItem list"
  bd_block :: string
  bd_data_hash :: "string option"
  bd_inline_datum :: "string option"
  bd_reference_script_hash :: "string option"

definition bfAddressUtxoRow_ok :: "bfAddressUtxoRow \<Rightarrow> bool" where
  "bfAddressUtxoRow_ok r \<longleftrightarrow> whole_ok (bd_output_index r) \<and> amountList_ok (bd_amount r)"

definition bf_mapAddressUtxo :: "string \<Rightarrow> (string, nat) js_map \<Rightarrow> bfAddressUtxoRow \<Rightarrow> Utxo result" where
  "bf_mapAddressUtxo queriedAddress blockHeights row =
     bindE (splitAmount (bd_amount row) None) (\<lambda>((v, assets), _).
       case jm_get blockHeights (bd_block row) of
         None \<Rightarrow> Inl (ProviderError ''blockfrost utxo references a block whose height was not resolved'' None None)
       | Some h \<Rightarrow> Inr \<lparr>u_txHash = bd_tx_hash row, u_outputIndex = bd_output_index row,
           u_address = (case bd_address row of None \<Rightarrow> queriedAddress | Some a \<Rightarrow> a),
           u_blockHeight = h, u_value = v, u_assets = assets, u_datumHash = bd_data_hash row,
           u_inlineDatum = bd_inline_datum row, u_referenceScriptHash = bd_reference_script_hash row,
           u_referenceScript = None\<rparr>)"

definition ADDRESS_UTXO_MAX_PAGES :: nat where "ADDRESS_UTXO_MAX_PAGES = 10000"

definition bd_utxoKey :: "bfAddressUtxoRow \<Rightarrow> string" where
  "bd_utxoKey r = bd_tx_hash r @ ''#'' @ string_of_int (bd_output_index r)"

definition address_changed :: thrown where
  "address_changed = ProviderError ''blockfrost address utxos changed during paged read; retry'' None None"

definition fetchAddressUtxos :: "bf_client \<Rightarrow> ('s, 'j) bf_net \<Rightarrow> ('j \<Rightarrow> bfAddressUtxoRow option) \<Rightarrow> string \<Rightarrow>
    ('s, bfAddressUtxoRow UtxoScan) io_result" where
  "fetchAddressUtxos c n dec address =
     scan_utxo_pages bd_utxoKey ADDRESS_UTXO_MAX_PAGES
       (utxo_page c n (refine dec bfAddressUtxoRow_ok) (address_path address @ ''/utxos'')) address_changed
       (ProviderError (''blockfrost address utxos exceed this provider'' @ [CHR 0x27] @ ''s '' @
          string_of_nat (ADDRESS_UTXO_MAX_PAGES * UTXO_PAGE_SIZE) @ ''-utxo runaway guard'') None None)"

definition bf_getUtxosByAddresses :: "bf_client \<Rightarrow> ('s, 'j) bf_net \<Rightarrow> ('j \<Rightarrow> bfAddressUtxoRow option) \<Rightarrow>
    ('j jvalue \<Rightarrow> int option) \<Rightarrow> string list \<Rightarrow> ('s, Utxo list) io_result" where
  "bf_getUtxosByAddresses c n dec dech addresses =
     (if addresses = [] then returnIO []
      else retryUtxoScanAfterRollback (
        bindIO (mapIO (\<lambda>a. read_agreed (fetchAddressUtxos c n dec a) returnIO address_changed) addresses) (\<lambda>perAddress.
        bindIO (resolveBlockHeights c n dech (map bd_block (concat perAddress))) (\<lambda>heights.
        liftE (mapE (\<lambda>(a, row). bf_mapAddressUtxo a heights row)
          (concat (map (\<lambda>(a, rows). map (\<lambda>row. (a, row)) rows) (zip addresses perAddress))))))))"

section \<open>What an answer rests on\<close>

lemma collateral_loop_unspent:
  "collateral_loop left fetch wanted i p s = (Inr (Some False), t) \<Longrightarrow>
     \<exists>q u v rows. fetch q u = (Inr (Some rows), v) \<and>
       (\<exists>row \<in> set rows. toLowerCase (rf_tx_hash row) = wanted \<and> rf_output_index row = i)"
proof (induction left arbitrary: p s)
  case (Suc left)
  then obtain r u where r: "fetch p s = (Inr r, u)" by (auto simp: io_simps)
  show ?case
  proof (cases r)
    case None
    with Suc.prems r show ?thesis by (auto simp: io_simps)
  next
    case (Some rows)
    show ?thesis
    proof (cases "list_ex (\<lambda>row. toLowerCase (rf_tx_hash row) = wanted \<and> rf_output_index row = i) rows")
      case True
      with r Some show ?thesis unfolding list_ex_iff by blast
    next
      case False
      with Suc.prems r Some have "collateral_loop left fetch wanted i (p + 1) u = (Inr (Some False), t)"
        by (auto simp: io_simps split: if_splits)
      then show ?thesis by (rule Suc.IH)
    qed
  qed
qed (simp add: io_simps)

text \<open>The list of what a run of calls answered.\<close>

lemma mapIO_answers: "mapIO f xs s = (Inr ys, t) \<Longrightarrow> list_all2 (\<lambda>x y. \<exists>s t. f x s = (Inr y, t)) xs ys"
  by (erule mapIO_Inr_all2) blast

lemma jm_get_zip_answers:
  assumes "jm_get (zip xs ys) k = Some y" and "list_all2 P zs ys" and "xs = map g zs"
  shows "\<exists>z \<in> set zs. g z = k \<and> P z y"
proof -
  have "(k, y) \<in> set (zip xs ys)" using assms(1) by (rule jm_get_Some_mem)
  then obtain i where "i < length ys" "i < length xs" "xs ! i = k" "ys ! i = y" by (auto simp: in_set_zip)
  with assms(2,3) show ?thesis by (auto simp: list_all2_conv_all_nth intro!: bexI [of _ "zs ! i"])
qed

lemma found_outputs_mem:
  "(p, o') \<in> set (found_outputs parsed byHash) \<longleftrightarrow> p \<in> set parsed \<and> (\<exists>utxos.
     jm_get byHash (or_hash p) = Some (Some utxos) \<and>
     List.find (\<lambda>o'. xo_output_index o' = or_index p) (xu_outputs utxos) = Some o')"
proof -
  have "(p, o') \<in> set (case jm_get byHash (or_hash q) of
       Some (Some utxos) \<Rightarrow> (case List.find (\<lambda>o'. xo_output_index o' = or_index q) (xu_outputs utxos) of
           None \<Rightarrow> [] | Some o' \<Rightarrow> [(q, o')])
     | _ \<Rightarrow> []) \<longleftrightarrow> p = q \<and> (\<exists>utxos. jm_get byHash (or_hash q) = Some (Some utxos) \<and>
       List.find (\<lambda>o'. xo_output_index o' = or_index q) (xu_outputs utxos) = Some o')" for q
    by (cases "jm_get byHash (or_hash q)"; cases "the (jm_get byHash (or_hash q))") (auto split: option.splits)
  then show ?thesis by (auto simp: found_outputs_def)
qed

lemma by_spent_key_mem: "(k, e) \<in> set (by_spent_key found) \<Longrightarrow> k = spentKey (fst e) \<and> e \<in> set found"
proof -
  have set: "set (jm_set k v m) \<subseteq> insert (k, v) (set m)" for k :: string and v :: "OutputRef \<times> utxoOutputRow" and m
    by (induction k v m rule: jm_set.induct) auto
  have "set (fold (\<lambda>e. jm_set (spentKey (fst e)) e) es m) \<subseteq> set m \<union> (\<lambda>e. (spentKey (fst e), e)) ` set es" for es :: "(OutputRef \<times> utxoOutputRow) list" and m
  proof (induction es arbitrary: m)
    case (Cons e es)
    show ?case using Cons.IH [of "jm_set (spentKey (fst e)) e m"] set [of "spentKey (fst e)" e m] by auto
  qed simp
  from this [of found "[]"] show "(k, e) \<in> set (by_spent_key found) \<Longrightarrow> k = spentKey (fst e) \<and> e \<in> set found"
    by (auto simp: by_spent_key_def)
qed

lemma parseRef_hash: "parseRef ref = Some r \<Longrightarrow> length (or_hash r) = 64"
  by (auto simp: parseRef_def tx_hash_ok_def split: if_splits)

lemma present_mem: "x \<in> set (present xs) \<longleftrightarrow> Some x \<in> set xs"
  by (auto simp: present_def split: option.splits)

lemma spentKey_inj:
  "spentKey a = spentKey b \<Longrightarrow> length (or_hash a) = 64 \<Longrightarrow> length (or_hash b) = 64 \<Longrightarrow>
     or_hash a = or_hash b \<and> or_index a = or_index b"
  by (simp add: spentKey_def append_eq_append_conv string_of_nat_inj)

definition ref_pair :: "OutputRef \<Rightarrow> string \<times> int" where
  "ref_pair r = (or_hash r, int (or_index r))"

definition utxo_pair :: "'a Utxo_scheme \<Rightarrow> string \<times> int" where
  "utxo_pair u = (u_txHash u, u_outputIndex u)"

lemma found_outputs_order: "subseq (map (ref_pair \<circ> fst) (found_outputs parsed byHash)) (map ref_pair parsed)"
proof (induction parsed)
  case (Cons p parsed)
  have "found_outputs (p # parsed) byHash = found_outputs parsed byHash \<or>
      (\<exists>o'. found_outputs (p # parsed) byHash = (p, o') # found_outputs parsed byHash)"
    by (auto simp: found_outputs_def split: option.splits)
  with Cons.IH show ?case by (auto intro: list_emb_Cons)
qed (simp add: found_outputs_def)

definition resolved_entry :: "(string, bool option) js_map \<Rightarrow> (string, nat) js_map \<Rightarrow> OutputRef \<Rightarrow> utxoOutputRow \<Rightarrow>
    ResolvedUtxo \<Rightarrow> bool" where
  "resolved_entry spentByKey heights r output u \<longleftrightarrow>
     utxo_pair u = ref_pair r \<and> jm_get spentByKey (spentKey r) = Some (Some (ru_spent u)) \<and>
     jm_get heights (or_hash r) = Some (u_blockHeight u) \<and> u_address u = xo_address output \<and>
     u_assets u = map unit_asset (native (xo_amount output)) \<and>
     (\<exists>a \<in> set (xo_amount output). am_unit a = ''lovelace'' \<and> u_value u = numeric_string (am_quantity a))"

lemma resolved_outputs_spec:
  "resolved_outputs spentByKey heights found = Inr us \<Longrightarrow>
     subseq (map utxo_pair us) (map (ref_pair \<circ> fst) found) \<and>
     (\<forall>u \<in> set us. \<exists>(r, output) \<in> set found. resolved_entry spentByKey heights r output u)"
proof (induction found arbitrary: us)
  case (Cons e es)
  obtain r out where e: "e = (r, out)" by fastforce
  let ?next = "resolved_outputs spentByKey heights es"
  consider (drop) "?next = Inr us"
    | (keep) spent h u us' where "jm_get spentByKey (spentKey r) = Some (Some spent)"
      "jm_get heights (or_hash r) = Some h" "mapResolvedOutput (or_hash r) (or_index r) out spent h = Inr u"
      "?next = Inr us'" "us = u # us'"
    using Cons.prems unfolding e by (auto simp: sum_simps split: option.splits)
  then show ?case
  proof cases
    case drop
    from Cons.IH [OF drop] show ?thesis by (auto intro: list_emb_Cons)
  next
    case keep
    from keep(1-3) have u: "resolved_entry spentByKey heights r out u"
      by (auto simp: resolved_entry_def mapResolvedOutput_def sum_simps splitAmount_Inr utxo_pair_def ref_pair_def)
    then have "utxo_pair u = ref_pair r" by (simp add: resolved_entry_def)
    with Cons.IH [OF keep(4)] keep(5) u show ?thesis unfolding e by auto
  qed
qed simp

text \<open>Each entry of an answer comes from the output under its own hash and index, and its state was resolved.\<close>

lemma bf_refs_resolved:
  assumes "bf_getUtxosByRef c n d refs s = (Inr us, t)"
  shows "subseq (map utxo_pair us) (map ref_pair (present (map parseRef refs))) \<and>
    (\<forall>u \<in> set us. \<exists>utxos out s1 t1 s2 t2.
       fetchTxUtxos c n (rs_utxos d) (u_txHash u) s1 = (Inr (Some utxos), t1) \<and>
       List.find (\<lambda>o'. int (xo_output_index o') = u_outputIndex u) (xu_outputs utxos) = Some out \<and>
       u_address u = xo_address out \<and> u_assets u = map unit_asset (native (xo_amount out)) \<and>
       (\<exists>a \<in> set (xo_amount out). am_unit a = ''lovelace'' \<and> u_value u = numeric_string (am_quantity a)) \<and>
       resolveOutputSpent c n (rs_refs d) (u_txHash u) (nat (u_outputIndex u)) out s2 = (Inr (Some (ru_spent u)), t2))"
proof (cases "refs = []")
  case True
  with assms show ?thesis by (simp add: bf_getUtxosByRef_def io_simps)
next
  case False
  define parsed where "parsed = present (map parseRef refs)"
  let ?hashes = "dedupe (map or_hash parsed)"
  from assms False obtain fetched states heights s1 s2 where
    fetched: "mapIO (fetchTxUtxos c n (rs_utxos d)) ?hashes s = (Inr fetched, s1)"
    and states: "mapIO (spent_of c n d) (map snd (by_spent_key (found_outputs parsed (zip ?hashes fetched)))) s1 = (Inr states, s2)"
    and us: "resolved_outputs (zip (map (spentKey \<circ> fst) (map snd (by_spent_key (found_outputs parsed (zip ?hashes fetched))))) states)
      heights (found_outputs parsed (zip ?hashes fetched)) = Inr us"
    by (auto simp: bf_getUtxosByRef_def Let_def parsed_def io_simps)
  let ?found = "found_outputs parsed (zip ?hashes fetched)"
  let ?dist = "map snd (by_spent_key ?found)"
  note spec = resolved_outputs_spec [OF us]
  have len: "length (or_hash r) = 64" if "r \<in> set parsed" for r
    using that parseRef_hash by (auto simp: parsed_def present_mem)
  have order: "subseq (map utxo_pair us) (map ref_pair parsed)"
    using spec found_outputs_order [of parsed "zip ?hashes fetched"] by (meson subseq_order.trans)
  have one: "\<exists>utxos out s1 t1.
       fetchTxUtxos c n (rs_utxos d) (u_txHash u) s1 = (Inr (Some utxos), t1) \<and>
       List.find (\<lambda>o'. int (xo_output_index o') = u_outputIndex u) (xu_outputs utxos) = Some out \<and>
       u_address u = xo_address out \<and> u_assets u = map unit_asset (native (xo_amount out)) \<and>
       (\<exists>a \<in> set (xo_amount out). am_unit a = ''lovelace'' \<and> u_value u = numeric_string (am_quantity a)) \<and>
       (\<exists>s2 t2. resolveOutputSpent c n (rs_refs d) (u_txHash u) (nat (u_outputIndex u)) out s2 =
          (Inr (Some (ru_spent u)), t2))" if "u \<in> set us" for u
  proof -
    from spec that obtain r out where e: "(r, out) \<in> set ?found"
      "resolved_entry (zip (map (spentKey \<circ> fst) ?dist) states) heights r out u" by blast
    then have u: "u_txHash u = or_hash r" "u_outputIndex u = int (or_index r)"
      and st: "jm_get (zip (map (spentKey \<circ> fst) ?dist) states) (spentKey r) = Some (Some (ru_spent u))"
      and outs: "u_address u = xo_address out" "u_assets u = map unit_asset (native (xo_amount out))"
        "\<exists>a \<in> set (xo_amount out). am_unit a = ''lovelace'' \<and> u_value u = numeric_string (am_quantity a)"
      by (auto simp: resolved_entry_def utxo_pair_def ref_pair_def)
    from e(1) obtain utxos where r: "r \<in> set parsed" "jm_get (zip ?hashes fetched) (or_hash r) = Some (Some utxos)"
      "List.find (\<lambda>o'. xo_output_index o' = or_index r) (xu_outputs utxos) = Some out"
      by (auto simp: found_outputs_mem)
    from jm_get_zip_answers [OF r(2) mapIO_answers [OF fetched], of id]
    obtain s3 t3 where f: "fetchTxUtxos c n (rs_utxos d) (or_hash r) s3 = (Inr (Some utxos), t3)" by auto
    from jm_get_zip_answers [OF st mapIO_answers [OF states] refl]
    obtain e' s4 t4 where e': "e' \<in> set ?dist" "spentKey (fst e') = spentKey r"
      "spent_of c n d e' s4 = (Inr (Some (ru_spent u)), t4)" unfolding comp_apply by blast
    then have e'': "e' \<in> set ?found" using by_spent_key_mem by fastforce
    then obtain utxos' where r': "fst e' \<in> set parsed" "jm_get (zip ?hashes fetched) (or_hash (fst e')) = Some (Some utxos')"
      "List.find (\<lambda>o'. xo_output_index o' = or_index (fst e')) (xu_outputs utxos') = Some (snd e')"
      using found_outputs_mem [of "fst e'" "snd e'"] by auto
    have same: "or_hash (fst e') = or_hash r" "or_index (fst e') = or_index r"
      using spentKey_inj [OF e'(2) len [OF r'(1)] len [OF r(1)]] by auto
    with r r' have "snd e' = out" by simp
    with e'(3) same have "resolveOutputSpent c n (rs_refs d) (or_hash r) (or_index r) out s4 = (Inr (Some (ru_spent u)), t4)"
      by (simp add: spent_of_def)
    with f r(3) outs u show ?thesis by auto
  qed
  from order one show ?thesis unfolding parsed_def by blast
qed

lemma resolved_unspent:
  assumes "resolveOutputSpent c n dec h i out s = (Inr (Some False), t)"
  shows "xo_consumed_by_tx out = None \<and> (xo_collateral out \<longrightarrow>
    (\<exists>q s2 rows t2. ref_page c n dec (xo_address out) q s2 = (Inr (Some rows), t2) \<and>
       (\<exists>row \<in> set rows. toLowerCase (rf_tx_hash row) = toLowerCase h \<and> rf_output_index row = i)))"
  using assms collateral_loop_unspent
  by (fastforce simp: resolveOutputSpent_def resolveCollateralSpent_def io_simps split: if_splits)

section \<open>Properties\<close>

text \<open>
  C33: an output resolved by reference is never called unspent on a guess.  The answer lists some of the
  references asked about, in their order; each entry is the output upstream lists under that very
  transaction and index, with its own amount; and \<open>spent = false\<close> is only said of an ordinary output
  that no transaction consumed, or of a collateral output that a page of its address's UTxOs lists.
\<close>

theorem bf_refs_never_guessed:
  assumes "bf_getUtxosByRef c n d refs s = (Inr us, t)"
  shows "subseq (map (\<lambda>u. (u_txHash u, u_outputIndex u)) us)
      (map (\<lambda>r. (or_hash r, int (or_index r))) (present (map parseRef refs))) \<and>
    (\<forall>u \<in> set us. \<exists>utxos output s1 t1.
       fetchTxUtxos c n (rs_utxos d) (u_txHash u) s1 = (Inr (Some utxos), t1) \<and>
       List.find (\<lambda>o'. int (xo_output_index o') = u_outputIndex u) (xu_outputs utxos) = Some output \<and>
       u_address u = xo_address output \<and> u_assets u = map unit_asset (native (xo_amount output)) \<and>
       (\<exists>a \<in> set (xo_amount output). am_unit a = ''lovelace'' \<and> u_value u = numeric_string (am_quantity a)) \<and>
       (\<not> ru_spent u \<longrightarrow> xo_consumed_by_tx output = None \<and> (xo_collateral output \<longrightarrow>
          (\<exists>q s2 rows t2. ref_page c n (rs_refs d) (xo_address output) q s2 = (Inr (Some rows), t2) \<and>
             (\<exists>row \<in> set rows. toLowerCase (rf_tx_hash row) = toLowerCase (u_txHash u) \<and>
                int (rf_output_index row) = u_outputIndex u)))))"
proof (intro conjI ballI)
  show "subseq (map (\<lambda>u. (u_txHash u, u_outputIndex u)) us)
      (map (\<lambda>r. (or_hash r, int (or_index r))) (present (map parseRef refs)))"
    using bf_refs_resolved [OF assms] by (simp add: utxo_pair_def [abs_def] ref_pair_def [abs_def])
next
  fix u assume "u \<in> set us"
  with bf_refs_resolved [OF assms] obtain utxos out s1 t1 s2 t2 where
    out: "fetchTxUtxos c n (rs_utxos d) (u_txHash u) s1 = (Inr (Some utxos), t1)"
      "List.find (\<lambda>o'. int (xo_output_index o') = u_outputIndex u) (xu_outputs utxos) = Some out"
      "u_address u = xo_address out \<and> u_assets u = map unit_asset (native (xo_amount out)) \<and>
       (\<exists>a \<in> set (xo_amount out). am_unit a = ''lovelace'' \<and> u_value u = numeric_string (am_quantity a))"
    and spent: "resolveOutputSpent c n (rs_refs d) (u_txHash u) (nat (u_outputIndex u)) out s2 = (Inr (Some (ru_spent u)), t2)"
    by blast
  from out(2) have idx: "rf_output_index row = nat (u_outputIndex u) \<longleftrightarrow> int (rf_output_index row) = u_outputIndex u" for row
    by (auto simp: find_Some_iff)
  from spent resolved_unspent [of c n "rs_refs d" "u_txHash u" "nat (u_outputIndex u)" out s2 t2]
  have "\<not> ru_spent u \<longrightarrow> xo_consumed_by_tx out = None \<and> (xo_collateral out \<longrightarrow>
      (\<exists>q s2 rows t2. ref_page c n (rs_refs d) (xo_address out) q s2 = (Inr (Some rows), t2) \<and>
         (\<exists>row \<in> set rows. toLowerCase (rf_tx_hash row) = toLowerCase (u_txHash u) \<and>
            int (rf_output_index row) = u_outputIndex u)))"
    by (cases "ru_spent u") (simp_all add: idx)
  with out show "\<exists>utxos output s1 t1.
       fetchTxUtxos c n (rs_utxos d) (u_txHash u) s1 = (Inr (Some utxos), t1) \<and>
       List.find (\<lambda>o'. int (xo_output_index o') = u_outputIndex u) (xu_outputs utxos) = Some output \<and>
       u_address u = xo_address output \<and> u_assets u = map unit_asset (native (xo_amount output)) \<and>
       (\<exists>a \<in> set (xo_amount output). am_unit a = ''lovelace'' \<and> u_value u = numeric_string (am_quantity a)) \<and>
       (\<not> ru_spent u \<longrightarrow> xo_consumed_by_tx output = None \<and> (xo_collateral output \<longrightarrow>
          (\<exists>q s2 rows t2. ref_page c n (rs_refs d) (xo_address output) q s2 = (Inr (Some rows), t2) \<and>
             (\<exists>row \<in> set rows. toLowerCase (rf_tx_hash row) = toLowerCase (u_txHash u) \<and>
                int (rf_output_index row) = u_outputIndex u))))"
    by blast
qed


section \<open>Witnesses\<close>

definition ref_hash :: string where "ref_hash = replicate 64 CHR ''a''"

definition ref_server :: "string \<Rightarrow> tx_json fetch_outcome" where
  "ref_server path =
     (if path = tx_path ref_hash @ ''/utxos'' then ok_json (JOther (TxU pay_utxos))
      else if path = tx_path ref_hash then ok_json (JOther (TxB 7)) else FetchFailed)"

definition ref_schemas :: "tx_json ref_schemas" where
  "ref_schemas = \<lparr>rs_utxos = sc_utxos pay_schemas, rs_refs = (\<lambda>_. None), rs_height = sc_block pay_schemas\<rparr>"

lemma ref_parsed: "parseRef (ref_hash @ ''#0'') = Some \<lparr>or_ref = ref_hash @ ''#0'', or_hash = ref_hash, or_index = 0\<rparr>"
proof -
  have "before_hash (ref_hash @ ''#0'') = ref_hash" "after_hash (ref_hash @ ''#0'') = ''0''"
    by (simp_all add: before_hash_def after_hash_def ref_hash_def takeWhile_append dropWhile_append)
  moreover have "tx_hash_ok ref_hash" by (simp add: tx_hash_ok_def ref_hash_def is_hex_def list_all_iff)
  moreover have "toLowerCase ref_hash = ref_hash" by (simp add: toLowerCase_def ref_hash_def lower_char_def)
  ultimately show ?thesis
    by (simp add: parseRef_def all_digits_def is_digit_def nat_of_string_def digit_val_def MAX_SAFE_INTEGER_def)
qed

lemma ref_read:
  "\<exists>u. bf_getUtxosByRef bf_default (by_path bf_default ref_server) ref_schemas [ref_hash @ ''#0''] () = (Inr [u], ()) \<and>
     \<not> ru_spent u"
proof -
  let ?n = "by_path bf_default ref_server"
  have ok: "refine (sc_utxos pay_schemas) txUtxosRow_ok (JOther (TxU pay_utxos)) = Some pay_utxos"
    by (simp add: refine_def pay_schemas_def txUtxosRow_ok_def utxoInputRow_ok_def utxoOutputRow_ok_def
        pay_utxos_def amountList_ok_def amountItem_ok_def isValidUnit_def tx_hash_ok_def is_hex_def list_all_iff
        isSafeInteger_def MAX_SAFE_INTEGER_def)
  have utxos: "fetchTxUtxos bf_default ?n (rs_utxos ref_schemas) ref_hash () = (Inr (Some pay_utxos), ())"
    unfolding fetchTxUtxos_def ref_schemas_def
    by (rule bf_getOrUndefined_by_path [where v = "JOther (TxU pay_utxos)"]) (simp_all add: ref_server_def ok)
  have h: "refine (sc_block pay_schemas) height_ok (JOther (TxB 7)) = Some 7"
    by (simp add: refine_def pay_schemas_def height_ok_def isSafeInteger_def MAX_SAFE_INTEGER_def)
  have "bf_getOrUndefined bf_default ?n (refine (rs_height ref_schemas) height_ok) (''/txs/'' @ encodeURIComponent ref_hash) () =
      (Inr (Some 7), ())"
    by (rule bf_getOrUndefined_by_path [where v = "JOther (TxB 7)"])
      (simp_all add: ref_server_def ref_schemas_def h tx_path_def)
  then have heights: "resolveTxBlockHeights bf_default ?n (rs_height ref_schemas) [ref_hash] () = (Inr [(ref_hash, 7)], ())"
    by (simp add: resolveTxBlockHeights_def lookup_tx_height_def dedupe_def bindIO_def returnIO_def map_filter_def)
  show ?thesis
    using utxos heights
    by (simp add: bf_getUtxosByRef_def Let_def ref_parsed present_def dedupe_def found_outputs_def jm_get_def
        by_spent_key_def spent_of_def resolveOutputSpent_def pay_utxos_def bindIO_def returnIO_def liftE_def
        mapResolvedOutput_def splitAmount_def split_item_def)
qed

theorem bf_refs_never_guessed_witness:
  "\<exists>u. bf_getUtxosByRef bf_default (by_path bf_default ref_server) ref_schemas [ref_hash @ ''#0''] () = (Inr [u], ()) \<and>
     (\<exists>(utxos :: txUtxosRow) output. List.find (\<lambda>o'. int (xo_output_index o') = u_outputIndex u) (xu_outputs utxos) = Some output \<and>
        xo_consumed_by_tx output = None)"
proof -
  obtain u where u: "bf_getUtxosByRef bf_default (by_path bf_default ref_server) ref_schemas [ref_hash @ ''#0''] () = (Inr [u], ())"
    "\<not> ru_spent u" using ref_read by blast
  have "u \<in> set [u]" by simp
  from bspec [OF conjunct2 [OF bf_refs_never_guessed [OF u(1)]] this] u show ?thesis by blast
qed

definition not_found :: "('s, int) bf_net" where
  "not_found = always (FetchResponse \<lparr>res_ok = False, res_status = 404, res_header = (\<lambda>h. None),
      res_json = JsonInvalid, res_text = None\<rparr>)"

lemma not_found_read: "bf_getOrUndefined bf_default not_found sch path s = (Inr None, s)"
proof -
  have "bf_request bf_default not_found path bf_get_init True s =
      (Inr \<lparr>res_ok = False, res_status = 404, res_header = (\<lambda>h. None), res_json = JsonInvalid, res_text = None\<rparr>, s)"
    by (simp add: bf_request_def bf_request_loop.simps fetchOnce_def always_def not_found_def)
  then show ?thesis
    by (simp add: bf_getOrUndefined_def bf_read_def retry_loop.simps [of _ _ _ _ "Suc 0"] bindIO_def liftE_def)
qed

definition no_status :: "int status_schemas" where
  "no_status = \<lparr>ss_tx = (\<lambda>_. None), ss_block = (\<lambda>_. None), ss_mempool = (\<lambda>_. None)\<rparr>"


section \<open>Addresses\<close>

text \<open>On an upstream that answers consistently, exactly the used addresses are kept, in the caller's order.\<close>

lemma bf_filterUsed_exact:
  assumes "\<And>a s. a \<in> set addresses \<Longrightarrow> fst (bf_getOrUndefined c n dec (address_path a) s) = Inr (f a)"
  shows "fst (bf_filterUsedAddresses c n dec addresses s) = Inr (filter (\<lambda>a. f a \<noteq> None) addresses)"
proof -
  have "\<exists>b. fst (is_used c n dec a s) = Inr b \<and> b = (f a \<noteq> None)" if "a \<in> set addresses" for a s
  proof -
    note used = assms [OF that, of s]
    obtain u where "bf_getOrUndefined c n dec (address_path a) s = (Inr (f a), u)"
      using used by (cases "bf_getOrUndefined c n dec (address_path a) s") auto
    then show ?thesis by (simp add: is_used_def bindIO_def returnIO_def)
  qed
  from mapIO_all2 [of addresses "is_used c n dec", OF this] obtain checks
    where checks: "fst (mapIO (is_used c n dec) addresses s) = Inr checks"
      "list_all2 (\<lambda>a b. b = (f a \<noteq> None)) addresses checks" by blast
  then obtain u where "mapIO (is_used c n dec) addresses s = (Inr checks, u)"
    by (cases "mapIO (is_used c n dec) addresses s") auto
  moreover have "map fst (filter snd (zip addresses checks)) = filter (\<lambda>a. f a \<noteq> None) addresses"
    using checks(2) by (induction rule: list_all2_induct) auto
  ultimately show ?thesis
    by (simp add: bf_filterUsedAddresses_def bindIO_def returnIO_def)
qed

text \<open>UTxOs of addresses rest, address by address, on the same kind of scan as those of an account.\<close>

lemma bf_addresses_utxos_stable:
  assumes "bf_getUtxosByAddresses c n dec dech addresses s = (Inr us, t)" and "addresses \<noteq> []"
  shows "\<exists>perAddress heights s1. list_all2 (\<lambda>a rows. \<exists>sc s0 s'. fetchAddressUtxos c n dec a s0 = (Inr sc, s') \<and>
      rows = us_rows sc \<and> distinct (map bd_utxoKey rows) \<and>
      (\<not> us_needsVerification sc \<or> (\<exists>prev s''. us_keys prev = us_keys sc \<and> fetchAddressUtxos c n dec a s'' = (Inr prev, s0))))
        addresses perAddress \<and>
    resolveBlockHeights c n dech (map bd_block (concat perAddress)) s1 = (Inr heights, t) \<and>
    mapE (\<lambda>(a, row). bf_mapAddressUtxo a heights row)
      (concat (map (\<lambda>(a, rows). map (\<lambda>row. (a, row)) rows) (zip addresses perAddress))) = Inr us"
proof -
  let ?read = "\<lambda>a. read_agreed (fetchAddressUtxos c n dec a) returnIO address_changed"
  from assms have "retryUtxoScanAfterRollback (bindIO (mapIO ?read addresses) (\<lambda>perAddress.
        bindIO (resolveBlockHeights c n dech (map bd_block (concat perAddress))) (\<lambda>heights.
        liftE (mapE (\<lambda>(a, row). bf_mapAddressUtxo a heights row)
          (concat (map (\<lambda>(a, rows). map (\<lambda>row. (a, row)) rows) (zip addresses perAddress))))))) s = (Inr us, t)"
    by (simp add: bf_getUtxosByAddresses_def)
  from retry_rollback_Inr [OF this] obtain v per heights u s1 where
    per: "mapIO ?read addresses v = (Inr per, s1)"
    and h: "resolveBlockHeights c n dech (map bd_block (concat per)) s1 = (Inr heights, t)"
    and us: "mapE (\<lambda>(a, row). bf_mapAddressUtxo a heights row)
      (concat (map (\<lambda>(a, rows). map (\<lambda>row. (a, row)) rows) (zip addresses per))) = Inr us"
    by (auto simp: io_simps)
  have "list_all2 (\<lambda>a rows. \<exists>sc s0 s'. fetchAddressUtxos c n dec a s0 = (Inr sc, s') \<and>
      rows = us_rows sc \<and> distinct (map bd_utxoKey rows) \<and>
      (\<not> us_needsVerification sc \<or> (\<exists>prev s''. us_keys prev = us_keys sc \<and> fetchAddressUtxos c n dec a s'' = (Inr prev, s0))))
        addresses per"
    using per
  proof (rule mapIO_Inr_all2)
    fix a s rows t assume "?read a s = (Inr rows, t)"
    from read_agreed_Inr [OF this] obtain sc s0 s' where
      sc: "fetchAddressUtxos c n dec a s0 = (Inr sc, s')" "\<not> us_hasDuplicate sc" "(returnIO (us_rows sc) s' :: bfAddressUtxoRow list result \<times> _) = (Inr rows, t)"
      "\<not> us_needsVerification sc \<or> (\<exists>prev s''. us_keys prev = us_keys sc \<and> fetchAddressUtxos c n dec a s'' = (Inr prev, s0))"
      by blast
    then have rows: "rows = us_rows sc" by (simp add: returnIO_def)
    have "1 < ADDRESS_UTXO_MAX_PAGES" by (simp add: ADDRESS_UTXO_MAX_PAGES_def)
    from scan_utxo_pages_sound [OF sc(1) [unfolded fetchAddressUtxos_def] this] sc(2)
    have "distinct (map bd_utxoKey (us_rows sc))" by metis
    with sc rows show "\<exists>sc s0 s'. fetchAddressUtxos c n dec a s0 = (Inr sc, s') \<and>
      rows = us_rows sc \<and> distinct (map bd_utxoKey rows) \<and>
      (\<not> us_needsVerification sc \<or> (\<exists>prev s''. us_keys prev = us_keys sc \<and> fetchAddressUtxos c n dec a s'' = (Inr prev, s0)))"
      by blast
  qed
  with h us show ?thesis by blast
qed

end
