(* ===== verification/Byron.thy ===== *)
theory Byron
  imports Errors "HOL-Library.Word"
begin

text \<open>
  \<^verbatim>\<open>src/domain/byron-address.ts\<close>: the CRC-32 and the CBOR reader, over lists of 8-bit words.  The
  base58 decoder is a third-party package and is a parameter of \<open>isByronAddress\<close>.  A thrown error is
  \<open>Inl\<close>; only \<open>isByronAddress\<close> catches, and every throw below it becomes \<open>False\<close>.
\<close>

unbundle bit_operations_syntax

type_synonym byte = "8 word"
type_synonym u32 = "32 word"

section \<open>CRC-32\<close>

text \<open>One turn of the inner loop: the mask is all ones or zero, and picks the polynomial in or out.\<close>

definition crc_bit :: "u32 \<Rightarrow> u32" where
  "crc_bit crc = (let mask = - (crc AND 1) in drop_bit 1 crc XOR (0xedb88320 AND mask))"

definition crc_byte :: "u32 \<Rightarrow> byte \<Rightarrow> u32" where
  "crc_byte crc b = (crc_bit ^^ 8) (crc XOR ucast b)"

definition crc32 :: "byte list \<Rightarrow> nat" where
  "crc32 bytes = unat (foldl crc_byte 0xffffffff bytes XOR 0xffffffff)"

section \<open>CBOR headers\<close>

record CborHeader =
  majorType :: nat
  cborValue :: nat
  headerLength :: nat

definition byteAt :: "byte list \<Rightarrow> nat \<Rightarrow> nat result" where
  "byteAt bytes offset =
     (if offset < length bytes then Inr (unat (bytes ! offset))
      else Inl (JsError ''truncated CBOR item''))"

definition readCborHeader :: "byte list \<Rightarrow> nat \<Rightarrow> CborHeader result" where
  "readCborHeader bytes offset =
     bindE (byteAt bytes offset) (\<lambda>first.
       let mt = first div 32; info = first mod 32 in
       if info < 24 then Inr \<lparr>majorType = mt, cborValue = info, headerLength = 1\<rparr>
       else if info = 24 then
         bindE (byteAt bytes (offset + 1)) (\<lambda>b1.
           Inr \<lparr>majorType = mt, cborValue = b1, headerLength = 2\<rparr>)
       else if info = 25 then
         bindE (byteAt bytes (offset + 1)) (\<lambda>b1.
         bindE (byteAt bytes (offset + 2)) (\<lambda>b2.
           Inr \<lparr>majorType = mt, cborValue = b1 * 2 ^ 8 + b2, headerLength = 3\<rparr>))
       else if info = 26 then
         bindE (byteAt bytes (offset + 1)) (\<lambda>b1.
         bindE (byteAt bytes (offset + 2)) (\<lambda>b2.
         bindE (byteAt bytes (offset + 3)) (\<lambda>b3.
         bindE (byteAt bytes (offset + 4)) (\<lambda>b4.
           Inr \<lparr>majorType = mt, cborValue = b1 * 0x1000000 + (b2 * 2 ^ 16 + b3 * 2 ^ 8 + b4),
                headerLength = 5\<rparr>))))
       else Inl (JsError (''unsupported CBOR additional info '' @ string_of_nat info)))"

definition CBOR_MAJOR_UNSIGNED_INT :: nat where "CBOR_MAJOR_UNSIGNED_INT = 0"
definition CBOR_MAJOR_NEGATIVE_INT :: nat where "CBOR_MAJOR_NEGATIVE_INT = 1"
definition CBOR_MAJOR_BYTE_STRING :: nat where "CBOR_MAJOR_BYTE_STRING = 2"
definition CBOR_MAJOR_TEXT_STRING :: nat where "CBOR_MAJOR_TEXT_STRING = 3"
definition CBOR_MAJOR_ARRAY :: nat where "CBOR_MAJOR_ARRAY = 4"
definition CBOR_MAJOR_MAP :: nat where "CBOR_MAJOR_MAP = 5"
definition CBOR_MAJOR_TAG :: nat where "CBOR_MAJOR_TAG = 6"
definition CBOR_TAG_ENCODED_CBOR :: nat where "CBOR_TAG_ENCODED_CBOR = 24"
definition BYRON_ADDRESS_ROOT_BYTES :: nat where "BYRON_ADDRESS_ROOT_BYTES = 28"
definition VALID_BYRON_ADDRESS_TYPES :: "nat set" where "VALID_BYRON_ADDRESS_TYPES = {0, 1, 2}"

lemmas cbor_consts [simp] =
  CBOR_MAJOR_UNSIGNED_INT_def CBOR_MAJOR_NEGATIVE_INT_def CBOR_MAJOR_BYTE_STRING_def
  CBOR_MAJOR_TEXT_STRING_def CBOR_MAJOR_ARRAY_def CBOR_MAJOR_MAP_def CBOR_MAJOR_TAG_def
  CBOR_TAG_ENCODED_CBOR_def BYRON_ADDRESS_ROOT_BYTES_def VALID_BYRON_ADDRESS_TYPES_def

section \<open>Skipping one item\<close>

text \<open>
  The recursion of \<open>skipCborItem\<close> is by nesting depth.  The depth is fuel here; each level reads at
  least the byte of its header, so a list of \<open>n\<close> bytes never nests deeper than \<open>n\<close>
  (\<open>skip_fuel_enough\<close>), and \<open>skipCborItem\<close> satisfies the source's own equation
  (\<open>skipCborItem_rec\<close>).
\<close>

fun skip_fuel :: "nat \<Rightarrow> byte list \<Rightarrow> nat \<Rightarrow> nat result" where
  "skip_fuel 0 bytes offset = Inl (JsError ''truncated CBOR item'')"
| "skip_fuel (Suc fuel) bytes offset =
     bindE (readCborHeader bytes offset) (\<lambda>header.
       let next = offset + headerLength header in
       if majorType header = CBOR_MAJOR_UNSIGNED_INT \<or> majorType header = CBOR_MAJOR_NEGATIVE_INT
       then Inr next
       else if majorType header = CBOR_MAJOR_BYTE_STRING \<or> majorType header = CBOR_MAJOR_TEXT_STRING
       then (if next + cborValue header > length bytes then Inl (JsError ''truncated CBOR string'')
             else Inr (next + cborValue header))
       else if majorType header = CBOR_MAJOR_ARRAY
       then iterE (skip_fuel fuel bytes) (cborValue header) next
       else if majorType header = CBOR_MAJOR_MAP
       then iterE (\<lambda>p. bindE (skip_fuel fuel bytes p) (skip_fuel fuel bytes)) (cborValue header) next
       else if majorType header = CBOR_MAJOR_TAG
       then skip_fuel fuel bytes next
       else Inl (JsError (''unskippable CBOR major type '' @ string_of_nat (majorType header))))"

definition skipCborItem :: "byte list \<Rightarrow> nat \<Rightarrow> nat result" where
  "skipCborItem bytes offset = skip_fuel (Suc (length bytes)) bytes offset"

declare skip_fuel.simps [simp del]

section \<open>The address\<close>

definition isByronAddressPayload :: "byte list \<Rightarrow> bool result" where
  "isByronAddressPayload payload =
     bindE (readCborHeader payload 0) (\<lambda>body.
       if majorType body \<noteq> CBOR_MAJOR_ARRAY \<or> cborValue body \<noteq> 3 then Inr False else
     (let offset = headerLength body in
     bindE (readCborHeader payload offset) (\<lambda>root.
       if majorType root \<noteq> CBOR_MAJOR_BYTE_STRING \<or> cborValue root \<noteq> BYRON_ADDRESS_ROOT_BYTES
       then Inr False else
     (let offset = offset + headerLength root in
       if offset + cborValue root > length payload then Inr False else
     (let offset = offset + cborValue root in
     bindE (readCborHeader payload offset) (\<lambda>attributes.
       if majorType attributes \<noteq> CBOR_MAJOR_MAP then Inr False else
     (let offset = offset + headerLength attributes in
     bindE (iterE (\<lambda>p. bindE (skipCborItem payload p) (skipCborItem payload))
              (cborValue attributes) offset) (\<lambda>offset.
     bindE (readCborHeader payload offset) (\<lambda>type.
       if majorType type \<noteq> CBOR_MAJOR_UNSIGNED_INT \<or> cborValue type \<notin> VALID_BYRON_ADDRESS_TYPES
       then Inr False else
     (let offset = offset + headerLength type in
       Inr (offset = length payload)))))))))))"

text \<open>The \<open>try\<close> block of \<open>isByronAddress\<close>, over the decoded bytes.\<close>

definition byron_envelope :: "byte list \<Rightarrow> bool result" where
  "byron_envelope raw =
     bindE (readCborHeader raw 0) (\<lambda>outer.
       if majorType outer \<noteq> CBOR_MAJOR_ARRAY \<or> cborValue outer \<noteq> 2 then Inr False else
     (let offset = headerLength outer in
     bindE (readCborHeader raw offset) (\<lambda>tag.
       if majorType tag \<noteq> CBOR_MAJOR_TAG \<or> cborValue tag \<noteq> CBOR_TAG_ENCODED_CBOR then Inr False else
     (let offset = offset + headerLength tag in
     bindE (readCborHeader raw offset) (\<lambda>payloadHeader.
       if majorType payloadHeader \<noteq> CBOR_MAJOR_BYTE_STRING then Inr False else
     (let offset = offset + headerLength payloadHeader in
       if offset + cborValue payloadHeader > length raw then Inr False else
     (let payload = take (cborValue payloadHeader) (drop offset raw);
          offset = offset + cborValue payloadHeader in
     bindE (readCborHeader raw offset) (\<lambda>checksum.
       if majorType checksum \<noteq> CBOR_MAJOR_UNSIGNED_INT then Inr False else
     (let offset = offset + headerLength checksum in
       if offset \<noteq> length raw then Inr False else
     bindE (isByronAddressPayload payload) (\<lambda>ok.
       if \<not> ok then Inr False else Inr (crc32 payload = cborValue checksum)))))))))))"

definition isByronAddress :: "(string \<Rightarrow> byte list result) \<Rightarrow> string \<Rightarrow> bool" where
  "isByronAddress base58_decode v =
     (case bindE (base58_decode v) byron_envelope of Inl _ \<Rightarrow> False | Inr b \<Rightarrow> b)"

section \<open>The CRC detects every corruption confined to one byte\<close>

lemma xor_cancel_left: "(x XOR y = x XOR z) \<longleftrightarrow> (y = (z :: 'a :: len word))"
  by (metis xor.assoc xor.left_neutral xor_self_eq)

lemma xor_cancel_right: "(y XOR x = z XOR x) \<longleftrightarrow> (y = (z :: 'a :: len word))"
  by (metis xor.commute xor_cancel_left)

lemma and_one_word: "(x :: 'a :: len word) AND 1 = (if bit x 0 then 1 else 0)"
  by (rule bit_word_eqI) (auto simp: bit_and_iff bit_1_iff, metis gr0I)

lemma crc_bit_msb: "bit (crc_bit crc) 31 \<longleftrightarrow> bit crc 0"
proof -
  have "bit (0xedb88320 :: u32) 31" by (simp add: bit_numeral_word_iff)
  then show ?thesis
    using bit_imp_le_length [of crc 32]
    by (auto simp: crc_bit_def and_one_word bit_xor_iff bit_and_iff bit_drop_bit_eq)
qed

lemma crc_bit_inj: "crc_bit x = crc_bit y \<Longrightarrow> x = y"
proof (rule bit_word_eqI)
  fix n :: nat
  assume eq: "crc_bit x = crc_bit y" and n: "n < LENGTH(32)"
  have low: "bit x 0 \<longleftrightarrow> bit y 0" using eq crc_bit_msb by metis
  then have "x AND 1 = y AND 1" by (simp add: and_one_word)
  then have "drop_bit 1 x = drop_bit 1 y"
    using eq by (simp add: crc_bit_def xor_cancel_right)
  then have "bit x (Suc m) \<longleftrightarrow> bit y (Suc m)" for m
    by (metis bit_drop_bit_eq plus_1_eq_Suc comp_apply)
  with low show "bit x n \<longleftrightarrow> bit y n" by (cases n) auto
qed

lemma crc_bits_inj: "(crc_bit ^^ n) x = (crc_bit ^^ n) y \<Longrightarrow> x = y"
  by (induction n) (auto dest: crc_bit_inj)

lemma crc_byte_inj_state: "crc_byte c b = crc_byte d b \<Longrightarrow> c = d"
  unfolding crc_byte_def by (drule crc_bits_inj) (simp add: xor_cancel_right)

lemma ucast_byte_inj: "(ucast (a :: byte) :: u32) = ucast b \<Longrightarrow> a = b"
proof -
  assume "(ucast a :: u32) = ucast b"
  then have "(ucast (ucast a :: u32) :: byte) = ucast (ucast b :: u32)" by simp
  then show ?thesis by (simp add: ucast_up_ucast_id is_up)
qed

lemma crc_byte_inj_byte: "crc_byte c a = crc_byte c b \<Longrightarrow> a = b"
  unfolding crc_byte_def
  by (drule crc_bits_inj) (auto simp: xor_cancel_left dest: ucast_byte_inj)

lemma foldl_crc_inj: "foldl crc_byte c bs = foldl crc_byte d bs \<Longrightarrow> c = d"
  by (induction bs arbitrary: c d) (auto dest: crc_byte_inj_state)

lemma crc32_bound: "crc32 bs < 2 ^ 32"
  unfolding crc32_def using unsigned_less [of "foldl crc_byte 0xffffffff bs XOR 0xffffffff"] by simp

lemma crc32_one_byte: "crc32 (us @ a # vs) = crc32 (us @ b # vs) \<longleftrightarrow> a = b"
proof
  assume "crc32 (us @ a # vs) = crc32 (us @ b # vs)"
  then have "foldl crc_byte 0xffffffff (us @ a # vs) = foldl crc_byte 0xffffffff (us @ b # vs)"
    by (simp add: crc32_def word_unat_eq_iff [symmetric] xor_cancel_right)
  then show "a = b" by (auto dest!: foldl_crc_inj crc_byte_inj_byte)
qed simp

lemma crc32_update:
  assumes "i < length bs" and "b \<noteq> bs ! i"
  shows "crc32 (bs[i := b]) \<noteq> crc32 bs"
  using assms by (metis crc32_one_byte id_take_nth_drop upd_conv_take_nth_drop)

section \<open>Headers\<close>

lemma byteAt_Inr [sum_simps]: "byteAt bs p = Inr v \<longleftrightarrow> p < length bs \<and> v = unat (bs ! p)"
  by (auto simp: byteAt_def)

lemma readCborHeader_bounds:
  "readCborHeader bs p = Inr h \<Longrightarrow>
     p < length bs \<and> 0 < headerLength h \<and> headerLength h \<le> 5 \<and> p + headerLength h \<le> length bs"
  by (auto simp: readCborHeader_def sum_simps Let_def split: if_splits)

lemma byteAt_less: "byteAt bs p = Inr v \<Longrightarrow> v < 256"
  using unsigned_less [of "bs ! p"] by (auto simp: byteAt_def split: if_splits)

lemma readCborHeader_value:
  "readCborHeader bs p = Inr h \<Longrightarrow> majorType h < 8 \<and> cborValue h < 2 ^ 32"
  by (auto simp: readCborHeader_def bindE_Inr_conv Let_def split: if_splits dest!: byteAt_less)

lemma readCborHeader_update:
  assumes "readCborHeader bs p = Inr h" and "i < p \<or> p + headerLength h \<le> i"
  shows "readCborHeader (bs[i := b]) p = Inr h"
  using assms
  by (auto simp: readCborHeader_def sum_simps Let_def nth_list_update split: if_splits)

lemma readCborHeader_append:
  "readCborHeader bs p = Inr h \<Longrightarrow> readCborHeader (bs @ cs) p = Inr h"
  by (auto simp: readCborHeader_def sum_simps Let_def nth_append split: if_splits)

section \<open>Skipping an item follows the grammar\<close>

text \<open>
  The specification: one definite-length CBOR item of the kinds the reader supports stands at a
  position and ends before another.  It is stated on the headers alone, with no recursion depth.
\<close>

inductive cbor_item :: "byte list \<Rightarrow> nat \<Rightarrow> nat \<Rightarrow> bool"
  and cbor_items :: "byte list \<Rightarrow> nat \<Rightarrow> nat \<Rightarrow> nat \<Rightarrow> bool"
  for bs :: "byte list" where
  int_item: "readCborHeader bs p = Inr h \<Longrightarrow> majorType h \<in> {0, 1} \<Longrightarrow>
    cbor_item bs p (p + headerLength h)"
| string_item: "readCborHeader bs p = Inr h \<Longrightarrow> majorType h \<in> {2, 3} \<Longrightarrow>
    p + headerLength h + cborValue h \<le> length bs \<Longrightarrow>
    cbor_item bs p (p + headerLength h + cborValue h)"
| array_item: "readCborHeader bs p = Inr h \<Longrightarrow> majorType h = 4 \<Longrightarrow>
    cbor_items bs (cborValue h) (p + headerLength h) q \<Longrightarrow> cbor_item bs p q"
| map_item: "readCborHeader bs p = Inr h \<Longrightarrow> majorType h = 5 \<Longrightarrow>
    cbor_items bs (2 * cborValue h) (p + headerLength h) q \<Longrightarrow> cbor_item bs p q"
| tag_item: "readCborHeader bs p = Inr h \<Longrightarrow> majorType h = 6 \<Longrightarrow>
    cbor_item bs (p + headerLength h) q \<Longrightarrow> cbor_item bs p q"
| no_items: "cbor_items bs 0 p p"
| more_items: "cbor_item bs p q \<Longrightarrow> cbor_items bs n q r \<Longrightarrow> cbor_items bs (Suc n) p r"

lemmas cbor_item_intros = cbor_item_cbor_items.intros

inductive_cases cbor_items_SucE: "cbor_items bs (Suc n) p r"
inductive_simps cbor_items_0 [simp]: "cbor_items bs 0 p r"

lemma iterE_items:
  assumes "\<And>p q. f p = Inr q \<Longrightarrow> cbor_item bs p q" and "iterE f n p = Inr r"
  shows "cbor_items bs n p r"
  using assms(2)
  by (induction n arbitrary: p) (auto simp: sum_simps intro: cbor_item_intros assms(1))

lemma skip_fuel_sound: "skip_fuel fuel bs p = Inr q \<Longrightarrow> cbor_item bs p q"
proof (induction fuel arbitrary: p q)
  case (Suc fuel)
  obtain h where h: "readCborHeader bs p = Inr h"
    using Suc.prems by (auto simp: skip_fuel.simps sum_simps)
  show ?case
    using Suc.prems h
    by (auto simp: skip_fuel.simps Let_def iterE_pair split: if_splits
        intro: cbor_item_intros iterE_items Suc.IH)
qed (simp add: skip_fuel.simps)

lemma cbor_item_bounds:
  "cbor_item bs p q \<Longrightarrow> p < length bs \<and> p < q \<and> q \<le> length bs"
  "cbor_items bs n p q \<Longrightarrow> p \<le> length bs \<Longrightarrow> p \<le> q \<and> q \<le> length bs"
proof (induction rule: cbor_item_cbor_items.inducts)
qed (auto dest: readCborHeader_bounds)

lemma skip_fuel_complete:
  "cbor_item bs p q \<Longrightarrow> length bs - p < fuel \<Longrightarrow> skip_fuel fuel bs p = Inr q"
  "cbor_items bs n p q \<Longrightarrow> length bs - p < fuel \<Longrightarrow> iterE (skip_fuel fuel bs) n p = Inr q"
proof (induction arbitrary: fuel and fuel rule: cbor_item_cbor_items.inducts)
  case (array_item p h q)
  then show ?case using readCborHeader_bounds [OF array_item(1)] by (cases fuel) (auto simp: skip_fuel.simps Let_def)
next
  case (map_item p h q)
  then show ?case using readCborHeader_bounds [OF map_item(1)]
    by (cases fuel) (auto simp: skip_fuel.simps Let_def iterE_pair)
next
  case (tag_item p h q)
  then show ?case using readCborHeader_bounds [OF tag_item(1)] by (cases fuel) (auto simp: skip_fuel.simps Let_def)
next
  case (more_items p q n r)
  then show ?case using cbor_item_bounds(1) [OF more_items(1)] by auto
next
  case (int_item p h)
  then show ?case by (cases fuel) (auto simp: skip_fuel.simps Let_def)
next
  case (string_item p h)
  then show ?case by (cases fuel) (auto simp: skip_fuel.simps Let_def)
qed auto

lemma skipCborItem_iff: "skipCborItem bs p = Inr q \<longleftrightarrow> cbor_item bs p q"
  unfolding skipCborItem_def
  using skip_fuel_sound skip_fuel_complete(1) [of bs p q "Suc (length bs)"] by auto

lemma iterE_skipCborItem_iff: "iterE (skipCborItem bs) n p = Inr q \<longleftrightarrow> cbor_items bs n p q"
proof
  show "iterE (skipCborItem bs) n p = Inr q \<Longrightarrow> cbor_items bs n p q"
    by (rule iterE_items) (simp_all add: skipCborItem_iff)
  show "cbor_items bs n p q \<Longrightarrow> iterE (skipCborItem bs) n p = Inr q"
    using skip_fuel_complete(2) [of bs n p q "Suc (length bs)"]
    by (simp add: skipCborItem_def [abs_def])
qed

text \<open>More fuel than the remaining bytes changes nothing, so the depth bound is not a bound.\<close>

lemma skip_fuel_enough:
  "length bs - p < f \<Longrightarrow> length bs - p < g \<Longrightarrow> skip_fuel f bs p = skip_fuel g bs p"
proof (induction f arbitrary: p g)
  case (Suc f)
  then obtain g' where g: "g = Suc g'" by (cases g) auto
  show ?case
  proof (cases "readCborHeader bs p")
    case (Inr h)
    let ?q = "p + headerLength h"
    note b = readCborHeader_bounds [OF Inr]
    have "skip_fuel f bs u = skip_fuel g' bs u" if "?q \<le> u" for u
    proof (rule Suc.IH)
      from Suc.prems g b that show "length bs - u < f" and "length bs - u < g'" by linarith+
    qed
    moreover have "?q \<le> v" if "?q \<le> u" "skip_fuel f bs u = Inr v" for u v
      using cbor_item_bounds(1) [OF skip_fuel_sound [OF that(2)]] that(1) by simp
    ultimately have "iterE (skip_fuel f bs) n ?q = iterE (skip_fuel g' bs) n ?q" 
      and "skip_fuel f bs ?q = skip_fuel g' bs ?q" for n
      by (auto intro!: iterE_cong_inv [where P = "\<lambda>u. ?q \<le> u"])
    then show ?thesis by (simp add: skip_fuel.simps g Inr iterE_pair Let_def)
  qed (simp add: g skip_fuel.simps)
qed simp

lemma skipCborItem_fuel:
  "length bs - p < fuel \<Longrightarrow> skip_fuel fuel bs p = skipCborItem bs p"
  unfolding skipCborItem_def by (rule skip_fuel_enough) auto

section \<open>The body and the envelope\<close>

text \<open>
  What an accepted body is: three elements that consume the payload exactly, with the attributes
  map made of whole items.
\<close>

definition byron_body :: "byte list \<Rightarrow> bool" where
  "byron_body bs \<longleftrightarrow> (\<exists>hb hr ha q ht.
     readCborHeader bs 0 = Inr hb \<and> majorType hb = 4 \<and> cborValue hb = 3 \<and>
     readCborHeader bs (headerLength hb) = Inr hr \<and> majorType hr = 2 \<and> cborValue hr = 28 \<and>
     headerLength hb + headerLength hr + 28 \<le> length bs \<and>
     readCborHeader bs (headerLength hb + headerLength hr + 28) = Inr ha \<and> majorType ha = 5 \<and>
     cbor_items bs (2 * cborValue ha) (headerLength hb + headerLength hr + 28 + headerLength ha) q \<and>
     readCborHeader bs q = Inr ht \<and> majorType ht = 0 \<and> cborValue ht \<in> VALID_BYRON_ADDRESS_TYPES \<and>
     q + headerLength ht = length bs)"

lemma isByronAddressPayload_iff: "isByronAddressPayload bs = Inr True \<longleftrightarrow> byron_body bs"
  unfolding isByronAddressPayload_def byron_body_def Let_def iterE_pair
  by (simp add: sum_simps iterE_skipCborItem_iff not_less del: VALID_BYRON_ADDRESS_TYPES_def cong: conj_cong)

text \<open>Where the tagged bytes of an accepted envelope start and how many they are.\<close>

definition byron_shape :: "byte list \<Rightarrow> nat \<Rightarrow> nat \<Rightarrow> CborHeader \<Rightarrow> bool" where
  "byron_shape raw start n checksum \<longleftrightarrow> (\<exists>ho ht hp.
     readCborHeader raw 0 = Inr ho \<and> majorType ho = 4 \<and> cborValue ho = 2 \<and>
     readCborHeader raw (headerLength ho) = Inr ht \<and> majorType ht = 6 \<and> cborValue ht = 24 \<and>
     readCborHeader raw (headerLength ho + headerLength ht) = Inr hp \<and> majorType hp = 2 \<and>
     start = headerLength ho + headerLength ht + headerLength hp \<and> n = cborValue hp \<and>
     start + n \<le> length raw \<and>
     readCborHeader raw (start + n) = Inr checksum \<and> majorType checksum = 0 \<and>
     start + n + headerLength checksum = length raw)"

lemma byron_envelope_iff:
  "byron_envelope raw = Inr True \<longleftrightarrow>
     (\<exists>start n c. byron_shape raw start n c \<and> byron_body (take n (drop start raw)) \<and>
        crc32 (take n (drop start raw)) = cborValue c)"
  unfolding byron_envelope_def byron_shape_def Let_def
  by (auto simp: sum_simps isByronAddressPayload_iff [symmetric])

lemma isByronAddress_iff:
  "isByronAddress dec v \<longleftrightarrow> (\<exists>raw. dec v = Inr raw \<and> byron_envelope raw = Inr True)"
  by (auto simp: isByronAddress_def sum_simps split: sum.splits)

lemma byron_shape_update:
  assumes "byron_shape raw start n c" and "start \<le> i" and "i < start + n"
  shows "byron_shape (raw[i := b]) start n c"
proof -
  obtain ho ht hp where
    "readCborHeader raw 0 = Inr ho" "readCborHeader raw (headerLength ho) = Inr ht"
    "readCborHeader raw (headerLength ho + headerLength ht) = Inr hp"
    "readCborHeader raw (start + n) = Inr c"
    and rest: "majorType ho = 4" "cborValue ho = 2" "majorType ht = 6" "cborValue ht = 24"
      "majorType hp = 2" "start = headerLength ho + headerLength ht + headerLength hp"
      "n = cborValue hp" "start + n \<le> length raw" "majorType c = 0"
      "start + n + headerLength c = length raw"
    using assms(1) by (auto simp: byron_shape_def)
  then have
    "readCborHeader (raw[i := b]) 0 = Inr ho"
    "readCborHeader (raw[i := b]) (headerLength ho) = Inr ht"
    "readCborHeader (raw[i := b]) (headerLength ho + headerLength ht) = Inr hp"
    "readCborHeader (raw[i := b]) (start + n) = Inr c"
    using assms(2,3) by (auto intro!: readCborHeader_update)
  with rest show ?thesis by (auto simp: byron_shape_def)
qed

lemma byron_shape_unique:
  "byron_shape raw s n c \<Longrightarrow> byron_shape raw s' n' c' \<Longrightarrow> s = s' \<and> n = n' \<and> c = c'"
  by (auto simp: byron_shape_def)

section \<open>The canonical encoding of an address\<close>

definition be_bytes4 :: "nat \<Rightarrow> byte list" where
  "be_bytes4 v = [word_of_nat (v div 2 ^ 24), word_of_nat (v div 2 ^ 16 mod 256),
                  word_of_nat (v div 2 ^ 8 mod 256), word_of_nat (v mod 256)]"

definition byron_payload_encode :: "byte list \<Rightarrow> nat \<Rightarrow> byte list" where
  "byron_payload_encode root type = [0x83, 0x58, 0x1c] @ root @ [0xa0, word_of_nat type]"

definition byron_encode :: "byte list \<Rightarrow> nat \<Rightarrow> byte list" where
  "byron_encode root type =
     [0x82, 0xd8, 0x18, 0x58, 0x21] @ byron_payload_encode root type @
     [0x1a] @ be_bytes4 (crc32 (byron_payload_encode root type))"

lemma unat_be_bytes4:
  assumes "v < 2 ^ 32"
  shows "unat (be_bytes4 v ! 0) * 0x1000000 +
    (unat (be_bytes4 v ! 1) * 2 ^ 16 + unat (be_bytes4 v ! 2) * 2 ^ 8 + unat (be_bytes4 v ! 3)) = v"
proof -
  have "v div 2 ^ 24 < 256" using assms by (simp add: div_less_iff_less_mult)
  moreover have "v div 65536 = v div 16777216 * 256 + v div 65536 mod 256"
    using div_mult_mod_eq [of "v div 65536" 256] div_mult2_eq [of v 65536 256] by simp
  moreover have "v div 256 = v div 65536 * 256 + v div 256 mod 256"
    using div_mult_mod_eq [of "v div 256" 256] div_mult2_eq [of v 256 256] by simp
  moreover have "v = v div 256 * 256 + v mod 256" by simp
  ultimately show ?thesis
    by (simp add: be_bytes4_def unat_of_nat take_bit_eq_mod)
      (use div_mult_mod_eq [of v 256] in linarith)
qed

lemma readCborHeader_short:
  "p < length bs \<Longrightarrow> bs ! p = w \<Longrightarrow> unat w mod 32 < 24 \<Longrightarrow>
     readCborHeader bs p = Inr \<lparr>majorType = unat w div 32, cborValue = unat w mod 32, headerLength = 1\<rparr>"
  by (simp add: readCborHeader_def byteAt_def Let_def)

lemma byron_payload_encode_body:
  assumes "length root = 28" and "type \<in> {0, 1, 2}"
  shows "byron_body (byron_payload_encode root type)"
proof -
  let ?b = "byron_payload_encode root type"
  have len: "length ?b = 33" using assms(1) by (simp add: byron_payload_encode_def)
  have nth: "?b ! 31 = 0xa0" "?b ! 32 = word_of_nat type"
    using assms(1) by (simp_all add: byron_payload_encode_def nth_append)
  have u: "unat (word_of_nat type :: byte) = type" using assms(2) by auto
  have "readCborHeader ?b 0 = Inr \<lparr>majorType = 4, cborValue = 3, headerLength = 1\<rparr>"
    by (simp add: readCborHeader_def byteAt_def byron_payload_encode_def)
  moreover have "readCborHeader ?b 1 = Inr \<lparr>majorType = 2, cborValue = 28, headerLength = 2\<rparr>"
    by (simp add: readCborHeader_def byteAt_def byron_payload_encode_def)
  moreover have "readCborHeader ?b 31 = Inr \<lparr>majorType = 5, cborValue = 0, headerLength = 1\<rparr>"
    using len nth by (simp add: readCborHeader_short)
  moreover have "readCborHeader ?b 32 = Inr \<lparr>majorType = 0, cborValue = type, headerLength = 1\<rparr>"
    using len nth u assms(2) by (auto simp: readCborHeader_short)
  ultimately show ?thesis
    using len assms(2) by (simp add: byron_body_def)
qed

lemma byron_encode_shape:
  assumes "length root = 28"
  shows "byron_shape (byron_encode root type) 5 33
    \<lparr>majorType = 0, cborValue = crc32 (byron_payload_encode root type), headerLength = 5\<rparr>"
proof -
  let ?p = "byron_payload_encode root type" and ?r = "byron_encode root type"
  have len: "length ?p = 33" "length ?r = 43"
    using assms by (simp_all add: byron_payload_encode_def byron_encode_def be_bytes4_def)
  have nth: "?r ! (38 + k) = ((0x1a :: byte) # be_bytes4 (crc32 ?p)) ! k" for k
    using len by (simp add: byron_encode_def nth_append)
  have "readCborHeader ?r 0 = Inr \<lparr>majorType = 4, cborValue = 2, headerLength = 1\<rparr>"
    "readCborHeader ?r 1 = Inr \<lparr>majorType = 6, cborValue = 24, headerLength = 2\<rparr>"
    "readCborHeader ?r 3 = Inr \<lparr>majorType = 2, cborValue = 33, headerLength = 2\<rparr>"
    by (simp_all add: readCborHeader_def byteAt_def byron_encode_def)
  moreover have "readCborHeader ?r 38 =
      Inr \<lparr>majorType = 0, cborValue = crc32 ?p, headerLength = 5\<rparr>"
    using nth [of 0] nth [of 1] nth [of 2] nth [of 3] nth [of 4] len(2)
      unat_be_bytes4 [OF crc32_bound, of ?p]
    by (simp add: readCborHeader_def byteAt_def)
  ultimately show ?thesis using len by (simp add: byron_shape_def numeral_3_eq_3)
qed

section \<open>Properties\<close>


text \<open>
  The checksum does its work: in an accepted address, replacing any one of the tagged bytes by
  any other byte gives bytes that are rejected, whichever byte and whichever position.
\<close>

theorem isByronAddress_corruption:
  assumes "isByronAddress base58_decode v" and "base58_decode v = Inr raw"
    and "byron_shape raw start n c" and "start \<le> i" and "i < start + n" and "b \<noteq> raw ! i"
    and "base58_decode v' = Inr (raw[i := b])"
  shows "\<not> isByronAddress base58_decode v'"
proof
  assume "isByronAddress base58_decode v'"
  then obtain c' s' n' where "byron_shape (raw[i := b]) s' n' c'"
    and "crc32 (take n' (drop s' (raw[i := b]))) = cborValue c'"
    using assms(7) by (auto simp: isByronAddress_iff byron_envelope_iff)
  then have bad: "crc32 (take n (drop start (raw[i := b]))) = cborValue c"
    using byron_shape_unique byron_shape_update [OF assms(3-5)] by blast
  have good: "crc32 (take n (drop start raw)) = cborValue c"
    using assms(1-3) unfolding isByronAddress_iff byron_envelope_iff
    by (metis byron_shape_unique Inr_inject)
  have "start + n \<le> length raw" using assms(3) by (auto simp: byron_shape_def)
  then have "i - start < length (take n (drop start raw))"
    and "take n (drop start raw) ! (i - start) = raw ! i"
    and "take n (drop start (raw[i := b])) = (take n (drop start raw))[i - start := b]"
    using assms(4,5) by (auto simp: drop_update_swap take_update_swap)
  with good bad assms(6) crc32_update show False by metis
qed

text \<open>
  Every root of 28 bytes and every type 0, 1, 2 has an accepted encoding: the canonical bytes
  (array, tag 24, byte string, body with empty attributes, CRC-32) pass every check of the code.
\<close>

lemma isByronAddress_roundtrip:
  assumes "length root = 28" and "type \<in> {0, 1, 2}"
    and "base58_decode v = Inr (byron_encode root type)"
  shows "isByronAddress base58_decode v"
proof -
  have "take 33 (drop 5 (byron_encode root type)) = byron_payload_encode root type"
    using assms(1) by (simp add: byron_encode_def byron_payload_encode_def)
  then show ?thesis
    unfolding isByronAddress_iff byron_envelope_iff
    using assms(3) byron_encode_shape [OF assms(1)] byron_payload_encode_body [OF assms(1,2)]
    by (metis CborHeader.select_convs(2))
qed

lemma isByronAddress_roundtrip_witness:
  "isByronAddress (\<lambda>_. Inr (byron_encode (replicate 28 7) 0)) ''Ae2''"
  by (rule isByronAddress_roundtrip [where root = "replicate 28 7" and type = 0]) simp_all

theorem isByronAddress_corruption_witness:
  "\<not> isByronAddress (\<lambda>v. Inr (if v = ''A'' then byron_encode (replicate 28 7) 0
       else (byron_encode (replicate 28 7) 0)[10 := 9])) ''B''"
proof (rule isByronAddress_corruption [where v = "''A''" and i = 10 and b = 9 and start = 5 and n = 33])
  show "byron_shape (byron_encode (replicate 28 7) 0) 5 33
    \<lparr>majorType = 0, cborValue = crc32 (byron_payload_encode (replicate 28 7) 0), headerLength = 5\<rparr>"
    by (rule byron_encode_shape) simp
  show "isByronAddress (\<lambda>v. Inr (if v = ''A'' then byron_encode (replicate 28 7) 0
       else (byron_encode (replicate 28 7) 0)[10 := 9])) ''A''"
    unfolding isByronAddress_iff byron_envelope_iff
    using byron_encode_shape [of "replicate 28 7" 0] byron_payload_encode_body [of "replicate 28 7" 0]
    by (intro exI conjI)
      (assumption | simp | simp add: byron_encode_def byron_payload_encode_def)+
qed (simp_all add: byron_encode_def byron_payload_encode_def nth_append)

text \<open>
  \<open>skipCborItem\<close> skips exactly one well-formed item: it returns a position if and only if one
  complete item of the grammar ends there, however deeply arrays, maps and tags are nested, and it
  throws on everything else.
\<close>

theorem skipCborItem_spec: "skipCborItem bs p = Inr q \<longleftrightarrow> cbor_item bs p q"
  by (rule skipCborItem_iff)

end
