(* ===== verification/Cache.thy ===== *)
theory Cache
  imports Errors Js_Map
begin

text \<open>
  \<^verbatim>\<open>src/cache/index.ts\<close>: the in-process cache with request coalescing.  The closure variables of
  \<open>createMemoryCache\<close> are the fields of \<open>cache\<close>.  A promise made by \<open>read\<close> is an attempt, named by its
  position in \<open>attempts\<close>; its life is three steps that may interleave with everything else: \<open>read\<close>
  starts it, the loader's settlement runs the \<open>then\<close>/\<open>catch\<close> callbacks (\<open>cache_settle\<close>), and a later
  microtask runs \<open>finally\<close> (\<open>cache_finally\<close>).  Times are the clock's milliseconds; the clock is read
  once per synchronous step.
\<close>

section \<open>State\<close>

datatype policy = PlainTtl int | CachePolicy int "int option"

fun ttlMs_of :: "policy \<Rightarrow> int" where
  "ttlMs_of (PlainTtl ttl) = ttl"
| "ttlMs_of (CachePolicy ttl _) = ttl"

fun staleIfErrorMs_of :: "policy \<Rightarrow> int" where
  "staleIfErrorMs_of (PlainTtl _) = 0"
| "staleIfErrorMs_of (CachePolicy _ st) = (case st of None \<Rightarrow> 0 | Some ms \<Rightarrow> ms)"

record 'v entry =
  evalue :: 'v
  expiresAt :: int
  usableUntil :: int

datatype 'v phase = Loading | Settled "'v result" | Finished "'v result"

record 'v attempt =
  akey :: string
  apolicy :: policy
  attemptGeneration :: nat
  aphase :: "'v phase"

record 'v cache =
  maxEntries :: nat
  entries :: "(string, 'v entry) js_map"
  inFlight :: "(string, nat) js_map"
  clearGeneration :: nat
  clearGenerations :: "(string, nat) js_map"
  attempts :: "'v attempt list"

definition DEFAULT_MAX_ENTRIES :: nat where
  "DEFAULT_MAX_ENTRIES = 5000"

definition createMemoryCache :: "nat option \<Rightarrow> 'v cache" where
  "createMemoryCache maxE =
     \<lparr>maxEntries = (case maxE of None \<Rightarrow> DEFAULT_MAX_ENTRIES | Some n \<Rightarrow> n),
      entries = [], inFlight = [], clearGeneration = 0, clearGenerations = [], attempts = []\<rparr>"

section \<open>Operations\<close>

definition startsWith :: "string \<Rightarrow> string \<Rightarrow> bool" where
  "startsWith s p \<longleftrightarrow> take (length p) s = p"

definition gen_step :: "string \<Rightarrow> nat \<Rightarrow> string \<times> nat \<Rightarrow> nat" where
  "gen_step key latest e =
     (if fst e \<noteq> [] \<and> (startsWith key (fst e) \<or> startsWith (fst e) key) \<and> snd e > latest
      then snd e else latest)"

definition generationFor :: "'v cache \<Rightarrow> string \<Rightarrow> nat" where
  "generationFor c key =
     foldl (gen_step key)
       (case jm_get (clearGenerations c) [] of None \<Rightarrow> 0 | Some g \<Rightarrow> g) (clearGenerations c)"

definition evict :: "int \<Rightarrow> 'v cache \<Rightarrow> 'v cache" where
  "evict now c =
     (if length (entries c) \<le> maxEntries c then c
      else let kept = jm_delete_if (\<lambda>_ e. usableUntil e \<le> now) (entries c)
           in c\<lparr>entries := drop (length kept - maxEntries c) kept\<rparr>)"

text \<open>The value held for a key, if its time has not run out: \<open>peek\<close>, and the first test of \<open>read\<close>.\<close>

definition cache_peek :: "int \<Rightarrow> string \<Rightarrow> 'v cache \<Rightarrow> 'v option" where
  "cache_peek now key c =
     (case jm_get (entries c) key of
        Some hit \<Rightarrow> if expiresAt hit > now then Some (evalue hit) else None
      | None \<Rightarrow> None)"

datatype 'v read_result = ReadHit 'v | ReadJoin nat | ReadStart nat

definition cache_read :: "int \<Rightarrow> string \<Rightarrow> policy \<Rightarrow> 'v cache \<Rightarrow> 'v read_result \<times> 'v cache" where
  "cache_read now key pol c =
     (case cache_peek now key c of
        Some v \<Rightarrow> (ReadHit v, c)
      | None \<Rightarrow>
         (case jm_get (inFlight c) key of
            Some a \<Rightarrow> (ReadJoin a, c)
          | None \<Rightarrow>
             (ReadStart (length (attempts c)),
              c\<lparr>attempts := attempts c @ [\<lparr>akey = key, apolicy = pol,
                  attemptGeneration = generationFor c key, aphase = Loading\<rparr>],
                inFlight := jm_set key (length (attempts c)) (inFlight c)\<rparr>)))"

definition set_phase :: "nat \<Rightarrow> 'v phase \<Rightarrow> 'v cache \<Rightarrow> 'v cache" where
  "set_phase a ph c = c\<lparr>attempts := (attempts c)[a := (attempts c ! a)\<lparr>aphase := ph\<rparr>]\<rparr>"

text \<open>The \<open>then\<close> callback on a loaded value, and the \<open>catch\<close> callback on a failed load.\<close>

definition cache_settle :: "int \<Rightarrow> nat \<Rightarrow> 'v result \<Rightarrow> 'v cache \<Rightarrow> 'v cache" where
  "cache_settle now a outcome c =
     (let att = attempts c ! a; key = akey att;
          ttl = ttlMs_of (apolicy att); stale = staleIfErrorMs_of (apolicy att) in
      case outcome of
        Inr v \<Rightarrow>
          set_phase a (Settled (Inr v))
            (if attemptGeneration att = generationFor c key
             then evict now (c\<lparr>entries := jm_set key \<lparr>evalue = v, expiresAt = now + ttl,
                                  usableUntil = now + ttl + stale\<rparr> (entries c)\<rparr>)
             else c)
      | Inl err \<Rightarrow>
          set_phase a
            (Settled (case jm_get (entries c) key of
               Some e \<Rightarrow> if attemptGeneration att = generationFor c key \<and> usableUntil e > now
                         then Inr (evalue e) else Inl err
             | None \<Rightarrow> Inl err)) c)"

definition settled_result :: "'v phase \<Rightarrow> 'v result" where
  "settled_result ph = (case ph of Settled r \<Rightarrow> r | Finished r \<Rightarrow> r | Loading \<Rightarrow> Inl (JsError ''pending''))"

definition cache_finally :: "nat \<Rightarrow> 'v cache \<Rightarrow> 'v cache" where
  "cache_finally a c =
     (let key = akey (attempts c ! a) in
      set_phase a (Finished (settled_result (aphase (attempts c ! a))))
        (if jm_get (inFlight c) key = Some a
         then c\<lparr>inFlight := jm_delete key (inFlight c)\<rparr> else c))"

definition cache_set :: "int \<Rightarrow> string \<Rightarrow> 'v \<Rightarrow> int \<Rightarrow> 'v cache \<Rightarrow> 'v cache" where
  "cache_set now key v ttl c =
     evict now (c\<lparr>entries := jm_set key
       \<lparr>evalue = v, expiresAt = now + ttl, usableUntil = now + ttl\<rparr> (entries c)\<rparr>)"

definition cache_generation :: "string option \<Rightarrow> 'v cache \<Rightarrow> nat" where
  "cache_generation key c = generationFor c (case key of None \<Rightarrow> [] | Some k \<Rightarrow> k)"

definition cache_setIfGeneration ::
  "int \<Rightarrow> string \<Rightarrow> 'v \<Rightarrow> int \<Rightarrow> nat \<Rightarrow> 'v cache \<Rightarrow> 'v cache" where
  "cache_setIfGeneration now key v ttl generation c =
     (if generation \<noteq> generationFor c key then c
      else evict now (c\<lparr>entries := jm_set key
        \<lparr>evalue = v, expiresAt = now + ttl, usableUntil = now + ttl\<rparr> (entries c)\<rparr>))"

definition cache_size :: "'v cache \<Rightarrow> nat" where
  "cache_size c = length (entries c)"

definition cache_sizeForPrefix :: "string \<Rightarrow> 'v cache \<Rightarrow> nat" where
  "cache_sizeForPrefix p c = length (filter (\<lambda>k. startsWith k p) (jm_keys (entries c)))"

definition cache_clear :: "string option \<Rightarrow> 'v cache \<Rightarrow> 'v cache" where
  "cache_clear pr c0 =
     (let c = c0\<lparr>clearGeneration := clearGeneration c0 + 1\<rparr> in
      case pr of
        None \<Rightarrow> c\<lparr>entries := [], inFlight := [],
                  clearGenerations := jm_set [] (clearGeneration c) (clearGenerations c)\<rparr>
      | Some p \<Rightarrow> c\<lparr>entries := jm_delete_if (\<lambda>k _. startsWith k p) (entries c),
                    inFlight := jm_delete_if (\<lambda>k _. startsWith k p) (inFlight c),
                    clearGenerations := jm_set p (clearGeneration c) (clearGenerations c)\<rparr>)"

section \<open>Steps and reachable states\<close>

text \<open>
  Every way the cache can change, in any order.  \<open>ok k v\<close> says which values may be produced for a
  key: loaders and \<open>set\<close> callers only ever supply such values (take \<open>\<lambda>_ _. True\<close> for no condition).
\<close>

inductive cache_step :: "(string \<Rightarrow> 'v \<Rightarrow> bool) \<Rightarrow> 'v cache \<Rightarrow> 'v cache \<Rightarrow> bool" for ok where
  st_read: "cache_step ok c (snd (cache_read now k pol c))"
| st_settle: "a < length (attempts c) \<Longrightarrow> aphase (attempts c ! a) = Loading \<Longrightarrow>
    (\<And>v. r = Inr v \<Longrightarrow> ok (akey (attempts c ! a)) v) \<Longrightarrow>
    cache_step ok c (cache_settle now a r c)"
| st_finally: "a < length (attempts c) \<Longrightarrow> aphase (attempts c ! a) = Settled r \<Longrightarrow>
    cache_step ok c (cache_finally a c)"
| st_set: "ok k v \<Longrightarrow> cache_step ok c (cache_set now k v ttl c)"
| st_setIf: "ok k v \<Longrightarrow> cache_step ok c (cache_setIfGeneration now k v ttl g c)"
| st_clear: "cache_step ok c (cache_clear p c)"

inductive cache_reachable :: "(string \<Rightarrow> 'v \<Rightarrow> bool) \<Rightarrow> 'v cache \<Rightarrow> bool" for ok where
  cr_start: "cache_reachable ok (createMemoryCache m)"
| cr_step: "cache_reachable ok c \<Longrightarrow> cache_step ok c d \<Longrightarrow> cache_reachable ok d"

inductive cache_steps :: "(string \<Rightarrow> 'v \<Rightarrow> bool) \<Rightarrow> 'v cache \<Rightarrow> 'v cache \<Rightarrow> bool" for ok where
  cs_refl: "cache_steps ok c c"
| cs_step: "cache_steps ok c d \<Longrightarrow> cache_step ok d e \<Longrightarrow> cache_steps ok c e"

inductive_cases cache_stepE: "cache_step ok c d"

section \<open>Generations\<close>

lemma gen_step_ge: "latest \<le> gen_step key latest e"
  by (simp add: gen_step_def)

lemma foldl_gen_ge: "latest \<le> foldl (gen_step key) latest es"
proof (induction es arbitrary: latest)
  case (Cons e es)
  show ?case using order.trans [OF gen_step_ge Cons.IH] by simp
qed simp

lemma foldl_gen_bound:
  "latest \<le> b \<Longrightarrow> \<forall>e \<in> set es. snd e \<le> b \<Longrightarrow> foldl (gen_step key) latest es \<le> b"
  by (induction es arbitrary: latest) (auto simp: gen_step_def)

lemma foldl_gen_mem:
  "e \<in> set es \<Longrightarrow> fst e \<noteq> [] \<Longrightarrow> startsWith key (fst e) \<or> startsWith (fst e) key \<Longrightarrow>
     snd e \<le> foldl (gen_step key) latest es"
proof (induction es arbitrary: latest)
  case (Cons d es)
  show ?case
  proof (cases "e = d")
    case True
    then have "snd e \<le> gen_step key latest d" using Cons.prems by (simp add: gen_step_def)
    then show ?thesis by (metis foldl_gen_ge foldl_Cons order.trans)
  next
    case False
    with Cons show ?thesis by simp
  qed
qed simp

text \<open>The fold is the greatest of the relevant clear times, whatever the order of the map.\<close>

definition relevant :: "string \<Rightarrow> string \<Rightarrow> bool" where
  "relevant key p \<longleftrightarrow> p = [] \<or> startsWith key p \<or> startsWith p key"

lemma generationFor_ge:
  "jm_wf (clearGenerations c) \<Longrightarrow> jm_get (clearGenerations c) p = Some g \<Longrightarrow> relevant key p \<Longrightarrow>
     g \<le> generationFor c key"
proof (cases "p = []")
  case True
  assume "jm_get (clearGenerations c) p = Some g"
  with True foldl_gen_ge [of g key "clearGenerations c"] show ?thesis by (simp add: generationFor_def)
next
  case False
  assume "jm_get (clearGenerations c) p = Some g" "relevant key p"
  with False foldl_gen_mem [of "(p, g)" "clearGenerations c" key] show ?thesis
    by (auto simp: generationFor_def relevant_def dest: jm_get_Some_mem)
qed

lemma generationFor_le:
  assumes wf: "jm_wf (clearGenerations c)"
    and "\<And>p g. jm_get (clearGenerations c) p = Some g \<Longrightarrow> relevant key p \<Longrightarrow> g \<le> b"
  shows "generationFor c key \<le> b"
proof -
  let ?l = "case jm_get (clearGenerations c) [] of None \<Rightarrow> 0 | Some g \<Rightarrow> g"
  have "foldl (gen_step key) l es \<le> b"
    if "l \<le> b" "\<forall>e \<in> set es. fst e \<noteq> [] \<longrightarrow> relevant key (fst e) \<longrightarrow> snd e \<le> b" for l es
    using that by (induction es arbitrary: l) (auto simp: gen_step_def relevant_def)
  moreover have "?l \<le> b" using assms(2) [of "[]"] by (auto simp: relevant_def split: option.split)
  moreover have "\<forall>e \<in> set (clearGenerations c). fst e \<noteq> [] \<longrightarrow> relevant key (fst e) \<longrightarrow> snd e \<le> b"
    using assms(2) by (auto simp: jm_get_wf_iff [OF wf])
  ultimately show ?thesis by (simp add: generationFor_def)
qed

lemma startsWith_self [simp]: "startsWith k k"
  by (simp add: startsWith_def)

lemma startsWith_Nil [simp]: "startsWith k []"
  by (simp add: startsWith_def)

section \<open>The invariant\<close>

definition attempt_live :: "'v cache \<Rightarrow> nat \<Rightarrow> bool" where
  "attempt_live c a \<longleftrightarrow> a < length (attempts c) \<and> (\<forall>r. aphase (attempts c ! a) \<noteq> Finished r) \<and>
     attemptGeneration (attempts c ! a) = generationFor c (akey (attempts c ! a))"

definition store_inv :: "(string \<Rightarrow> 'v \<Rightarrow> bool) \<Rightarrow> 'v cache \<Rightarrow> bool" where
  "store_inv ok c \<longleftrightarrow> jm_wf (entries c) \<and> length (entries c) \<le> maxEntries c \<and>
     (\<forall>k e. jm_get (entries c) k = Some e \<longrightarrow> ok k (evalue e))"

definition flight_inv :: "'v cache \<Rightarrow> bool" where
  "flight_inv c \<longleftrightarrow> jm_wf (inFlight c) \<and> jm_wf (clearGenerations c) \<and>
     (\<forall>k a. jm_get (inFlight c) k = Some a \<longrightarrow>
        a < length (attempts c) \<and> akey (attempts c ! a) = k) \<and>
     (\<forall>p g. jm_get (clearGenerations c) p = Some g \<longrightarrow> g \<le> clearGeneration c) \<and>
     (\<forall>a < length (attempts c).
        attemptGeneration (attempts c ! a) \<le> generationFor c (akey (attempts c ! a))) \<and>
     (\<forall>a. attempt_live c a \<longrightarrow> jm_get (inFlight c) (akey (attempts c ! a)) = Some a)"

lemma flight_invD:
  assumes "flight_inv c"
  shows "jm_wf (inFlight c)" "jm_wf (clearGenerations c)"
    "jm_get (inFlight c) k = Some a \<Longrightarrow> a < length (attempts c) \<and> akey (attempts c ! a) = k"
    "jm_get (clearGenerations c) p = Some g \<Longrightarrow> g \<le> clearGeneration c"
    "a < length (attempts c) \<Longrightarrow>
       attemptGeneration (attempts c ! a) \<le> generationFor c (akey (attempts c ! a))"
    "attempt_live c a \<Longrightarrow> jm_get (inFlight c) (akey (attempts c ! a)) = Some a"
  using assms by (auto simp: flight_inv_def)

lemma generationFor_cong:
  "clearGenerations c = clearGenerations d \<Longrightarrow> generationFor c k = generationFor d k"
  by (simp add: generationFor_def)

lemma flight_inv_cong:
  assumes "inFlight c = inFlight d" "clearGeneration c = clearGeneration d"
    "clearGenerations c = clearGenerations d" "attempts c = attempts d"
  shows "flight_inv c = flight_inv d"
  using generationFor_cong [OF assms(3)] assms by (simp add: flight_inv_def attempt_live_def)

lemma store_inv_cong:
  "entries c = entries d \<Longrightarrow> maxEntries c = maxEntries d \<Longrightarrow> store_inv ok c = store_inv ok d"
  by (simp add: store_inv_def)

lemma evict_frame [simp]:
  "inFlight (evict t c) = inFlight c" "clearGeneration (evict t c) = clearGeneration c"
  "clearGenerations (evict t c) = clearGenerations c" "attempts (evict t c) = attempts c"
  "maxEntries (evict t c) = maxEntries c"
  by (simp_all add: evict_def Let_def)

lemma set_phase_frame [simp]:
  "inFlight (set_phase a ph c) = inFlight c" "clearGeneration (set_phase a ph c) = clearGeneration c"
  "clearGenerations (set_phase a ph c) = clearGenerations c" "entries (set_phase a ph c) = entries c"
  "maxEntries (set_phase a ph c) = maxEntries c"
  "length (attempts (set_phase a ph c)) = length (attempts c)"
  by (simp_all add: set_phase_def)

lemma flight_inv_evict [simp]:
  "flight_inv (evict t c) = flight_inv c" "flight_inv (c\<lparr>entries := es\<rparr>) = flight_inv c"
  by (rule flight_inv_cong; simp)+

lemma store_inv_frame [simp]:
  "store_inv ok (set_phase a ph c) = store_inv ok c"
  "store_inv ok (c\<lparr>inFlight := fl\<rparr>) = store_inv ok c"
  "store_inv ok (c\<lparr>attempts := ats\<rparr>) = store_inv ok c"
  by (rule store_inv_cong; simp)+

lemma evict_entries:
  assumes "jm_wf (entries c)"
  shows "jm_wf (entries (evict t c))" "length (entries (evict t c)) \<le> maxEntries c"
    "set (entries (evict t c)) \<subseteq> set (entries c)"
  using jm_wf_drop [OF jm_wf_delete_if [OF assms]] assms
  by (auto simp: evict_def Let_def jm_delete_if_def dest!: in_set_dropD)

lemma evict_get:
  "jm_wf (entries c) \<Longrightarrow> jm_get (entries (evict t c)) k = Some e \<Longrightarrow> jm_get (entries c) k = Some e"
  using evict_entries [of c t] by (auto simp: jm_get_wf_iff)

text \<open>Storing and evicting: the entries afterwards are the stored one and some of the old ones.\<close>

lemma store_inv_store:
  assumes "store_inv ok c" and "ok k (evalue e)"
  shows "store_inv ok (evict t (c\<lparr>entries := jm_set k e (entries c)\<rparr>))"
proof -
  let ?c = "c\<lparr>entries := jm_set k e (entries c)\<rparr>"
  have wf: "jm_wf (entries ?c)" using assms(1) by (simp add: store_inv_def)
  have "ok k' (evalue e')" if "jm_get (entries (evict t ?c)) k' = Some e'" for k' e'
    using evict_get [OF wf that] assms by (auto simp: store_inv_def split: if_splits)
  then show ?thesis using evict_entries [OF wf, of t] by (simp add: store_inv_def)
qed

lemma flight_inv_start:
  assumes inv: "flight_inv c" and none: "jm_get (inFlight c) key = None"
  shows "flight_inv (c\<lparr>attempts := attempts c @ [\<lparr>akey = key, apolicy = pol,
                  attemptGeneration = generationFor c key, aphase = Loading\<rparr>],
                inFlight := jm_set key (length (attempts c)) (inFlight c)\<rparr>)" (is "flight_inv ?d")
proof -
  have gen: "generationFor ?d k = generationFor c k" for k by (rule generationFor_cong) simp
  have "jm_get (inFlight ?d) (akey (attempts ?d ! a)) = Some a" if live: "attempt_live ?d a" for a
  proof (cases "a = length (attempts c)")
    case False
    with live have "a < length (attempts c)" by (simp add: attempt_live_def)
    with live have "attempt_live c a" by (simp add: attempt_live_def nth_append gen)
    then have "jm_get (inFlight c) (akey (attempts c ! a)) = Some a"
      by (rule flight_invD(6) [OF inv])
    with none \<open>a < length (attempts c)\<close> show ?thesis by (auto simp: nth_append)
  qed simp
  then show ?thesis
    using flight_invD(1-5) [OF inv] unfolding flight_inv_def gen
    by (auto simp: nth_append less_Suc_eq split: if_splits)
qed

lemma flight_inv_set_phase:
  assumes inv: "flight_inv c" and a: "a < length (attempts c)"
    and "\<And>r. aphase (attempts c ! a) \<noteq> Finished r"
  shows "flight_inv (set_phase a ph c)"
proof -
  have gen: "generationFor (set_phase a ph c) k = generationFor c k" for k
    by (rule generationFor_cong) simp
  have same: "akey (attempts (set_phase a ph c) ! b) = akey (attempts c ! b)"
    "attemptGeneration (attempts (set_phase a ph c) ! b) = attemptGeneration (attempts c ! b)" for b
    using a by (cases "b = a"; simp add: set_phase_def)+
  have "aphase (attempts c ! b) \<noteq> Finished r" if "attempt_live (set_phase a ph c) b" for b r
    using that assms(3) a by (cases "b = a") (auto simp: attempt_live_def set_phase_def)
  then have "attempt_live c b" if "attempt_live (set_phase a ph c) b" for b
    using that by (auto simp: attempt_live_def same gen)
  then show ?thesis using flight_invD [OF inv] unfolding flight_inv_def same gen by simp
qed

lemma flight_inv_finally:
  assumes inv: "flight_inv c" and a: "a < length (attempts c)"
  shows "flight_inv (cache_finally a c)"
proof -
  let ?k = "akey (attempts c ! a)" and ?r = "settled_result (aphase (attempts c ! a))"
  let ?d = "cache_finally a c"
  have frame: "clearGenerations ?d = clearGenerations c" "clearGeneration ?d = clearGeneration c"
    "length (attempts ?d) = length (attempts c)"
    by (simp_all add: cache_finally_def Let_def)
  have gen: "generationFor ?d k = generationFor c k" for k
    by (rule generationFor_cong) (rule frame(1))
  have at: "attempts ?d = (attempts c)[a := (attempts c ! a)\<lparr>aphase := Finished ?r\<rparr>]"
    by (simp add: cache_finally_def Let_def set_phase_def)
  have same: "akey (attempts ?d ! b) = akey (attempts c ! b)"
    "attemptGeneration (attempts ?d ! b) = attemptGeneration (attempts c ! b)" for b
    using a by (cases "b = a"; simp add: at)+
  have fl: "jm_get (inFlight ?d) k =
      (if k = ?k \<and> jm_get (inFlight c) ?k = Some a then None else jm_get (inFlight c) k)" for k
  proof (cases "jm_get (inFlight c) ?k = Some a")
    case True
    then have "inFlight ?d = jm_delete ?k (inFlight c)" by (simp add: cache_finally_def Let_def)
    with True show ?thesis by (simp only: jm_get_delete simp_thms)
  next
    case False
    then have "inFlight ?d = inFlight c" by (simp add: cache_finally_def Let_def)
    with False show ?thesis by (simp only: simp_thms if_False)
  qed
  have wf: "jm_wf (inFlight ?d)" using flight_invD(1) [OF inv] by (simp add: cache_finally_def Let_def)
  have "jm_get (inFlight ?d) (akey (attempts c ! b)) = Some b" if "attempt_live ?d b" for b
  proof -
    have "b \<noteq> a" using that a by (auto simp: attempt_live_def at)
    then have "attempt_live c b" using that by (simp add: attempt_live_def same gen frame at)
    then show ?thesis using flight_invD(6) [OF inv, of b] \<open>b \<noteq> a\<close> by (auto simp: fl)
  qed
  then show ?thesis
    using flight_invD(2-5) [OF inv] wf
    unfolding flight_inv_def same gen frame fl by (auto split: if_splits)
qed

lemma clear_generations:
  "clearGenerations (cache_clear p c) =
     jm_set (case p of None \<Rightarrow> [] | Some q \<Rightarrow> q) (Suc (clearGeneration c)) (clearGenerations c)"
  "clearGeneration (cache_clear p c) = Suc (clearGeneration c)"
  "attempts (cache_clear p c) = attempts c"
  "maxEntries (cache_clear p c) = maxEntries c"
  by (simp_all add: cache_clear_def Let_def split: option.split)

lemma flight_inv_gens:
  assumes "flight_inv c"
  shows "jm_wf (clearGenerations c)" "jm_get (clearGenerations c) p = Some g \<Longrightarrow> g \<le> clearGeneration c"
    "generationFor c k \<le> clearGeneration c"
  using flight_invD(2,4) [OF assms] by (auto intro!: generationFor_le)

text \<open>A clear moves the generation of every key it concerns, and of no other key.\<close>

lemma generationFor_clear:
  assumes "flight_inv c"
  shows "generationFor (cache_clear p c) key =
    (if relevant key (case p of None \<Rightarrow> [] | Some q \<Rightarrow> q) then Suc (clearGeneration c)
     else generationFor c key)"
proof -
  let ?q = "case p of None \<Rightarrow> [] | Some q \<Rightarrow> q" and ?d = "cache_clear p c"
  note g = flight_inv_gens [OF assms]
  have wf: "jm_wf (clearGenerations ?d)" using g(1) by (simp add: clear_generations)
  have get: "jm_get (clearGenerations ?d) r =
      (if r = ?q then Some (Suc (clearGeneration c)) else jm_get (clearGenerations c) r)" for r
    by (simp add: clear_generations)
  show ?thesis
  proof (cases "relevant key ?q")
    case True
    have "Suc (clearGeneration c) \<le> generationFor ?d key"
      using generationFor_ge [OF wf _ True] by (simp add: get)
    moreover have "generationFor ?d key \<le> Suc (clearGeneration c)"
      by (rule generationFor_le [OF wf]) (auto simp: get split: if_splits dest: g(2))
    ultimately show ?thesis using True by simp
  next
    case False
    have "generationFor ?d key \<le> generationFor c key"
      by (rule generationFor_le [OF wf])
        (use False in \<open>auto simp: get split: if_splits intro: generationFor_ge [OF g(1)]\<close>)
    moreover have "generationFor c key \<le> generationFor ?d key"
      by (rule generationFor_le [OF g(1)])
        (use False in \<open>auto simp: get intro!: generationFor_ge [OF wf]\<close>)
    ultimately show ?thesis using False by simp
  qed
qed

lemma flight_inv_clear:
  assumes inv: "flight_inv c"
  shows "flight_inv (cache_clear p c)"
proof -
  let ?q = "case p of None \<Rightarrow> [] | Some q \<Rightarrow> q" and ?d = "cache_clear p c"
  note g = flight_inv_gens [OF inv] and gen = generationFor_clear [OF inv, of p]
  have fl: "jm_get (inFlight ?d) k =
      (if startsWith k ?q then None else jm_get (inFlight c) k)" for k
    using flight_invD(1) [OF inv] by (auto simp: cache_clear_def Let_def jm_get_delete_if
        split: option.split)
  have wf: "jm_wf (inFlight ?d)"
    using flight_invD(1) [OF inv] by (auto simp: cache_clear_def Let_def split: option.split)
  have mono: "generationFor c k \<le> generationFor ?d k" for k
    using g(3) [of k] by (simp add: gen)
  have "jm_get (inFlight ?d) (akey (attempts c ! a)) = Some a" if live: "attempt_live ?d a" for a
  proof -
    let ?k = "akey (attempts c ! a)"
    have a: "a < length (attempts c)" and eq: "attemptGeneration (attempts c ! a) = generationFor ?d ?k"
      using live by (auto simp: attempt_live_def clear_generations)
    moreover have "attemptGeneration (attempts c ! a) \<le> generationFor c ?k"
      using flight_invD(5) [OF inv] a by simp
    ultimately have "\<not> relevant ?k ?q" "attempt_live c a"
      using live g(3) [of ?k] gen [of ?k]
      by (auto simp: attempt_live_def clear_generations split: if_splits)
    then show ?thesis using flight_invD(6) [OF inv, of a] by (auto simp: fl relevant_def)
  qed
  moreover have "attemptGeneration (attempts c ! a) \<le> generationFor ?d (akey (attempts c ! a))"
    if "a < length (attempts c)" for a
    using order.trans [OF flight_invD(5) [OF inv that] mono] .
  ultimately show ?thesis
    using flight_invD(3) [OF inv] wf g(1,2) unfolding flight_inv_def clear_generations
    by (auto simp: fl le_SucI split: if_splits)
qed

section \<open>Every step keeps the invariant\<close>

lemma store_inv_clear: "store_inv ok c \<Longrightarrow> store_inv ok (cache_clear p c)"
proof (cases p)
  case None
  assume "store_inv ok c"
  with None show ?thesis by (simp add: cache_clear_def Let_def store_inv_def)
next
  case (Some q)
  assume inv: "store_inv ok c"
  let ?es = "jm_delete_if (\<lambda>k _. startsWith k q) (entries c)"
  have es: "entries (cache_clear p c) = ?es" by (simp add: Some cache_clear_def Let_def)
  have "length ?es \<le> maxEntries c"
    using inv length_filter_le order.trans unfolding jm_delete_if_def store_inv_def by blast
  then show ?thesis
    using inv by (auto simp: store_inv_def es clear_generations jm_get_delete_if
        split: option.split_asm if_splits)
qed

lemma cache_step_inv:
  assumes "cache_step ok c d" and "store_inv ok c" and "flight_inv c"
  shows "store_inv ok d \<and> flight_inv d"
  using assms(1)
proof cases
  case (st_read now k pol)
  show ?thesis
  proof (cases "cache_peek now k c = None \<and> jm_get (inFlight c) k = None")
    case True
    then have "flight_inv d"
      using flight_inv_start [OF assms(3)] by (simp add: st_read cache_read_def)
    with True assms(2) show ?thesis by (simp add: st_read cache_read_def)
  next
    case False
    then have "d = c" by (auto simp: st_read cache_read_def split: option.split)
    with assms show ?thesis by simp
  qed
next
  case (st_settle a r now)
  then show ?thesis
    using assms(2,3)
    by (cases r) (auto simp: cache_settle_def Let_def intro!: flight_inv_set_phase store_inv_store)
next
  case (st_finally a r)
  then have "flight_inv d" using flight_inv_finally [OF assms(3)] by simp
  moreover have "store_inv ok d"
    using assms(2) unfolding st_finally(1) cache_finally_def Let_def by simp
  ultimately show ?thesis by simp
next
  case (st_set k v now ttl)
  then show ?thesis using assms(2,3) by (auto simp: cache_set_def intro!: store_inv_store)
next
  case (st_setIf k v now ttl g)
  then show ?thesis
    using assms(2,3) by (auto simp: cache_setIfGeneration_def intro!: store_inv_store)
next
  case (st_clear p)
  then show ?thesis using assms(2,3) by (simp add: store_inv_clear flight_inv_clear)
qed

lemma cache_reachable_inv: "cache_reachable ok c \<Longrightarrow> store_inv ok c \<and> flight_inv c"
proof (induction rule: cache_reachable.induct)
  case (cr_start m)
  show ?case
    by (simp add: store_inv_def flight_inv_def createMemoryCache_def attempt_live_def)
next
  case (cr_step c d)
  then show ?case using cache_step_inv by blast
qed

lemma cache_steps_reachable: "cache_steps ok c d \<Longrightarrow> cache_reachable ok c \<Longrightarrow> cache_reachable ok d"
  by (induction rule: cache_steps.induct) (auto intro: cr_step)

text \<open>Generations never go back, and an attempt keeps its key and the generation it started with.\<close>

definition attempts_extend :: "'v cache \<Rightarrow> 'v cache \<Rightarrow> bool" where
  "attempts_extend c d \<longleftrightarrow> length (attempts c) \<le> length (attempts d) \<and>
     (\<forall>a < length (attempts c). akey (attempts d ! a) = akey (attempts c ! a) \<and>
        attemptGeneration (attempts d ! a) = attemptGeneration (attempts c ! a))"

lemma attempts_extend_refl [simp]: "attempts_extend c c"
  by (simp add: attempts_extend_def)

lemma attempts_extend_trans:
  "attempts_extend c d \<Longrightarrow> attempts_extend d e \<Longrightarrow> attempts_extend c e"
  by (auto simp: attempts_extend_def)

lemma attempts_extend_eq: "attempts d = attempts c \<Longrightarrow> attempts_extend c d"
  by (simp add: attempts_extend_def)

lemma attempts_extend_phase: "attempts d = attempts c \<Longrightarrow> attempts_extend c (set_phase a ph d)"
  by (cases "a < length (attempts c)")
    (auto simp: attempts_extend_def set_phase_def nth_list_update)

lemma cache_step_mono:
  assumes "cache_step ok c d" and "flight_inv c"
  shows "attempts_extend c d \<and> (\<forall>k. generationFor c k \<le> generationFor d k)"
  using assms(1)
proof cases
  case (st_read now k pol)
  then show ?thesis
    by (auto simp: cache_read_def attempts_extend_def nth_append generationFor_def split: option.split)
next
  case (st_settle a r now)
  have "attempts_extend c d"
    unfolding st_settle(1) cache_settle_def Let_def
    by (cases r) (auto intro!: attempts_extend_phase)
  moreover have "clearGenerations d = clearGenerations c"
    unfolding st_settle(1) cache_settle_def Let_def by (cases r) simp_all
  ultimately show ?thesis using generationFor_cong by fastforce
next
  case (st_finally a r)
  have "attempts_extend c d"
    unfolding st_finally(1) cache_finally_def Let_def by (auto intro!: attempts_extend_phase)
  moreover have "clearGenerations d = clearGenerations c"
    unfolding st_finally(1) cache_finally_def Let_def by simp
  ultimately show ?thesis using generationFor_cong by fastforce
next
  case (st_set k v now ttl)
  have "clearGenerations d = clearGenerations c" by (simp add: st_set cache_set_def)
  moreover have "attempts_extend c d" by (simp add: st_set cache_set_def attempts_extend_eq)
  ultimately show ?thesis using generationFor_cong by fastforce
next
  case (st_setIf k v now ttl g)
  have "clearGenerations d = clearGenerations c" by (simp add: st_setIf cache_setIfGeneration_def)
  moreover have "attempts_extend c d"
    by (simp add: st_setIf cache_setIfGeneration_def attempts_extend_eq)
  ultimately show ?thesis using generationFor_cong by fastforce
next
  case (st_clear p)
  then show ?thesis
    using flight_inv_gens(3) [OF assms(2)]
    by (auto simp: generationFor_clear [OF assms(2)] clear_generations attempts_extend_eq le_SucI)
qed

lemma cache_steps_mono:
  "cache_steps ok c d \<Longrightarrow> cache_reachable ok c \<Longrightarrow>
     attempts_extend c d \<and> (\<forall>k. generationFor c k \<le> generationFor d k)"
proof (induction rule: cache_steps.induct)
  case (cs_step c d e)
  then have "flight_inv d" using cache_steps_reachable cache_reachable_inv by blast
  with cs_step cache_step_mono [of ok d e] show ?case
    by (meson attempts_extend_trans order.trans)
qed simp

section \<open>What a caller may rely on\<close>

lemma store_inv_any: "store_inv ok c \<Longrightarrow> store_inv (\<lambda>_ _. True) c"
  by (simp add: store_inv_def)

lemma drop_snoc: "n \<le> length xs \<Longrightarrow> drop n (xs @ [x]) = drop n xs @ [x]"
  by simp

lemma jm_get_snoc_new: "k \<notin> fst ` set m \<Longrightarrow> jm_get (m @ [(k, v)]) k = Some v"
  using map_of_eq_None_iff [of m k] by (simp add: jm_get_def map_add_def)

text \<open>A stored value is there at once, unless its lifetime is not positive or nothing may be kept.\<close>

lemma cache_peek_set_same:
  assumes "store_inv ok c" and "0 < ttl" and "0 < maxEntries c"
  shows "cache_peek t k (cache_set t k v ttl c) = Some v"
proof -
  let ?e = "\<lparr>evalue = v, expiresAt = t + ttl, usableUntil = t + ttl\<rparr>"
  let ?m = "jm_set k ?e (entries c)" and ?p = "\<lambda>_ e. usableUntil e \<le> t"
  have "jm_get (entries (cache_set t k v ttl c)) k = Some ?e"
  proof (cases "length ?m \<le> maxEntries c")
    case True
    then show ?thesis by (simp add: cache_set_def evict_def)
  next
    case False
    have "length (entries c) \<le> maxEntries c" using assms(1) by (simp add: store_inv_def)
    then have new: "jm_get (entries c) k = None"
      using False jm_length_set_old [of "entries c" k ?e] by fastforce
    let ?kept = "jm_delete_if ?p (entries c)"
    have "jm_delete_if ?p ?m = ?kept @ [(k, ?e)]"
      using assms(2) by (simp add: jm_set_new [OF new] jm_delete_if_def)
    then have "entries (cache_set t k v ttl c) =
        drop (Suc (length ?kept) - maxEntries c) ?kept @ [(k, ?e)]"
      using False assms(3) by (simp add: cache_set_def evict_def)
    moreover have "k \<notin> fst ` set (drop n ?kept)" for n
      using new by (auto simp: jm_get_None_keys jm_keys_def jm_delete_if_def dest!: in_set_dropD)
    ultimately show ?thesis by (simp add: jm_get_snoc_new)
  qed
  then show ?thesis using assms(2) by (simp add: cache_peek_def)
qed

lemma cache_peek_evict:
  "jm_wf (entries c) \<Longrightarrow> cache_peek t k (evict t' c) = Some w \<Longrightarrow> cache_peek t k c = Some w"
  by (auto simp: cache_peek_def dest: evict_get split: option.splits if_splits)

lemma cache_peek_set:
  assumes "jm_wf (entries c)" and "cache_peek t k (cache_set t' k' v ttl c) = Some w"
  shows "(k = k' \<and> w = v) \<or> cache_peek t k c = Some w"
  using cache_peek_evict [OF _ assms(2) [unfolded cache_set_def]] assms(1)
  by (auto simp: cache_peek_def split: if_splits)

lemma cache_peek_clear:
  "jm_wf (entries c) \<Longrightarrow> (case p of None \<Rightarrow> True | Some q \<Rightarrow> startsWith k q) \<Longrightarrow>
     cache_peek t k (cache_clear p c) = None"
  by (auto simp: cache_peek_def cache_clear_def Let_def jm_get_delete_if split: option.split)

lemma cache_setIf_set:
  "cache_setIfGeneration t k v ttl g c =
     (if g = cache_generation (Some k) c then cache_set t k v ttl c else c)"
  by (simp add: cache_setIfGeneration_def cache_generation_def cache_set_def)

text \<open>
  The interface the rest of the service is written against (\<open>interface Cache\<close>): \<open>peek\<close>, \<open>set\<close>,
  \<open>generation\<close>, \<open>setIfGeneration\<close> and \<open>clear\<close>, with the promises both implementations keep.
\<close>

locale cache_api =
  fixes peek :: "int \<Rightarrow> string \<Rightarrow> 'c \<Rightarrow> 'v option"
    and put :: "int \<Rightarrow> string \<Rightarrow> 'v \<Rightarrow> int \<Rightarrow> 'c \<Rightarrow> 'c"
    and gen :: "string option \<Rightarrow> 'c \<Rightarrow> nat"
    and putIf :: "int \<Rightarrow> string \<Rightarrow> 'v \<Rightarrow> int \<Rightarrow> nat \<Rightarrow> 'c \<Rightarrow> 'c"
    and clear :: "string option \<Rightarrow> 'c \<Rightarrow> 'c"
    and invar :: "'c \<Rightarrow> bool"
  assumes invar_put: "invar c \<Longrightarrow> invar (put t k v ttl c)"
    and invar_clear: "invar c \<Longrightarrow> invar (clear p c)"
    and peek_put: "invar c \<Longrightarrow> peek t k (put t' k' v ttl c) = Some w \<Longrightarrow>
      (k = k' \<and> w = v) \<or> peek t k c = Some w"
    and putIf_put: "invar c \<Longrightarrow> putIf t k v ttl g c = put t k v ttl c \<or> putIf t k v ttl g c = c"
    and peek_clear: "invar c \<Longrightarrow> (case p of None \<Rightarrow> True | Some q \<Rightarrow> startsWith k q) \<Longrightarrow>
      peek t k (clear p c) = None"
    and putIf_cleared: "invar c \<Longrightarrow> (case p of None \<Rightarrow> True | Some q \<Rightarrow> startsWith k q) \<Longrightarrow>
      putIf t k v ttl (gen (Some k) c) (clear p c) = clear p c"
begin

lemma invar_putIf: "invar c \<Longrightarrow> invar (putIf t k v ttl g c)"
  using putIf_put invar_put by metis

lemma peek_putIf:
  "invar c \<Longrightarrow> peek t k (putIf t' k' v ttl g c) = Some w \<Longrightarrow>
     (k = k' \<and> w = v) \<or> peek t k c = Some w"
  using putIf_put peek_put by metis

text \<open>A batch of stores shows, under each key, a value of the batch or the value from before.\<close>

lemma peek_batch:
  assumes "invar c" and "peek t k (fold (\<lambda>(k', v). put t' k' v ttl) kvs c) = Some w"
  shows "(k, w) \<in> set kvs \<or> peek t k c = Some w"
  using assms
proof (induction kvs arbitrary: c)
  case (Cons kv kvs)
  obtain k' v where kv: "kv = (k', v)" by fastforce
  from Cons.IH [OF invar_put [OF Cons.prems(1)]] Cons.prems(2)
  have "(k, w) \<in> set kvs \<or> peek t k (put t' k' v ttl c) = Some w" by (simp add: kv)
  with peek_put [OF Cons.prems(1), of t k t' k' v ttl w] show ?case by (auto simp: kv)
qed simp

lemma invar_batch: "invar c \<Longrightarrow> invar (fold (\<lambda>(k, v). put t k v ttl) kvs c)"
  by (induction kvs arbitrary: c) (auto simp: invar_put)

text \<open>A batch whose tokens were taken before a clear of its keys stores nothing.\<close>

lemma guarded_batch:
  assumes inv: "invar c"
    and "\<forall>kv \<in> set kvs. case p of None \<Rightarrow> True | Some q \<Rightarrow> startsWith (fst kv) q"
  shows "fold (\<lambda>(k, v). putIf t k v ttl (gen (Some k) c)) kvs (clear p c) = clear p c"
  using assms(2)
proof (induction kvs)
  case (Cons kv kvs)
  then have "putIf t (fst kv) (snd kv) ttl (gen (Some (fst kv)) c) (clear p c) = clear p c"
    by (intro putIf_cleared [OF inv]) simp
  with Cons show ?case by (simp add: case_prod_beta)
qed simp

end

definition cache_ok :: "'v cache \<Rightarrow> bool" where
  "cache_ok c \<longleftrightarrow> store_inv (\<lambda>_ _. True) c \<and> flight_inv c"

lemma cache_ok_wf: "cache_ok c \<Longrightarrow> jm_wf (entries c)"
  by (simp add: cache_ok_def store_inv_def)

interpretation mem: cache_api cache_peek cache_set cache_generation cache_setIfGeneration
    cache_clear cache_ok
proof
  fix c :: "'v cache" and t k v ttl p
  assume inv: "cache_ok c"
  show "cache_ok (cache_set t k v ttl c)"
    using inv by (simp add: cache_ok_def cache_set_def store_inv_store)
  show "cache_ok (cache_clear p c)"
    using inv by (simp add: cache_ok_def store_inv_clear flight_inv_clear)
next
  fix c :: "'v cache" and t t' k k' v w ttl
  assume "cache_ok c" and "cache_peek t k (cache_set t' k' v ttl c) = Some w"
  then show "k = k' \<and> w = v \<or> cache_peek t k c = Some w"
    by (intro cache_peek_set cache_ok_wf)
next
  fix c :: "'v cache" and t k v ttl g
  show "cache_setIfGeneration t k v ttl g c = cache_set t k v ttl c \<or>
      cache_setIfGeneration t k v ttl g c = c"
    by (simp add: cache_setIf_set)
next
  fix c :: "'v cache" and p k t v ttl
  assume inv: "cache_ok c" and cov: "case p of None \<Rightarrow> True | Some q \<Rightarrow> startsWith k q"
  show "cache_peek t k (cache_clear p c) = None"
    by (rule cache_peek_clear [OF cache_ok_wf [OF inv] cov])
  have fl: "flight_inv c" using inv by (simp add: cache_ok_def)
  have "relevant k (case p of None \<Rightarrow> [] | Some q \<Rightarrow> q)"
    using cov by (auto simp: relevant_def split: option.splits)
  then have "generationFor (cache_clear p c) k = Suc (clearGeneration c)"
    by (simp add: generationFor_clear [OF fl])
  moreover have "generationFor c k \<le> clearGeneration c" by (rule flight_inv_gens(3) [OF fl])
  ultimately show "cache_setIfGeneration t k v ttl (cache_generation (Some k) c) (cache_clear p c)
      = cache_clear p c"
    by (simp add: cache_setIfGeneration_def cache_generation_def)
qed

section \<open>The cache that caches nothing\<close>

definition noCache_peek :: "int \<Rightarrow> string \<Rightarrow> unit \<Rightarrow> 'v option" where
  "noCache_peek now key c = None"

definition noCache_set :: "int \<Rightarrow> string \<Rightarrow> 'v \<Rightarrow> int \<Rightarrow> unit \<Rightarrow> unit" where
  "noCache_set now key v ttl c = c"

definition noCache_generation :: "string option \<Rightarrow> unit \<Rightarrow> nat" where
  "noCache_generation key c = 0"

definition noCache_setIfGeneration :: "int \<Rightarrow> string \<Rightarrow> 'v \<Rightarrow> int \<Rightarrow> nat \<Rightarrow> unit \<Rightarrow> unit" where
  "noCache_setIfGeneration now key v ttl g c = c"

definition noCache_clear :: "string option \<Rightarrow> unit \<Rightarrow> unit" where
  "noCache_clear p c = c"

interpretation noc: cache_api noCache_peek noCache_set noCache_generation noCache_setIfGeneration
    noCache_clear "\<lambda>_. True"
  by unfold_locales
    (simp_all add: noCache_peek_def noCache_set_def noCache_setIfGeneration_def noCache_clear_def)

section \<open>Properties\<close>

lemma settle_entries_stale:
  assumes "attemptGeneration (attempts c ! a) \<noteq> generationFor c (akey (attempts c ! a))"
  shows "entries (cache_settle t a r c) = entries c"
  using assms by (cases r) (simp_all add: cache_settle_def Let_def)

text \<open>
  C3: in every state the cache can reach, through any interleaving of reads, loader settlements,
  cleanups, stores and clears: it never holds more than \<open>maxEntries\<close> entries; every held value was
  supplied for its own key (whatever property \<open>ok\<close> of key and value the suppliers keep); and the
  promises that may still store a value are all different keys' promises, each registered in
  \<open>inFlight\<close>, so no key ever has two loads whose results count.
\<close>

theorem cache_invariant:
  assumes "cache_reachable ok c"
  shows "length (entries c) \<le> maxEntries c \<and>
    (\<forall>k e. jm_get (entries c) k = Some e \<longrightarrow> ok k (evalue e)) \<and>
    (\<forall>a b. attempt_live c a \<longrightarrow> attempt_live c b \<longrightarrow>
       akey (attempts c ! a) = akey (attempts c ! b) \<longrightarrow> a = b) \<and>
    (\<forall>a. attempt_live c a \<longrightarrow> jm_get (inFlight c) (akey (attempts c ! a)) = Some a)"
proof -
  from cache_reachable_inv [OF assms] have st: "store_inv ok c" and fl: "flight_inv c" by auto
  note live = flight_invD(6) [OF fl]
  have "a = b" if "attempt_live c a" "attempt_live c b"
    "akey (attempts c ! a) = akey (attempts c ! b)" for a b
    using live [OF that(1)] live [OF that(2)] that(3) by (metis option.inject)
  then have "\<forall>a b. attempt_live c a \<longrightarrow> attempt_live c b \<longrightarrow>
      akey (attempts c ! a) = akey (attempts c ! b) \<longrightarrow> a = b" by blast
  with st live show ?thesis unfolding store_inv_def by blast
qed

text \<open>
  The answer of \<open>read\<close> is one of three things, and never a second load of a key already being
  loaded: a hit is a value supplied for that key whose time has not run out; a join names the
  registered promise of the same key; a new load is started only when no promise of the key could
  still store its value.
\<close>

theorem cache_read_answer:
  assumes "cache_reachable ok c"
  shows "case fst (cache_read t k pol c) of
      ReadHit v \<Rightarrow> ok k v \<and> (\<exists>e. jm_get (entries c) k = Some e \<and> evalue e = v \<and> t < expiresAt e)
    | ReadJoin a \<Rightarrow> a < length (attempts c) \<and> akey (attempts c ! a) = k
    | ReadStart a \<Rightarrow> (\<forall>b. attempt_live c b \<longrightarrow> akey (attempts c ! b) \<noteq> k) \<and>
        jm_get (inFlight (snd (cache_read t k pol c))) k = Some a"
proof -
  from cache_reachable_inv [OF assms] have st: "store_inv ok c" and fl: "flight_inv c" by auto
  have fresh: "akey (attempts c ! b) \<noteq> k" if "attempt_live c b" "jm_get (inFlight c) k = None" for b
    using flight_invD(6) [OF fl that(1)] that(2) by auto
  have hit: "ok k v \<and> (\<exists>e. jm_get (entries c) k = Some e \<and> evalue e = v \<and> t < expiresAt e)"
    if "cache_peek t k c = Some v" for v
    using that st by (auto simp: cache_peek_def store_inv_def split: option.splits if_splits)
  show ?thesis
  proof (cases "cache_peek t k c")
    case (Some v)
    with hit show ?thesis by (simp add: cache_read_def)
  next
    case None
    show ?thesis
    proof (cases "jm_get (inFlight c) k")
      case (Some a)
      with None flight_invD(3) [OF fl Some] show ?thesis by (simp add: cache_read_def)
    next
      case none: None
      then show ?thesis using None fresh by (simp add: cache_read_def)
    qed
  qed
qed

text \<open>
  C5: a clear cannot be undone by a load that was already running.  Take any reachable state with a
  running load of a key, clear everything or any prefix of the key, let anything at all happen
  afterwards: when that load finally settles, with a value or an error, it stores nothing.
\<close>

theorem clear_not_undone:
  assumes "cache_reachable ok c" and "a < length (attempts c)"
    and "case p of None \<Rightarrow> True | Some q \<Rightarrow> startsWith (akey (attempts c ! a)) q"
    and "cache_steps ok (cache_clear p c) d"
  shows "entries (cache_settle t a r d) = entries d"
proof -
  let ?k = "akey (attempts c ! a)" and ?c1 = "cache_clear p c"
  have fl: "flight_inv c" using cache_reachable_inv [OF assms(1)] by simp
  have "cache_reachable ok ?c1" using assms(1) cr_step st_clear by blast
  then have ext: "attempts_extend ?c1 d" and mono: "generationFor ?c1 ?k \<le> generationFor d ?k"
    using cache_steps_mono [OF assms(4)] by auto
  have same: "akey (attempts d ! a) = ?k"
    "attemptGeneration (attempts d ! a) = attemptGeneration (attempts c ! a)"
    using ext assms(2) by (auto simp: attempts_extend_def clear_generations)
  have "relevant ?k (case p of None \<Rightarrow> [] | Some q \<Rightarrow> q)"
    using assms(3) by (auto simp: relevant_def split: option.splits)
  then have "generationFor ?c1 ?k = Suc (clearGeneration c)"
    by (simp add: generationFor_clear [OF fl])
  moreover have "attemptGeneration (attempts c ! a) \<le> clearGeneration c"
    using flight_invD(5) [OF fl assms(2)] flight_inv_gens(3) [OF fl, of ?k] by simp
  ultimately show ?thesis
    using mono same by (intro settle_entries_stale) simp
qed

text \<open>
  A failed load is never cached, and what its waiters get is exact: nothing held by the cache
  changes (not even the deadlines of the old value), and the promise fulfils with the old value when
  one is held, no clear concerned the key since the load began and the old value's \<open>usableUntil\<close> lies
  in the future; otherwise it rejects with the loader's own error.
\<close>

theorem failed_load:
  assumes "a < length (attempts c)"
  shows "entries (cache_settle t a (Inl err) c) = entries c \<and>
    aphase (attempts (cache_settle t a (Inl err) c) ! a) =
      Settled (case jm_get (entries c) (akey (attempts c ! a)) of
         Some e \<Rightarrow> if attemptGeneration (attempts c ! a) = generationFor c (akey (attempts c ! a))
                      \<and> t < usableUntil e then Inr (evalue e) else Inl err
       | None \<Rightarrow> Inl err)"
  using assms by (simp add: cache_settle_def Let_def set_phase_def)

text \<open>
  \<open>peek\<close> after \<open>set\<close>.  In a reachable cache with room for at least one entry, a value stored with a
  positive lifetime is what \<open>peek\<close> answers at once under its key; under any key the answer after the
  store is the stored value for the stored key, or the answer from before, never anything else
  (eviction may lose values, it cannot change them).
\<close>

lemma set_then_peek:
  assumes "cache_reachable ok c" and "0 < maxEntries c" and "0 < ttl"
  shows "cache_peek t k (cache_set t k v ttl c) = Some v \<and>
    (cache_peek t' k' (cache_set t k v ttl c) = Some w \<longrightarrow>
       (k' = k \<and> w = v) \<or> cache_peek t' k' c = Some w)"
proof -
  have inv: "store_inv ok c" "cache_ok c"
    using cache_reachable_inv [OF assms(1)] by (auto simp: cache_ok_def store_inv_any)
  show ?thesis
    using cache_peek_set_same [OF inv(1) assms(3,2)] mem.peek_put [OF inv(2)] by blast
qed

text \<open>
  \<open>size\<close> is documented as the number of live entries, but it counts entries whose time has run
  out as well: here one entry is counted although \<open>peek\<close> no longer answers for it.
\<close>

lemma size_counts_expired:
  "cache_size (cache_set 0 ''a'' (1::nat) 5 (createMemoryCache None)) = 1 \<and>
   cache_peek 5 ''a'' (cache_set 0 ''a'' (1::nat) 5 (createMemoryCache None)) = None"
  by (simp add: cache_size_def cache_set_def createMemoryCache_def evict_def cache_peek_def
      DEFAULT_MAX_ENTRIES_def jm_get_def)

lemma reachable_example:
  "cache_reachable (\<lambda>_ _. True) (snd (cache_read 0 ''a'' (PlainTtl 5) (createMemoryCache (Some 2))))"
  by (rule cr_step [OF cr_start st_read])

theorem cache_invariant_witness:
  "length (entries (snd (cache_read 0 ''a'' (PlainTtl 5) (createMemoryCache (Some 2) :: nat cache)))) \<le> 2"
proof -
  have "length (entries (snd (cache_read 0 ''a'' (PlainTtl 5) (createMemoryCache (Some 2) :: nat cache))))
     \<le> maxEntries (snd (cache_read 0 ''a'' (PlainTtl 5) (createMemoryCache (Some 2) :: nat cache)))"
    using cache_invariant [OF reachable_example] by blast
  then show ?thesis by (simp add: cache_read_def cache_peek_def createMemoryCache_def)
qed

theorem cache_read_answer_witness:
  "fst (cache_read 1 ''a'' (PlainTtl 5)
     (snd (cache_read 0 ''a'' (PlainTtl 5) (createMemoryCache (Some 2) :: nat cache)))) = ReadJoin 0"
  using cache_read_answer [OF reachable_example, where t = 1 and k = "''a''" and pol = "PlainTtl 5"]
  by (simp add: cache_read_def cache_peek_def createMemoryCache_def jm_get_def)

theorem clear_not_undone_witness:
  "entries (cache_settle 3 0 (Inr 7)
     (cache_clear (Some ''a'')
        (snd (cache_read 0 ''ab'' (PlainTtl 5) (createMemoryCache (Some 2) :: nat cache))))) = []"
proof -
  let ?c = "snd (cache_read 0 ''ab'' (PlainTtl 5) (createMemoryCache (Some 2) :: nat cache))"
  have "cache_reachable (\<lambda>_ _. True) ?c" by (rule cr_step [OF cr_start st_read])
  then have "entries (cache_settle 3 0 (Inr 7) (cache_clear (Some ''a'') ?c)) =
      entries (cache_clear (Some ''a'') ?c)"
    by (rule clear_not_undone [OF _ _ _ cs_refl])
      (simp_all add: cache_read_def cache_peek_def createMemoryCache_def startsWith_def)
  then show ?thesis
    by (simp add: cache_clear_def cache_read_def cache_peek_def createMemoryCache_def Let_def
        jm_delete_if_def)
qed

theorem failed_load_witness:
  "entries (cache_settle 3 0 (Inl (JsError ''x''))
     (snd (cache_read 0 ''a'' (PlainTtl 5) (createMemoryCache (Some 2) :: nat cache)))) = []"
  using failed_load [of 0 "snd (cache_read 0 ''a'' (PlainTtl 5) (createMemoryCache (Some 2) :: nat cache))"
      3 "JsError ''x''"]
  by (simp add: cache_read_def cache_peek_def createMemoryCache_def)

lemma set_then_peek_witness:
  "cache_peek 0 ''a'' (cache_set 0 ''a'' (9::nat) 5 (createMemoryCache (Some 1))) = Some 9"
  using set_then_peek [OF cr_start [of "\<lambda>_ _. True" "Some 1"], where ttl = 5 and t = 0 and k = "''a''" and v = "9::nat" and t' = 0 and k' = "''a''" and w = 9]
  by (simp add: createMemoryCache_def)

end
