(* ===== verification/Cache_Spec.thy ===== *)
theory Cache_Spec
  imports Cache
begin

text \<open>
  What \<^verbatim>\<open>src/cache/index.ts\<close> promises, without its generation counters, its in-flight map or its eviction
  order: a partial map of held entries and the set of loads whose result may still be stored.  The
  cache of \<open>Cache\<close> is shown to refine this specification step by step.
\<close>

section \<open>Forward simulation\<close>

text \<open>
  The interface between a detailed step relation and an abstract one: an invariant every detailed step
  keeps, and an abstract step for each of them.
\<close>

locale simulation =
  fixes cstep :: "'c \<Rightarrow> 'c \<Rightarrow> bool" and astep :: "'a \<Rightarrow> 'a \<Rightarrow> bool"
    and absf :: "'c \<Rightarrow> 'a" and cinv :: "'c \<Rightarrow> bool"
  assumes inv_step: "cinv c \<Longrightarrow> cstep c d \<Longrightarrow> cinv d"
    and sim_step: "cinv c \<Longrightarrow> cstep c d \<Longrightarrow> astep (absf c) (absf d)"
begin

lemma sim_steps:
  assumes "cstep\<^sup>*\<^sup>* c d" and "cinv c"
  shows "astep\<^sup>*\<^sup>* (absf c) (absf d) \<and> cinv d"
  using assms(1)
proof (induction rule: rtranclp_induct)
  case base
  show ?case using assms(2) by simp
next
  case (step d e)
  then have "cinv d" "astep\<^sup>*\<^sup>* (absf c) (absf d)" by simp_all
  with step.hyps(2) show ?case by (meson inv_step sim_step rtranclp.rtrancl_into_rtrancl)
qed

text \<open>What every abstract step keeps, every detailed run keeps.\<close>

lemma transfer:
  assumes "\<And>s t. astep s t \<Longrightarrow> P s \<Longrightarrow> P t" and "cstep\<^sup>*\<^sup>* c d" and "cinv c" and "P (absf c)"
  shows "P (absf d)"
proof -
  have "astep\<^sup>*\<^sup>* (absf c) (absf d)" using sim_steps assms(2,3) by simp
  then show ?thesis by (induction rule: rtranclp_induct) (use assms(1,4) in blast)+
qed

end

section \<open>The specification\<close>

record 'v cache_spec =
  held :: "string \<Rightarrow> 'v entry option"
  loading :: "(nat \<times> string) set"

text \<open>
  \<open>loading\<close> holds the loads that may store, each with its key.  A store and a \<open>set\<close> write one entry and
  may drop others, never past the capacity \<open>cap\<close>; a load stores at most once; a clear empties its prefix
  and takes the right to store from every load of a key that overlaps it.
\<close>

inductive spec_step :: "(string \<Rightarrow> 'v \<Rightarrow> bool) \<Rightarrow> nat \<Rightarrow> 'v cache_spec \<Rightarrow> 'v cache_spec \<Rightarrow> bool" for ok cap where
  spec_idle: "spec_step ok cap s s"
| spec_load: "\<forall>k'. (a, k') \<notin> loading s \<Longrightarrow> spec_step ok cap s (s\<lparr>loading := insert (a, k) (loading s)\<rparr>)"
| spec_store: "(a, k) \<in> loading s \<Longrightarrow> ok k (evalue e) \<Longrightarrow> h \<subseteq>\<^sub>m (held s)(k \<mapsto> e) \<Longrightarrow> finite (dom h) \<Longrightarrow>
    card (dom h) \<le> cap \<Longrightarrow> spec_step ok cap s \<lparr>held = h, loading = loading s - {(a, k)}\<rparr>"
| spec_fail: "spec_step ok cap s (s\<lparr>loading := loading s - {(a, k)}\<rparr>)"
| spec_put: "ok k (evalue e) \<Longrightarrow> h \<subseteq>\<^sub>m (held s)(k \<mapsto> e) \<Longrightarrow> finite (dom h) \<Longrightarrow> card (dom h) \<le> cap \<Longrightarrow>
    spec_step ok cap s (s\<lparr>held := h\<rparr>)"
| spec_clear: "spec_step ok cap s
    \<lparr>held = (\<lambda>k. if startsWith k p then None else held s k),
     loading = {l \<in> loading s. \<not> relevant (snd l) p}\<rparr>"

definition may_store :: "'v cache \<Rightarrow> nat \<Rightarrow> bool" where
  "may_store c a \<longleftrightarrow> a < length (attempts c) \<and> aphase (attempts c ! a) = Loading \<and>
     attemptGeneration (attempts c ! a) = generationFor c (akey (attempts c ! a))"

definition spec_of :: "'v cache \<Rightarrow> 'v cache_spec" where
  "spec_of c = \<lparr>held = jm_get (entries c),
     loading = {(a, akey (attempts c ! a)) |a. may_store c a}\<rparr>"

lemma in_loading: "(a, k) \<in> loading (spec_of c) \<longleftrightarrow> may_store c a \<and> k = akey (attempts c ! a)"
  by (auto simp: spec_of_def)

lemma held_spec_of [simp]: "held (spec_of c) = jm_get (entries c)"
  by (simp add: spec_of_def)

lemma spec_eqI:
  "held (s :: 'v cache_spec) = held t \<Longrightarrow> (\<And>a k. (a, k) \<in> loading s \<longleftrightarrow> (a, k) \<in> loading t) \<Longrightarrow> s = t"
  by (cases s; cases t) auto

lemma dom_jm_get: "dom (jm_get m) = set (jm_keys m)"
  by (auto simp: jm_get_None_keys dom_def)

lemma capacity: "store_inv ok c \<Longrightarrow> finite (dom (jm_get (entries c))) \<and> card (dom (jm_get (entries c))) \<le> maxEntries c"
  using card_length [of "jm_keys (entries c)"] by (simp add: dom_jm_get store_inv_def jm_keys_def)

lemma evicted_submap:
  assumes "jm_wf (entries c)" and "entries d = jm_set k e (entries c)"
  shows "jm_get (entries (evict t d)) \<subseteq>\<^sub>m (jm_get (entries c))(k \<mapsto> e)"
proof -
  have "jm_wf (entries d)" using assms by simp
  from evict_get [OF this] assms(2) show ?thesis
    by (fastforce simp: map_le_def dom_def)
qed

text \<open>How the loads that may store change: one is added, one is removed, a clear removes those it overlaps.\<close>

lemma loading_same:
  assumes "attempts d = attempts c" and "clearGenerations d = clearGenerations c"
  shows "loading (spec_of d) = loading (spec_of c)"
proof -
  have "generationFor d k = generationFor c k" for k using assms(2) by (rule generationFor_cong)
  then show ?thesis using assms(1) by (simp add: spec_of_def may_store_def)
qed

lemma loading_set_phase:
  assumes "ph \<noteq> Loading" and "attempts d = attempts c" and "clearGenerations d = clearGenerations c"
    and "a < length (attempts c)"
  shows "loading (spec_of (set_phase a ph d)) = loading (spec_of c) - {(a, akey (attempts c ! a))}"
proof -
  have gen: "generationFor (set_phase a ph d) k = generationFor c k" for k
    by (rule generationFor_cong) (simp add: assms(3))
  have "(b, k) \<in> loading (spec_of (set_phase a ph d)) \<longleftrightarrow> (b, k) \<in> loading (spec_of c) - {(a, akey (attempts c ! a))}"
    for b k
    using assms(1,2,4) by (cases "b = a") (auto simp: in_loading may_store_def gen, auto simp: set_phase_def)
  then show ?thesis by auto
qed

lemma loading_start:
  assumes "attempts d = attempts c @ [\<lparr>akey = key, apolicy = pol, attemptGeneration = generationFor c key, aphase = Loading\<rparr>]"
    and "clearGenerations d = clearGenerations c"
  shows "loading (spec_of d) = insert (length (attempts c), key) (loading (spec_of c))"
proof -
  have gen: "generationFor d k = generationFor c k" for k using assms(2) by (rule generationFor_cong)
  have "(b, k) \<in> loading (spec_of d) \<longleftrightarrow> (b, k) \<in> insert (length (attempts c), key) (loading (spec_of c))" for b k
    by (cases "b = length (attempts c)") (auto simp: in_loading may_store_def gen assms(1) nth_append)
  then show ?thesis by auto
qed

lemma loading_clear:
  assumes inv: "flight_inv c"
  shows "loading (spec_of (cache_clear p c)) =
    {l \<in> loading (spec_of c). \<not> relevant (snd l) (case p of None \<Rightarrow> [] | Some q \<Rightarrow> q)}"
proof -
  let ?q = "case p of None \<Rightarrow> [] | Some q \<Rightarrow> q"
  have "may_store (cache_clear p c) a \<longleftrightarrow> may_store c a \<and> \<not> relevant (akey (attempts c ! a)) ?q" for a
    using flight_invD(5) [OF inv, of a] flight_inv_gens(3) [OF inv, of "akey (attempts c ! a)"]
    by (auto simp: may_store_def clear_generations generationFor_clear [OF inv])
  then have "(a, k) \<in> loading (spec_of (cache_clear p c)) \<longleftrightarrow>
      (a, k) \<in> {l \<in> loading (spec_of c). \<not> relevant (snd l) ?q}" for a k
    by (auto simp: in_loading clear_generations)
  then show ?thesis by auto
qed


section \<open>The refinement\<close>

lemma settle_ok_refines:
  assumes "a < length (attempts c)" and "aphase (attempts c ! a) = Loading" and "ok (akey (attempts c ! a)) v"
    and inv: "store_inv ok c" and inv': "store_inv ok (cache_settle now a (Inr v) c)"
  shows "spec_step ok (maxEntries c) (spec_of c) (spec_of (cache_settle now a (Inr v) c))"
proof -
  let ?k = "akey (attempts c ! a)" and ?d = "cache_settle now a (Inr v) c"
  have max: "maxEntries ?d = maxEntries c" by (simp add: cache_settle_def Let_def)
  have load: "loading (spec_of ?d) = loading (spec_of c) - {(a, ?k)}"
    unfolding cache_settle_def Let_def sum.case using assms(1) by (intro loading_set_phase) simp_all
  show ?thesis
  proof (cases "attemptGeneration (attempts c ! a) = generationFor c ?k")
    case True
    let ?e = "\<lparr>evalue = v, expiresAt = now + ttlMs_of (apolicy (attempts c ! a)),
      usableUntil = now + ttlMs_of (apolicy (attempts c ! a)) + staleIfErrorMs_of (apolicy (attempts c ! a))\<rparr>"
    have "jm_wf (entries c)" using inv by (simp add: store_inv_def)
    then have "held (spec_of ?d) \<subseteq>\<^sub>m (held (spec_of c))(?k \<mapsto> ?e)"
      using True by (simp add: cache_settle_def Let_def evicted_submap)
    moreover have "(a, ?k) \<in> loading (spec_of c)" using assms(1,2) True by (simp add: in_loading may_store_def)
    ultimately have "spec_step ok (maxEntries c) (spec_of c)
        \<lparr>held = held (spec_of ?d), loading = loading (spec_of c) - {(a, ?k)}\<rparr>"
      using capacity [OF inv'] assms(3) max by (intro spec_store) simp_all
    then show ?thesis using load by (metis cache_spec.surjective old.unit.exhaust)
  next
    case False
    then have "spec_of ?d = spec_of c\<lparr>loading := loading (spec_of c) - {(a, ?k)}\<rparr>"
      using load by (intro spec_eqI) (simp_all add: cache_settle_def Let_def)
    then show ?thesis by (simp add: spec_fail)
  qed
qed

lemma put_refines:
  assumes "ok k v" and inv: "store_inv ok c" and inv': "store_inv ok (cache_set now k v ttl c)"
  shows "spec_step ok (maxEntries c) (spec_of c) (spec_of (cache_set now k v ttl c))"
proof -
  let ?d = "cache_set now k v ttl c"
  have "jm_wf (entries c)" using inv by (simp add: store_inv_def)
  then have "held (spec_of ?d) \<subseteq>\<^sub>m (held (spec_of c))(k \<mapsto> \<lparr>evalue = v, expiresAt = now + ttl, usableUntil = now + ttl\<rparr>)"
    by (simp add: cache_set_def evicted_submap)
  then have "spec_step ok (maxEntries c) (spec_of c) (spec_of c\<lparr>held := held (spec_of ?d)\<rparr>)"
    using capacity [OF inv'] assms(1) by (intro spec_put [where e = "\<lparr>evalue = v, expiresAt = now + ttl, usableUntil = now + ttl\<rparr>"])
      (simp_all add: cache_set_def)
  moreover have "loading (spec_of ?d) = loading (spec_of c)"
    by (rule loading_same) (simp_all add: cache_set_def)
  then have "spec_of c\<lparr>held := held (spec_of ?d)\<rparr> = spec_of ?d" by (intro spec_eqI) simp_all
  ultimately show ?thesis by simp
qed

lemma read_refines: "spec_step ok (maxEntries c) (spec_of c) (spec_of (snd (cache_read now k pol c)))"
proof (cases "cache_peek now k c = None \<and> jm_get (inFlight c) k = None")
  case True
  let ?d = "snd (cache_read now k pol c)"
  have "loading (spec_of ?d) = insert (length (attempts c), k) (loading (spec_of c))"
    using True by (intro loading_start [where pol = pol]) (simp_all add: cache_read_def)
  then have "spec_of ?d = spec_of c\<lparr>loading := insert (length (attempts c), k) (loading (spec_of c))\<rparr>"
    using True by (intro spec_eqI) (simp_all add: cache_read_def)
  moreover have "\<forall>k'. (length (attempts c), k') \<notin> loading (spec_of c)" by (simp add: in_loading may_store_def)
  ultimately show ?thesis by (simp add: spec_load)
next
  case False
  then have "snd (cache_read now k pol c) = c" by (auto simp: cache_read_def split: option.split)
  then show ?thesis by (simp add: spec_idle)
qed

lemma clear_refines:
  assumes "store_inv ok c" and "flight_inv c"
  shows "spec_step ok cap (spec_of c) (spec_of (cache_clear p c))"
proof -
  let ?q = "case p of None \<Rightarrow> [] | Some q \<Rightarrow> q"
  have "jm_wf (entries c)" using assms(1) by (simp add: store_inv_def)
  then have "held (spec_of (cache_clear p c)) = (\<lambda>k. if startsWith k ?q then None else held (spec_of c) k)"
    by (auto simp: cache_clear_def Let_def jm_get_delete_if split: option.split)
  then have "spec_of (cache_clear p c) = \<lparr>held = (\<lambda>k. if startsWith k ?q then None else held (spec_of c) k),
      loading = {l \<in> loading (spec_of c). \<not> relevant (snd l) ?q}\<rparr>"
    using loading_clear [OF assms(2), of p] by (intro spec_eqI) simp_all
  then show ?thesis by (simp only: spec_clear)
qed

lemma cache_step_refines:
  assumes step: "cache_step ok c d" and "store_inv ok c" and "flight_inv c"
  shows "spec_step ok (maxEntries c) (spec_of c) (spec_of d)"
  using step
proof cases
  case (st_read now k pol)
  then show ?thesis by (simp add: read_refines)
next
  case (st_settle a r now)
  show ?thesis
  proof (cases r)
    case (Inl err)
    have "loading (spec_of d) = loading (spec_of c) - {(a, akey (attempts c ! a))}"
      unfolding st_settle(1) Inl cache_settle_def Let_def sum.case using st_settle(2) by (intro loading_set_phase) simp_all
    then have "spec_of d = spec_of c\<lparr>loading := loading (spec_of c) - {(a, akey (attempts c ! a))}\<rparr>"
      using st_settle(1) Inl by (intro spec_eqI) (simp_all add: cache_settle_def Let_def)
    then show ?thesis by (simp add: spec_fail)
  next
    case (Inr v)
    then show ?thesis
      using settle_ok_refines [of a c ok v now] st_settle assms(2) cache_step_inv [OF assms] by simp
  qed
next
  case (st_finally a r)
  have "loading (spec_of d) = loading (spec_of c) - {(a, akey (attempts c ! a))}"
    unfolding st_finally(1) cache_finally_def Let_def using st_finally(2) by (intro loading_set_phase) simp_all
  then have "spec_of d = spec_of c\<lparr>loading := loading (spec_of c) - {(a, akey (attempts c ! a))}\<rparr>"
    using st_finally(1) by (intro spec_eqI) (simp_all add: cache_finally_def Let_def)
  then show ?thesis by (simp add: spec_fail)
next
  case (st_set k v now ttl)
  then show ?thesis using put_refines [of ok k v c now ttl] assms(2) cache_step_inv [OF step assms(2,3)] by simp
next
  case (st_setIf k v now ttl g)
  then show ?thesis
    using put_refines [of ok k v c now ttl] assms cache_step_inv [OF step assms(2,3)]
    by (auto simp: cache_setIf_set spec_idle)
next
  case (st_clear p)
  then show ?thesis using clear_refines assms(2,3) by blast
qed

lemma cache_step_max: "cache_step ok c d \<Longrightarrow> maxEntries d = maxEntries c"
  by (erule cache_stepE)
    (auto simp: cache_read_def cache_settle_def cache_finally_def cache_set_def cache_setIfGeneration_def
      clear_generations Let_def split: option.splits sum.splits)

definition cache_within :: "(string \<Rightarrow> 'v \<Rightarrow> bool) \<Rightarrow> nat \<Rightarrow> 'v cache \<Rightarrow> bool" where
  "cache_within ok cap c \<longleftrightarrow> maxEntries c = cap \<and> store_inv ok c \<and> flight_inv c"

interpretation mem_sim: simulation "cache_step ok" "spec_step ok cap" spec_of "cache_within ok cap"
  for ok :: "string \<Rightarrow> 'v \<Rightarrow> bool" and cap
proof
  fix c d :: "'v cache"
  assume inv: "cache_within ok cap c" and step: "cache_step ok c d"
  then show "cache_within ok cap d"
    using cache_step_inv [OF step] cache_step_max [OF step] by (simp add: cache_within_def)
  show "spec_step ok cap (spec_of c) (spec_of d)"
    using cache_step_refines [OF step] inv by (auto simp: cache_within_def)
qed

lemma cache_steps_star: "cache_steps ok c d \<Longrightarrow> (cache_step ok)\<^sup>*\<^sup>* c d"
  by (induction rule: cache_steps.induct) auto

lemma created_within: "cache_within ok (case m of None \<Rightarrow> DEFAULT_MAX_ENTRIES | Some n \<Rightarrow> n) (createMemoryCache m)"
  using cache_reachable_inv [OF cr_start [of ok m]] by (simp add: cache_within_def createMemoryCache_def)



end
