(* ===== verification/Config.thy ===== *)
theory Config
  imports "HOL-Library.Word" Errors Js_Num Json
begin

unbundle bit_operations_syntax

text \<open>
  \<^verbatim>\<open>src/config/index.ts\<close>: the environment read into an \<open>AppConfig\<close> or refused.  The environment is a
  function from names to optional strings; the URL parser and \<open>isIP\<close> of the runtime are parameters.  The part
  that can go wrong quietly is the list of trusted proxies, whose ranges are compared bit by bit.
\<close>

section \<open>Constants\<close>

definition NETWORKS :: "string list" where "NETWORKS = [''mainnet'', ''preprod'', ''preview'']"
definition PROVIDERS :: "string list" where "PROVIDERS = [''koios'', ''blockfrost'', ''dingo'']"
definition LOG_LEVELS :: "string list" where
  "LOG_LEVELS = [''fatal'', ''error'', ''warn'', ''info'', ''debug'', ''trace'', ''silent'']"

definition DEFAULT_KOIOS_URL :: "string \<Rightarrow> string" where
  "DEFAULT_KOIOS_URL network =
     (if network = ''mainnet'' then ''https://api.koios.rest/api/v1''
      else if network = ''preprod'' then ''https://preprod.koios.rest/api/v1''
      else ''https://preview.koios.rest/api/v1'')"

definition DEFAULT_BLOCKFROST_URL :: "string \<Rightarrow> string" where
  "DEFAULT_BLOCKFROST_URL network =
     (if network = ''mainnet'' then ''https://cardano-mainnet.blockfrost.io/api/v0''
      else if network = ''preprod'' then ''https://cardano-preprod.blockfrost.io/api/v0''
      else ''https://cardano-preview.blockfrost.io/api/v0'')"

definition MIN_TRUSTED_PREFIX :: nat where "MIN_TRUSTED_PREFIX = 8"
definition IPV4_MAPPED_PREFIX :: "8 word list" where
  "IPV4_MAPPED_PREFIX = [0, 0, 0, 0, 0, 0, 0, 0, 0, 0, 0xff, 0xff, 0, 0, 0, 0]"
definition IPV4_MAPPED_PREFIX_BITS :: nat where "IPV4_MAPPED_PREFIX_BITS = 96"

text \<open>
  What the runtime provides: \<open>isIP\<close> answers 0, 4 or 6; \<open>hostname\<close> is \<open>new URL(`http://[${address}]`).hostname\<close>
  or \<open>None\<close> when that throws; \<open>url_ok\<close> is what \<open>z.string().url()\<close> accepts and \<open>protocol\<close> the protocol of
  \<open>new URL(value)\<close>.
\<close>

record runtime =
  rt_isIP :: "string \<Rightarrow> nat"
  rt_hostname :: "string \<Rightarrow> string option"
  rt_url_ok :: "string \<Rightarrow> bool"
  rt_protocol :: "string \<Rightarrow> string option"

section \<open>Trusted proxies\<close>

text \<open>The first two pieces of \<open>s.split('::')\<close>.\<close>

fun before_colons :: "string \<Rightarrow> string \<times> string option" where
  "before_colons [] = ([], None)"
| "before_colons [c] = ([c], None)"
| "before_colons (c # d # s) =
     (if c = CHR '':'' \<and> d = CHR '':'' then ([], Some s)
      else case before_colons (d # s) of (a, r) \<Rightarrow> (c # a, r))"

definition colon_groups :: "string option \<Rightarrow> string list" where
  "colon_groups part = (case part of None \<Rightarrow> [] | Some s \<Rightarrow> if s = [] then [] else split_on CHR '':'' s)"

definition hex_digit_value :: "char \<Rightarrow> nat" where
  "hex_digit_value c = (let n = of_char (lower_char c) in if n < 97 then n - 48 else n - 87)"

text \<open>\<open>Number.parseInt(group, 16)\<close>.\<close>

definition parseInt16 :: "string \<Rightarrow> int option" where
  "parseInt16 raw =
     (let s = dropWhile is_js_space raw;
          neg = (s \<noteq> [] \<and> hd s = CHR ''-'');
          s1 = (if s \<noteq> [] \<and> (hd s = CHR ''-'' \<or> hd s = CHR ''+'') then tl s else s);
          s2 = (if take 2 (toLowerCase s1) = ''0x'' then drop 2 s1 else s1);
          ds = takeWhile is_hex s2;
          v = foldl (\<lambda>n c. 16 * n + int (hex_digit_value c)) 0 ds in
      if ds = [] then None else Some (if neg then - v else v))"

fun group_bytes :: "string list \<Rightarrow> 8 word list option" where
  "group_bytes [] = Some []"
| "group_bytes (g # gs) = (case parseInt16 g of
     None \<Rightarrow> None
   | Some v \<Rightarrow> map_option (\<lambda>bs. word_of_int (v div 256) # word_of_int v # bs) (group_bytes gs))"

definition ipv6Bytes :: "runtime \<Rightarrow> string \<Rightarrow> 8 word list option" where
  "ipv6Bytes R address = (case rt_hostname R address of
     None \<Rightarrow> None
   | Some h \<Rightarrow>
       let canonical = tl (butlast h);
           head = fst (before_colons canonical);
           tail = map_option (\<lambda>r. fst (before_colons r)) (snd (before_colons canonical));
           headGroups = colon_groups (Some head);
           tailGroups = colon_groups tail;
           missing = 8 - int (length headGroups) - int (length tailGroups) in
       if (if tail = None then missing \<noteq> 0 else missing < 0) then None
       else group_bytes (headGroups @ replicate (nat missing) ''0'' @ tailGroups))"

definition byte_at :: "8 word list \<Rightarrow> nat \<Rightarrow> 8 word" where
  "byte_at bs i = (if i < length bs then bs ! i else 0)"

definition same_bit :: "8 word list \<Rightarrow> 8 word list \<Rightarrow> nat \<Rightarrow> bool" where
  "same_bit left right i =
     (byte_at left (i div 8) AND drop_bit (i mod 8) 0x80 = byte_at right (i div 8) AND drop_bit (i mod 8) 0x80)"

definition sharesPrefix :: "8 word list \<Rightarrow> 8 word list \<Rightarrow> nat \<Rightarrow> bool" where
  "sharesPrefix left right bits = list_all (same_bit left right) [0..<bits]"

definition proxy_reject :: "string \<Rightarrow> thrown" where
  "proxy_reject proxy = ConfigError (''invalid TRUST_PROXY entry \"'' @ proxy @
     ''\"; use comma-separated IP addresses or CIDR ranges, none wider than a /'' @ string_of_nat MIN_TRUSTED_PREFIX)"

text \<open>The prefix length of an entry, when it has one.\<close>

definition proxy_prefix :: "string \<Rightarrow> nat \<Rightarrow> string option \<Rightarrow> nat option result" where
  "proxy_prefix proxy family rawPrefix = (case rawPrefix of
     None \<Rightarrow> Inr None
   | Some p \<Rightarrow>
       if p = [] \<or> \<not> list_all is_digit p then Inl (proxy_reject proxy)
       else let n = nat_of_string p in
         if \<not> isSafeInteger (int n) \<or> n > (if family = 4 then 32 else 128) then Inl (proxy_reject proxy)
         else Inr (Some n))"

definition dotted :: "8 word list \<Rightarrow> string" where
  "dotted bs = intercalate ''.'' (map (\<lambda>b. string_of_nat (unat b)) bs)"

text \<open>The range an entry is recorded as: an address and a prefix length.\<close>

definition mapped_range :: "runtime \<Rightarrow> string \<Rightarrow> string \<Rightarrow> nat option \<Rightarrow> (string \<times> nat option) result" where
  "mapped_range R proxy address prefix =
     (let bytes = ipv6Bytes R (hd (split_on CHR ''%'' address));
          width = (case prefix of None \<Rightarrow> 128 | Some n \<Rightarrow> n) in
      case bytes of
        None \<Rightarrow> Inr (address, prefix)
      | Some b \<Rightarrow>
          if width > IPV4_MAPPED_PREFIX_BITS then
            if sharesPrefix b IPV4_MAPPED_PREFIX IPV4_MAPPED_PREFIX_BITS
            then Inr (dotted [byte_at b 12, byte_at b 13, byte_at b 14, byte_at b 15],
                      map_option (\<lambda>n. n - IPV4_MAPPED_PREFIX_BITS) prefix)
            else Inr (address, prefix)
          else if sharesPrefix b IPV4_MAPPED_PREFIX width then Inl (proxy_reject proxy)
          else Inr (address, prefix))"

definition proxy_range :: "runtime \<Rightarrow> string \<Rightarrow> (string \<times> nat option) result" where
  "proxy_range R proxy =
     (let parts = split_on CHR ''/'' proxy;
          rawAddress = hd parts;
          rawPrefix = (if length parts > 1 then Some (parts ! 1) else None);
          family = rt_isIP R rawAddress in
      if length parts > 2 then Inl (proxy_reject proxy)
      else if family = 0 then Inl (proxy_reject proxy)
      else bindE (proxy_prefix proxy family rawPrefix) (\<lambda>prefix.
           bindE (if family = 6 then mapped_range R proxy rawAddress prefix else Inr (rawAddress, prefix))
             (\<lambda>(address, prefix).
           if (case prefix of None \<Rightarrow> False | Some n \<Rightarrow> n < MIN_TRUSTED_PREFIX) then Inl (proxy_reject proxy)
           else Inr (address, prefix))))"

definition proxy_text :: "string \<times> nat option \<Rightarrow> string" where
  "proxy_text r = (case snd r of None \<Rightarrow> fst r | Some n \<Rightarrow> fst r @ ''/'' @ string_of_nat n)"

definition proxy_entries :: "string \<Rightarrow> string list" where
  "proxy_entries raw = filter (\<lambda>e. e \<noteq> []) (map js_trim (split_on CHR '','' raw))"

definition parseTrustedProxies :: "runtime \<Rightarrow> string \<Rightarrow> string list result" where
  "parseTrustedProxies R raw =
     bindE (mapE (\<lambda>proxy. bindE (proxy_range R proxy) (\<lambda>r. Inr (proxy_text r))) (proxy_entries raw))
       (\<lambda>normalized. Inr (dedupe normalized))"


section \<open>What a recorded range covers\<close>

lemma group_bytes_length: "group_bytes gs = Some bs \<Longrightarrow> length bs = 2 * length gs"
  by (induction gs arbitrary: bs) (auto split: option.splits)

lemma ipv6Bytes_length: "ipv6Bytes R address = Some bs \<Longrightarrow> length bs = 16"
  by (auto simp: ipv6Bytes_def Let_def colon_groups_def dest!: group_bytes_length split: option.splits if_splits)

lemma sharesPrefix_iff: "sharesPrefix a b n \<longleftrightarrow> (\<forall>i < n. same_bit a b i)"
  by (auto simp: sharesPrefix_def list_all_iff)

lemma same_bit_sym: "same_bit a b i \<Longrightarrow> same_bit b a i"
  by (simp add: same_bit_def)

lemma same_bit_trans: "same_bit a b i \<Longrightarrow> same_bit b c i \<Longrightarrow> same_bit a c i"
  by (simp add: same_bit_def)

lemma sharesPrefix_mono: "sharesPrefix a b n \<Longrightarrow> m \<le> n \<Longrightarrow> sharesPrefix a b m"
  by (simp add: sharesPrefix_iff)

lemma sharesPrefix_via: "sharesPrefix c a n \<Longrightarrow> sharesPrefix c b n \<Longrightarrow> sharesPrefix a b n"
  by (meson same_bit_sym same_bit_trans sharesPrefix_iff)

text \<open>An IPv4 address as it arrives on a dual-stack listener.\<close>

definition ipv4_mapped :: "8 word list \<Rightarrow> 8 word list" where
  "ipv4_mapped v4 = take 12 IPV4_MAPPED_PREFIX @ v4"

lemma length_mapped_take: "length (take 12 IPV4_MAPPED_PREFIX) = 12"
  by (simp add: IPV4_MAPPED_PREFIX_def)

lemma length_mapped: "length IPV4_MAPPED_PREFIX = 16"
  by (simp add: IPV4_MAPPED_PREFIX_def)

lemma byte_at_low: "i < 12 \<Longrightarrow> byte_at (ipv4_mapped v4) i = byte_at IPV4_MAPPED_PREFIX i"
  using length_mapped_take length_mapped by (simp add: byte_at_def ipv4_mapped_def nth_append)

lemma byte_at_high: "byte_at (ipv4_mapped v4) (12 + i) = byte_at v4 i"
  using length_mapped_take by (simp add: byte_at_def ipv4_mapped_def nth_append)

lemma byte_at_drop: "byte_at (drop 12 b) i = byte_at b (12 + i)"
  by (auto simp: byte_at_def)

lemma mapped_shares: "sharesPrefix (ipv4_mapped v4) IPV4_MAPPED_PREFIX 96"
  by (simp add: sharesPrefix_iff same_bit_def byte_at_low less_mult_imp_div_less)

lemma mapped_bits:
  assumes "sharesPrefix b IPV4_MAPPED_PREFIX 96" and "96 \<le> w"
  shows "sharesPrefix (ipv4_mapped v4) b w \<longleftrightarrow> sharesPrefix v4 (drop 12 b) (w - 96)"
proof -
  have high: "same_bit (ipv4_mapped v4) b (96 + j) \<longleftrightarrow> same_bit v4 (drop 12 b) j" for j
  proof -
    have "(96 + j) div 8 = 12 + j div 8" "(96 + j) mod 8 = j mod 8" by presburger+
    then show ?thesis by (simp add: same_bit_def byte_at_high byte_at_drop)
  qed
  have low: "same_bit (ipv4_mapped v4) b i" if "i < 96" for i
    using that mapped_shares [of v4] assms(1) unfolding sharesPrefix_iff by (meson same_bit_sym same_bit_trans)
  have "sharesPrefix (ipv4_mapped v4) b w \<longleftrightarrow> (\<forall>j < w - 96. same_bit (ipv4_mapped v4) b (96 + j))"
    unfolding sharesPrefix_iff
  proof (intro iffI allI impI)
    fix i assume all: "\<forall>j < w - 96. same_bit (ipv4_mapped v4) b (96 + j)" and i: "i < w"
    show "same_bit (ipv4_mapped v4) b i"
    proof (cases "i < 96")
      case False
      with all i have "same_bit (ipv4_mapped v4) b (96 + (i - 96))" by (meson diff_less_mono not_less)
      with False show ?thesis by simp
    qed (rule low)
  qed simp
  then show ?thesis by (simp add: high sharesPrefix_iff)
qed

text \<open>Whether an address is in the range \<open>b/w\<close>.\<close>

definition in_range :: "8 word list \<Rightarrow> 8 word list \<Rightarrow> nat \<Rightarrow> bool" where
  "in_range a b w = sharesPrefix a b w"

lemma kept_no_ipv4:
  assumes "if w > 96 then \<not> sharesPrefix b IPV4_MAPPED_PREFIX 96 else \<not> sharesPrefix b IPV4_MAPPED_PREFIX w"
  shows "\<not> in_range (ipv4_mapped v4) b w"
proof
  assume "in_range (ipv4_mapped v4) b w"
  then have range: "sharesPrefix (ipv4_mapped v4) b w" by (simp add: in_range_def)
  have "sharesPrefix b IPV4_MAPPED_PREFIX (min w 96)"
    using sharesPrefix_via [OF sharesPrefix_mono [OF range, of "min w 96"] sharesPrefix_mono [OF mapped_shares, of "min w 96"]]
    by simp
  with assms show False by (auto simp: min_def split: if_splits)
qed

lemma mapped_range_sound:
  assumes "mapped_range R proxy raw prefix = Inr (address, prefix')"
    and "ipv6Bytes R (hd (split_on CHR ''%'' raw)) = Some b"
  defines "w \<equiv> (case prefix of None \<Rightarrow> 128 | Some n \<Rightarrow> n)"
  shows "(address, prefix') = (raw, prefix) \<and> (\<forall>v4. \<not> in_range (ipv4_mapped v4) b w) \<or>
    address = dotted (drop 12 b) \<and> 96 < w \<and> prefix' = map_option (\<lambda>n. n - 96) prefix \<and>
    (\<forall>v4. in_range (ipv4_mapped v4) b w \<longleftrightarrow> in_range v4 (drop 12 b) (w - 96))"
proof (cases "w > 96 \<and> sharesPrefix b IPV4_MAPPED_PREFIX 96")
  case True
  have "length b = 16" using assms(2) by (rule ipv6Bytes_length)
  then have "[byte_at b 12, byte_at b 13, byte_at b 14, byte_at b 15] = drop 12 b"
    by (intro nth_equalityI) (auto simp: byte_at_def less_Suc_eq numeral_eq_Suc)
  with True assms show ?thesis
    by (auto simp: mapped_range_def Let_def IPV4_MAPPED_PREFIX_BITS_def in_range_def mapped_bits w_def)
next
  case False
  then have "(address, prefix') = (raw, prefix)"
    and "if w > 96 then \<not> sharesPrefix b IPV4_MAPPED_PREFIX 96 else \<not> sharesPrefix b IPV4_MAPPED_PREFIX w"
    using assms by (auto simp: mapped_range_def Let_def IPV4_MAPPED_PREFIX_BITS_def w_def split: if_splits)
  with kept_no_ipv4 show ?thesis by blast
qed


definition entry_host :: "string \<Rightarrow> string" where
  "entry_host proxy = hd (split_on CHR ''/'' proxy)"

definition entry_width :: "string \<Rightarrow> nat" where
  "entry_width proxy = (let parts = split_on CHR ''/'' proxy in if length parts > 1 then nat_of_string (parts ! 1) else 128)"

lemma proxy_range_cases:
  assumes "proxy_range R proxy = Inr (address, prefix)"
  obtains p where "rt_isIP R (entry_host proxy) \<noteq> 0" "entry_width proxy = (case p of None \<Rightarrow> 128 | Some n \<Rightarrow> n)"
    "if rt_isIP R (entry_host proxy) = 6 then mapped_range R proxy (entry_host proxy) p = Inr (address, prefix)
     else (address, prefix) = (entry_host proxy, p)"
    "case prefix of None \<Rightarrow> True | Some n \<Rightarrow> 8 \<le> n"
proof -
  let ?parts = "split_on CHR ''/'' proxy"
  let ?raw = "if length ?parts > 1 then Some (?parts ! 1) else None" and ?fam = "rt_isIP R (entry_host proxy)"
  obtain p where p: "proxy_prefix proxy ?fam ?raw = Inr p" "?fam \<noteq> 0"
      "(if ?fam = 6 then mapped_range R proxy (entry_host proxy) p else Inr (entry_host proxy, p)) = Inr (address, prefix)"
      "\<not> (case prefix of None \<Rightarrow> False | Some n \<Rightarrow> n < MIN_TRUSTED_PREFIX)"
    using assms by (auto simp: proxy_range_def Let_def sum_simps entry_host_def split: if_splits)
  have "entry_width proxy = (case p of None \<Rightarrow> 128 | Some n \<Rightarrow> n)"
    using p(1) by (auto simp: proxy_prefix_def entry_width_def Let_def split: if_splits)
  then show thesis using that [of p] p(2-4)
    by (auto simp: MIN_TRUSTED_PREFIX_def not_less split: option.splits if_splits)
qed


section \<open>The settings\<close>

definition enum_setting :: "string list \<Rightarrow> string \<Rightarrow> string option \<Rightarrow> string option" where
  "enum_setting allowed dflt v = (case v of None \<Rightarrow> Some dflt | Some s \<Rightarrow> if s \<in> set allowed then Some s else None)"

text \<open>\<open>z.coerce.number().int()\<close> between two bounds, with a default.\<close>

definition int_setting :: "int \<Rightarrow> int option \<Rightarrow> int \<Rightarrow> string option \<Rightarrow> int option" where
  "int_setting lo hi dflt v = (case v of
     None \<Rightarrow> Some dflt
   | Some s \<Rightarrow> (let n = js_Number s in
       if js_isSafeInteger n \<and> lo \<le> js_int n \<and> (case hi of None \<Rightarrow> True | Some h \<Rightarrow> js_int n \<le> h)
       then Some (js_int n) else None))"

definition optional_setting :: "(string \<Rightarrow> bool) \<Rightarrow> string option \<Rightarrow> string option option" where
  "optional_setting ok v = (case v of None \<Rightarrow> Some None | Some s \<Rightarrow> if ok s then Some (Some s) else None)"

definition label_char :: "char \<Rightarrow> bool" where
  "label_char c \<longleftrightarrow> c \<in> set ''abcdefghijklmnopqrstuvwxyz0123456789''"

definition is_dns_label :: "string \<Rightarrow> bool" where
  "is_dns_label s \<longleftrightarrow> 1 \<le> length s \<and> length s \<le> 63 \<and> label_char (hd s) \<and> label_char (last s) \<and>
     list_all (\<lambda>c. label_char c \<or> c = CHR ''-'') s"

definition subdomain_setting :: "string option \<Rightarrow> string option option" where
  "subdomain_setting v = (case v of None \<Rightarrow> Some None
     | Some s \<Rightarrow> if is_dns_label (js_trim s) then Some (Some (js_trim s)) else None)"

definition base64_value :: "char \<Rightarrow> nat option" where
  "base64_value c = (let n = of_char c :: nat in
     if 65 \<le> n \<and> n \<le> 90 then Some (n - 65)
     else if 97 \<le> n \<and> n \<le> 122 then Some (n - 71)
     else if 48 \<le> n \<and> n \<le> 57 then Some (n + 4)
     else if c = CHR ''+'' then Some 62 else if c = CHR ''/'' then Some 63 else None)"

text \<open>\<open>Buffer.from(key, 'base64')\<close> on the sextets before the padding.\<close>

fun base64_bytes :: "nat list \<Rightarrow> nat list" where
  "base64_bytes (a # b # c # d # r) =
     (4 * a + b div 16) # (16 * (b mod 16) + c div 4) # (64 * (c mod 4) + d) # base64_bytes r"
| "base64_bytes [a, b, c] = [4 * a + b div 16, 16 * (b mod 16) + c div 4]"
| "base64_bytes [a, b] = [4 * a + b div 16]"
| "base64_bytes _ = []"

definition isValidNftcdnKey :: "string \<Rightarrow> bool" where
  "isValidNftcdnKey v =
     (let key = js_trim v;
          body = takeWhile (\<lambda>c. base64_value c \<noteq> None) key;
          pad = dropWhile (\<lambda>c. base64_value c \<noteq> None) key in
      if key = [] \<or> length key mod 4 \<noteq> 0 \<or> body = [] \<or> pad \<notin> {[], ''='', ''==''} then False
      else list_ex (\<lambda>b. b \<noteq> 0) (base64_bytes (map (\<lambda>c. the (base64_value c)) body)))"

definition has_http_scheme :: "string \<Rightarrow> bool" where
  "has_http_scheme s \<longleftrightarrow> take 7 (toLowerCase s) = ''http://'' \<or> take 8 (toLowerCase s) = ''https://''"

definition isSupportedConfigUrl :: "runtime \<Rightarrow> string \<Rightarrow> bool" where
  "isSupportedConfigUrl R v \<longleftrightarrow>
     (if v = [] then True
      else if v \<noteq> js_trim v \<or> \<not> has_http_scheme v then False
      else case rt_protocol R v of None \<Rightarrow> False | Some p \<Rightarrow> p = ''http:'' \<or> p = ''https:'')"

datatype cors_origins = AnyOrigin | Origins "string list"

definition parseCorsOrigins :: "string \<Rightarrow> cors_origins" where
  "parseCorsOrigins raw =
     (let trimmed = js_trim raw in
      if trimmed = ''*'' \<or> trimmed = [] then AnyOrigin
      else Origins (filter (\<lambda>x. x \<noteq> []) (map js_trim (split_on CHR '','' trimmed))))"


section \<open>The configuration\<close>

record AppConfig =
  ac_network :: string
  ac_host :: string
  ac_port :: int
  ac_logLevel :: string
  ac_provider :: string
  ac_cacheEnabled :: bool
  ac_corsOrigins :: cors_origins
  ac_trustedProxies :: "string list"
  ac_rateLimit :: "(int \<times> int) option"
  ac_nftcdn :: "(string \<times> string) option"
  ac_configUrl :: "string option"
  ac_koiosUrl :: string
  ac_koiosToken :: "string option"
  ac_blockfrostUrl :: string
  ac_projectId :: "string option"
  ac_coingeckoApiKey :: "string option"

text \<open>The environment after the schema: every field checked, defaulted and transformed on its own.\<close>

record parsed_env =
  e_NETWORK :: string
  e_HOST :: string
  e_PORT :: int
  e_LOG_LEVEL :: string
  e_PROVIDER :: string
  e_CACHE_ENABLED :: bool
  e_CORS_ORIGINS :: string
  e_RATE_LIMIT_MAX :: int
  e_RATE_LIMIT_WINDOW_MS :: int
  e_TRUST_PROXY :: string
  e_KOIOS_URL :: "string option"
  e_KOIOS_TOKEN :: "string option"
  e_BLOCKFROST_URL :: "string option"
  e_BLOCKFROST_PROJECT_ID :: "string option"
  e_NFTCDN_SUBDOMAIN :: "string option"
  e_NFTCDN_KEY :: "string option"
  e_CONFIG_URL :: string
  e_COINGECKO_API_KEY :: "string option"

definition DEFAULT_CONFIG_URL :: string where
  "DEFAULT_CONFIG_URL = ''https://raw.githubusercontent.com/yoroi-classic/yoroi-config/refs/heads/main/prod.json''"

definition or_default :: "string \<Rightarrow> string option \<Rightarrow> string" where
  "or_default d v = (case v of None \<Rightarrow> d | Some s \<Rightarrow> s)"

definition config_schema :: "runtime \<Rightarrow> (string \<Rightarrow> string option) \<Rightarrow> parsed_env option" where
  "config_schema R env =
     Option.bind (enum_setting NETWORKS ''preprod'' (env ''NETWORK'')) (\<lambda>network.
     Option.bind (int_setting 1 (Some 65535) 3010 (env ''PORT'')) (\<lambda>port.
     Option.bind (enum_setting LOG_LEVELS ''info'' (env ''LOG_LEVEL'')) (\<lambda>logLevel.
     Option.bind (enum_setting PROVIDERS ''koios'' (env ''PROVIDER'')) (\<lambda>provider.
     Option.bind (enum_setting [''true'', ''false''] ''true'' (env ''CACHE_ENABLED'')) (\<lambda>cache.
     Option.bind (int_setting 0 None 120 (env ''RATE_LIMIT_MAX'')) (\<lambda>rateMax.
     Option.bind (int_setting 1 None 60000 (env ''RATE_LIMIT_WINDOW_MS'')) (\<lambda>rateWindow.
     Option.bind (optional_setting (rt_url_ok R) (env ''KOIOS_URL'')) (\<lambda>koiosUrl.
     Option.bind (optional_setting (rt_url_ok R) (env ''BLOCKFROST_URL'')) (\<lambda>blockfrostUrl.
     Option.bind (subdomain_setting (env ''NFTCDN_SUBDOMAIN'')) (\<lambda>subdomain.
     Option.bind (optional_setting isValidNftcdnKey (env ''NFTCDN_KEY'')) (\<lambda>nftcdnKey.
     Option.bind (case env ''CONFIG_URL'' of None \<Rightarrow> Some DEFAULT_CONFIG_URL
         | Some s \<Rightarrow> if isSupportedConfigUrl R s then Some s else None) (\<lambda>configUrl.
     Some \<lparr>e_NETWORK = network, e_HOST = or_default ''0.0.0.0'' (env ''HOST''), e_PORT = port, e_LOG_LEVEL = logLevel,
       e_PROVIDER = provider, e_CACHE_ENABLED = (cache = ''true''),
       e_CORS_ORIGINS = or_default ''*'' (env ''CORS_ORIGINS''), e_RATE_LIMIT_MAX = rateMax,
       e_RATE_LIMIT_WINDOW_MS = rateWindow, e_TRUST_PROXY = or_default [] (env ''TRUST_PROXY''),
       e_KOIOS_URL = koiosUrl, e_KOIOS_TOKEN = env ''KOIOS_TOKEN'', e_BLOCKFROST_URL = blockfrostUrl,
       e_BLOCKFROST_PROJECT_ID = env ''BLOCKFROST_PROJECT_ID'', e_NFTCDN_SUBDOMAIN = subdomain,
       e_NFTCDN_KEY = nftcdnKey, e_CONFIG_URL = configUrl, e_COINGECKO_API_KEY = env ''COINGECKO_API_KEY''\<rparr>))))))))))))"

definition non_empty :: "string option \<Rightarrow> string option" where
  "non_empty v = (case v of None \<Rightarrow> None | Some s \<Rightarrow> if s = [] then None else Some s)"

definition loadConfig :: "runtime \<Rightarrow> (string \<Rightarrow> string option) \<Rightarrow> AppConfig result" where
  "loadConfig R env = (case config_schema R env of
     None \<Rightarrow> Inl (ConfigError ''invalid configuration'')
   | Some e \<Rightarrow>
       let blockfrostProjectId = non_empty (map_option js_trim (e_BLOCKFROST_PROJECT_ID e)) in
       if (e_NFTCDN_SUBDOMAIN e = None) \<noteq> (e_NFTCDN_KEY e = None)
       then Inl (ConfigError (''NFTCDN_SUBDOMAIN and NFTCDN_KEY must be set together, or not at all. Set neither and the '' @
              ''media routes answer 503 while everything else works.''))
       else if e_PROVIDER e = ''blockfrost'' \<and> blockfrostProjectId = None
       then Inl (ConfigError (''BLOCKFROST_PROJECT_ID is required when PROVIDER=blockfrost. Get one from '' @
              ''https://blockfrost.io.''))
       else bindE (parseTrustedProxies R (e_TRUST_PROXY e)) (\<lambda>trusted.
         Inr \<lparr>ac_network = e_NETWORK e, ac_host = e_HOST e, ac_port = e_PORT e, ac_logLevel = e_LOG_LEVEL e,
           ac_provider = e_PROVIDER e, ac_cacheEnabled = e_CACHE_ENABLED e,
           ac_corsOrigins = parseCorsOrigins (e_CORS_ORIGINS e), ac_trustedProxies = trusted,
           ac_rateLimit = (if e_RATE_LIMIT_MAX e > 0 then Some (e_RATE_LIMIT_MAX e, e_RATE_LIMIT_WINDOW_MS e) else None),
           ac_nftcdn = (case (e_NFTCDN_SUBDOMAIN e, e_NFTCDN_KEY e) of
               (Some s, Some k) \<Rightarrow> Some (s, k) | _ \<Rightarrow> None),
           ac_configUrl = (if e_CONFIG_URL e = [] then None else Some (e_CONFIG_URL e)),
           ac_koiosUrl = or_default (DEFAULT_KOIOS_URL (e_NETWORK e)) (e_KOIOS_URL e),
           ac_koiosToken = non_empty (e_KOIOS_TOKEN e),
           ac_blockfrostUrl = or_default (DEFAULT_BLOCKFROST_URL (e_NETWORK e)) (e_BLOCKFROST_URL e),
           ac_projectId = blockfrostProjectId,
           ac_coingeckoApiKey = non_empty (e_COINGECKO_API_KEY e)\<rparr>))"

section \<open>What a loaded configuration guarantees\<close>

definition config_ok :: "AppConfig \<Rightarrow> bool" where
  "config_ok c \<longleftrightarrow> ac_network c \<in> set NETWORKS \<and> ac_provider c \<in> set PROVIDERS \<and>
     1 \<le> ac_port c \<and> ac_port c \<le> 65535 \<and>
     (ac_provider c = ''blockfrost'' \<longrightarrow> (\<exists>p. ac_projectId c = Some p \<and> p \<noteq> [])) \<and>
     (case ac_rateLimit c of None \<Rightarrow> True | Some (n, w) \<Rightarrow> 1 \<le> n \<and> 1 \<le> w) \<and>
     (case ac_nftcdn c of None \<Rightarrow> True | Some (s, k) \<Rightarrow> is_dns_label s \<and> isValidNftcdnKey k) \<and>
     ac_configUrl c \<noteq> Some [] \<and> ac_koiosToken c \<noteq> Some [] \<and> distinct (ac_trustedProxies c)"

lemma enum_setting_Some: "enum_setting allowed dflt v = Some s \<Longrightarrow> s = dflt \<or> s \<in> set allowed"
  by (auto simp: enum_setting_def split: option.splits if_splits)

lemma int_setting_Some:
  "int_setting lo hi dflt v = Some i \<Longrightarrow>
     i = dflt \<or> lo \<le> i \<and> (case hi of None \<Rightarrow> True | Some h \<Rightarrow> i \<le> h)"
  by (auto simp: int_setting_def Let_def split: option.splits if_splits)

lemma subdomain_setting_Some: "subdomain_setting v = Some (Some s) \<Longrightarrow> is_dns_label s"
  by (auto simp: subdomain_setting_def split: option.splits if_splits)

lemma optional_setting_Some: "optional_setting ok v = Some (Some s) \<Longrightarrow> ok s"
  by (auto simp: optional_setting_def split: option.splits if_splits)

lemma config_schema_fields:
  assumes "config_schema R env = Some e"
  shows "e_NETWORK e \<in> set NETWORKS \<and> e_PROVIDER e \<in> set PROVIDERS \<and> 1 \<le> e_PORT e \<and> e_PORT e \<le> 65535 \<and>
    1 \<le> e_RATE_LIMIT_WINDOW_MS e \<and>
    (\<forall>s. e_NFTCDN_SUBDOMAIN e = Some s \<longrightarrow> is_dns_label s) \<and> (\<forall>k. e_NFTCDN_KEY e = Some k \<longrightarrow> isValidNftcdnKey k)"
proof -
  obtain network port logLevel provider cache rateMax rateWindow koiosUrl blockfrostUrl subdomain nftcdnKey configUrl where
    f: "enum_setting NETWORKS ''preprod'' (env ''NETWORK'') = Some network"
      "int_setting 1 (Some 65535) 3010 (env ''PORT'') = Some port"
      "enum_setting PROVIDERS ''koios'' (env ''PROVIDER'') = Some provider"
      "int_setting 1 None 60000 (env ''RATE_LIMIT_WINDOW_MS'') = Some rateWindow"
      "subdomain_setting (env ''NFTCDN_SUBDOMAIN'') = Some subdomain"
      "optional_setting isValidNftcdnKey (env ''NFTCDN_KEY'') = Some nftcdnKey"
    and e: "e_NETWORK e = network" "e_PROVIDER e = provider" "e_PORT e = port" "e_RATE_LIMIT_WINDOW_MS e = rateWindow"
      "e_NFTCDN_SUBDOMAIN e = subdomain" "e_NFTCDN_KEY e = nftcdnKey"
    using assms unfolding config_schema_def by (force simp only: bind_eq_Some_conv option.inject parsed_env.select_convs)
  have "network \<in> set NETWORKS" "provider \<in> set PROVIDERS"
    using enum_setting_Some [OF f(1)] enum_setting_Some [OF f(3)] by (auto simp: NETWORKS_def PROVIDERS_def)
  moreover have "1 \<le> port \<and> port \<le> 65535" "1 \<le> rateWindow"
    using int_setting_Some [OF f(2)] int_setting_Some [OF f(4)] by auto
  moreover have "\<forall>s. subdomain = Some s \<longrightarrow> is_dns_label s" "\<forall>k. nftcdnKey = Some k \<longrightarrow> isValidNftcdnKey k"
    using f(5,6) subdomain_setting_Some optional_setting_Some by blast+
  ultimately show ?thesis by (simp add: e)
qed

lemma non_empty_Some: "non_empty v = Some s \<Longrightarrow> s \<noteq> []"
  by (auto simp: non_empty_def split: option.splits if_splits)

lemma parseTrustedProxies_distinct: "parseTrustedProxies R raw = Inr out \<Longrightarrow> distinct out"
  by (auto simp: parseTrustedProxies_def sum_simps)

text \<open>
  C20: a configuration that loads is one the rest of the service can rely on: a known network and provider, a port
  in range, a Blockfrost project id whenever Blockfrost is selected, a rate limit that is positive or off, image
  credentials that are both there and well formed, and no empty string where a value is meant.
\<close>

theorem loadConfig_sound:
  assumes "loadConfig R env = Inr c"
  shows "config_ok c"
proof -
  obtain e where e: "config_schema R env = Some e"
    using assms by (auto simp: loadConfig_def split: option.splits)
  let ?project = "non_empty (map_option js_trim (e_BLOCKFROST_PROJECT_ID e))"
  obtain trusted where trusted: "parseTrustedProxies R (e_TRUST_PROXY e) = Inr trusted"
    and both: "(e_NFTCDN_SUBDOMAIN e = None) = (e_NFTCDN_KEY e = None)"
    and project: "e_PROVIDER e = ''blockfrost'' \<Longrightarrow> ?project \<noteq> None"
    and c: "ac_network c = e_NETWORK e" "ac_provider c = e_PROVIDER e" "ac_port c = e_PORT e" "ac_projectId c = ?project"
      "ac_trustedProxies c = trusted" "ac_koiosToken c = non_empty (e_KOIOS_TOKEN e)"
      "ac_configUrl c = (if e_CONFIG_URL e = [] then None else Some (e_CONFIG_URL e))"
      "ac_rateLimit c = (if e_RATE_LIMIT_MAX e > 0 then Some (e_RATE_LIMIT_MAX e, e_RATE_LIMIT_WINDOW_MS e) else None)"
      "ac_nftcdn c = (case (e_NFTCDN_SUBDOMAIN e, e_NFTCDN_KEY e) of (Some s, Some k) \<Rightarrow> Some (s, k) | _ \<Rightarrow> None)"
    using assms by (auto simp: loadConfig_def e Let_def sum_simps split: if_splits)
  note f = config_schema_fields [OF e]
  have "\<exists>p. ?project = Some p \<and> p \<noteq> []" if "e_PROVIDER e = ''blockfrost''"
    using project [OF that] non_empty_Some by blast
  moreover have "non_empty (e_KOIOS_TOKEN e) \<noteq> Some []" using non_empty_Some by blast
  moreover have "case ac_nftcdn c of None \<Rightarrow> True | Some (s, k) \<Rightarrow> is_dns_label s \<and> isValidNftcdnKey k"
    using f both by (cases "e_NFTCDN_SUBDOMAIN e"; cases "e_NFTCDN_KEY e") (simp_all add: c)
  ultimately show ?thesis
    using f parseTrustedProxies_distinct [OF trusted] by (simp add: config_ok_def c)
qed

text \<open>What is refused: half of the image credentials, and Blockfrost without a project id.\<close>

lemma loadConfig_refuses:
  assumes "config_schema R env = Some e"
  shows "(e_NFTCDN_SUBDOMAIN e = None) \<noteq> (e_NFTCDN_KEY e = None) \<Longrightarrow> \<exists>m. loadConfig R env = Inl (ConfigError m)"
    and "e_PROVIDER e = ''blockfrost'' \<Longrightarrow> non_empty (map_option js_trim (e_BLOCKFROST_PROJECT_ID e)) = None \<Longrightarrow>
      \<exists>m. loadConfig R env = Inl (ConfigError m)"
  using assms by (simp_all add: loadConfig_def Let_def)

definition sample_runtime :: runtime where
  "sample_runtime = \<lparr>rt_isIP = (\<lambda>s. if CHR '':'' \<in> set s then 6 else if is_digit (hd (s @ ''x'')) then 4 else 0),
     rt_hostname = (\<lambda>s. Some (''['' @ s @ '']'')), rt_url_ok = (\<lambda>_. True), rt_protocol = (\<lambda>_. Some ''https:'')\<rparr>"

text \<open>An IPv4 range written as IPv6 is recorded as the IPv4 range it is.\<close>

lemma sample_pieces:
  "proxy_entries ''::ffff:a00:0/104'' = [''::ffff:a00:0/104'']"
  "split_on CHR ''/'' ''::ffff:a00:0/104'' = [''::ffff:a00:0'', ''104'']"
  "split_on CHR ''%'' ''::ffff:a00:0'' = [''::ffff:a00:0'']"
  "before_colons ''::ffff:a00:0'' = ([], Some ''ffff:a00:0'')"
  "before_colons ''ffff:a00:0'' = (''ffff:a00:0'', None)"
  by code_simp+

lemma sample_groups: "parseInt16 ''ffff'' = Some 65535" "parseInt16 ''a00'' = Some 2560" "parseInt16 ''0'' = Some 0"
  by (simp_all add: parseInt16_def is_js_space_def toLowerCase_def is_hex_def hex_digit_value_def lower_char_def Let_def)

lemma sample_bytes:
  "ipv6Bytes sample_runtime ''::ffff:a00:0'' = Some [0, 0, 0, 0, 0, 0, 0, 0, 0, 0, 0xff, 0xff, 10, 0, 0, 0]"
proof -
  have "replicate 5 x = [x, x, x, x, x]" for x :: string by (simp add: numeral_eq_Suc)
  then show ?thesis
    by (simp add: ipv6Bytes_def sample_runtime_def sample_pieces sample_groups colon_groups_def Let_def)
qed

lemma sample_range: "proxy_range sample_runtime ''::ffff:a00:0/104'' = Inr (''10.0.0.0'', Some 8)"
proof -
  have "proxy_prefix p 6 (Some ''104'') = Inr (Some 104)" for p
    by (simp add: proxy_prefix_def is_digit_def nat_of_string_def digit_val_def isSafeInteger_def MAX_SAFE_INTEGER_def)
  moreover have "sharesPrefix [0, 0, 0, 0, 0, 0, 0, 0, 0, 0, 0xff, 0xff, 10, 0, 0, 0] IPV4_MAPPED_PREFIX 96"
    using mapped_shares [of "[10, 0, 0, 0]"] by (simp add: ipv4_mapped_def IPV4_MAPPED_PREFIX_def)
  moreover have "dotted [10, 0, 0, 0] = ''10.0.0.0''"
    by code_simp
  ultimately have "mapped_range sample_runtime p ''::ffff:a00:0'' (Some 104) = Inr (''10.0.0.0'', Some 8)" for p
    by (simp add: mapped_range_def sample_pieces sample_bytes IPV4_MAPPED_PREFIX_BITS_def byte_at_def Let_def)
  moreover have "rt_isIP sample_runtime ''::ffff:a00:0'' = 6" by (simp add: sample_runtime_def)
  ultimately show ?thesis
    using \<open>\<And>p. proxy_prefix p 6 (Some ''104'') = Inr (Some 104)\<close>
    by (simp add: proxy_range_def sample_pieces Let_def MIN_TRUSTED_PREFIX_def)
qed

lemma sample_mapped: "parseTrustedProxies sample_runtime ''::ffff:a00:0/104'' = Inr [''10.0.0.0/8'']"
proof -
  have "string_of_nat 8 = ''8''" by code_simp
  then show ?thesis
    by (simp add: parseTrustedProxies_def sample_pieces sample_range proxy_text_def dedupe_def)
qed


theorem loadConfig_sound_witness:
  "\<exists>c. loadConfig sample_runtime (\<lambda>_. None) = Inr c \<and> config_ok c"
proof -
  obtain c where c: "loadConfig sample_runtime (\<lambda>_. None) = Inr c"
    by (simp add: loadConfig_def config_schema_def enum_setting_def int_setting_def optional_setting_def
        subdomain_setting_def or_default_def parseTrustedProxies_def proxy_entries_def js_trim_def non_empty_def Let_def)
  then show ?thesis using loadConfig_sound by blast
qed

end
