(* ===== verification/Provider_Cache.thy ===== *)
theory Provider_Cache
  imports Cache_Spec Config
begin

text \<open>
  \<open>scopeProviderCache\<close> of \<^verbatim>\<open>src/providers/factory.ts\<close>: the view of the process cache a provider gets, with
  the provider and the network in every key.  A view is the process cache and its prefix; each of its
  operations is the operation of \<open>Cache\<close> on the prefixed key.
\<close>

section \<open>The scoped view\<close>

definition scope_prefix :: "string \<Rightarrow> string \<Rightarrow> string" where
  "scope_prefix provider network = ''provider:'' @ provider @ '':'' @ network @ '':''"

definition scoped_read :: "string \<Rightarrow> int \<Rightarrow> string \<Rightarrow> policy \<Rightarrow> 'v cache \<Rightarrow> 'v read_result \<times> 'v cache" where
  "scoped_read prefix now k pol c = cache_read now (prefix @ k) pol c"

definition scoped_peek :: "string \<Rightarrow> int \<Rightarrow> string \<Rightarrow> 'v cache \<Rightarrow> 'v option" where
  "scoped_peek prefix now k c = cache_peek now (prefix @ k) c"

definition scoped_set :: "string \<Rightarrow> int \<Rightarrow> string \<Rightarrow> 'v \<Rightarrow> int \<Rightarrow> 'v cache \<Rightarrow> 'v cache" where
  "scoped_set prefix now k v ttl c = cache_set now (prefix @ k) v ttl c"

text \<open>\<open>generation: () => cache.generation()\<close>: the key the caller passes is not looked at.\<close>

definition scoped_generation :: "string \<Rightarrow> string option \<Rightarrow> 'v cache \<Rightarrow> nat" where
  "scoped_generation prefix k c = cache_generation None c"

definition scoped_setIfGeneration ::
  "string \<Rightarrow> int \<Rightarrow> string \<Rightarrow> 'v \<Rightarrow> int \<Rightarrow> nat \<Rightarrow> 'v cache \<Rightarrow> 'v cache" where
  "scoped_setIfGeneration prefix now k v ttl expected c =
     cache_setIfGeneration now (prefix @ k) v ttl expected c"

definition scoped_size :: "string \<Rightarrow> 'v cache \<Rightarrow> nat" where
  "scoped_size prefix c = cache_sizeForPrefix prefix c"

definition scoped_sizeForPrefix :: "string \<Rightarrow> string \<Rightarrow> 'v cache \<Rightarrow> nat" where
  "scoped_sizeForPrefix prefix nested c = cache_sizeForPrefix (prefix @ nested) c"

text \<open>\<open>clear: () => cache.clear(prefix)\<close>: the whole scope, whatever prefix the caller passes.\<close>

definition scoped_clear :: "string \<Rightarrow> string option \<Rightarrow> 'v cache \<Rightarrow> 'v cache" where
  "scoped_clear prefix p c = cache_clear (Some prefix) c"

lemmas scoped_defs = scoped_read_def scoped_peek_def scoped_set_def scoped_generation_def
  scoped_setIfGeneration_def scoped_size_def scoped_sizeForPrefix_def scoped_clear_def

section \<open>The view is a cache\<close>

lemma startsWith_append [simp]: "startsWith (p @ k) p"
  by (simp add: startsWith_def)

lemma startsWith_prefix: "startsWith s p \<longleftrightarrow> (\<exists>k. s = p @ k)"
  by (metis append_eq_conv_conj append_take_drop_id startsWith_def)

lemma generation_any_le: "flight_inv c \<Longrightarrow> cache_generation k c \<le> clearGeneration c"
  by (simp add: cache_generation_def flight_inv_gens(3))

lemma token_before_clear:
  assumes "flight_inv c" and "relevant k q" and "g \<le> clearGeneration c"
  shows "cache_setIfGeneration t k v ttl g (cache_clear (Some q) c) = cache_clear (Some q) c"
  using assms by (simp add: cache_setIfGeneration_def generationFor_clear)

interpretation scoped: cache_api "scoped_peek prefix" "scoped_set prefix" "scoped_generation prefix"
    "scoped_setIfGeneration prefix" "scoped_clear prefix" cache_ok
  for prefix :: string
proof
  fix c :: "'v cache" and t k v ttl p
  assume inv: "cache_ok c"
  show "cache_ok (scoped_set prefix t k v ttl c)" "cache_ok (scoped_clear prefix p c)"
    using inv by (simp_all add: scoped_defs mem.invar_put mem.invar_clear)
next
  fix c :: "'v cache" and t t' k k' v w ttl
  assume "cache_ok c" and "scoped_peek prefix t k (scoped_set prefix t' k' v ttl c) = Some w"
  then have "prefix @ k = prefix @ k' \<and> w = v \<or> cache_peek t (prefix @ k) c = Some w"
    unfolding scoped_defs by (rule mem.peek_put)
  then show "k = k' \<and> w = v \<or> scoped_peek prefix t k c = Some w" by (simp add: scoped_defs)
next
  fix c :: "'v cache" and t k v ttl g
  show "scoped_setIfGeneration prefix t k v ttl g c = scoped_set prefix t k v ttl c \<or>
      scoped_setIfGeneration prefix t k v ttl g c = c"
    by (simp add: scoped_defs cache_setIf_set)
next
  fix c :: "'v cache" and p k t v ttl
  assume inv: "cache_ok c" and "case p of None \<Rightarrow> True | Some q \<Rightarrow> startsWith k q"
  show "scoped_peek prefix t k (scoped_clear prefix p c) = None"
    unfolding scoped_defs by (rule cache_peek_clear [OF cache_ok_wf [OF inv]]) simp
  show "scoped_setIfGeneration prefix t k v ttl (scoped_generation prefix (Some k) c) (scoped_clear prefix p c) =
      scoped_clear prefix p c"
    unfolding scoped_defs
    by (rule token_before_clear) (use inv in \<open>simp_all add: cache_ok_def relevant_def generation_any_le\<close>)
qed

section \<open>Scopes do not meet\<close>

definition colon_free :: "string \<Rightarrow> bool" where
  "colon_free s \<longleftrightarrow> CHR '':'' \<notin> set s"

lemma colon_split:
  "colon_free a \<Longrightarrow> colon_free b \<Longrightarrow> a @ CHR '':'' # x = b @ CHR '':'' # y \<longleftrightarrow> a = b \<and> x = y"
proof (induction a arbitrary: b)
  case Nil
  then show ?case by (cases b) (auto simp: colon_free_def)
next
  case (Cons c a)
  then show ?case by (cases b) (auto simp: colon_free_def)
qed

lemma scope_prefix_inj:
  assumes "colon_free p" "colon_free n" "colon_free p'" "colon_free n'"
  shows "scope_prefix p n @ k = scope_prefix p' n' @ k' \<longleftrightarrow> p = p' \<and> n = n' \<and> k = k'"
  using assms by (simp add: scope_prefix_def colon_split)

lemma other_scope:
  assumes "colon_free p" "colon_free n" "colon_free p'" "colon_free n'" and "(p, n) \<noteq> (p', n')"
  shows "\<not> relevant (scope_prefix p n @ k) (scope_prefix p' n')"
proof -
  have "scope_prefix p n @ k \<noteq> scope_prefix p' n' @ k'" for k'
    using scope_prefix_inj [OF assms(1-4)] assms(5) by blast
  moreover have "scope_prefix p' n' \<noteq> scope_prefix p n @ k @ k'" for k'
    using scope_prefix_inj [OF assms(1-4), of "k @ k'" "[]"] assms(5) by auto
  ultimately show ?thesis
    by (auto simp: relevant_def startsWith_prefix scope_prefix_def)
qed

lemma not_relevant: "\<not> relevant k p \<Longrightarrow> p \<noteq> [] \<and> \<not> startsWith k p \<and> \<not> startsWith p k"
  by (simp add: relevant_def)

lemma peek_set_other:
  assumes "jm_wf (entries c)" and "k \<noteq> k'" and "cache_peek t k (cache_set t' k' v ttl c) = Some w"
  shows "cache_peek t k c = Some w"
  using cache_peek_set [OF assms(1,3)] assms(2) by simp

lemma peek_clear_other: "jm_wf (entries c) \<Longrightarrow> \<not> startsWith k q \<Longrightarrow> cache_peek t k (cache_clear (Some q) c) = cache_peek t k c"
  by (auto simp: cache_peek_def cache_clear_def Let_def jm_get_delete_if split: option.split)

lemma names_colon_free: "p \<in> set PROVIDERS \<Longrightarrow> colon_free p" "n \<in> set NETWORKS \<Longrightarrow> colon_free n"
  by (auto simp: PROVIDERS_def NETWORKS_def colon_free_def)

lemmas configured_scope = other_scope [OF names_colon_free(1) names_colon_free(2) names_colon_free(1) names_colon_free(2)]
lemmas configured_prefix = scope_prefix_inj [OF names_colon_free(1) names_colon_free(2) names_colon_free(1) names_colon_free(2)]

text \<open>
  C18: the views of two providers or networks on one process cache are apart: what is stored in one is never read
  in the other, a clear of one leaves every entry of the other and every guarded write of its running loads.
\<close>

theorem scopes_apart:
  assumes "p \<in> set PROVIDERS" "n \<in> set NETWORKS" "p' \<in> set PROVIDERS" "n' \<in> set NETWORKS" and "(p, n) \<noteq> (p', n')"
    and "cache_ok c"
  shows "(scoped_peek (scope_prefix p n) t k (scoped_set (scope_prefix p' n') t' k' v ttl c) = Some w \<longrightarrow>
      scoped_peek (scope_prefix p n) t k c = Some w) \<and>
    scoped_peek (scope_prefix p n) t k (scoped_clear (scope_prefix p' n') q c) = scoped_peek (scope_prefix p n) t k c \<and>
    generationFor (scoped_clear (scope_prefix p' n') q c) (scope_prefix p n @ k) = generationFor c (scope_prefix p n @ k)"
proof (intro conjI impI)
  note apart = configured_scope [OF assms(1-5), of k]
  have inv: "jm_wf (entries c)" "flight_inv c" using assms(6) by (simp_all add: cache_ok_def cache_ok_wf)
  have neq: "scope_prefix p n @ k \<noteq> scope_prefix p' n' @ k'"
    using configured_prefix [OF assms(1-4)] assms(5) by blast
  assume "scoped_peek (scope_prefix p n) t k (scoped_set (scope_prefix p' n') t' k' v ttl c) = Some w"
  then show "scoped_peek (scope_prefix p n) t k c = Some w"
    unfolding scoped_defs by (rule peek_set_other [OF inv(1) neq])
next
  note apart = configured_scope [OF assms(1-5), of k]
  have inv: "jm_wf (entries c)" "flight_inv c" using assms(6) by (simp_all add: cache_ok_def cache_ok_wf)
  show "scoped_peek (scope_prefix p n) t k (scoped_clear (scope_prefix p' n') q c) = scoped_peek (scope_prefix p n) t k c"
    unfolding scoped_defs using not_relevant [OF apart] by (intro peek_clear_other [OF inv(1)]) simp
  show "generationFor (scoped_clear (scope_prefix p' n') q c) (scope_prefix p n @ k) = generationFor c (scope_prefix p n @ k)"
    unfolding scoped_defs using apart by (simp add: generationFor_clear [OF inv(2)])
qed

section \<open>The token of a guarded write\<close>

text \<open>
  The memory cache stores a guarded write whose token was taken just before it; the scoped view need not.
  Its token is the newest clear of the whole process cache, but the write is compared with the newest clear
  that overlaps its own key: once anything outside the scope has been cleared, the two differ for good, and
  every guarded write of the scope is refused although nothing it holds was cleared.
\<close>

lemma guarded_write_stored:
  "cache_setIfGeneration t k v ttl (cache_generation (Some k) c) c = cache_set t k v ttl c"
  by (simp add: cache_setIf_set)

lemma generation_whole: "flight_inv c \<Longrightarrow> cache_generation None (cache_clear q c) = Suc (clearGeneration c)"
  by (simp add: cache_generation_def generationFor_clear relevant_def startsWith_def split: option.split)

text \<open>
  C19: what a guarded write through a provider's view does when its token is taken at the same moment: after a
  clear of the provider's own scope it is stored, and after a clear of another provider's scope it is refused.
\<close>

theorem scoped_token_mismatch:
  assumes "p \<in> set PROVIDERS" "n \<in> set NETWORKS" "p' \<in> set PROVIDERS" "n' \<in> set NETWORKS" and "(p, n) \<noteq> (p', n')"
    and "cache_ok c"
  shows "(let d = scoped_clear (scope_prefix p n) q c in
      scoped_setIfGeneration (scope_prefix p n) t k v ttl (scoped_generation (scope_prefix p n) (Some k) d) d =
      scoped_set (scope_prefix p n) t k v ttl d) \<and>
    (let d = scoped_clear (scope_prefix p' n') q c in
      scoped_setIfGeneration (scope_prefix p n) t k v ttl (scoped_generation (scope_prefix p n) (Some k) d) d = d)"
proof -
  have inv: "flight_inv c" using assms(6) by (simp add: cache_ok_def)
  have "generationFor (cache_clear (Some (scope_prefix p n)) c) (scope_prefix p n @ k) = Suc (clearGeneration c)"
    by (simp add: generationFor_clear [OF inv] relevant_def)
  moreover have "generationFor (cache_clear (Some (scope_prefix p' n')) c) (scope_prefix p n @ k) =
      generationFor c (scope_prefix p n @ k)"
    using configured_scope [OF assms(1-5), of k] by (simp add: generationFor_clear [OF inv])
  moreover have "generationFor c (scope_prefix p n @ k) \<le> clearGeneration c" by (rule flight_inv_gens(3) [OF inv])
  ultimately show ?thesis
    by (simp add: scoped_defs Let_def generation_whole [OF inv] cache_setIfGeneration_def cache_set_def)
qed

lemma created_ok: "cache_ok (createMemoryCache m)"
  using cache_reachable_inv [OF cr_start [of "\<lambda>_ _. True" m]] by (simp add: cache_ok_def)

theorem scopes_apart_witness:
  "scoped_peek (scope_prefix ''koios'' ''mainnet'') 1 ''chain:tip''
     (scoped_clear (scope_prefix ''koios'' ''preprod'') None
       (scoped_set (scope_prefix ''koios'' ''mainnet'') 0 ''chain:tip'' (7 :: nat) 10 (createMemoryCache (Some 5)))) = Some 7"
proof -
  let ?c = "scoped_set (scope_prefix ''koios'' ''mainnet'') 0 ''chain:tip'' (7 :: nat) 10 (createMemoryCache (Some 5))"
  have "cache_ok ?c" by (simp add: scoped_defs mem.invar_put created_ok)
  then have "scoped_peek (scope_prefix ''koios'' ''mainnet'') 1 ''chain:tip''
      (scoped_clear (scope_prefix ''koios'' ''preprod'') None ?c) =
      scoped_peek (scope_prefix ''koios'' ''mainnet'') 1 ''chain:tip'' ?c"
    using scopes_apart [of "''koios''" "''mainnet''" "''koios''" "''preprod''" ?c 1 "''chain:tip''"]
    by (simp add: PROVIDERS_def NETWORKS_def)
  moreover have "scoped_peek (scope_prefix ''koios'' ''mainnet'') 1 ''chain:tip'' ?c = Some 7"
    by (simp add: scoped_defs cache_set_def evict_def createMemoryCache_def cache_peek_def jm_get_def)
  ultimately show ?thesis by simp
qed

theorem scoped_token_mismatch_witness:
  "let d = scoped_clear (scope_prefix ''blockfrost'' ''mainnet'') None (createMemoryCache (Some 5) :: nat cache) in
     entries (scoped_setIfGeneration (scope_prefix ''koios'' ''mainnet'') 0 ''asset:meta:ab'' 7 10
       (scoped_generation (scope_prefix ''koios'' ''mainnet'') (Some ''asset:meta:ab'') d) d) = []"
proof -
  let ?d = "scoped_clear (scope_prefix ''blockfrost'' ''mainnet'') None (createMemoryCache (Some 5) :: nat cache)"
  have "scoped_setIfGeneration (scope_prefix ''koios'' ''mainnet'') 0 ''asset:meta:ab'' 7 10
      (scoped_generation (scope_prefix ''koios'' ''mainnet'') (Some ''asset:meta:ab'') ?d) ?d = ?d"
    using scoped_token_mismatch [of "''koios''" "''mainnet''" "''blockfrost''" "''mainnet''"
        "createMemoryCache (Some 5) :: nat cache" None 0 "''asset:meta:ab''" 7 10] created_ok
    by (auto simp: Let_def PROVIDERS_def NETWORKS_def)
  moreover have "entries ?d = []"
    by (simp add: scoped_defs cache_clear_def createMemoryCache_def Let_def jm_delete_if_def)
  ultimately show ?thesis by (simp add: Let_def)
qed

end
