(* ===== verification/Cached_Provider.thy ===== *)
theory Cached_Provider
  imports Provider_Cache Domain
begin

text \<open>
  \<open>withCache\<close> of \<^verbatim>\<open>src/providers/cached.ts\<close> over the scoped view that \<open>createProvider\<close> hands it: the cached
  tip, the protocol parameters keyed by epoch, and the shared recovery when the two disagree.  A call of
  \<open>getProtocolParams\<close> and a recovery are each a list entry with the point they wait at; every step between two
  awaits is one operation, and the upstream answers arrive in any order.
\<close>

section \<open>Keys and values\<close>

definition TIP_TTL_MS :: int where "TIP_TTL_MS = 10000"
definition TIP_CACHE_KEY :: string where "TIP_CACHE_KEY = ''chain:tip''"
definition PROTOCOL_PARAMS_TTL_MS :: int where "PROTOCOL_PARAMS_TTL_MS = 6 * 24 * 60 * 60 * 1000"
definition PARAMS_KEYS :: string where "PARAMS_KEYS = ''chain:protocol-params:''"

definition params_key :: "int \<Rightarrow> string" where
  "params_key epoch = PARAMS_KEYS @ string_of_int epoch"

text \<open>What the process cache holds: the two values of this module and those of the others.\<close>

datatype 'o cached_value = TipVal Tip | ParamsVal ProtocolParams | OtherVal 'o

text \<open>\<open>cache.read<T>\<close> hands its value over unchecked; the invariant below shows the mismatched case is never met.\<close>

fun as_tip :: "'o cached_value result \<Rightarrow> Tip result" where
  "as_tip (Inr (TipVal t)) = Inr t"
| "as_tip (Inr _) = Inl (JsTypeError ''not a tip'')"
| "as_tip (Inl e) = Inl e"

fun as_params :: "'o cached_value result \<Rightarrow> ProtocolParams result" where
  "as_params (Inr (ParamsVal p)) = Inr p"
| "as_params (Inr _) = Inl (JsTypeError ''not protocol parameters'')"
| "as_params (Inl e) = Inl e"

section \<open>State\<close>

datatype recovery_phase = FetchingTip | FetchingParams | Recovered "ProtocolParams result"

record recovery =
  tipGeneration :: nat
  paramsGeneration :: nat
  freshTip :: "Tip option"
  rphase :: recovery_phase

datatype call_phase = HaveTip "Tip result" | AwaitTip nat | AwaitParams nat | AwaitRecovery nat | Answered "ProtocolParams result"

record params_call =
  call_epoch :: "int option"
  call_phase :: call_phase

record 'o cached_provider =
  cp_cache :: "'o cached_value cache"
  protocolParamsRecovery :: "nat option"
  recoveries :: "recovery list"
  calls :: "params_call list"

definition withCache :: "'o cached_value cache \<Rightarrow> 'o cached_provider" where
  "withCache c = \<lparr>cp_cache = c, protocolParamsRecovery = None, recoveries = [], calls = []\<rparr>"

section \<open>Operations\<close>

definition getTip :: "string \<Rightarrow> int \<Rightarrow> 'o cached_value cache \<Rightarrow>
    'o cached_value read_result \<times> 'o cached_value cache" where
  "getTip prefix now c = scoped_read prefix now TIP_CACHE_KEY (PlainTtl TIP_TTL_MS) c"

definition readProtocolParamsForEpoch :: "string \<Rightarrow> int \<Rightarrow> int \<Rightarrow> 'o cached_value cache \<Rightarrow>
    'o cached_value read_result \<times> 'o cached_value cache" where
  "readProtocolParamsForEpoch prefix now epoch c =
     scoped_read prefix now (params_key epoch) (PlainTtl PROTOCOL_PARAMS_TTL_MS) c"

text \<open>What the loader of that read makes of the provider's answer.\<close>

definition params_loaded :: "int \<Rightarrow> ProtocolParams result \<Rightarrow> 'o cached_value result" where
  "params_loaded epoch answer = bindE answer (\<lambda>params.
     if pp_epoch params \<noteq> epoch then Inl (ProtocolParamsEpochMismatchError epoch (pp_epoch params))
     else Inr (ParamsVal params))"

text \<open>A caller that has the epoch goes on to the parameters.\<close>

definition call_with_epoch :: "string \<Rightarrow> int \<Rightarrow> int \<Rightarrow> 'o cached_value cache \<Rightarrow>
    params_call \<times> 'o cached_value cache" where
  "call_with_epoch prefix now epoch c =
     (case readProtocolParamsForEpoch prefix now epoch c of (r, c') \<Rightarrow>
        (\<lparr>call_epoch = Some epoch, call_phase = (case r of
            ReadHit v \<Rightarrow> Answered (as_params (Inr v))
          | ReadJoin a \<Rightarrow> AwaitParams a
          | ReadStart a \<Rightarrow> AwaitParams a)\<rparr>, c'))"

text \<open>\<open>const { epoch } = await getTip()\<close>, once the tip or its failure is there.\<close>

definition call_with_tip :: "string \<Rightarrow> int \<Rightarrow> Tip result \<Rightarrow> 'o cached_value cache \<Rightarrow>
    params_call \<times> 'o cached_value cache" where
  "call_with_tip prefix now tip c = (case tip of
     Inl e \<Rightarrow> (\<lparr>call_epoch = None, call_phase = Answered (Inl e)\<rparr>, c)
   | Inr t \<Rightarrow> call_with_epoch prefix now (tip_epoch t) c)"

definition recoverProtocolParams :: "string \<Rightarrow> 'o cached_provider \<Rightarrow> nat \<times> 'o cached_provider" where
  "recoverProtocolParams prefix s = (case protocolParamsRecovery s of
     Some r \<Rightarrow> (r, s)
   | None \<Rightarrow>
       let r = length (recoveries s) in
       (r, s\<lparr>protocolParamsRecovery := Some r, recoveries := recoveries s @
          [\<lparr>tipGeneration = scoped_generation prefix (Some TIP_CACHE_KEY) (cp_cache s),
            paramsGeneration = scoped_generation prefix (Some PARAMS_KEYS) (cp_cache s),
            freshTip = None, rphase = FetchingTip\<rparr>]\<rparr>))"

definition set_call :: "nat \<Rightarrow> params_call \<Rightarrow> 'o cached_provider \<Rightarrow> 'o cached_provider" where
  "set_call i call s = s\<lparr>calls := (calls s)[i := call]\<rparr>"

definition set_recovery :: "nat \<Rightarrow> recovery \<Rightarrow> 'o cached_provider \<Rightarrow> 'o cached_provider" where
  "set_recovery r v s = s\<lparr>recoveries := (recoveries s)[r := v]\<rparr>"

text \<open>\<open>getProtocolParams()\<close>: the call starts by reading the tip.\<close>

definition getProtocolParams :: "string \<Rightarrow> int \<Rightarrow> 'o cached_provider \<Rightarrow> 'o cached_provider" where
  "getProtocolParams prefix now s = (case getTip prefix now (cp_cache s) of (r, c) \<Rightarrow>
     s\<lparr>cp_cache := c, calls := calls s @ [\<lparr>call_epoch = None, call_phase = (case r of
        ReadHit v \<Rightarrow> HaveTip (as_tip (Inr v))
      | ReadJoin a \<Rightarrow> AwaitTip a
      | ReadStart a \<Rightarrow> AwaitTip a)\<rparr>]\<rparr>)"

definition call_tip_ready :: "string \<Rightarrow> int \<Rightarrow> nat \<Rightarrow> Tip result \<Rightarrow> 'o cached_provider \<Rightarrow> 'o cached_provider" where
  "call_tip_ready prefix now i tip s = (case call_with_tip prefix now tip (cp_cache s) of (call, c) \<Rightarrow>
     set_call i call (s\<lparr>cp_cache := c\<rparr>))"

text \<open>The \<open>try\<close>/\<open>catch\<close> around the parameters.\<close>

definition call_params_ready :: "string \<Rightarrow> nat \<Rightarrow> 'o cached_value result \<Rightarrow> 'o cached_provider \<Rightarrow> 'o cached_provider" where
  "call_params_ready prefix i r s = (case as_params r of
     Inl (ProtocolParamsEpochMismatchError _ _) \<Rightarrow>
       (case recoverProtocolParams prefix s of (k, s') \<Rightarrow>
          set_call i ((calls s ! i)\<lparr>call_phase := AwaitRecovery k\<rparr>) s')
   | out \<Rightarrow> set_call i ((calls s ! i)\<lparr>call_phase := Answered out\<rparr>) s)"

definition call_recovered :: "nat \<Rightarrow> ProtocolParams result \<Rightarrow> 'o cached_provider \<Rightarrow> 'o cached_provider" where
  "call_recovered i out s = set_call i ((calls s ! i)\<lparr>call_phase := Answered out\<rparr>) s"

definition recovery_tip :: "nat \<Rightarrow> Tip result \<Rightarrow> 'o cached_provider \<Rightarrow> 'o cached_provider" where
  "recovery_tip r answer s = set_recovery r (case answer of
     Inl e \<Rightarrow> (recoveries s ! r)\<lparr>rphase := Recovered (Inl e)\<rparr>
   | Inr t \<Rightarrow> (recoveries s ! r)\<lparr>freshTip := Some t, rphase := FetchingParams\<rparr>) s"

definition recovery_mismatch :: "int \<Rightarrow> int \<Rightarrow> thrown" where
  "recovery_mismatch params tip = ProviderError (''protocol parameters for epoch '' @ string_of_int params @
     '' do not match refreshed tip epoch '' @ string_of_int tip) None None"

definition recovery_params :: "string \<Rightarrow> int \<Rightarrow> nat \<Rightarrow> Tip \<Rightarrow> ProtocolParams result \<Rightarrow>
    'o cached_provider \<Rightarrow> 'o cached_provider" where
  "recovery_params prefix now r t answer s =
     (let rec = recoveries s ! r in
      case answer of
        Inl e \<Rightarrow> set_recovery r (rec\<lparr>rphase := Recovered (Inl e)\<rparr>) s
      | Inr p \<Rightarrow>
          if pp_epoch p \<noteq> tip_epoch t
          then set_recovery r (rec\<lparr>rphase := Recovered (Inl (recovery_mismatch (pp_epoch p) (tip_epoch t)))\<rparr>) s
          else set_recovery r (rec\<lparr>rphase := Recovered (Inr p)\<rparr>)
            (s\<lparr>cp_cache :=
               scoped_setIfGeneration prefix now (params_key (tip_epoch t)) (ParamsVal p) PROTOCOL_PARAMS_TTL_MS
                 (paramsGeneration rec)
                 (scoped_setIfGeneration prefix now TIP_CACHE_KEY (TipVal t) TIP_TTL_MS (tipGeneration rec)
                   (cp_cache s))\<rparr>))"

definition clearRecovery :: "nat \<Rightarrow> 'o cached_provider \<Rightarrow> 'o cached_provider" where
  "clearRecovery r s = (if protocolParamsRecovery s = Some r then s\<lparr>protocolParamsRecovery := None\<rparr> else s)"

section \<open>Steps\<close>

text \<open>A promise of the cache that has its result.\<close>

definition promise_result :: "'v cache \<Rightarrow> nat \<Rightarrow> 'v result \<Rightarrow> bool" where
  "promise_result c a r \<longleftrightarrow> a < length (attempts c) \<and>
     (aphase (attempts c ! a) = Settled r \<or> aphase (attempts c ! a) = Finished r)"

text \<open>Which value may stand under which key of the scope.\<close>

definition value_ok :: "string \<Rightarrow> string \<Rightarrow> 'o cached_value \<Rightarrow> bool" where
  "value_ok prefix k v \<longleftrightarrow> (k = prefix @ TIP_CACHE_KEY \<longrightarrow> (\<exists>t. v = TipVal t)) \<and>
     (\<forall>e. k = prefix @ params_key e \<longrightarrow> (\<exists>p. v = ParamsVal p \<and> pp_epoch p = e))"

text \<open>The rest of the process stores under other keys only.\<close>

definition other_key :: "string \<Rightarrow> string \<Rightarrow> 'o cached_value \<Rightarrow> bool" where
  "other_key prefix k v \<longleftrightarrow> k \<noteq> prefix @ TIP_CACHE_KEY \<and> (\<forall>e. k \<noteq> prefix @ params_key e)"

inductive cp_step :: "string \<Rightarrow> 'o cached_provider \<Rightarrow> 'o cached_provider \<Rightarrow> bool" for prefix where
  cp_other: "cache_step (other_key prefix) (cp_cache s) d \<Longrightarrow> cp_step prefix s (s\<lparr>cp_cache := d\<rparr>)"
| cp_tip_loaded: "a < length (attempts (cp_cache s)) \<Longrightarrow> aphase (attempts (cp_cache s) ! a) = Loading \<Longrightarrow>
    akey (attempts (cp_cache s) ! a) = prefix @ TIP_CACHE_KEY \<Longrightarrow>
    cp_step prefix s (s\<lparr>cp_cache := cache_settle now a (bindE answer (\<lambda>t. Inr (TipVal t))) (cp_cache s)\<rparr>)"
| cp_params_loaded: "a < length (attempts (cp_cache s)) \<Longrightarrow> aphase (attempts (cp_cache s) ! a) = Loading \<Longrightarrow>
    akey (attempts (cp_cache s) ! a) = prefix @ params_key epoch \<Longrightarrow>
    cp_step prefix s (s\<lparr>cp_cache := cache_settle now a (params_loaded epoch answer) (cp_cache s)\<rparr>)"
| cp_getTip: "cp_step prefix s (s\<lparr>cp_cache := snd (getTip prefix now (cp_cache s))\<rparr>)"
| cp_call: "cp_step prefix s (getProtocolParams prefix now s)"
| cp_call_hit: "i < length (calls s) \<Longrightarrow> call_phase (calls s ! i) = HaveTip tip \<Longrightarrow>
    cp_step prefix s (call_tip_ready prefix now i tip s)"
| cp_call_tip: "i < length (calls s) \<Longrightarrow> call_phase (calls s ! i) = AwaitTip a \<Longrightarrow>
    promise_result (cp_cache s) a r \<Longrightarrow> cp_step prefix s (call_tip_ready prefix now i (as_tip r) s)"
| cp_call_params: "i < length (calls s) \<Longrightarrow> call_phase (calls s ! i) = AwaitParams a \<Longrightarrow>
    promise_result (cp_cache s) a r \<Longrightarrow> cp_step prefix s (call_params_ready prefix i r s)"
| cp_call_recovered: "i < length (calls s) \<Longrightarrow> call_phase (calls s ! i) = AwaitRecovery r \<Longrightarrow>
    r < length (recoveries s) \<Longrightarrow> rphase (recoveries s ! r) = Recovered out \<Longrightarrow> cp_step prefix s (call_recovered i out s)"
| cp_recovery_tip: "r < length (recoveries s) \<Longrightarrow> rphase (recoveries s ! r) = FetchingTip \<Longrightarrow>
    cp_step prefix s (recovery_tip r answer s)"
| cp_recovery_params: "r < length (recoveries s) \<Longrightarrow> rphase (recoveries s ! r) = FetchingParams \<Longrightarrow>
    freshTip (recoveries s ! r) = Some t \<Longrightarrow> cp_step prefix s (recovery_params prefix now r t answer s)"
| cp_recovery_clear: "r < length (recoveries s) \<Longrightarrow> rphase (recoveries s ! r) = Recovered out \<Longrightarrow>
    cp_step prefix s (clearRecovery r s)"

inductive cp_reachable :: "string \<Rightarrow> 'o cached_provider \<Rightarrow> bool" for prefix where
  cp_start: "cp_reachable prefix (withCache (createMemoryCache m))"
| cp_next: "cp_reachable prefix s \<Longrightarrow> cp_step prefix s s' \<Longrightarrow> cp_reachable prefix s'"

section \<open>What the cache holds\<close>

lemma params_key_inj: "params_key e = params_key e' \<longleftrightarrow> e = e'"
proof
  assume "params_key e = params_key e'"
  then have "string_of_int e = string_of_int e'" by (simp add: params_key_def)
  then show "e = e'" by (rule string_of_int_inj)
qed simp

lemma keys_apart: "TIP_CACHE_KEY \<noteq> params_key e"
  by (simp add: TIP_CACHE_KEY_def params_key_def PARAMS_KEYS_def)

lemma other_key_value_ok: "other_key prefix k v \<Longrightarrow> value_ok prefix k v"
  by (simp add: other_key_def value_ok_def)

lemma value_ok_tip: "value_ok prefix (prefix @ TIP_CACHE_KEY) v \<longleftrightarrow> (\<exists>t. v = TipVal t)"
  using keys_apart by (auto simp: value_ok_def)

lemma value_ok_params: "value_ok prefix (prefix @ params_key e) v \<longleftrightarrow> (\<exists>p. v = ParamsVal p \<and> pp_epoch p = e)"
  using keys_apart by (auto simp: value_ok_def params_key_inj) metis

lemma cache_step_weaken:
  assumes "cache_step ok c d" and "\<And>k v. ok k v \<Longrightarrow> ok' k v"
  shows "cache_step ok' c d"
  using assms(1)
proof cases
  case (st_settle a r now)
  then show ?thesis using assms(2) cache_step.st_settle by metis
qed (auto intro: cache_step.intros assms(2))

lemma params_loaded_ok: "params_loaded epoch answer = Inr v \<Longrightarrow> \<exists>p. v = ParamsVal p \<and> pp_epoch p = epoch"
  by (auto simp: params_loaded_def sum_simps split: if_splits)

section \<open>The invariant\<close>

text \<open>A promise that succeeded holds a value that belongs to its key.\<close>

definition phases_ok :: "(string \<Rightarrow> 'v \<Rightarrow> bool) \<Rightarrow> 'v cache \<Rightarrow> bool" where
  "phases_ok ok c \<longleftrightarrow> (\<forall>a v. promise_result c a (Inr v) \<longrightarrow> ok (akey (attempts c ! a)) v)"

lemma promise_result_set_phase:
  assumes "a < length (attempts c)"
  shows "promise_result (set_phase a ph c) b r \<longleftrightarrow>
    (if b = a then ph = Settled r \<or> ph = Finished r else promise_result c b r)"
  using assms by (auto simp: promise_result_def set_phase_def nth_list_update)

lemma akey_set_phase: "a < length (attempts c) \<Longrightarrow> akey (attempts (set_phase a ph c) ! b) = akey (attempts c ! b)"
  by (cases "b = a") (simp_all add: set_phase_def)

lemma phases_ok_set_phase:
  assumes "phases_ok ok c" and "a < length (attempts c)"
    and "\<And>v. ph = Settled (Inr v) \<or> ph = Finished (Inr v) \<Longrightarrow> ok (akey (attempts c ! a)) v"
  shows "phases_ok ok (set_phase a ph c)"
  using assms by (auto simp: phases_ok_def promise_result_set_phase akey_set_phase)

lemma phases_ok_cong: "attempts c = attempts d \<Longrightarrow> phases_ok ok c = phases_ok ok d"
  by (simp add: phases_ok_def promise_result_def)

lemma phases_ok_frame [simp]:
  "phases_ok ok (evict t c) = phases_ok ok c" "phases_ok ok (c\<lparr>entries := es\<rparr>) = phases_ok ok c"
  "phases_ok ok (c\<lparr>inFlight := fl\<rparr>) = phases_ok ok c" "phases_ok ok (cache_clear p c) = phases_ok ok c"
  by (rule phases_ok_cong; simp add: clear_generations)+

lemma cache_step_phases:
  assumes "cache_step ok c d" and inv: "store_inv ok c" "phases_ok ok c"
  shows "phases_ok ok d"
  using assms(1)
proof cases
  case (st_read now k pol)
  then show ?thesis
    using inv(2) by (auto simp: cache_read_def phases_ok_def promise_result_def nth_append split: option.split)
next
  case (st_settle a r now)
  have held: "ok k (evalue e)" if "jm_get (entries c) k = Some e" for k e
    using inv(1) that by (simp add: store_inv_def)
  show ?thesis
    unfolding st_settle(1) cache_settle_def Let_def
    by (cases r; simp only: sum.case; rule phases_ok_set_phase)
      (use st_settle(2-4) inv(2) held in \<open>auto split: option.splits if_splits\<close>)
next
  case (st_finally a r)
  have "ok (akey (attempts c ! a)) v" if "r = Inr v" for v
    using inv(2) st_finally that by (auto simp: phases_ok_def promise_result_def)
  then show ?thesis
    unfolding st_finally(1) cache_finally_def Let_def
    by (intro phases_ok_set_phase) (use st_finally(2,3) inv(2) in \<open>auto simp: settled_result_def\<close>)
next
  case (st_set k v now ttl)
  then show ?thesis using inv(2) by (simp add: cache_set_def)
next
  case (st_setIf k v now ttl g)
  then show ?thesis using inv(2) by (simp add: cache_setIfGeneration_def)
next
  case (st_clear p)
  then show ?thesis using inv(2) by simp
qed

definition cinv :: "(string \<Rightarrow> 'v \<Rightarrow> bool) \<Rightarrow> 'v cache \<Rightarrow> bool" where
  "cinv ok c \<longleftrightarrow> store_inv ok c \<and> flight_inv c \<and> phases_ok ok c"

lemma cache_steps_cinv: "cache_steps ok c d \<Longrightarrow> cinv ok c \<Longrightarrow> cinv ok d \<and> attempts_extend c d"
proof (induction rule: cache_steps.induct)
  case (cs_step c d e)
  then have d: "cinv ok d" "attempts_extend c d" by simp_all
  with cs_step.hyps(2) show ?case
    using cache_step_inv [of ok d e] cache_step_phases [of ok d e] cache_step_mono [of ok d e] attempts_extend_trans
    unfolding cinv_def by blast
qed simp

lemma cache_steps_one: "cache_step ok c d \<Longrightarrow> cache_steps ok c d"
  by (rule cs_step [OF cs_refl])

lemma cache_steps_read: "cache_steps ok c (snd (scoped_read prefix now k pol c))"
  by (simp add: scoped_read_def cache_steps_one st_read)

lemma cache_steps_setIf:
  "ok (prefix @ k) v \<Longrightarrow> cache_steps ok c d \<Longrightarrow> cache_steps ok c (scoped_setIfGeneration prefix now k v ttl g d)"
  by (simp add: scoped_setIfGeneration_def cs_step st_setIf)

text \<open>Every step of the provider is made of steps of the cache that keep the values where they belong.\<close>

lemma call_with_tip_cache: "cache_steps ok c (snd (call_with_tip prefix now tip c))"
proof (cases tip)
  case (Inr t)
  have "snd (call_with_tip prefix now tip c) = snd (scoped_read prefix now (params_key (tip_epoch t)) (PlainTtl PROTOCOL_PARAMS_TTL_MS) c)"
    by (simp add: Inr call_with_tip_def call_with_epoch_def readProtocolParamsForEpoch_def split: prod.split)
  then show ?thesis by (simp add: cache_steps_read)
qed (simp add: call_with_tip_def cs_refl)

lemma recoverProtocolParams_cache [simp]: "cp_cache (snd (recoverProtocolParams prefix s)) = cp_cache s"
  by (simp add: recoverProtocolParams_def Let_def split: option.split)

lemma set_frame [simp]:
  "cp_cache (set_call i call s) = cp_cache s" "recoveries (set_call i call s) = recoveries s"
  "protocolParamsRecovery (set_call i call s) = protocolParamsRecovery s"
  "calls (set_call i call s) = (calls s)[i := call]"
  "cp_cache (set_recovery r v s) = cp_cache s" "calls (set_recovery r v s) = calls s"
  "protocolParamsRecovery (set_recovery r v s) = protocolParamsRecovery s"
  "recoveries (set_recovery r v s) = (recoveries s)[r := v]"
  by (simp_all add: set_call_def set_recovery_def)

lemma call_params_ready_cache [simp]: "cp_cache (call_params_ready prefix i r s) = cp_cache s"
  by (simp add: call_params_ready_def case_prod_beta split: sum.split thrown.split)

lemma cp_step_cache:
  assumes "cp_step prefix s s'"
  shows "cache_steps (value_ok prefix) (cp_cache s) (cp_cache s')"
  using assms
proof cases
  case (cp_other d)
  then show ?thesis by (simp add: cache_steps_one cache_step_weaken [OF _ other_key_value_ok])
next
  case (cp_tip_loaded a now answer)
  have "cache_step (value_ok prefix) (cp_cache s) (cache_settle now a (bindE answer (\<lambda>t. Inr (TipVal t))) (cp_cache s))"
    by (rule st_settle) (use cp_tip_loaded in \<open>auto simp: value_ok_tip sum_simps\<close>)
  then show ?thesis by (simp add: cp_tip_loaded(1) cache_steps_one)
next
  case (cp_params_loaded a epoch now answer)
  have "cache_step (value_ok prefix) (cp_cache s) (cache_settle now a (params_loaded epoch answer) (cp_cache s))"
    by (rule st_settle) (use cp_params_loaded in \<open>auto simp: value_ok_params dest!: params_loaded_ok\<close>)
  then show ?thesis by (simp add: cp_params_loaded(1) cache_steps_one)
next
  case (cp_getTip now)
  then show ?thesis by (simp add: getTip_def cache_steps_read)
next
  case (cp_call now)
  then have "cp_cache s' = snd (scoped_read prefix now TIP_CACHE_KEY (PlainTtl TIP_TTL_MS) (cp_cache s))"
    by (simp add: getProtocolParams_def getTip_def split: prod.split)
  then show ?thesis by (simp add: cache_steps_read)
next
  case (cp_call_hit i tip now)
  then have "cp_cache s' = snd (call_with_tip prefix now tip (cp_cache s))"
    by (simp add: call_tip_ready_def split: prod.split)
  then show ?thesis by (simp add: call_with_tip_cache)
next
  case (cp_call_tip i a r now)
  then have "cp_cache s' = snd (call_with_tip prefix now (as_tip r) (cp_cache s))"
    by (simp add: call_tip_ready_def split: prod.split)
  then show ?thesis by (simp add: call_with_tip_cache)
next
  case (cp_call_params i a r)
  then show ?thesis by (simp add: cs_refl)
next
  case (cp_call_recovered i r out)
  then show ?thesis by (simp add: call_recovered_def cs_refl)
next
  case (cp_recovery_tip r answer)
  then show ?thesis by (simp add: recovery_tip_def cs_refl)
next
  case (cp_recovery_params r t now answer)
  then show ?thesis
    by (auto simp: recovery_params_def Let_def cs_refl value_ok_tip value_ok_params intro!: cache_steps_setIf split: sum.split)
next
  case (cp_recovery_clear r out)
  then show ?thesis by (simp add: clearRecovery_def cs_refl)
qed


section \<open>The calls and the recovery\<close>

definition call_ok :: "string \<Rightarrow> 'o cached_value cache \<Rightarrow> recovery list \<Rightarrow> params_call \<Rightarrow> bool" where
  "call_ok prefix c recs call = (case call_phase call of
     HaveTip _ \<Rightarrow> True
   | AwaitTip a \<Rightarrow> a < length (attempts c) \<and> akey (attempts c ! a) = prefix @ TIP_CACHE_KEY
   | AwaitParams a \<Rightarrow> a < length (attempts c) \<and>
       (\<exists>e. call_epoch call = Some e \<and> akey (attempts c ! a) = prefix @ params_key e)
   | AwaitRecovery r \<Rightarrow> r < length recs
   | Answered out \<Rightarrow> (\<forall>p. out = Inr p \<longrightarrow> call_epoch call = Some (pp_epoch p) \<or>
       (\<exists>rc \<in> set recs. rphase rc = Recovered (Inr p))))"

definition recovery_ok :: "recovery \<Rightarrow> bool" where
  "recovery_ok rc = (case rphase rc of
     FetchingTip \<Rightarrow> True
   | FetchingParams \<Rightarrow> freshTip rc \<noteq> None
   | Recovered out \<Rightarrow> (\<forall>p. out = Inr p \<longrightarrow> (\<exists>t. freshTip rc = Some t \<and> tip_epoch t = pp_epoch p)))"

definition unsettled :: "recovery \<Rightarrow> bool" where
  "unsettled rc \<longleftrightarrow> (\<forall>out. rphase rc \<noteq> Recovered out)"

definition single_flight :: "nat option \<Rightarrow> recovery list \<Rightarrow> bool" where
  "single_flight cur recs \<longleftrightarrow> (\<forall>r. cur = Some r \<longrightarrow> r < length recs) \<and>
     (\<forall>r < length recs. unsettled (recs ! r) \<longrightarrow> cur = Some r)"

definition cp_inv :: "string \<Rightarrow> 'o cached_provider \<Rightarrow> bool" where
  "cp_inv prefix s \<longleftrightarrow> cinv (value_ok prefix) (cp_cache s) \<and>
     (\<forall>call \<in> set (calls s). call_ok prefix (cp_cache s) (recoveries s) call) \<and>
     (\<forall>rc \<in> set (recoveries s). recovery_ok rc) \<and> single_flight (protocolParamsRecovery s) (recoveries s)"

text \<open>A call keeps its promise while the cache and the recoveries move on.\<close>

definition recs_extend :: "recovery list \<Rightarrow> recovery list \<Rightarrow> bool" where
  "recs_extend xs ys \<longleftrightarrow> length xs \<le> length ys \<and>
     (\<forall>rc \<in> set xs. \<forall>out. rphase rc = Recovered out \<longrightarrow> rc \<in> set ys)"

lemma recs_extend_refl [simp]: "recs_extend xs xs"
  by (simp add: recs_extend_def)

lemma recs_extend_snoc: "recs_extend xs (xs @ ys)"
  by (simp add: recs_extend_def)

lemma recs_extend_update:
  assumes "r < length xs" and "unsettled (xs ! r)"
  shows "recs_extend xs (xs[r := v])"
  using assms unfolding recs_extend_def unsettled_def
  by (auto simp: in_set_conv_nth nth_list_update) (metis nth_list_update_neq length_list_update)

lemma call_ok_mono:
  assumes "call_ok prefix c recs call" and "attempts_extend c d" and "recs_extend recs recs'"
  shows "call_ok prefix d recs' call"
  using assms by (cases "call_phase call") (fastforce simp: call_ok_def attempts_extend_def recs_extend_def)+

lemma cp_invI:
  assumes "cp_inv prefix s" and "cp_step prefix s s'"
    and "recs_extend (recoveries s) (recoveries s')" and "\<forall>rc \<in> set (recoveries s'). recovery_ok rc"
    and "single_flight (protocolParamsRecovery s') (recoveries s')"
    and "\<And>call. call \<in> set (calls s') \<Longrightarrow> call \<in> set (calls s) \<or> call_ok prefix (cp_cache s') (recoveries s') call"
  shows "cp_inv prefix s'"
proof -
  have "cinv (value_ok prefix) (cp_cache s') \<and> attempts_extend (cp_cache s) (cp_cache s')"
    using cache_steps_cinv [OF cp_step_cache [OF assms(2)]] assms(1) by (simp add: cp_inv_def)
  then show ?thesis
    using assms(1,3-6) call_ok_mono unfolding cp_inv_def by blast
qed

lemma in_update: "x \<in> set (xs[i := y]) \<Longrightarrow> x \<in> set xs \<or> x = y"
  using set_update_subset_insert by fastforce

lemma read_key:
  assumes "cinv ok c" and "scoped_read prefix now k pol c = (r, d)"
  shows "case r of ReadHit v \<Rightarrow> ok (prefix @ k) v
    | ReadJoin a \<Rightarrow> a < length (attempts d) \<and> akey (attempts d ! a) = prefix @ k
    | ReadStart a \<Rightarrow> a < length (attempts d) \<and> akey (attempts d ! a) = prefix @ k"
  using assms flight_invD(3) [of c "prefix @ k"]
  by (auto simp: cinv_def scoped_read_def cache_read_def cache_peek_def store_inv_def split: option.splits if_splits)

lemma call_with_tip_ok:
  assumes "cinv (value_ok prefix) c" and "call_with_tip prefix now tip c = (call, d)"
  shows "call_ok prefix d recs call"
proof (cases tip)
  case (Inl e)
  with assms(2) show ?thesis by (auto simp: call_with_tip_def call_ok_def)
next
  case (Inr t)
  obtain r where r: "scoped_read prefix now (params_key (tip_epoch t)) (PlainTtl PROTOCOL_PARAMS_TTL_MS) c = (r, d)"
    and call: "call = \<lparr>call_epoch = Some (tip_epoch t), call_phase = (case r of
            ReadHit v \<Rightarrow> Answered (as_params (Inr v)) | ReadJoin a \<Rightarrow> AwaitParams a | ReadStart a \<Rightarrow> AwaitParams a)\<rparr>"
    using assms(2) by (auto simp: Inr call_with_tip_def call_with_epoch_def readProtocolParamsForEpoch_def split: prod.splits)
  show ?thesis
    using read_key [OF assms(1) r] by (cases r) (auto simp: call call_ok_def value_ok_params)
qed

lemma single_flightD:
  "single_flight cur recs \<Longrightarrow> r < length recs \<Longrightarrow> unsettled (recs ! r) \<Longrightarrow> cur = Some r"
  "single_flight cur recs \<Longrightarrow> cur = Some r \<Longrightarrow> r < length recs"
  unfolding single_flight_def by blast+

lemma single_flight_clear:
  assumes "single_flight (Some r) recs" and "rphase (recs ! r) = Recovered out"
  shows "single_flight None recs"
  unfolding single_flight_def
proof (intro conjI allI impI)
  fix k assume "k < length recs" "unsettled (recs ! k)"
  then have "k = r" using single_flightD(1) [OF assms(1)] by fastforce
  with \<open>unsettled (recs ! k)\<close> assms(2) show "None = Some k" by (simp add: unsettled_def)
qed simp

lemma single_flight_start:
  "single_flight None recs \<Longrightarrow> single_flight (Some (length recs)) (recs @ [rc])"
  by (auto simp: single_flight_def nth_append less_Suc_eq)

lemma recoverProtocolParams_inv:
  assumes "cp_inv prefix s" and "recoverProtocolParams prefix s = (k, s')"
  shows "recs_extend (recoveries s) (recoveries s') \<and> (\<forall>rc \<in> set (recoveries s'). recovery_ok rc) \<and>
    single_flight (protocolParamsRecovery s') (recoveries s') \<and> k < length (recoveries s') \<and> calls s' = calls s"
proof (cases "protocolParamsRecovery s")
  case None
  let ?rc = "\<lparr>tipGeneration = scoped_generation prefix (Some TIP_CACHE_KEY) (cp_cache s),
      paramsGeneration = scoped_generation prefix (Some PARAMS_KEYS) (cp_cache s), freshTip = None, rphase = FetchingTip\<rparr>"
  have s': "k = length (recoveries s)" "recoveries s' = recoveries s @ [?rc]" "calls s' = calls s"
    "protocolParamsRecovery s' = Some (length (recoveries s))"
    using assms(2) None by (auto simp: recoverProtocolParams_def Let_def)
  have "recovery_ok ?rc" by (simp add: recovery_ok_def)
  then show ?thesis
    using assms(1) None single_flight_start by (simp add: s' cp_inv_def recs_extend_snoc)
next
  case (Some r)
  then have "s' = s" "k = r" using assms(2) by (auto simp: recoverProtocolParams_def)
  then show ?thesis using assms(1) Some by (simp add: cp_inv_def single_flight_def)
qed

lemma set_recovery_inv:
  assumes "cp_inv prefix s" and "r < length (recoveries s)" and "unsettled (recoveries s ! r)" and "recovery_ok v"
  shows "recs_extend (recoveries s) ((recoveries s)[r := v])" "\<forall>rc \<in> set ((recoveries s)[r := v]). recovery_ok rc"
    "single_flight (protocolParamsRecovery s) ((recoveries s)[r := v])"
proof -
  have flight: "single_flight (protocolParamsRecovery s) (recoveries s)" and ok: "\<forall>rc \<in> set (recoveries s). recovery_ok rc"
    using assms(1) by (simp_all add: cp_inv_def)
  show "recs_extend (recoveries s) ((recoveries s)[r := v])" using assms(2,3) by (rule recs_extend_update)
  show "\<forall>rc \<in> set ((recoveries s)[r := v]). recovery_ok rc" using ok assms(4) by (auto dest: in_update)
  show "single_flight (protocolParamsRecovery s) ((recoveries s)[r := v])"
    unfolding single_flight_def
  proof (intro conjI allI impI)
    fix k assume "protocolParamsRecovery s = Some k"
    then show "k < length ((recoveries s)[r := v])" using flight by (simp add: single_flight_def)
  next
    fix k assume k: "k < length ((recoveries s)[r := v])" "unsettled ((recoveries s)[r := v] ! k)"
    have "unsettled (recoveries s ! k)" by (cases "k = r") (use k assms(3) in simp_all)
    with k(1) show "protocolParamsRecovery s = Some k" by (intro single_flightD(1) [OF flight]) simp_all
  qed
qed

lemma promise_value:
  assumes "cp_inv prefix s" and "promise_result (cp_cache s) a (Inr v)"
  shows "value_ok prefix (akey (attempts (cp_cache s) ! a)) v"
  using assms by (simp add: cp_inv_def cinv_def phases_ok_def)

lemma params_ready_ok:
  assumes inv: "cp_inv prefix s" and "i < length (calls s)" and "call_phase (calls s ! i) = AwaitParams a"
    and "promise_result (cp_cache s) a r" and "as_params r = Inr p"
  shows "call_epoch (calls s ! i) = Some (pp_epoch p)"
proof -
  have "call_ok prefix (cp_cache s) (recoveries s) (calls s ! i)" using inv assms(2) by (simp add: cp_inv_def)
  then obtain e where e: "call_epoch (calls s ! i) = Some e" "akey (attempts (cp_cache s) ! a) = prefix @ params_key e"
    using assms(3) by (auto simp: call_ok_def)
  obtain v where v: "r = Inr v" using assms(5) by (cases r) auto
  then have "value_ok prefix (akey (attempts (cp_cache s) ! a)) v" using promise_value [OF inv] assms(4) by simp
  with e(2) obtain q where "v = ParamsVal q" "pp_epoch q = e" by (auto simp: value_ok_params)
  with v e(1) assms(5) show ?thesis by simp
qed

lemma recovery_params_cases:
  obtains out where
    "recoveries (recovery_params prefix now r t answer s) = (recoveries s)[r := (recoveries s ! r)\<lparr>rphase := Recovered out\<rparr>]"
    "\<forall>p. out = Inr p \<longrightarrow> pp_epoch p = tip_epoch t"
    "calls (recovery_params prefix now r t answer s) = calls s"
    "protocolParamsRecovery (recovery_params prefix now r t answer s) = protocolParamsRecovery s"
proof (cases answer)
  case (Inl e)
  then show thesis by (intro that [of "Inl e"]) (simp_all add: recovery_params_def Let_def)
next
  case (Inr p)
  show thesis
  proof (cases "pp_epoch p = tip_epoch t")
    case True
    with Inr show thesis by (intro that [of "Inr p"]) (simp_all add: recovery_params_def Let_def)
  next
    case False
    with Inr show thesis
      by (intro that [of "Inl (recovery_mismatch (pp_epoch p) (tip_epoch t))"]) (simp_all add: recovery_params_def Let_def)
  qed
qed

lemma cp_step_inv:
  assumes step: "cp_step prefix s s'" and inv: "cp_inv prefix s"
  shows "cp_inv prefix s'"
proof -
  note I = cp_invI [OF inv step]
  have flight: "single_flight (protocolParamsRecovery s) (recoveries s)" and ok: "\<forall>rc \<in> set (recoveries s). recovery_ok rc"
    and c: "cinv (value_ok prefix) (cp_cache s)" using inv by (simp_all add: cp_inv_def)
  have nth_ok: "recovery_ok (recoveries s ! r)" if "r < length (recoveries s)" for r using ok that by simp
  from step show ?thesis
  proof cases
    case (cp_call now)
    obtain r d where r: "scoped_read prefix now TIP_CACHE_KEY (PlainTtl TIP_TTL_MS) (cp_cache s) = (r, d)" by fastforce
    let ?call = "\<lparr>call_epoch = None, call_phase = (case r of
        ReadHit v \<Rightarrow> HaveTip (as_tip (Inr v)) | ReadJoin a \<Rightarrow> AwaitTip a | ReadStart a \<Rightarrow> AwaitTip a)\<rparr>"
    have s': "s' = s\<lparr>cp_cache := d, calls := calls s @ [?call]\<rparr>"
      by (simp add: cp_call getProtocolParams_def getTip_def r)
    have "call_ok prefix d (recoveries s) ?call"
      using read_key [OF c r] by (cases r) (simp_all add: call_ok_def)
    then show ?thesis by (intro I) (use ok flight in \<open>auto simp: s'\<close>)
  next
    case (cp_call_hit i tip now)
    obtain call d where call: "call_with_tip prefix now tip (cp_cache s) = (call, d)" by fastforce
    then have s': "s' = set_call i call (s\<lparr>cp_cache := d\<rparr>)" by (simp add: cp_call_hit call_tip_ready_def)
    show ?thesis
      by (intro I) (use ok flight call_with_tip_ok [OF c call] in \<open>auto simp: s' dest!: in_update\<close>)
  next
    case (cp_call_tip i a r now)
    obtain call d where call: "call_with_tip prefix now (as_tip r) (cp_cache s) = (call, d)" by fastforce
    then have s': "s' = set_call i call (s\<lparr>cp_cache := d\<rparr>)" by (simp add: cp_call_tip call_tip_ready_def)
    show ?thesis
      by (intro I) (use ok flight call_with_tip_ok [OF c call] in \<open>auto simp: s' dest!: in_update\<close>)
  next
    case (cp_call_params i a r)
    show ?thesis
    proof (cases "\<exists>x y. as_params r = Inl (ProtocolParamsEpochMismatchError x y)")
      case True
      obtain k s1 where rec: "recoverProtocolParams prefix s = (k, s1)" by fastforce
      note R = recoverProtocolParams_inv [OF inv rec]
      have s': "s' = set_call i ((calls s ! i)\<lparr>call_phase := AwaitRecovery k\<rparr>) s1"
        using True rec by (auto simp: cp_call_params call_params_ready_def)
      have "call_ok prefix (cp_cache s') (recoveries s1) ((calls s ! i)\<lparr>call_phase := AwaitRecovery k\<rparr>)"
        using R by (simp add: call_ok_def)
      then show ?thesis by (intro I) (use R in \<open>auto simp: s' dest!: in_update\<close>)
    next
      case False
      then have s': "s' = set_call i ((calls s ! i)\<lparr>call_phase := Answered (as_params r)\<rparr>) s"
        by (auto simp: cp_call_params call_params_ready_def split: sum.split thrown.split)
      have "call_ok prefix (cp_cache s) (recoveries s) ((calls s ! i)\<lparr>call_phase := Answered (as_params r)\<rparr>)"
        using params_ready_ok [OF inv cp_call_params(2-4)] by (simp add: call_ok_def)
      then show ?thesis by (intro I) (use ok flight in \<open>auto simp: s' dest!: in_update\<close>)
    qed
  next
    case (cp_call_recovered i r out)
    have "recoveries s ! r \<in> set (recoveries s)" using cp_call_recovered(4) by simp
    then have "call_ok prefix (cp_cache s) (recoveries s) ((calls s ! i)\<lparr>call_phase := Answered out\<rparr>)"
      using cp_call_recovered(5) by (auto simp: call_ok_def)
    then show ?thesis
      by (intro I) (use ok flight in \<open>auto simp: cp_call_recovered(1) call_recovered_def dest!: in_update\<close>)
  next
    case (cp_recovery_tip r answer)
    let ?v = "case answer of Inl e \<Rightarrow> (recoveries s ! r)\<lparr>rphase := Recovered (Inl e)\<rparr>
      | Inr t \<Rightarrow> (recoveries s ! r)\<lparr>freshTip := Some t, rphase := FetchingParams\<rparr>"
    have "recovery_ok ?v" by (simp add: recovery_ok_def split: sum.split)
    moreover have "unsettled (recoveries s ! r)" by (simp add: unsettled_def cp_recovery_tip)
    ultimately show ?thesis
      using set_recovery_inv [OF inv cp_recovery_tip(2), of ?v]
      by (intro I) (simp_all add: cp_recovery_tip(1) recovery_tip_def)
  next
    case (cp_recovery_params r t now answer)
    have "unsettled (recoveries s ! r)" by (simp add: unsettled_def cp_recovery_params)
    note R = set_recovery_inv [OF inv cp_recovery_params(2) this]
    obtain out where out: "recoveries s' = (recoveries s)[r := (recoveries s ! r)\<lparr>rphase := Recovered out\<rparr>]"
      "\<forall>p. out = Inr p \<longrightarrow> pp_epoch p = tip_epoch t" "calls s' = calls s"
      "protocolParamsRecovery s' = protocolParamsRecovery s"
      unfolding cp_recovery_params(1) by (rule recovery_params_cases)
    have "recovery_ok ((recoveries s ! r)\<lparr>rphase := Recovered out\<rparr>)"
      using cp_recovery_params(4) out(2) by (auto simp: recovery_ok_def)
    then show ?thesis using R by (intro I) (simp_all add: out)
  next
    case (cp_recovery_clear r out)
    have "single_flight (protocolParamsRecovery s') (recoveries s')"
      using flight single_flight_clear [OF _ cp_recovery_clear(3)]
      by (cases "protocolParamsRecovery s = Some r") (simp_all add: cp_recovery_clear(1) clearRecovery_def)
    then show ?thesis using ok by (intro I) (auto simp: cp_recovery_clear(1) clearRecovery_def split: if_splits)
  qed (use ok flight in \<open>intro I; simp\<close>)+
qed

lemma cp_reachable_inv: "cp_reachable prefix s \<Longrightarrow> cp_inv prefix s"
proof (induction rule: cp_reachable.induct)
  case (cp_start m)
  have "phases_ok (value_ok prefix) (createMemoryCache m)"
    by (simp add: phases_ok_def promise_result_def createMemoryCache_def)
  moreover have "store_inv (value_ok prefix) (createMemoryCache m)" "flight_inv (createMemoryCache m :: 'a cached_value cache)"
    using cache_reachable_inv [OF cr_start [of "value_ok prefix" m]] by blast+
  ultimately show ?case by (simp add: cp_inv_def cinv_def withCache_def single_flight_def)
qed (rule cp_step_inv)

section \<open>What a caller may rely on\<close>

text \<open>
  C8: whatever order the upstream answers, the loads of other callers and the rest of the process come in, the
  parameters cached for an epoch are of that epoch; a caller of \<open>getProtocolParams\<close> is answered with parameters
  of the very epoch its tip named, or with the pair of a recovery whose fresh tip names the epoch of the fresh
  parameters; and at no time are two recoveries waiting for upstream.
\<close>

theorem cached_params_epoch:
  assumes "cp_reachable prefix s"
  shows "(\<forall>e v now. scoped_peek prefix now (params_key e) (cp_cache s) = Some v \<longrightarrow>
      (\<exists>p. v = ParamsVal p \<and> pp_epoch p = e)) \<and>
    (\<forall>call p. call \<in> set (calls s) \<longrightarrow> call_phase call = Answered (Inr p) \<longrightarrow>
      call_epoch call = Some (pp_epoch p) \<or>
      (\<exists>rc t. rc \<in> set (recoveries s) \<and> rphase rc = Recovered (Inr p) \<and> freshTip rc = Some t \<and> tip_epoch t = pp_epoch p)) \<and>
    (\<forall>r r'. r < length (recoveries s) \<longrightarrow> unsettled (recoveries s ! r) \<longrightarrow>
      r' < length (recoveries s) \<longrightarrow> unsettled (recoveries s ! r') \<longrightarrow> r = r')"
proof (intro conjI allI impI)
  have inv: "cp_inv prefix s" using assms by (rule cp_reachable_inv)
  fix e v now assume "scoped_peek prefix now (params_key e) (cp_cache s) = Some v"
  then obtain en where "jm_get (entries (cp_cache s)) (prefix @ params_key e) = Some en" "evalue en = v"
    by (auto simp: scoped_peek_def cache_peek_def split: option.splits if_splits)
  then have "value_ok prefix (prefix @ params_key e) v" using inv by (auto simp: cp_inv_def cinv_def store_inv_def)
  then show "\<exists>p. v = ParamsVal p \<and> pp_epoch p = e" by (simp add: value_ok_params)
next
  have inv: "cp_inv prefix s" using assms by (rule cp_reachable_inv)
  fix call p assume call: "call \<in> set (calls s)" "call_phase call = Answered (Inr p)"
  then have "call_ok prefix (cp_cache s) (recoveries s) call" using inv by (simp add: cp_inv_def)
  with call(2) consider "call_epoch call = Some (pp_epoch p)"
    | rc where "rc \<in> set (recoveries s)" "rphase rc = Recovered (Inr p)" by (auto simp: call_ok_def)
  then show "call_epoch call = Some (pp_epoch p) \<or>
      (\<exists>rc t. rc \<in> set (recoveries s) \<and> rphase rc = Recovered (Inr p) \<and> freshTip rc = Some t \<and> tip_epoch t = pp_epoch p)"
  proof cases
    case 2
    then have "recovery_ok rc" using inv by (simp add: cp_inv_def)
    with 2 show ?thesis by (auto simp: recovery_ok_def)
  qed simp
next
  have flight: "single_flight (protocolParamsRecovery s) (recoveries s)"
    using cp_reachable_inv [OF assms] by (simp add: cp_inv_def)
  fix r r' assume "r < length (recoveries s)" "unsettled (recoveries s ! r)"
    "r' < length (recoveries s)" "unsettled (recoveries s ! r')"
  with single_flightD(1) [OF flight, of r] single_flightD(1) [OF flight, of r'] show "r = r'" by simp
qed

text \<open>A run: the tip names epoch 500, the parameters that come back are of 501, and the refreshed pair agrees.\<close>

definition sample_tip :: "int \<Rightarrow> Tip" where
  "sample_tip epoch = \<lparr>tip_block = 1, tip_slot = 2, tip_epoch = epoch, tip_hash = ''ab'', tip_blockTime = 3\<rparr>"

definition sample_params :: "int \<Rightarrow> ProtocolParams" where
  "sample_params epoch = \<lparr>pp_epoch = epoch, pp_minFeeA = 44, pp_minFeeB = 155381, pp_maxTxSize = 16384,
     pp_maxBlockBodySize = 90112, pp_keyDeposit = ''2000000'', pp_poolDeposit = ''500000000'', pp_minPoolCost = ''170000000'',
     pp_coinsPerUtxoByte = ''4310'', pp_maxValueSize = 5000, pp_collateralPercent = 150, pp_maxCollateralInputs = 3,
     pp_priceMem = 0, pp_priceStep = 0, pp_maxTxExMem = ''1'', pp_maxTxExSteps = ''1'', pp_protocolVersion = (10, 0),
     pp_costModels = None\<rparr>"

definition run0 :: "unit cached_provider" where "run0 = withCache (createMemoryCache (Some 5))"
definition run1 :: "unit cached_provider" where "run1 = getProtocolParams ''s:'' 0 run0"
definition run2 :: "unit cached_provider" where
  "run2 = run1\<lparr>cp_cache := cache_settle 1 0 (bindE (Inr (sample_tip 500)) (\<lambda>t. Inr (TipVal t))) (cp_cache run1)\<rparr>"
definition run3 :: "unit cached_provider" where "run3 = call_tip_ready ''s:'' 1 0 (Inr (sample_tip 500)) run2"
definition run4 :: "unit cached_provider" where
  "run4 = run3\<lparr>cp_cache := cache_settle 2 1 (params_loaded 500 (Inr (sample_params 501))) (cp_cache run3)\<rparr>"
definition run5 :: "unit cached_provider" where
  "run5 = call_params_ready ''s:'' 0 (Inl (ProtocolParamsEpochMismatchError 500 501)) run4"
definition run6 :: "unit cached_provider" where "run6 = recovery_tip 0 (Inr (sample_tip 501)) run5"
definition run7 :: "unit cached_provider" where
  "run7 = recovery_params ''s:'' 3 0 (sample_tip 501) (Inr (sample_params 501)) run6"

lemmas run_defs = run0_def run1_def run2_def run3_def run4_def run5_def run6_def run7_def

lemmas run_simps = withCache_def createMemoryCache_def getProtocolParams_def getTip_def scoped_defs cache_read_def
  cache_peek_def cache_settle_def set_phase_def evict_def generationFor_def jm_get_def Let_def call_tip_ready_def
  call_with_tip_def call_with_epoch_def readProtocolParamsForEpoch_def set_call_def params_loaded_def
  call_params_ready_def recoverProtocolParams_def recovery_tip_def recovery_params_def set_recovery_def
  cache_setIfGeneration_def cache_generation_def

lemma sample_epochs [simp]: "tip_epoch (sample_tip e) = e" "pp_epoch (sample_params e) = e"
  by (simp_all add: sample_tip_def sample_params_def)

lemma run1_state: "run1 = \<lparr>cp_cache = \<lparr>maxEntries = 5, entries = [], inFlight = [(''s:'' @ TIP_CACHE_KEY, 0)],
    clearGeneration = 0, clearGenerations = [], attempts = [\<lparr>akey = ''s:'' @ TIP_CACHE_KEY, apolicy = PlainTtl TIP_TTL_MS,
      attemptGeneration = 0, aphase = Loading\<rparr>]\<rparr>, protocolParamsRecovery = None, recoveries = [],
    calls = [\<lparr>call_epoch = None, call_phase = AwaitTip 0\<rparr>]\<rparr>"
  by (simp add: run1_def run0_def run_simps)

lemma run2_state: "run2 = \<lparr>cp_cache = \<lparr>maxEntries = 5, entries = [(''s:'' @ TIP_CACHE_KEY, \<lparr>evalue = TipVal (sample_tip 500),
      expiresAt = 1 + TIP_TTL_MS, usableUntil = 1 + TIP_TTL_MS\<rparr>)], inFlight = [(''s:'' @ TIP_CACHE_KEY, 0)],
    clearGeneration = 0, clearGenerations = [], attempts = [\<lparr>akey = ''s:'' @ TIP_CACHE_KEY, apolicy = PlainTtl TIP_TTL_MS,
      attemptGeneration = 0, aphase = Settled (Inr (TipVal (sample_tip 500)))\<rparr>]\<rparr>, protocolParamsRecovery = None, recoveries = [],
    calls = [\<lparr>call_epoch = None, call_phase = AwaitTip 0\<rparr>]\<rparr>"
  by (simp add: run2_def run1_state run_simps)

lemma run3_state: "run3 = run2\<lparr>cp_cache := (cp_cache run2)\<lparr>inFlight := [(''s:'' @ TIP_CACHE_KEY, 0), (''s:'' @ params_key 500, 1)],
      attempts := attempts (cp_cache run2) @ [\<lparr>akey = ''s:'' @ params_key 500, apolicy = PlainTtl PROTOCOL_PARAMS_TTL_MS,
      attemptGeneration = 0, aphase = Loading\<rparr>]\<rparr>, calls := [\<lparr>call_epoch = Some 500, call_phase = AwaitParams 1\<rparr>]\<rparr>"
  using keys_apart [of 500] by (simp add: run3_def run2_state run_simps)

lemma run4_state: "run4 = run3\<lparr>cp_cache := (cp_cache run3)\<lparr>
      attempts := [hd (attempts (cp_cache run3)), \<lparr>akey = ''s:'' @ params_key 500, apolicy = PlainTtl PROTOCOL_PARAMS_TTL_MS,
      attemptGeneration = 0, aphase = Settled (Inl (ProtocolParamsEpochMismatchError 500 501))\<rparr>]\<rparr>\<rparr>"
  using keys_apart [of 500] by (simp add: run4_def run3_state run2_state run_simps)

lemma run5_state: "run5 = run4\<lparr>protocolParamsRecovery := Some 0, recoveries := [\<lparr>tipGeneration = 0, paramsGeneration = 0,
      freshTip = None, rphase = FetchingTip\<rparr>], calls := [\<lparr>call_epoch = Some 500, call_phase = AwaitRecovery 0\<rparr>]\<rparr>"
  by (simp add: run5_def run4_state run3_state run2_state run_simps)

lemma run6_state: "run6 = run5\<lparr>recoveries := [\<lparr>tipGeneration = 0, paramsGeneration = 0,
      freshTip = Some (sample_tip 501), rphase = FetchingParams\<rparr>]\<rparr>"
  by (simp add: run6_def run5_state run_simps)

lemma run7_reachable: "cp_reachable ''s:'' run7"
proof -
  note states = run6_state run5_state run4_state run3_state run2_state
  have "cp_reachable ''s:'' run0" unfolding run0_def by (rule cp_start)
  then have "cp_reachable ''s:'' run1" unfolding run1_def by (rule cp_next) (rule cp_call)
  then have "cp_reachable ''s:'' run2"
    unfolding run2_def by (rule cp_next) (rule cp_tip_loaded, simp_all add: run1_state)
  moreover have "cp_step ''s:'' run2 (call_tip_ready ''s:'' 1 0 (as_tip (Inr (TipVal (sample_tip 500)) :: unit cached_value result)) run2)"
    by (rule cp_call_tip [where a = 0]) (simp_all add: run2_state promise_result_def)
  ultimately have "cp_reachable ''s:'' run3" unfolding run3_def as_tip.simps by (rule cp_next)
  then have "cp_reachable ''s:'' run4"
    unfolding run4_def by (rule cp_next) (rule cp_params_loaded, simp_all add: run3_state run2_state)
  then have "cp_reachable ''s:'' run5"
    unfolding run5_def
    by (rule cp_next) (rule cp_call_params [where a = 1], simp_all add: run4_state run3_state run2_state promise_result_def)
  then have "cp_reachable ''s:'' run6"
    unfolding run6_def by (rule cp_next) (rule cp_recovery_tip, simp_all add: run5_state)
  then show ?thesis
    unfolding run7_def by (rule cp_next) (rule cp_recovery_params, simp_all add: run6_state)
qed

theorem cached_params_epoch_witness:
  "\<exists>p. scoped_peek ''s:'' 4 (params_key 501) (cp_cache run7) = Some (ParamsVal p) \<and> pp_epoch p = 501"
proof -
  have "params_key 500 \<noteq> params_key 501" by (simp add: params_key_inj)
  then have "scoped_peek ''s:'' 4 (params_key 501) (cp_cache run7) = Some (ParamsVal (sample_params 501))"
    using keys_apart [of 501] keys_apart [of 500]
    by (simp add: run7_def run6_state run5_state run4_state run3_state run2_state run_simps PROTOCOL_PARAMS_TTL_MS_def)
  then show ?thesis using cached_params_epoch [OF run7_reachable] by blast
qed

end
