(* ===== verification/Koios_Client.thy ===== *)
theory Koios_Client
  imports Transport Koios_Schema
begin

text \<open>
  \<^verbatim>\<open>src/providers/koios/client.ts\<close>: one authenticated, timed-out, error-mapped, validated and retried
  call per method, and the paging and packing built on it.  The one mutable value of the client, its
  i_body limit, is a field of the world; a closure of \<open>createKoiosClient\<close> is a definition that takes the
  client's settings and the network.
\<close>

section \<open>Settings\<close>

definition KOIOS_READ_ATTEMPTS :: int where "KOIOS_READ_ATTEMPTS = 3"
definition KOIOS_MAX_READ_ATTEMPTS :: int where "KOIOS_MAX_READ_ATTEMPTS = 100"
definition KOIOS_BACKOFF_MS :: int where "KOIOS_BACKOFF_MS = 150"
definition KOIOS_TIMEOUT_MS :: int where "KOIOS_TIMEOUT_MS = 10000"
definition MAX_TIMER_MS :: int where "MAX_TIMER_MS = 2147483647"
definition KOIOS_PAGE_SIZE :: nat where "KOIOS_PAGE_SIZE = 1000"
definition KOIOS_MAX_PAGED_ROWS :: nat where "KOIOS_MAX_PAGED_ROWS = 100000"
definition HEAVY_TIMEOUT_MS :: int where "HEAVY_TIMEOUT_MS = 15000"

definition HEAVY_PATHS :: "string list" where
  "HEAVY_PATHS = [
     ''/pool_info'', ''/pool_list'', ''/tx_info'', ''/asset_info'', ''/drep_info'', ''/drep_metadata'',
     ''/account_utxos'', ''/account_txs'', ''/address_utxos'', ''/address_utxos'', ''/address_txs'',
     ''/credential_txs'']"

definition timeoutFor :: "string \<Rightarrow> int \<Rightarrow> int \<Rightarrow> int" where
  "timeoutFor path base heavy =
     (if \<exists>p \<in> set HEAVY_PATHS. take (length p) path = p then heavy else base)"

record KoiosConfig =
  cfgBaseUrl :: string
  cfgToken :: "string option"
  cfgTimeoutMs :: "jsnum option"
  cfgHeavyTimeoutMs :: "jsnum option"
  cfgReadAttempts :: "jsnum option"
  cfgRetryBackoffMs :: "jsnum option"
  cfgBodyLimitBytes :: "jsnum option"

text \<open>What the closures of a client capture.\<close>

record koios_client =
  kc_baseUrl :: string
  kc_token :: "string option"
  kc_timeoutMs :: int
  kc_heavyTimeoutMs :: int
  kc_readAttempts :: nat
  kc_backoffMs :: int

record 's kworld =
  bodyLimit :: nat
  kouter :: 's

definition asReadAttempts :: "jsnum option \<Rightarrow> nat result" where
  "asReadAttempts value =
     (let attempts = (case value of None \<Rightarrow> js_of_int KOIOS_READ_ATTEMPTS | Some v \<Rightarrow> v) in
      if \<not> js_isSafeInteger attempts \<or> js_less attempts (js_of_int 1) \<or>
         js_less (js_of_int KOIOS_MAX_READ_ATTEMPTS) attempts
      then Inl (JsRangeError ''readAttempts must be a safe integer in [1, 100]; use 1 to disable retries'')
      else Inr (nat (js_int attempts)))"

definition asBoundedNumber :: "jsnum option \<Rightarrow> int \<Rightarrow> string \<Rightarrow> int \<Rightarrow> int \<Rightarrow> int result" where
  "asBoundedNumber value fallback name lo hi =
     (let r = (case value of None \<Rightarrow> js_of_int fallback | Some v \<Rightarrow> v) in
      if \<not> js_isSafeInteger r \<or> js_less r (js_of_int lo) \<or> js_less (js_of_int hi) r
      then Inl (ConfigError (''koios '' @ name @ '' must be a safe integer in ['' @
                  string_of_int lo @ '', '' @ string_of_int hi @ '']''))
      else Inr (js_int r))"

text \<open>The client and its first body limit.\<close>

definition createKoiosClient :: "KoiosConfig \<Rightarrow> (koios_client \<times> nat) result" where
  "createKoiosClient config =
     bindE (asBoundedNumber (cfgTimeoutMs config) KOIOS_TIMEOUT_MS ''timeoutMs'' 1 MAX_TIMER_MS) (\<lambda>timeout.
     bindE (asBoundedNumber (cfgHeavyTimeoutMs config) HEAVY_TIMEOUT_MS ''heavyTimeoutMs'' 1 MAX_TIMER_MS) (\<lambda>heavy.
     bindE (asBoundedNumber (cfgBodyLimitBytes config) (int KOIOS_BODY_LIMIT_BYTES) ''bodyLimitBytes'' 1
              MAX_SAFE_INTEGER) (\<lambda>limit.
     bindE (asReadAttempts (cfgReadAttempts config)) (\<lambda>attempts.
     bindE (asBoundedNumber (cfgRetryBackoffMs config) KOIOS_BACKOFF_MS ''retryBackoffMs'' 0 MAX_TIMER_MS) (\<lambda>backoff.
     Inr (\<lparr>kc_baseUrl = strip_slashes (cfgBaseUrl config), kc_token = cfgToken config, kc_timeoutMs = timeout,
           kc_heavyTimeoutMs = heavy, kc_readAttempts = attempts, kc_backoffMs = backoff\<rparr>, nat limit))))))"

section \<open>One request\<close>

record request_init =
  i_method :: string
  i_body :: http_body
  i_contentType :: "string option"
  i_headers :: "(string, string) js_map"
  i_displayPath :: "string option"

definition get_init :: request_init where
  "get_init = \<lparr>i_method = ''GET'', i_body = NoBody, i_contentType = None, i_headers = [], i_displayPath = None\<rparr>"

definition post_json :: "json \<Rightarrow> request_init" where
  "post_json b = \<lparr>i_method = ''POST'', i_body = TextBody (stringify b),
     i_contentType = Some ''application/json'', i_headers = [], i_displayPath = None\<rparr>"

record 'j ResponseWithMetadata =
  rm_data :: "'j jvalue"
  rm_status :: nat
  rm_contentRange :: "string option"

text \<open>\<open>if (x)\<close> on an optional string.\<close>

definition truthy :: "string option \<Rightarrow> bool" where
  "truthy v \<longleftrightarrow> v \<noteq> None \<and> v \<noteq> Some []"

definition koios_http_request :: "koios_client \<Rightarrow> string \<Rightarrow> request_init \<Rightarrow> http_request" where
  "koios_http_request c path i =
     (let h1 = fold (\<lambda>(k, v). jm_set k v) (i_headers i) [(''accept'', ''application/json'')];
          h2 = (if truthy (kc_token c) then jm_set ''authorization'' (''Bearer '' @ the (kc_token c)) h1 else h1);
          h3 = (if truthy (i_contentType i) then jm_set ''content-type'' (the (i_contentType i)) h2 else h2)
      in \<lparr>req_url = kc_baseUrl c @ path, req_method = i_method i, req_headers = h3, req_body = i_body i,
          req_timeout = timeoutFor path (kc_timeoutMs c) (kc_heavyTimeoutMs c), req_redirect = None\<rparr>)"

definition koios_fetch ::
  "('s, 'j) net \<Rightarrow> http_request \<Rightarrow> 's kworld \<Rightarrow> 'j fetch_outcome \<times> 's kworld" where
  "koios_fetch n req w = (case doFetch n req (kouter w) of (r, s') \<Rightarrow> (r, w\<lparr>kouter := s'\<rparr>))"

definition requestWithMetadata :: "koios_client \<Rightarrow> ('s, 'j) net \<Rightarrow> string \<Rightarrow> request_init \<Rightarrow>
    ('s kworld, 'j ResponseWithMetadata) io_result" where
  "requestWithMetadata c n path i w =
     (let named = (case i_displayPath i of None \<Rightarrow> path | Some p \<Rightarrow> p) in
      case koios_fetch n (koios_http_request c path i) w of
        (FetchTimeout, w') \<Rightarrow> (Inl (ProviderTimeoutError (''koios request timed out: '' @ named)), w')
      | (FetchFailed, w') \<Rightarrow> (Inl (ProviderError (''koios request failed: '' @ named) None None), w')
      | (FetchResponse res, w') \<Rightarrow>
          (if \<not> res_ok res then
             let text = (case res_text res of None \<Rightarrow> [] | Some t \<Rightarrow> t) in
             Inl (ProviderError (''koios returned '' @ string_of_nat (res_status res) @ '' for '' @ named)
                   (Some (res_status res)) (Some (take 500 text)))
           else case res_json res of
             JsonOk d \<Rightarrow> Inr \<lparr>rm_data = d, rm_status = res_status res,
                           rm_contentRange = res_header res ''content-range''\<rparr>
           | JsonTimeout \<Rightarrow> Inl (ProviderTimeoutError (''koios response timed out: '' @ named))
           | JsonInvalid \<Rightarrow> Inl (MalformedUpstreamError (''koios returned invalid json for '' @ named)), w'))"

definition koios_request_data :: "koios_client \<Rightarrow> ('s, 'j) net \<Rightarrow> string \<Rightarrow> request_init \<Rightarrow>
    ('s kworld, 'j jvalue) io_result" where
  "koios_request_data c n path i = bindIO (requestWithMetadata c n path i) (\<lambda>r. returnIO (rm_data r))"

definition koios_parse :: "('j, 'a) schema \<Rightarrow> 'j jvalue \<Rightarrow> string \<Rightarrow> 'a result" where
  "koios_parse sch d path = (case sch d of
     None \<Rightarrow> Inl (MalformedUpstreamError (''koios response shape mismatch for '' @ path))
   | Some a \<Rightarrow> Inr a)"

section \<open>Retries\<close>

fun koios_isTransient :: "thrown \<Rightarrow> bool" where
  "koios_isTransient (ProviderTimeoutError _) = True"
| "koios_isTransient (MalformedUpstreamError _) = True"
| "koios_isTransient (ProviderError _ st _) = (case st of None \<Rightarrow> True | Some s \<Rightarrow> s \<ge> 500)"
| "koios_isTransient CreationBlockRolledBackError = True"
| "koios_isTransient _ = False"

interpretation koios_retry: retry_policy koios_isTransient
proof unfold_locales
  fix e and st :: nat
  assume "koios_isTransient e"
  then show "code_of e \<in> {Some UPSTREAM_ERROR, Some UPSTREAM_TIMEOUT, Some UPSTREAM_MALFORMED}"
    by (cases e) auto
  assume "upstreamStatus_of e = Some st"
  with \<open>koios_isTransient e\<close> show "500 \<le> st" by (cases e) auto
qed

definition retry_event :: "string \<Rightarrow> nat \<Rightarrow> nat \<Rightarrow> thrown \<Rightarrow> RetryEvent" where
  "retry_event path attempt attempts e =
     \<lparr>ev_path = path, ev_attempt = attempt, ev_attempts = attempts,
      ev_code = (case code_of e of None \<Rightarrow> INTERNAL | Some c \<Rightarrow> c), ev_message = message_of e\<rparr>"

definition koios_onFail ::
  "koios_client \<Rightarrow> ('s, 'j) net \<Rightarrow> string \<Rightarrow> nat \<Rightarrow> thrown \<Rightarrow> 's kworld \<Rightarrow> 's kworld" where
  "koios_onFail c n path attempt e w =
     w\<lparr>kouter := delayImpl n (kc_backoffMs c * int attempt)
        (onRetry n (retry_event path attempt (kc_readAttempts c) e) (kouter w))\<rparr>"

definition koios_read :: "koios_client \<Rightarrow> ('s, 'j) net \<Rightarrow> string \<Rightarrow> ('s kworld, 'a) io_result \<Rightarrow>
    ('s kworld, 'a) io_result" where
  "koios_read c n path load = retry_loop koios_isTransient (kc_readAttempts c) (koios_onFail c n path) load 1"

section \<open>Plain reads and the write\<close>

definition koios_get :: "koios_client \<Rightarrow> ('s, 'j) net \<Rightarrow> ('j, 'a) schema \<Rightarrow> string \<Rightarrow>
    ('s kworld, 'a) io_result" where
  "koios_get c n sch path =
     koios_read c n path (bindIO (koios_request_data c n path get_init) (\<lambda>d. liftE (koios_parse sch d path)))"

definition koios_getFirst :: "koios_client \<Rightarrow> ('s, 'j) net \<Rightarrow> ('j \<Rightarrow> 'a option) \<Rightarrow> string \<Rightarrow>
    ('s kworld, 'a) io_result" where
  "koios_getFirst c n row path =
     koios_read c n path (bindIO (koios_request_data c n path get_init) (\<lambda>d. liftE (
       bindE (koios_parse (z_array Some) d path) (\<lambda>rows.
         case rows of
           [] \<Rightarrow> Inl (MalformedUpstreamError (''koios returned no rows for '' @ path))
         | r # _ \<Rightarrow> (case row r of
             None \<Rightarrow> Inl (MalformedUpstreamError (''koios response shape mismatch for '' @ path))
           | Some a \<Rightarrow> Inr a)))))"

definition koios_batch :: "koios_client \<Rightarrow> ('s, 'j) net \<Rightarrow> ('j, 'a) schema \<Rightarrow> string \<Rightarrow> json \<Rightarrow>
    ('s kworld, 'a) io_result" where
  "koios_batch c n sch path b =
     koios_read c n path (bindIO (koios_request_data c n path (post_json b)) (\<lambda>d. liftE (koios_parse sch d path)))"

definition koios_submit :: "koios_client \<Rightarrow> ('s, 'j) net \<Rightarrow> ('j, 'a) schema \<Rightarrow> string \<Rightarrow> string \<Rightarrow> string \<Rightarrow>
    ('s kworld, 'a) io_result" where
  "koios_submit c n sch path bytes ct =
     bindIO (koios_request_data c n path \<lparr>i_method = ''POST'', i_body = BytesBody bytes, i_contentType = Some ct,
                               i_headers = [], i_displayPath = None\<rparr>)
       (\<lambda>d. liftE (koios_parse sch d path))"

section \<open>\<open>Content-Range\<close>\<close>

datatype KoiosContentRange = RangeTotal nat | RangeSpan nat nat nat

definition safe_nat :: "nat \<Rightarrow> bool" where
  "safe_nat n \<longleftrightarrow> isSafeInteger (int n)"

text \<open>\<open>/^(\d+)\<dots>/\<close>: the digits at the front, and the rest.\<close>

definition digits_prefix :: "string \<Rightarrow> string \<times> string" where
  "digits_prefix s = (takeWhile is_digit s, dropWhile is_digit s)"

definition match_empty :: "string \<Rightarrow> string option" where
  "match_empty v = (case v of
     a # b # ds \<Rightarrow> if a = CHR ''*'' \<and> b = CHR ''/'' \<and> all_digits ds then Some ds else None
   | _ \<Rightarrow> None)"

definition match_span :: "string \<Rightarrow> (string \<times> string \<times> string) option" where
  "match_span v =
     (case digits_prefix v of (a, r1) \<Rightarrow>
      case r1 of [] \<Rightarrow> None | x # r1' \<Rightarrow>
      case digits_prefix r1' of (b, r2) \<Rightarrow>
      case r2 of [] \<Rightarrow> None | y # r2' \<Rightarrow>
        if a \<noteq> [] \<and> x = CHR ''-'' \<and> b \<noteq> [] \<and> y = CHR ''/'' \<and> all_digits r2'
        then Some (a, b, r2') else None)"

definition parseContentRange :: "string \<Rightarrow> string \<Rightarrow> KoiosContentRange result" where
  "parseContentRange v path =
     (let contradictory =
        Inl (MalformedUpstreamError (''koios returned contradictory Content-Range for '' @ path)) in
      case match_empty v of
        Some ds \<Rightarrow>
          let total = nat_of_string ds in
          if \<not> safe_nat total then contradictory else Inr (RangeTotal total)
      | None \<Rightarrow>
        (case match_span v of
          None \<Rightarrow> Inl (MalformedUpstreamError (''koios returned invalid Content-Range for '' @ path))
        | Some (a, b, t) \<Rightarrow>
          let start = nat_of_string a; fin = nat_of_string b; total = nat_of_string t in
          if \<not> safe_nat start \<or> \<not> safe_nat fin \<or> \<not> safe_nat total \<or> fin < start \<or> total \<le> fin
          then contradictory else Inr (RangeSpan start fin total)))"

record 'row KoiosBatchPage =
  pg_rows :: "'row list"
  pg_status :: nat
  pg_range :: "KoiosContentRange option"

definition count_exact :: "(string, string) js_map" where
  "count_exact = [(''prefer'', ''count=exact'')]"

definition koios_batchPageOnce :: "koios_client \<Rightarrow> ('s, 'j) net \<Rightarrow> ('j \<Rightarrow> 'row option) \<Rightarrow> string \<Rightarrow> json \<Rightarrow>
    ('s kworld, 'row KoiosBatchPage) io_result" where
  "koios_batchPageOnce c n row path b =
     bindIO (requestWithMetadata c n path ((post_json b)\<lparr>i_headers := count_exact\<rparr>)) (\<lambda>r. liftE (
       bindE (koios_parse (z_array row) (rm_data r) path) (\<lambda>rows.
       bindE (case rm_contentRange r of None \<Rightarrow> Inr None
              | Some v \<Rightarrow> bindE (parseContentRange v path) (\<lambda>x. Inr (Some x))) (\<lambda>range.
       Inr \<lparr>pg_rows = rows, pg_status = rm_status r, pg_range = range\<rparr>))))"

section \<open>Facts about one request\<close>

lemma request_logged:
  obtains s' where "snd (requestWithMetadata c (logged n) path i w) =
      w\<lparr>kouter := (s', snd (kouter w) @ [koios_http_request c path i])\<rparr>"
    and "fst (requestWithMetadata c (logged n) path i w) =
      fst (requestWithMetadata c n path i \<lparr>bodyLimit = bodyLimit w, kouter = fst (kouter w)\<rparr>)"
proof -
  let ?req = "koios_http_request c path i"
  obtain r s' where r: "doFetch n ?req (fst (kouter w)) = (r, s')" by fastforce
  then have f: "koios_fetch (logged n) ?req w = (r, w\<lparr>kouter := (s', snd (kouter w) @ [?req])\<rparr>)"
      "koios_fetch n ?req \<lparr>bodyLimit = bodyLimit w, kouter = fst (kouter w)\<rparr> =
         (r, \<lparr>bodyLimit = bodyLimit w, kouter = s'\<rparr>)"
    by (simp_all add: koios_fetch_def doFetch_logged)
  show thesis
    by (rule that [of s'])
      (cases r; simp add: requestWithMetadata_def f Let_def)+
qed

lemma koios_request_data_state:
  "snd (koios_request_data c n path i w) = snd (requestWithMetadata c n path i w)"
  by (simp add: koios_request_data_def bindIO_def returnIO_def split: prod.split sum.split)

lemma bindIO_liftE_state: "snd (bindIO m (\<lambda>d. liftE (f d)) w) = snd (m w)"
  by (simp add: bindIO_def liftE_def split: prod.split sum.split)

lemma koios_onFail_log:
  "snd (kouter (koios_onFail c (logged n) path k e w)) = snd (kouter w)"
  by (simp add: koios_onFail_def)

text \<open>Nothing in a request touches the body limit.\<close>

lemma requestWithMetadata_bodyLimit [simp]:
  "bodyLimit (snd (requestWithMetadata c n path i w)) = bodyLimit w"
  by (auto simp: requestWithMetadata_def koios_fetch_def Let_def split: prod.split fetch_outcome.split)

text \<open>A read whose attempt sends one request sends it at most as often as it may be attempted.\<close>

lemma koios_read_log:
  assumes "\<And>w. snd (kouter (snd (load w))) = snd (kouter w) @ [req]"
    and "1 \<le> kc_readAttempts c"
  shows "\<exists>m. 1 \<le> m \<and> m \<le> kc_readAttempts c \<and>
    snd (kouter (snd (koios_read c (logged n) path load w))) = snd (kouter w) @ replicate m req"
proof -
  have "\<exists>m. 1 \<le> m \<and> m \<le> Suc limit - attempt \<and>
      snd (kouter (snd (retry_loop koios_isTransient limit (koios_onFail c (logged n) path) load attempt w))) =
      snd (kouter w) @ replicate m req" if "attempt \<le> limit" for attempt limit w
    using that
  proof (induction "limit - attempt" arbitrary: attempt w)
    case 0
    obtain r w' where l: "load w = (r, w')" by fastforce
    with assms(1) [of w] 0 show ?case
      by (intro exI [of _ 1]) (cases r; simp add: retry_loop.simps [of _ _ _ _ attempt])
  next
    case (Suc d)
    obtain r w' where l: "load w = (r, w')" by fastforce
    have w': "snd (kouter w') = snd (kouter w) @ [req]" using assms(1) [of w] l by simp
    show ?case
    proof (cases "\<exists>e. r = Inl e \<and> koios_isTransient e")
      case True
      then obtain e where e: "r = Inl e" "koios_isTransient e" by blast
      let ?w = "koios_onFail c (logged n) path attempt e w'"
      have d: "d = limit - Suc attempt" "Suc attempt \<le> limit" using Suc.hyps(2) by auto
      obtain m where m: "1 \<le> m" "m \<le> Suc limit - Suc attempt"
        "snd (kouter (snd (retry_loop koios_isTransient limit (koios_onFail c (logged n) path) load
           (Suc attempt) ?w))) = snd (kouter ?w) @ replicate m req"
        using Suc.hyps(1) [OF d, of ?w] by blast
      show ?thesis
        by (rule exI [of _ "Suc m"])
          (use m l e w' Suc.hyps(2) in \<open>auto simp: retry_loop.simps [of _ _ _ _ attempt] koios_onFail_log\<close>)
    next
      case False
      then show ?thesis
        by (intro exI [of _ 1])
          (use l w' Suc.prems in \<open>cases r; auto simp: retry_loop.simps [of _ _ _ _ attempt]\<close>)
    qed
  qed
  from this [of 1 "kc_readAttempts c" w] assms(2) show ?thesis by (simp add: koios_read_def)
qed

lemma asBoundedNumber_Inr:
  "asBoundedNumber v d name lo hi = Inr i \<longleftrightarrow>
     (case v of None \<Rightarrow> i = d \<and> isSafeInteger d \<and> lo \<le> d \<and> d \<le> hi
      | Some x \<Rightarrow> x = js_of_int i \<and> isSafeInteger i \<and> lo \<le> i \<and> i \<le> hi)"
proof -
  have "asBoundedNumber v d name lo hi = Inr i \<longleftrightarrow>
      safe_in_range (case v of None \<Rightarrow> js_of_int d | Some x \<Rightarrow> x) lo hi \<and>
      i = js_int (case v of None \<Rightarrow> js_of_int d | Some x \<Rightarrow> x)"
    by (auto simp: asBoundedNumber_def safe_in_range_def Let_def)
  then show ?thesis
    by (auto simp: safe_in_range_iff js_of_int_def split: option.split)
qed

lemma asReadAttempts_Inr:
  "asReadAttempts v = Inr k \<longleftrightarrow>
     (case v of None \<Rightarrow> k = 3 | Some x \<Rightarrow> x = js_of_int (int k) \<and> 1 \<le> k \<and> k \<le> 100)"
proof -
  let ?x = "case v of None \<Rightarrow> js_of_int KOIOS_READ_ATTEMPTS | Some x \<Rightarrow> x"
  have "asReadAttempts v = Inr k \<longleftrightarrow>
      safe_in_range ?x 1 KOIOS_MAX_READ_ATTEMPTS \<and> k = nat (js_int ?x)"
    unfolding asReadAttempts_def safe_in_range_def Let_def by auto
  also have "\<dots> \<longleftrightarrow> (case v of None \<Rightarrow> k = 3 | Some x \<Rightarrow> x = js_of_int (int k) \<and> 1 \<le> k \<and> k \<le> 100)"
    (is "?L \<longleftrightarrow> ?R")
  proof (cases v)
    case None
    then show ?thesis
      by (simp add: safe_in_range_def js_of_int_def isSafeInteger_def MAX_SAFE_INTEGER_def
          KOIOS_READ_ATTEMPTS_def KOIOS_MAX_READ_ATTEMPTS_def)
  next
    case (Some x)
    have "?L \<longleftrightarrow> (\<exists>i. x = js_of_int i \<and> isSafeInteger i \<and> 1 \<le> i \<and> i \<le> 100 \<and> k = nat i)"
      using Some by (auto simp: safe_in_range_iff KOIOS_MAX_READ_ATTEMPTS_def)
    also have "\<dots> \<longleftrightarrow> x = js_of_int (int k) \<and> 1 \<le> k \<and> k \<le> 100"
    proof
      assume "x = js_of_int (int k) \<and> 1 \<le> k \<and> k \<le> 100"
      then show "\<exists>i. x = js_of_int i \<and> isSafeInteger i \<and> 1 \<le> i \<and> i \<le> 100 \<and> k = nat i"
        by (intro exI [of _ "int k"]) (simp add: isSafeInteger_def MAX_SAFE_INTEGER_def)
    qed auto
    finally show ?thesis using Some by simp
  qed
  finally show ?thesis .
qed

lemma createKoiosClient_Inr:
  assumes "createKoiosClient config = Inr (c, limit)"
  shows "asBoundedNumber (cfgTimeoutMs config) 10000 ''timeoutMs'' 1 2147483647 = Inr (kc_timeoutMs c)"
    and "asBoundedNumber (cfgHeavyTimeoutMs config) 15000 ''heavyTimeoutMs'' 1 2147483647 =
           Inr (kc_heavyTimeoutMs c)"
    and "\<exists>l. asBoundedNumber (cfgBodyLimitBytes config) 5120 ''bodyLimitBytes'' 1 MAX_SAFE_INTEGER = Inr l \<and>
           limit = nat l"
    and "asReadAttempts (cfgReadAttempts config) = Inr (kc_readAttempts c)"
    and "asBoundedNumber (cfgRetryBackoffMs config) 150 ''retryBackoffMs'' 0 2147483647 = Inr (kc_backoffMs c)"
    and "kc_baseUrl c = strip_slashes (cfgBaseUrl config)"
  using assms
  by (auto simp: createKoiosClient_def bindE_Inr_conv MAX_TIMER_MS_def
      KOIOS_TIMEOUT_MS_def HEAVY_TIMEOUT_MS_def KOIOS_BACKOFF_MS_def KOIOS_BODY_LIMIT_BYTES_def)

lemma asBoundedNumber_range: "asBoundedNumber v d name lo hi = Inr i \<Longrightarrow> lo \<le> i \<and> i \<le> hi"
  by (auto simp: asBoundedNumber_Inr split: option.splits)

lemma asBoundedNumber_given: "asBoundedNumber v d name lo hi = Inr i \<Longrightarrow> v \<in> {None, Some (js_of_int i)}"
  by (auto simp: asBoundedNumber_Inr split: option.splits)

lemma createKoiosClient_attempts:
  "createKoiosClient config = Inr (c, limit) \<Longrightarrow> 1 \<le> kc_readAttempts c \<and> kc_readAttempts c \<le> 100"
  by (drule createKoiosClient_Inr(4)) (auto simp: asReadAttempts_Inr split: option.splits)

section \<open>Properties\<close>

text \<open>
  A client is only made from settings the retry loop and the timers can rely on: both timeouts and
  the backoff are integers a 32-bit timer can hold, the attempts are from 1 to 100, the body limit is
  positive, the base URL has no trailing slash, and a setting that was given is the one used.
\<close>

theorem createKoiosClient_bounds:
  assumes "createKoiosClient config = Inr (c, limit)"
  shows "1 \<le> kc_timeoutMs c \<and> kc_timeoutMs c < 2 ^ 31 \<and>
    1 \<le> kc_heavyTimeoutMs c \<and> kc_heavyTimeoutMs c < 2 ^ 31 \<and>
    0 \<le> kc_backoffMs c \<and> kc_backoffMs c < 2 ^ 31 \<and>
    1 \<le> kc_readAttempts c \<and> kc_readAttempts c \<le> 100 \<and> 1 \<le> limit \<and>
    (kc_baseUrl c = [] \<or> last (kc_baseUrl c) \<noteq> CHR ''/'') \<and>
    cfgReadAttempts config \<in> {None, Some (js_of_int (int (kc_readAttempts c)))} \<and>
    cfgBodyLimitBytes config \<in> {None, Some (js_of_int (int limit))}"
proof -
  note c = createKoiosClient_Inr [OF assms]
  obtain l where l: "asBoundedNumber (cfgBodyLimitBytes config) 5120 ''bodyLimitBytes'' 1 MAX_SAFE_INTEGER = Inr l"
    "limit = nat l" using c(3) by blast
  have "1 \<le> kc_readAttempts c \<and> kc_readAttempts c \<le> 100"
    "cfgReadAttempts config \<in> {None, Some (js_of_int (int (kc_readAttempts c)))}"
    using c(4) by (auto simp: asReadAttempts_Inr split: option.splits)
  moreover have "kc_baseUrl c = [] \<or> last (kc_baseUrl c) \<noteq> CHR ''/''"
    using strip_slashes_end by (simp add: c(6))
  moreover have "1 \<le> limit" "cfgBodyLimitBytes config \<in> {None, Some (js_of_int (int limit))}"
    using asBoundedNumber_range [OF l(1)] asBoundedNumber_given [OF l(1)] l(2) by auto
  ultimately show ?thesis
    using asBoundedNumber_range [OF c(1)] asBoundedNumber_range [OF c(2)] asBoundedNumber_range [OF c(5)]
    by simp
qed

definition default_config :: KoiosConfig where
  "default_config = \<lparr>cfgBaseUrl = ''https://api.koios.rest/api/v1/'', cfgToken = None,
     cfgTimeoutMs = None, cfgHeavyTimeoutMs = None, cfgReadAttempts = Some (JsNum 2),
     cfgRetryBackoffMs = None, cfgBodyLimitBytes = None\<rparr>"

definition default_client :: koios_client where
  "default_client = \<lparr>kc_baseUrl = ''https://api.koios.rest/api/v1'', kc_token = None,
     kc_timeoutMs = 10000, kc_heavyTimeoutMs = 15000, kc_readAttempts = 2, kc_backoffMs = 150\<rparr>"

lemma createKoiosClient_default: "createKoiosClient default_config = Inr (default_client, 5120)"
  by (simp add: createKoiosClient_def default_config_def default_client_def asBoundedNumber_def
      asReadAttempts_def KOIOS_MAX_READ_ATTEMPTS_def MAX_TIMER_MS_def KOIOS_TIMEOUT_MS_def
      HEAVY_TIMEOUT_MS_def KOIOS_BACKOFF_MS_def KOIOS_BODY_LIMIT_BYTES_def isSafeInteger_def
      MAX_SAFE_INTEGER_def js_of_int_def strip_slashes_def)

theorem createKoiosClient_bounds_witness:
  "1 \<le> kc_readAttempts default_client \<and> kc_timeoutMs default_client < 2 ^ 31"
  using createKoiosClient_bounds [OF createKoiosClient_default] by simp

text \<open>
  C1: a transaction is sent at most once.  Whatever upstream answers (a timeout, a reset connection, a
  500, a 200 that is not JSON, a shape mismatch), \<open>submit\<close> issues exactly one request, the POST that
  carries the caller's bytes, and it returns a value only when upstream answered it with success and a
  body the schema accepts.
\<close>

theorem koios_submit_once:
  "snd (kouter (snd (koios_submit c (logged n) sch path bytes ct w))) = snd (kouter w) @
     [koios_http_request c path \<lparr>i_method = ''POST'', i_body = BytesBody bytes, i_contentType = Some ct,
        i_headers = [], i_displayPath = None\<rparr>] \<and>
   (\<forall>a. fst (koios_submit c n sch path bytes ct v) = Inr a \<longrightarrow>
      (\<exists>res d. fst (doFetch n (koios_http_request c path \<lparr>i_method = ''POST'', i_body = BytesBody bytes,
          i_contentType = Some ct, i_headers = [], i_displayPath = None\<rparr>) (kouter v)) =
          FetchResponse res \<and> res_ok res \<and> res_json res = JsonOk d \<and> sch d = Some a))"
  (is "?once \<and> ?ok")
proof
  let ?i = "\<lparr>i_method = ''POST'', i_body = BytesBody bytes, i_contentType = Some ct,
    i_headers = [], i_displayPath = None\<rparr>"
  obtain s' where "snd (requestWithMetadata c (logged n) path ?i w) =
      w\<lparr>kouter := (s', snd (kouter w) @ [koios_http_request c path ?i])\<rparr>"
    by (rule request_logged)
  then show ?once
    by (simp add: koios_submit_def bindIO_liftE_state koios_request_data_state)
  show ?ok
    by (auto simp: koios_submit_def koios_request_data_def bindIO_def liftE_def returnIO_def
        requestWithMetadata_def koios_fetch_def koios_parse_def Let_def
        split: prod.splits sum.splits fetch_outcome.splits if_splits json_outcome.splits option.splits)
qed

theorem koios_submit_once_witness:
  "snd (kouter (snd (koios_submit default_client
      (logged \<lparr>doFetch = (\<lambda>r s. (FetchTimeout :: int fetch_outcome, s)), delayImpl = (\<lambda>ms s. s), onRetry = (\<lambda>e s. s)\<rparr>)
      (\<lambda>d. Some d) ''/submittx'' ''x'' ''application/cbor'' \<lparr>bodyLimit = 5120, kouter = ((), [])\<rparr>))) =
   [koios_http_request default_client ''/submittx'' \<lparr>i_method = ''POST'', i_body = BytesBody ''x'',
      i_contentType = Some ''application/cbor'', i_headers = [], i_displayPath = None\<rparr>]"
  by (subst koios_submit_once [THEN conjunct1]) simp

text \<open>
  A read on a client the constructor accepted sends its one GET request at least once and at most
  the allowed number of attempts (never more than 100 times), every time the same request, and ends
  with what its last attempt gave: every earlier attempt failed transiently, and it fails only with an
  error that is not transient or when the attempts are used up.
\<close>

theorem koios_get_attempts:
  assumes "createKoiosClient config = Inr (c, limit)"
  shows "(\<exists>m. 1 \<le> m \<and> m \<le> kc_readAttempts c \<and> m \<le> 100 \<and>
      snd (kouter (snd (koios_get c (logged n) sch path w))) =
      snd (kouter w) @ replicate m (koios_http_request c path get_init)) \<and>
    (\<exists>tr. retry_outcome koios_isTransient (kc_readAttempts c) (fst (koios_get c n sch path v)) tr)"
proof
  let ?load = "\<lambda>n. bindIO (koios_request_data c n path get_init) (\<lambda>d. liftE (koios_parse sch d path))"
  have att: "1 \<le> kc_readAttempts c" "kc_readAttempts c \<le> 100"
    using createKoiosClient_attempts [OF assms] by auto
  have "snd (kouter (snd (?load (logged n) w))) = snd (kouter w) @ [koios_http_request c path get_init]" for w
  proof -
    obtain s' where "snd (requestWithMetadata c (logged n) path get_init w) =
        w\<lparr>kouter := (s', snd (kouter w) @ [koios_http_request c path get_init])\<rparr>"
      by (rule request_logged)
    then show ?thesis by (simp add: bindIO_liftE_state koios_request_data_state)
  qed
  from koios_read_log [OF this att(1), of n path w] att(2)
  show "\<exists>m. 1 \<le> m \<and> m \<le> kc_readAttempts c \<and> m \<le> 100 \<and>
      snd (kouter (snd (koios_get c (logged n) sch path w))) =
      snd (kouter w) @ replicate m (koios_http_request c path get_init)"
    by (auto simp: koios_get_def)
  show "\<exists>tr. retry_outcome koios_isTransient (kc_readAttempts c) (fst (koios_get c n sch path v)) tr"
    using retry_loop_outcome [OF att(1), of koios_isTransient "koios_onFail c n path" "?load n" v]
    by (auto simp: koios_get_def koios_read_def)
qed

theorem koios_get_attempts_witness:
  "\<exists>m. 1 \<le> m \<and> m \<le> kc_readAttempts default_client \<and> m \<le> 100 \<and>
     snd (kouter (snd (koios_get default_client
      (logged \<lparr>doFetch = (\<lambda>r s. (FetchTimeout :: int fetch_outcome, s)), delayImpl = (\<lambda>ms s. s), onRetry = (\<lambda>e s. s)\<rparr>)
      (\<lambda>d. Some d) ''/tip'' \<lparr>bodyLimit = 5120, kouter = ((), [])\<rparr>))) =
     [] @ replicate m (koios_http_request default_client ''/tip'' get_init)"
  using koios_get_attempts [OF createKoiosClient_default,
      of "\<lparr>doFetch = (\<lambda>r s. (FetchTimeout :: int fetch_outcome, s)), delayImpl = (\<lambda>ms s. s), onRetry = (\<lambda>e s. s)\<rparr>"
        "\<lambda>d. Some d" "''/tip''" "\<lparr>bodyLimit = 5120, kouter = ((), [])\<rparr>"]
  by simp

lemma takeWhile_digits_nat:
  "c = CHR ''-'' \<or> c = CHR ''/'' \<Longrightarrow>
     digits_prefix (string_of_nat n @ c # r) = (string_of_nat n, c # r)"
  using string_of_nat_digits [of n]
  by (auto simp: digits_prefix_def takeWhile_append dropWhile_append list_all_iff is_digit_def)

lemma string_of_nat_not_Nil [simp]: "string_of_nat n \<noteq> []"
  using string_of_nat_digits by blast

lemma match_empty_not_digits: "is_digit d \<Longrightarrow> match_empty (d # r) = None"
  by (auto simp: match_empty_def is_digit_def split: list.split)

lemma parseContentRange_text:
  "parseContentRange (string_of_nat a @ ''-'' @ string_of_nat b @ ''/'' @ string_of_nat t) path =
     (if safe_nat a \<and> safe_nat b \<and> safe_nat t \<and> a \<le> b \<and> b < t then Inr (RangeSpan a b t)
      else Inl (MalformedUpstreamError (''koios returned contradictory Content-Range for '' @ path)))"
proof -
  obtain d r where d: "string_of_nat a = d # r" "is_digit d"
    using string_of_nat_digits [of a] by (cases "string_of_nat a") auto
  have "match_empty (string_of_nat a @ ''-'' @ string_of_nat b @ ''/'' @ string_of_nat t) = None"
    using d by (simp add: match_empty_not_digits)
  moreover have "match_span (string_of_nat a @ ''-'' @ string_of_nat b @ ''/'' @ string_of_nat t) =
      Some (string_of_nat a, string_of_nat b, string_of_nat t)"
    by (simp add: match_span_def takeWhile_digits_nat string_of_nat_all_digits)
  ultimately show ?thesis
    by (auto simp: parseContentRange_def str_simps Let_def)
qed

text \<open>
  C17: \<open>parseContentRange\<close> reads exactly the ranges PostgREST writes: \<open>a-b/t\<close> gives back \<open>a\<close>, \<open>b\<close>
  and \<open>t\<close> when they are safe integers with \<open>a\<close> at most \<open>b\<close> and \<open>b\<close> below \<open>t\<close>, \<open>*/t\<close> gives back \<open>t\<close>,
  and a contradictory range is an upstream error, never a value.
\<close>

theorem parseContentRange_roundtrip:
  "parseContentRange (string_of_nat a @ ''-'' @ string_of_nat b @ ''/'' @ string_of_nat t) path =
     (if safe_nat a \<and> safe_nat b \<and> safe_nat t \<and> a \<le> b \<and> b < t then Inr (RangeSpan a b t)
      else Inl (MalformedUpstreamError (''koios returned contradictory Content-Range for '' @ path))) \<and>
   parseContentRange (''*/'' @ string_of_nat t) path =
     (if safe_nat t then Inr (RangeTotal t)
      else Inl (MalformedUpstreamError (''koios returned contradictory Content-Range for '' @ path)))"
  by (rule conjI [OF parseContentRange_text])
    (simp add: parseContentRange_def match_empty_def string_of_nat_all_digits str_simps)

end
