(* ===== verification/Koios_Paging.thy ===== *)
theory Koios_Paging
  imports Koios_Client
begin

text \<open>
  The paged batch reads of \<^verbatim>\<open>src/providers/koios/client.ts\<close>: \<open>walkBatchPages\<close>, the consistency check of
  \<open>batchAllPages\<close>, and the packing that learns a smaller body limit.
\<close>

section \<open>The page walk\<close>

record 'row paged_result =
  pr_rows :: "'row list"
  pr_keys :: "string list"
  pr_total :: nat
  pr_pageCount :: nat

text \<open>A keyset cursor: \<open>readonly [string, number]\<close>.\<close>

type_synonym cursor = "string \<times> int"

record 'row walk =
  wk_rows :: "'row list"
  wk_keys :: "string list"
  wk_seen :: "string set"
  wk_expectedStart :: nat
  wk_expectedTotal :: "nat option"
  wk_pageCount :: nat
  wk_lastCursor :: "cursor option"

definition walk_start :: "'row walk" where
  "walk_start = \<lparr>wk_rows = [], wk_keys = [], wk_seen = {}, wk_expectedStart = 0,
     wk_expectedTotal = None, wk_pageCount = 0, wk_lastCursor = None\<rparr>"

definition malformed :: "string \<Rightarrow> string \<Rightarrow> thrown" where
  "malformed what path = MalformedUpstreamError (what @ path)"

fun append_keys :: "string \<Rightarrow> ('row \<Rightarrow> string) \<Rightarrow> 'row list \<Rightarrow> string list \<times> string set \<Rightarrow>
    (string list \<times> string set) result" where
  "append_keys path rowKey [] ks = Inr ks"
| "append_keys path rowKey (r # rs) (keys, seen) =
     (let key = rowKey r in
      if key \<in> seen then Inl (malformed ''koios returned a duplicate row across pages for '' path)
      else append_keys path rowKey rs (keys @ [key], insert key seen))"

definition appendPage :: "string \<Rightarrow> ('row \<Rightarrow> string) option \<Rightarrow> 'row list \<Rightarrow> 'row walk \<Rightarrow> 'row walk result" where
  "appendPage path rowKey page w =
     (case rowKey of
        None \<Rightarrow> Inr (w\<lparr>wk_rows := wk_rows w @ page\<rparr>)
      | Some f \<Rightarrow> bindE (append_keys path f page (wk_keys w, wk_seen w)) (\<lambda>(keys, seen).
          Inr (w\<lparr>wk_rows := wk_rows w @ page, wk_keys := keys, wk_seen := seen\<rparr>)))"

definition page_query :: "('row \<Rightarrow> cursor) option \<Rightarrow> 'row walk \<Rightarrow> (string \<times> string) list" where
  "page_query keyset w =
     (let q = [(''limit'', string_of_nat KOIOS_PAGE_SIZE)] in
      case keyset of
        None \<Rightarrow> jm_set ''offset'' (string_of_nat (wk_expectedStart w)) q
      | Some _ \<Rightarrow> (case wk_lastCursor w of
          None \<Rightarrow> q
        | Some (txHash, txIndex) \<Rightarrow>
            jm_set ''or'' (''(tx_hash.gt.'' @ txHash @ '',and(tx_hash.eq.'' @ txHash @
              '',tx_index.gt.'' @ string_of_int txIndex @ ''))'') q))"

definition page_path :: "string \<Rightarrow> ('row \<Rightarrow> cursor) option \<Rightarrow> 'row walk \<Rightarrow> string" where
  "page_path path keyset w =
     path @ (if str_includes path ''?'' then ''&'' else ''?'') @ form_pairs (page_query keyset w)"

definition page_init :: "string \<Rightarrow> json \<Rightarrow> request_init" where
  "page_init path b = (post_json b)\<lparr>i_headers := count_exact, i_displayPath := Some path\<rparr>"

datatype 'row walk_step = WalkDone "'row paged_result" | WalkNext "'row walk"

definition walk_result :: "'row walk \<Rightarrow> nat \<Rightarrow> 'row paged_result" where
  "walk_result w tot =
     \<lparr>pr_rows = wk_rows w, pr_keys = wk_keys w, pr_total = tot, pr_pageCount = wk_pageCount w\<rparr>"

text \<open>A page that came without \<open>Content-Range\<close>.\<close>

definition walk_unranged :: "string \<Rightarrow> ('row \<Rightarrow> string) option \<Rightarrow> ('row \<Rightarrow> cursor) option \<Rightarrow> nat \<Rightarrow>
    'row list \<Rightarrow> 'row walk \<Rightarrow> 'row walk_step result" where
  "walk_unranged path rowKey keyset st page w =
     (if keyset \<noteq> None \<and> (length page \<ge> KOIOS_PAGE_SIZE \<or> wk_lastCursor w \<noteq> None)
      then Inl (malformed ''koios omitted Content-Range from a keyset response for '' path)
      else if st = 206 \<or> wk_expectedStart w \<noteq> 0
      then Inl (malformed ''koios omitted Content-Range from a partial response for '' path)
      else if length page \<ge> KOIOS_PAGE_SIZE
      then Inl (malformed ''koios returned a full page without Content-Range for '' path)
      else bindE (appendPage path rowKey page w) (\<lambda>w'.
             Inr (WalkDone (walk_result w' (length (wk_rows w'))))))"

text \<open>A page whose range is empty: \<open>*/total\<close>.\<close>

definition walk_empty :: "string \<Rightarrow> ('row \<Rightarrow> cursor) option \<Rightarrow> nat \<Rightarrow>
    'row list \<Rightarrow> 'row walk \<Rightarrow> 'row walk_step result" where
  "walk_empty path keyset tot page w =
     (let expectedEmptyTotal = (if keyset = None then wk_expectedStart w else 0) in
      if (keyset \<noteq> None \<and> wk_lastCursor w \<noteq> None) \<or> page \<noteq> [] \<or> tot \<noteq> expectedEmptyTotal
      then Inl (malformed ''koios returned a contradictory empty Content-Range on '' path)
      else Inr (WalkDone (walk_result w (if keyset = None then tot else length (wk_rows w)))))"

definition cursor_advances :: "cursor option \<Rightarrow> cursor \<Rightarrow> bool" where
  "cursor_advances old new \<longleftrightarrow> (case old of None \<Rightarrow> True
     | Some o' \<Rightarrow> \<not> (js_string_less (fst new) (fst o') \<or> (fst new = fst o' \<and> snd new \<le> snd o')))"

text \<open>The cursor of the last row, when the walk is by keyset and the page has rows.\<close>

definition next_cursor :: "string \<Rightarrow> ('row \<Rightarrow> cursor) option \<Rightarrow> 'row list \<Rightarrow> 'row walk \<Rightarrow>
    cursor option result" where
  "next_cursor path keyset page w = (case keyset of
     None \<Rightarrow> Inr (wk_lastCursor w)
   | Some f \<Rightarrow>
       if page = [] then Inr (wk_lastCursor w)
       else let cursor = f (last page) in
         if cursor_advances (wk_lastCursor w) cursor then Inr (Some cursor)
         else Inl (malformed ''koios returned a non-advancing keyset page for '' path))"

text \<open>A page with a range.\<close>

definition walk_ranged :: "string \<Rightarrow> ('row \<Rightarrow> string) option \<Rightarrow> ('row \<Rightarrow> cursor) option \<Rightarrow> nat \<Rightarrow>
    nat \<Rightarrow> nat \<Rightarrow> nat \<Rightarrow> 'row list \<Rightarrow> 'row walk \<Rightarrow> 'row walk_step result" where
  "walk_ranged path rowKey keyset st start fin tot page w =
     (let len = int (length page) in
      if (start \<noteq> wk_expectedStart w \<or> len \<noteq> int fin - int start + 1) \<and>
         \<not> (keyset \<noteq> None \<and> start = 0 \<and> len = int fin + 1)
      then Inl (malformed ''koios returned a non-contiguous page for '' path)
      else bindE (next_cursor path keyset page w) (\<lambda>cursor.
        if keyset = None \<and> wk_expectedTotal w \<noteq> None \<and> Some tot \<noteq> wk_expectedTotal w
        then Inl (malformed ''koios returned a non-contiguous page for '' path)
        else
          let pagedRows = (if keyset \<noteq> None \<and> wk_pageCount w = 1 then tot
                           else if keyset = None then tot
                           else length (wk_rows w) + length page) in
          if pagedRows > KOIOS_MAX_PAGED_ROWS
          then Inl (malformed ''koios paged result exceeds 100000 rows for '' path)
          else bindE (appendPage path rowKey page
                       (w\<lparr>wk_lastCursor := cursor, wk_expectedTotal := Some tot\<rparr>)) (\<lambda>w1.
            let w2 = w1\<lparr>wk_expectedStart := fin + 1\<rparr> in
            if keyset \<noteq> None \<and> tot \<le> length page
            then Inr (WalkDone (walk_result w2 (length (wk_rows w2))))
            else if keyset = None \<and> fin + 1 = tot
            then Inr (WalkDone (walk_result w2 tot))
            else if st \<noteq> 206
            then Inl (malformed ''koios returned an incomplete successful response for '' path)
            else Inr (WalkNext w2))))"

text \<open>One turn of the loop, after the response: \<open>w\<close> still counts the pages before this one.\<close>

definition walk_page :: "('j \<Rightarrow> 'row option) \<Rightarrow> string \<Rightarrow> ('row \<Rightarrow> string) option \<Rightarrow>
    ('row \<Rightarrow> cursor) option \<Rightarrow> 'j ResponseWithMetadata \<Rightarrow> 'row walk \<Rightarrow> 'row walk_step result" where
  "walk_page row path rowKey keyset r w0 =
     bindE (koios_parse (z_array row) (rm_data r) path) (\<lambda>page.
       let w = w0\<lparr>wk_pageCount := wk_pageCount w0 + 1\<rparr> in
       case rm_contentRange r of
         None \<Rightarrow> walk_unranged path rowKey keyset (rm_status r) page w
       | Some v \<Rightarrow> bindE (parseContentRange v path) (\<lambda>range.
           case range of
             RangeTotal tot \<Rightarrow> walk_empty path keyset tot page w
           | RangeSpan start fin tot \<Rightarrow>
               walk_ranged path rowKey keyset (rm_status r) start fin tot page w))"

text \<open>
  The loop returns: by offset the expected start grows and stays within the row cap, by keyset the
  rows do, after a first page whose total is within it.
\<close>

definition walk_room :: "('row \<Rightarrow> cursor) option \<Rightarrow> 'row walk \<Rightarrow> nat" where
  "walk_room keyset w =
     (if wk_pageCount w = 0 then KOIOS_MAX_PAGED_ROWS + 2
      else KOIOS_MAX_PAGED_ROWS + 1 -
        (case keyset of None \<Rightarrow> wk_expectedStart w | Some _ \<Rightarrow> length (wk_rows w)))"

lemma append_keys_Inr:
  "append_keys path f rs (keys, seen) = Inr (keys', seen') \<Longrightarrow>
     keys' = keys @ map f rs \<and> seen' = seen \<union> f ` set rs \<and>
     distinct (map f rs) \<and> f ` set rs \<inter> seen = {}"
proof (induction rs arbitrary: keys seen)
  case (Cons r rs)
  then have new: "f r \<notin> seen" and rest: "append_keys path f rs (keys @ [f r], insert (f r) seen) = Inr (keys', seen')"
    by (auto simp: Let_def split: if_splits)
  from Cons.IH [OF rest] new show ?case by auto
qed auto

lemma append_keys_new:
  "distinct (map f rs) \<Longrightarrow> f ` set rs \<inter> seen = {} \<Longrightarrow>
     append_keys path f rs (keys, seen) = Inr (keys @ map f rs, seen \<union> f ` set rs)"
  by (induction rs arbitrary: keys seen) (auto simp: Let_def)

text \<open>What appending a page changes.\<close>

lemma appendPage_Inr:
  assumes "appendPage path rowKey page w = Inr w'"
  shows "w' = w\<lparr>wk_rows := wk_rows w @ page,
      wk_keys := wk_keys w @ (case rowKey of None \<Rightarrow> [] | Some f \<Rightarrow> map f page),
      wk_seen := wk_seen w \<union> (case rowKey of None \<Rightarrow> {} | Some f \<Rightarrow> f ` set page)\<rparr>"
    and "\<And>f. rowKey = Some f \<Longrightarrow> distinct (map f page) \<and> f ` set page \<inter> wk_seen w = {}"
  using assms by (auto simp: appendPage_def sum_simps dest!: append_keys_Inr split: option.splits)

lemma walk_ranged_next:
  assumes "walk_ranged path rowKey keyset st start fin tot page w = Inr (WalkNext w')"
    and "start \<le> fin" and "fin < tot"
  shows "wk_rows w' = wk_rows w @ page" and "wk_pageCount w' = wk_pageCount w" and "page \<noteq> []"
    and "wk_expectedStart w' = fin + 1" and "st = 206" and "wk_expectedTotal w' = Some tot"
    and "keyset = None \<Longrightarrow> start = wk_expectedStart w \<and> fin + 1 = start + length page \<and>
           fin + 1 < tot \<and> tot \<le> KOIOS_MAX_PAGED_ROWS \<and>
           (wk_expectedTotal w = None \<or> wk_expectedTotal w = Some tot)"
    and "keyset \<noteq> None \<Longrightarrow> length page < tot \<and>
           (if wk_pageCount w = 1 then tot \<le> KOIOS_MAX_PAGED_ROWS
            else length (wk_rows w) + length page \<le> KOIOS_MAX_PAGED_ROWS)"
  using assms
  by (auto simp: walk_ranged_def Let_def sum_simps dest!: appendPage_Inr(1) split: if_splits)

lemma parseContentRange_span:
  "parseContentRange v path = Inr (RangeSpan start fin tot) \<Longrightarrow> start \<le> fin \<and> fin < tot"
  by (auto simp: parseContentRange_def Let_def split: option.splits if_splits)

lemma walk_unranged_not_next: "walk_unranged path rowKey keyset st page w \<noteq> Inr (WalkNext w')"
  by (auto simp: walk_unranged_def sum_simps)

lemma walk_empty_not_next: "walk_empty path keyset tot page w \<noteq> Inr (WalkNext w')"
  by (auto simp: walk_empty_def Let_def)

lemma walk_page_next:
  assumes "walk_page row path rowKey keyset r w = Inr (WalkNext w')"
  obtains page start fin tot v where
    "koios_parse (z_array row) (rm_data r) path = Inr page"
    "rm_contentRange r = Some v" "parseContentRange v path = Inr (RangeSpan start fin tot)"
    "walk_ranged path rowKey keyset (rm_status r) start fin tot page
       (w\<lparr>wk_pageCount := wk_pageCount w + 1\<rparr>) = Inr (WalkNext w')"
    "start \<le> fin" "fin < tot"
proof -
  let ?w = "w\<lparr>wk_pageCount := wk_pageCount w + 1\<rparr>"
  obtain page where page: "koios_parse (z_array row) (rm_data r) path = Inr page"
    using assms by (auto simp: walk_page_def sum_simps)
  with assms obtain v where v: "rm_contentRange r = Some v"
    by (cases "rm_contentRange r") (auto simp: walk_page_def walk_unranged_not_next)
  with assms page obtain range where range: "parseContentRange v path = Inr range"
    by (auto simp: walk_page_def Let_def sum_simps)
  with assms page v obtain start fin tot where "range = RangeSpan start fin tot"
    by (cases range) (auto simp: walk_page_def walk_empty_not_next)
  with assms page v range that parseContentRange_span [of v path start fin tot] show thesis
    by (simp add: walk_page_def)
qed

lemma walk_page_room:
  assumes "walk_page row path rowKey keyset r w = Inr (WalkNext w')"
  shows "walk_room keyset w' < walk_room keyset w"
proof -
  obtain page start fin tot where nxt: "walk_ranged path rowKey keyset (rm_status r) start fin tot page
       (w\<lparr>wk_pageCount := wk_pageCount w + 1\<rparr>) = Inr (WalkNext w')" "start \<le> fin" "fin < tot"
    using assms by (rule walk_page_next)
  note facts = walk_ranged_next [OF nxt]
  have page: "0 < length page" using facts(3) by simp
  show ?thesis
  proof (cases keyset)
    case None
    have "wk_expectedStart w < wk_expectedStart w'"
      "wk_expectedStart w' \<le> KOIOS_MAX_PAGED_ROWS" "wk_pageCount w' \<noteq> 0"
      using facts(2,4) facts(7) [OF None] page by auto
    with None show ?thesis by (auto simp: walk_room_def)
  next
    case (Some f)
    have len: "length (wk_rows w) < length (wk_rows w')" using facts(1) page by simp
    have "length (wk_rows w') \<le> KOIOS_MAX_PAGED_ROWS" if "wk_pageCount w \<noteq> 0"
      using facts(1) facts(8) Some that by auto
    with len Some facts(2) show ?thesis by (auto simp: walk_room_def)
  qed
qed


function walk_loop :: "koios_client \<Rightarrow> ('s, 'j) net \<Rightarrow> ('j \<Rightarrow> 'row option) \<Rightarrow> string \<Rightarrow> json \<Rightarrow>
    ('row \<Rightarrow> string) option \<Rightarrow> ('row \<Rightarrow> cursor) option \<Rightarrow> 'row walk \<Rightarrow>
    ('s kworld, 'row paged_result) io_result" where
  "walk_loop c n row path b rowKey keyset w s =
     (case requestWithMetadata c n (page_path path keyset w) (page_init path b) s of
        (Inl e, s') \<Rightarrow> (Inl e, s')
      | (Inr r, s') \<Rightarrow> (case walk_page row path rowKey keyset r w of
            Inl e \<Rightarrow> (Inl e, s')
          | Inr (WalkDone res) \<Rightarrow> (Inr res, s')
          | Inr (WalkNext w') \<Rightarrow> walk_loop c n row path b rowKey keyset w' s'))"
  by pat_completeness auto
termination
  by (relation "measure (\<lambda>(_, _, _, _, _, _, keyset, w, _). walk_room keyset w)")
    (auto intro: walk_page_room)

declare walk_loop.simps [simp del]

definition walkBatchPages :: "koios_client \<Rightarrow> ('s, 'j) net \<Rightarrow> ('j \<Rightarrow> 'row option) \<Rightarrow> string \<Rightarrow>
    json \<Rightarrow> ('row \<Rightarrow> string) option \<Rightarrow> ('row \<Rightarrow> cursor) option \<Rightarrow>
    ('s kworld, 'row paged_result) io_result" where
  "walkBatchPages c n row path b rowKey keyset = walk_loop c n row path b rowKey keyset walk_start"

section \<open>Paged reads and the consistency check\<close>

record 'row PagedBatchOptions =
  opt_rowKey :: "('row \<Rightarrow> string) option"
  opt_keyset :: "('row \<Rightarrow> cursor) option"
  opt_verifyConsistency :: bool

definition no_options :: "'row PagedBatchOptions" where
  "no_options = \<lparr>opt_rowKey = None, opt_keyset = None, opt_verifyConsistency = False\<rparr>"

definition sameMembership :: "'row paged_result \<Rightarrow> 'row paged_result \<Rightarrow> bool" where
  "sameMembership first second \<longleftrightarrow> pr_total first = pr_total second \<and>
     length (pr_keys first) = length (pr_keys second) \<and>
     list_all (\<lambda>(k, k'). k = k') (zip (pr_keys first) (pr_keys second))"

definition batchAllPages :: "koios_client \<Rightarrow> ('s, 'j) net \<Rightarrow> ('j \<Rightarrow> 'row option) \<Rightarrow> string \<Rightarrow>
    json \<Rightarrow> 'row PagedBatchOptions \<Rightarrow> ('s kworld, 'row list) io_result" where
  "batchAllPages c n row path b opts =
     (let rowKey = opt_rowKey opts in
      if opt_verifyConsistency opts \<and> rowKey = None
      then throwIO (JsTypeError (''koios consistency verification requires a row-key function for '' @ path))
      else koios_read c n path (
        bindIO (walkBatchPages c n row path b rowKey (opt_keyset opts)) (\<lambda>first.
        if pr_pageCount first = 1 \<or> rowKey = None \<or> \<not> opt_verifyConsistency opts \<or>
           opt_keyset opts \<noteq> None
        then returnIO (pr_rows first)
        else bindIO (walkBatchPages c n row path b rowKey None) (\<lambda>second.
          if \<not> sameMembership first second
          then throwIO (malformed ''koios changed the paged result between consistency passes for '' path)
          else returnIO (pr_rows second)))))"

section \<open>Packing that learns the body limit\<close>

definition find_limit_here :: "string \<Rightarrow> nat option" where
  "find_limit_here s =
     (let pre = ''body size is below '' in
      if take (length pre) s = pre then
        (case digits_prefix (drop (length pre) s) of (ds, rest) \<Rightarrow>
           if ds \<noteq> [] \<and> take 6 rest = '' bytes'' then Some (nat_of_string ds) else None)
      else None)"

text \<open>\<open>RegExp.exec\<close>: the leftmost match.\<close>

fun find_limit :: "string \<Rightarrow> nat option" where
  "find_limit [] = None"
| "find_limit (c # cs) = (case find_limit_here (c # cs) of Some k \<Rightarrow> Some k | None \<Rightarrow> find_limit cs)"

fun limitFrom413 :: "thrown \<Rightarrow> nat option" where
  "limitFrom413 (ProviderError _ st details) =
     (if st \<noteq> Some 413 then None
      else case find_limit (case details of None \<Rightarrow> ''undefined'' | Some d \<Rightarrow> d) of
        None \<Rightarrow> None
      | Some limit \<Rightarrow> if safe_nat limit \<and> limit > 0 then Some limit else None)"
| "limitFrom413 _ = None"

definition pack_run :: "json list \<Rightarrow> (json list \<Rightarrow> json) \<Rightarrow> (json \<Rightarrow> ('s kworld, 'row list) io_result) \<Rightarrow>
    ('s kworld, 'row list) io_result" where
  "pack_run items toBody send s =
     bindIO (liftE (packBySize items toBody (bodyLimit s))) (\<lambda>chunks.
     bindIO (allIO (\<lambda>chunk. send (toBody chunk)) chunks) (\<lambda>perChunk.
     returnIO (concat perChunk))) s"

definition packAdaptively :: "json list \<Rightarrow> (json list \<Rightarrow> json) \<Rightarrow>
    (json \<Rightarrow> ('s kworld, 'row list) io_result) \<Rightarrow> ('s kworld, 'row list) io_result" where
  "packAdaptively items toBody send =
     catchIO (pack_run items toBody send) (\<lambda>e s.
       case limitFrom413 e of
         None \<Rightarrow> throwIO e s
       | Some said \<Rightarrow>
           if said \<ge> bodyLimit s then throwIO e s
           else pack_run items toBody send (s\<lparr>bodyLimit := said\<rparr>))"

definition batchAll :: "koios_client \<Rightarrow> ('s, 'j) net \<Rightarrow> ('j \<Rightarrow> 'row option) \<Rightarrow> string \<Rightarrow> json list \<Rightarrow>
    (json list \<Rightarrow> json) \<Rightarrow> ('s kworld, 'row list) io_result" where
  "batchAll c n row path items toBody =
     (if items = [] then returnIO []
      else packAdaptively items toBody (\<lambda>b. koios_batch c n (z_array row) path b))"

section \<open>Invariants of the walk\<close>

definition keys_ok :: "('row \<Rightarrow> string) option \<Rightarrow> 'row list \<Rightarrow> string list \<Rightarrow> string set \<Rightarrow> bool" where
  "keys_ok rowKey rows keys seen \<longleftrightarrow>
     keys = (case rowKey of None \<Rightarrow> [] | Some f \<Rightarrow> map f rows) \<and> seen = set keys \<and> distinct keys"

definition walk_ok :: "('row \<Rightarrow> string) option \<Rightarrow> ('row \<Rightarrow> cursor) option \<Rightarrow> 'row walk \<Rightarrow> bool" where
  "walk_ok rowKey keyset w \<longleftrightarrow>
     keys_ok rowKey (wk_rows w) (wk_keys w) (wk_seen w) \<and>
     (keyset = None \<longrightarrow> wk_expectedStart w = length (wk_rows w)) \<and>
     (wk_pageCount w = 0 \<longleftrightarrow> wk_expectedStart w = 0) \<and>
     (wk_pageCount w = 0 \<longrightarrow> wk_rows w = []) \<and>
     length (wk_rows w) \<le> KOIOS_MAX_PAGED_ROWS"

definition result_ok :: "('row \<Rightarrow> string) option \<Rightarrow> 'row paged_result \<Rightarrow> bool" where
  "result_ok rowKey res \<longleftrightarrow>
     keys_ok rowKey (pr_rows res) (pr_keys res) (set (pr_keys res)) \<and> pr_total res = length (pr_rows res) \<and>
     length (pr_rows res) \<le> KOIOS_MAX_PAGED_ROWS \<and> 1 \<le> pr_pageCount res"

lemma walk_start_ok: "walk_ok rowKey keyset walk_start"
  by (simp add: walk_ok_def walk_start_def keys_ok_def split: option.split)

lemma appendPage_ok:
  assumes "appendPage path rowKey page w = Inr w'"
    and "keys_ok rowKey (wk_rows w) (wk_keys w) (wk_seen w)"
  shows "keys_ok rowKey (wk_rows w') (wk_keys w') (wk_seen w')"
  using appendPage_Inr [OF assms(1)] assms(2) by (cases rowKey) (auto simp: keys_ok_def)

lemma keys_ok_seen: "keys_ok rowKey rows keys seen \<Longrightarrow> keys_ok rowKey rows keys (set keys)"
  unfolding keys_ok_def by blast

lemma walk_ranged_ok:
  assumes "walk_ranged path rowKey keyset st start fin tot page w = Inr step"
    and "start \<le> fin" and "fin < tot" and "walk_ok rowKey keyset (w\<lparr>wk_pageCount := wk_pageCount w - 1\<rparr>)"
    and "0 < wk_pageCount w"
  shows "case step of WalkDone res \<Rightarrow> result_ok rowKey res | WalkNext w' \<Rightarrow> walk_ok rowKey keyset w'"
proof -
  obtain cursor w1 where app: "appendPage path rowKey page
      (w\<lparr>wk_lastCursor := cursor, wk_expectedTotal := Some tot\<rparr>) = Inr w1"
    and step: "step = (if keyset \<noteq> None \<and> tot \<le> length page
        then WalkDone (walk_result (w1\<lparr>wk_expectedStart := fin + 1\<rparr>) (length (wk_rows w1)))
      else if keyset = None \<and> fin + 1 = tot
        then WalkDone (walk_result (w1\<lparr>wk_expectedStart := fin + 1\<rparr>) tot)
      else WalkNext (w1\<lparr>wk_expectedStart := fin + 1\<rparr>))"
    and cont: "start = wk_expectedStart w \<and> int (length page) = int fin - int start + 1 \<or>
      keyset \<noteq> None \<and> start = 0 \<and> int (length page) = int fin + 1"
    and cap: "(if keyset \<noteq> None \<and> wk_pageCount w = 1 then tot else if keyset = None then tot
       else length (wk_rows w) + length page) \<le> KOIOS_MAX_PAGED_ROWS"
    using assms(1) by (auto simp: walk_ranged_def Let_def bindE_Inr_conv split: if_splits)
  have rows: "wk_rows w1 = wk_rows w @ page" "wk_pageCount w1 = wk_pageCount w"
    using appendPage_Inr(1) [OF app] by simp_all
  have start: "keyset = None \<Longrightarrow> wk_expectedStart w = length (wk_rows w)"
    and first: "wk_pageCount w = 1 \<Longrightarrow> wk_rows w = [] \<and> wk_expectedStart w = 0"
    using assms(4,5) by (auto simp: walk_ok_def)
  have len: "length (wk_rows w1) \<le> KOIOS_MAX_PAGED_ROWS"
    using cont cap start first assms(2,3) rows(1) by (auto split: if_splits)
  have fin: "keyset = None \<Longrightarrow> fin + 1 = length (wk_rows w1)"
    using cont start rows(1) assms(2) by auto
  have keys: "keys_ok rowKey (wk_rows w1) (wk_keys w1) (wk_seen w1)"
    by (rule appendPage_ok [OF app]) (use assms(4) in \<open>simp add: walk_ok_def\<close>)
  let ?w = "w1\<lparr>wk_expectedStart := fin + 1\<rparr>"
  have next_ok: "walk_ok rowKey keyset ?w"
    using keys len fin rows(2) assms(5) by (simp add: walk_ok_def)
  have done_ok: "result_ok rowKey (walk_result ?w (length (wk_rows w1)))"
    using keys_ok_seen [OF keys] len rows(2) assms(5) by (simp add: result_ok_def walk_result_def)
  consider "keyset \<noteq> None \<and> tot \<le> length page" | "keyset = None" "tot = length (wk_rows w1)" "fin + 1 = tot"
    | "step = WalkNext ?w"
    using fin step by (metis (full_types))
  then show ?thesis
  proof cases
    case 1
    then show ?thesis unfolding step using done_ok by simp
  next
    case 2
    then show ?thesis unfolding step using done_ok by simp
  next
    case 3
    then show ?thesis using next_ok by simp
  qed
qed

lemma walk_page_ok:
  assumes "walk_page row path rowKey keyset r w = Inr step" and ok: "walk_ok rowKey keyset w"
  shows "case step of WalkDone res \<Rightarrow> result_ok rowKey res | WalkNext w' \<Rightarrow> walk_ok rowKey keyset w'"
proof -
  let ?w = "w\<lparr>wk_pageCount := wk_pageCount w + 1\<rparr>"
  obtain page where page: "koios_parse (z_array row) (rm_data r) path = Inr page"
    using assms by (auto simp: walk_page_def bindE_Inr_conv)
  show ?thesis
  proof (cases "rm_contentRange r")
    case None
    with assms page have "walk_unranged path rowKey keyset (rm_status r) page ?w = Inr step"
      by (simp add: walk_page_def)
    then obtain w' where w': "appendPage path rowKey page ?w = Inr w'"
      "step = WalkDone (walk_result w' (length (wk_rows w')))" "wk_expectedStart w = 0"
      "length page < KOIOS_PAGE_SIZE"
      by (auto simp: walk_unranged_def bindE_Inr_conv split: if_splits)
    have rows: "wk_rows w' = wk_rows w @ page" "wk_pageCount w' = wk_pageCount w + 1"
      using appendPage_Inr(1) [OF w'(1)] by simp_all
    have "wk_rows w = []" using ok w'(3) by (simp add: walk_ok_def)
    moreover have "length page \<le> KOIOS_MAX_PAGED_ROWS"
      using w'(4) by (simp add: KOIOS_PAGE_SIZE_def KOIOS_MAX_PAGED_ROWS_def)
    moreover have "keys_ok rowKey (wk_rows w') (wk_keys w') (set (wk_keys w'))"
      by (rule keys_ok_seen, rule appendPage_ok [OF w'(1)]) (use ok in \<open>simp add: walk_ok_def\<close>)
    ultimately show ?thesis using rows by (simp add: w'(2) result_ok_def walk_result_def)
  next
    case (Some v)
    then obtain range where range: "parseContentRange v path = Inr range"
      using assms page by (auto simp: walk_page_def Let_def bindE_Inr_conv)
    show ?thesis
    proof (cases range)
      case (RangeTotal tot)
      with assms page Some range have "walk_empty path keyset tot page ?w = Inr step"
        by (simp add: walk_page_def)
      with ok keys_ok_seen show ?thesis
        by (auto simp: walk_empty_def Let_def walk_ok_def result_ok_def walk_result_def split: if_splits)
    next
      case (RangeSpan start fin tot)
      with assms page Some range
      have "walk_ranged path rowKey keyset (rm_status r) start fin tot page ?w = Inr step"
        by (simp add: walk_page_def)
      moreover have "start \<le> fin" "fin < tot"
        using parseContentRange_span range RangeSpan by blast+
      ultimately show ?thesis using walk_ranged_ok [of path rowKey keyset _ start fin tot page ?w step] ok
        by simp
    qed
  qed
qed

lemma walk_loop_ok:
  "walk_loop c n row path b rowKey keyset w s = (Inr res, s') \<Longrightarrow> walk_ok rowKey keyset w \<Longrightarrow>
     result_ok rowKey res"
proof (induction c n row path b rowKey keyset w s rule: walk_loop.induct)
  case (1 c n row path b rowKey keyset w s)
  obtain q t where q: "requestWithMetadata c n (page_path path keyset w) (page_init path b) s = (q, t)"
    by fastforce
  with 1(2) obtain r where r: "q = Inr r"
    by (cases q) (auto simp: walk_loop.simps [of _ _ _ _ _ _ _ w s])
  with 1(2) q obtain step where step: "walk_page row path rowKey keyset r w = Inr step"
    by (cases "walk_page row path rowKey keyset r w") (auto simp: walk_loop.simps [of _ _ _ _ _ _ _ w s])
  note ok = walk_page_ok [OF step 1(3)]
  show ?case
  proof (cases step)
    case (WalkDone x)
    with 1(2) q r step ok show ?thesis by (simp add: walk_loop.simps [of _ _ _ _ _ _ _ w s])
  next
    case (WalkNext w')
    with 1(2) q r step have "walk_loop c n row path b rowKey keyset w' t = (Inr res, s')"
      by (simp add: walk_loop.simps [of _ _ _ _ _ _ _ w s])
    from 1(1) [OF q [symmetric] r step WalkNext this] ok WalkNext show ?thesis by simp
  qed
qed

section \<open>A server that holds a list\<close>

definition page_response :: "'j list \<Rightarrow> nat \<Rightarrow> 'j http_response" where
  "page_response js k =
     (let page = take KOIOS_PAGE_SIZE (drop k js); m = k + length page in
      \<lparr>res_ok = True, res_status = (if m < length js then 206 else 200),
       res_header = (\<lambda>h. if h \<noteq> ''content-range'' then None
         else if page = [] then Some (''*/'' @ string_of_nat (length js))
         else Some (string_of_nat k @ ''-'' @ string_of_nat (m - 1) @ ''/'' @ string_of_nat (length js))),
       res_json = JsonOk (JArray page), res_text = Some []\<rparr>)"

definition page_url :: "string \<Rightarrow> nat \<Rightarrow> string" where
  "page_url path k = path @ (if str_includes path ''?'' then ''&'' else ''?'') @
     ''limit=1000&offset='' @ string_of_nat k"

text \<open>
  Upstream answers every page the walk asks for from the list \<open>js\<close>, as PostgREST documents it: the
  rows from the offset on, at most a page of them, with their place in the whole and status 206 while
  rows are left.
\<close>

definition serves_list :: "koios_client \<Rightarrow> ('s, 'j) net \<Rightarrow> string \<Rightarrow> json \<Rightarrow> 'j list \<Rightarrow> bool" where
  "serves_list c n path b js \<longleftrightarrow>
     (\<forall>i s. i = 0 \<or> 1000 * i < length js \<longrightarrow>
        fst (doFetch n (koios_http_request c (page_url path (1000 * i)) (page_init path b)) s) =
          FetchResponse (page_response js (1000 * i)))"

lemma string_of_1000: "string_of_nat 1000 = ''1000''"
  by code_simp

lemma page_path_offset: "page_path path None w = page_url path (wk_expectedStart w)"
proof -
  have "form_encode ''limit'' = ''limit''" "form_encode ''offset'' = ''offset''"
    by (rule form_encode_safe, simp add: form_safe_def)+
  then show ?thesis
    using string_of_1000 form_encode_nat [of 1000]
    by (simp add: page_path_def page_url_def page_query_def KOIOS_PAGE_SIZE_def)
qed

lemma serves_page:
  assumes "serves_list c n path b js" and "i = 0 \<or> 1000 * i < length js"
  shows "\<exists>s'. requestWithMetadata c n (page_url path (1000 * i)) (page_init path b) s =
    (Inr \<lparr>rm_data = JArray (take KOIOS_PAGE_SIZE (drop (1000 * i) js)),
          rm_status = res_status (page_response js (1000 * i)),
          rm_contentRange = res_header (page_response js (1000 * i)) ''content-range''\<rparr>, s')"
proof -
  obtain s' where "doFetch n (koios_http_request c (page_url path (1000 * i)) (page_init path b)) (kouter s) =
      (FetchResponse (page_response js (1000 * i)), s')"
    using assms unfolding serves_list_def by (metis prod.collapse)
  then show ?thesis
    by (simp add: requestWithMetadata_def koios_fetch_def page_response_def Let_def)
qed

lemma those_map_take_drop:
  "those (map f js) = Some rs \<Longrightarrow> those (map f (take m (drop k js))) = Some (take m (drop k rs))"
  unfolding those_map_Some by (simp add: list_all2_takeI list_all2_dropI)

definition fresh_keys :: "('row \<Rightarrow> string) option \<Rightarrow> 'row list \<Rightarrow> bool" where
  "fresh_keys rowKey rows \<longleftrightarrow> (case rowKey of None \<Rightarrow> True | Some f \<Rightarrow> distinct (map f rows))"

lemma appendPage_fresh:
  assumes "keys_ok rowKey (wk_rows w) (wk_keys w) (wk_seen w)" and "fresh_keys rowKey (wk_rows w @ page)"
  shows "\<exists>w'. appendPage path rowKey page w = Inr w'"
proof (cases rowKey)
  case (Some f)
  have "append_keys path f page (wk_keys w, wk_seen w) = Inr (wk_keys w @ map f page, wk_seen w \<union> f ` set page)"
    by (rule append_keys_new) (use assms Some in \<open>auto simp: keys_ok_def fresh_keys_def\<close>)
  then show ?thesis by (simp add: appendPage_def Some)
qed (simp add: appendPage_def)

lemma walk_ranged_offset:
  assumes "appendPage path rowKey page (w\<lparr>wk_lastCursor := wk_lastCursor w, wk_expectedTotal := Some tot\<rparr>) = Inr w'"
    and "int (length page) = int fin - int start + 1" and "start = wk_expectedStart w"
    and "wk_expectedTotal w = None \<or> wk_expectedTotal w = Some tot" and "tot \<le> KOIOS_MAX_PAGED_ROWS"
    and "fin + 1 \<noteq> tot \<Longrightarrow> st = 206"
  shows "walk_ranged path rowKey None st start fin tot page w =
    Inr (if fin + 1 = tot then WalkDone (walk_result (w'\<lparr>wk_expectedStart := fin + 1\<rparr>) tot)
         else WalkNext (w'\<lparr>wk_expectedStart := fin + 1\<rparr>))"
  using assms by (auto simp: walk_ranged_def next_cursor_def Let_def)

text \<open>One page from such a server: the walk goes on, or is done with all of the list.\<close>

lemma served_page_step:
  fixes js :: "'j list"
  assumes rows: "those (map row js) = Some rs" and n: "length js \<le> 100000"
    and fresh: "fresh_keys rowKey rs" and ok: "walk_ok rowKey None w"
    and w: "wk_rows w = take (1000 * i) rs" "wk_expectedStart w = 1000 * i"
      "wk_expectedTotal w = (if i = 0 then None else Some (length js))" "i = 0 \<or> 1000 * i < length js"
    and r: "r = \<lparr>rm_data = JArray (take KOIOS_PAGE_SIZE (drop (1000 * i) js)),
          rm_status = res_status (page_response js (1000 * i)),
          rm_contentRange = res_header (page_response js (1000 * i)) ''content-range''\<rparr>"
  shows "if 1000 * i + 1000 < length js
    then \<exists>w'. walk_page row path rowKey None r w = Inr (WalkNext w') \<and> wk_rows w' = take (1000 * Suc i) rs \<and>
      wk_expectedStart w' = 1000 * Suc i \<and> wk_expectedTotal w' = Some (length js) \<and>
      wk_pageCount w' = Suc (wk_pageCount w)
    else \<exists>res. walk_page row path rowKey None r w = Inr (WalkDone res) \<and> pr_rows res = rs \<and>
      pr_pageCount res = Suc (wk_pageCount w)"
proof (cases "js = []")
  case True
  then have "rs = []" "i = 0" using rows w(4) by auto
  moreover have "parseContentRange ''*/0'' path = Inr (RangeTotal 0)" by code_simp
  moreover have "string_of_nat 0 = ''0''" by code_simp
  ultimately show ?thesis
    using True w r by (simp add: walk_page_def koios_parse_def z_array_def page_response_def walk_empty_def
        walk_result_def)
next
  case False
  let ?k = "1000 * i" and ?page = "take 1000 (drop (1000 * i) rs)"
  have len: "length rs = length js" using rows by (simp add: those_map_Some list_all2_lengthD)
  have lt: "?k < length js" using w(4) False by auto
  define m where "m = ?k + length ?page"
  have m: "?k < m" "m \<le> length js" "length ?page = m - ?k" "m < length js \<longleftrightarrow> ?k + 1000 < length js"
    "m < length js \<Longrightarrow> m = ?k + 1000" "length (take 1000 (drop ?k js)) = length ?page"
    using lt len by (auto simp: m_def)
  have page: "take 1000 (drop ?k js) \<noteq> []" using lt by simp
  have parse: "koios_parse (z_array row) (rm_data r) path = Inr ?page"
    using those_map_take_drop [OF rows] by (simp add: r koios_parse_def z_array_def KOIOS_PAGE_SIZE_def)
  have range: "rm_contentRange r = Some (string_of_nat ?k @ ''-'' @ string_of_nat (m - 1) @ ''/'' @
      string_of_nat (length js))"
    using page m(6) by (simp add: r page_response_def Let_def KOIOS_PAGE_SIZE_def m_def)
  have st: "rm_status r = (if m < length js then 206 else 200)"
    using m(6) by (simp add: r page_response_def Let_def KOIOS_PAGE_SIZE_def m_def)
  have span: "parseContentRange (string_of_nat ?k @ ''-'' @ string_of_nat (m - 1) @ ''/'' @
      string_of_nat (length js)) path = Inr (RangeSpan ?k (m - 1) (length js))"
  proof -
    have "?k \<le> m - 1" "m - 1 < length js" using m(1,2) by linarith+
    with n show ?thesis
      by (subst parseContentRange_text) (simp add: safe_nat_def isSafeInteger_def MAX_SAFE_INTEGER_def)
  qed
  let ?w = "w\<lparr>wk_pageCount := wk_pageCount w + 1\<rparr>"
  let ?w1 = "?w\<lparr>wk_lastCursor := wk_lastCursor w, wk_expectedTotal := Some (length js)\<rparr>"
  have "wk_rows w @ ?page = take (?k + 1000) rs" using w(1) by (simp add: take_add)
  then have fr: "fresh_keys rowKey (wk_rows ?w1 @ ?page)"
    using fresh by (auto simp: fresh_keys_def distinct_take take_map [symmetric] split: option.splits)
  have "keys_ok rowKey (wk_rows ?w1) (wk_keys ?w1) (wk_seen ?w1)" using ok by (simp add: walk_ok_def)
  from appendPage_fresh [OF this fr] obtain w' where w': "appendPage path rowKey ?page ?w1 = Inr w'" by blast
  note app = appendPage_Inr(1) [OF w']
  have "walk_page row path rowKey None r w =
      walk_ranged path rowKey None (rm_status r) ?k (m - 1) (length js) ?page ?w"
    using parse range span by (simp add: walk_page_def)
  also have "\<dots> = Inr (if m - 1 + 1 = length js
      then WalkDone (walk_result (w'\<lparr>wk_expectedStart := m - 1 + 1\<rparr>) (length js))
      else WalkNext (w'\<lparr>wk_expectedStart := m - 1 + 1\<rparr>))"
  proof (rule walk_ranged_offset)
    show "appendPage path rowKey ?page (?w\<lparr>wk_lastCursor := wk_lastCursor ?w, wk_expectedTotal := Some (length js)\<rparr>)
        = Inr w'" using w' by simp
    show "int (length ?page) = int (m - 1) - int ?k + 1" using m(1,3) by linarith
    show "m - 1 + 1 \<noteq> length js \<Longrightarrow> rm_status r = 206" using st m(1,2) by simp
    show "length js \<le> KOIOS_MAX_PAGED_ROWS" using n by (simp add: KOIOS_MAX_PAGED_ROWS_def)
  qed (use w(2,3) in simp_all)
  also have "m - 1 + 1 = m" using m(1) by simp
  finally have step: "walk_page row path rowKey None r w = Inr (if m = length js
      then WalkDone (walk_result (w'\<lparr>wk_expectedStart := m\<rparr>) (length js))
      else WalkNext (w'\<lparr>wk_expectedStart := m\<rparr>))" .
  have all: "wk_rows w' = take (?k + 1000) rs" using app \<open>wk_rows w @ ?page = _\<close> by simp
  show ?thesis
  proof (cases "?k + 1000 < length js")
    case True
    then have "m = ?k + 1000" "m < length js" using m by auto
    then show ?thesis using step all app True by (simp add: add.commute)
  next
    case no: False
    then have "m = length js" using m by auto
    then show ?thesis using step all app no len by (simp add: walk_result_def)
  qed
qed

lemma walk_loop_served:
  assumes serves: "serves_list c n path b js" and rows: "those (map row js) = Some rs"
    and n: "length js \<le> 100000" and fresh: "fresh_keys rowKey rs"
  shows "walk_ok rowKey None w \<Longrightarrow> wk_rows w = take (1000 * i) rs \<Longrightarrow> wk_expectedStart w = 1000 * i \<Longrightarrow>
    wk_expectedTotal w = (if i = 0 then None else Some (length js)) \<Longrightarrow> i = 0 \<or> 1000 * i < length js \<Longrightarrow>
    wk_pageCount w = i \<Longrightarrow>
    \<exists>res s'. walk_loop c n row path b rowKey None w s = (Inr res, s') \<and> pr_rows res = rs \<and>
      pr_pageCount res = max 1 ((length js + 999) div 1000)"
proof (induction "length js - 1000 * i" arbitrary: i w s rule: less_induct)
  case less
  let ?r = "\<lparr>rm_data = JArray (take KOIOS_PAGE_SIZE (drop (1000 * i) js)),
          rm_status = res_status (page_response js (1000 * i)),
          rm_contentRange = res_header (page_response js (1000 * i)) ''content-range''\<rparr>"
  obtain s' where req: "requestWithMetadata c n (page_path path None w) (page_init path b) s = (Inr ?r, s')"
    using serves_page [OF serves less.prems(5)] less.prems(3) page_path_offset [of path w] by metis
  note step = served_page_step [OF rows n fresh less.prems(1-5) refl, of path]
  show ?case
  proof (cases "1000 * i + 1000 < length js")
    case True
    with step obtain w' where w': "walk_page row path rowKey None ?r w = Inr (WalkNext w')"
      "wk_rows w' = take (1000 * Suc i) rs" "wk_expectedStart w' = 1000 * Suc i"
      "wk_expectedTotal w' = Some (length js)" "wk_pageCount w' = Suc (wk_pageCount w)" by auto
    have ok: "walk_ok rowKey None w'" using walk_page_ok [OF w'(1) less.prems(1)] by simp
    have "length js - 1000 * Suc i < length js - 1000 * i" "1000 * Suc i < length js" using True by auto
    then obtain res t where "walk_loop c n row path b rowKey None w' s' = (Inr res, t)" "pr_rows res = rs"
      "pr_pageCount res = max 1 ((length js + 999) div 1000)"
      using less.hyps [of "Suc i" w' s'] ok w'(2-5) less.prems(6) by auto
    then show ?thesis by (simp add: walk_loop.simps [of _ _ _ _ _ _ _ w s] req w'(1))
  next
    case False
    with step obtain res where res: "walk_page row path rowKey None ?r w = Inr (WalkDone res)"
      "pr_rows res = rs" "pr_pageCount res = Suc (wk_pageCount w)" by auto
    have "Suc i = max 1 ((length js + 999) div 1000)" using False less.prems(5) by auto
    then show ?thesis using less.prems(6) res
      by (simp add: walk_loop.simps [of _ _ _ _ _ _ _ w s] req)
  qed
qed

lemma walkBatchPages_served:
  assumes "serves_list c n path b js" and "those (map row js) = Some rs"
    and "length js \<le> 100000" and "fresh_keys rowKey rs"
  shows "\<exists>res s'. walkBatchPages c n row path b rowKey None s = (Inr res, s') \<and> pr_rows res = rs \<and>
      pr_pageCount res = max 1 ((length js + 999) div 1000)"
  unfolding walkBatchPages_def
  by (rule walk_loop_served [OF assms, of walk_start 0])
    (simp_all add: walk_start_ok, simp_all add: walk_start_def)

section \<open>Packing\<close>

lemma pack_run_bodyLimit:
  assumes "\<And>b w. bodyLimit (snd (send b w)) \<le> bodyLimit w"
  shows "bodyLimit (snd (pack_run items toBody send s)) \<le> bodyLimit s"
proof -
  have all: "bodyLimit (snd (allIO (\<lambda>ch. send (toBody ch)) chunks w)) \<le> bodyLimit w" for chunks w
  proof (induction chunks arbitrary: w)
    case (Cons ch chunks)
    show ?case
      using assms [of "toBody ch" w] Cons.IH [of "snd (send (toBody ch) w)"]
      by (cases "send (toBody ch) w"; cases "allIO (\<lambda>ch. send (toBody ch)) chunks (snd (send (toBody ch) w))") auto
  qed (simp add: returnIO_def)
  show ?thesis
  proof (cases "packBySize items toBody (bodyLimit s)")
    case (Inr chunks)
    obtain q t where "allIO (\<lambda>ch. send (toBody ch)) chunks s = (q, t)" by fastforce
    with all [of chunks s] Inr show ?thesis
      by (cases q) (simp_all add: pack_run_def bindIO_def liftE_def returnIO_def)
  qed (simp add: pack_run_def bindIO_def liftE_def)
qed

lemma retry_loop_bodyLimit:
  "(\<And>w. bodyLimit (snd (load w)) = bodyLimit w) \<Longrightarrow>
     bodyLimit (snd (koios_read c n path load s)) = bodyLimit s"
  unfolding koios_read_def
  by (rule retry_loop_invariant [where P = "\<lambda>w. bodyLimit w = bodyLimit s"])
    (simp_all add: koios_onFail_def)

lemma koios_batch_bodyLimit: "bodyLimit (snd (koios_batch c n sch path b s)) = bodyLimit s"
  unfolding koios_batch_def
  by (rule retry_loop_bodyLimit) (simp add: bindIO_liftE_state koios_request_data_state)

lemma packAdaptively_bodyLimit:
  assumes "\<And>b w. bodyLimit (snd (send b w)) \<le> bodyLimit w"
  shows "bodyLimit (snd (packAdaptively items toBody send s)) \<le> bodyLimit s"
proof -
  obtain r t where run: "pack_run items toBody send s = (r, t)" by fastforce
  have t: "bodyLimit t \<le> bodyLimit s" using pack_run_bodyLimit [of send items toBody s] assms run by simp
  show ?thesis
  proof (cases r)
    case (Inl e)
    show ?thesis
    proof (cases "limitFrom413 e")
      case None
      with Inl run t show ?thesis by (simp add: packAdaptively_def catchIO_def throwIO_def)
    next
      case (Some said)
      have "bodyLimit (snd (pack_run items toBody send (t\<lparr>bodyLimit := said\<rparr>))) \<le> said"
        using pack_run_bodyLimit [of send items toBody "t\<lparr>bodyLimit := said\<rparr>"] assms by simp
      with Inl run t Some show ?thesis by (auto simp: packAdaptively_def catchIO_def throwIO_def)
    qed
  next
    case (Inr rows)
    with run t show ?thesis by (simp add: packAdaptively_def catchIO_def)
  qed
qed

text \<open>
  An upstream with a body limit of its own: it answers a body within it, and refuses a longer one with
  a 413 that names it.
\<close>

definition capped_send :: "nat \<Rightarrow> thrown \<Rightarrow> (json \<Rightarrow> 'row list) \<Rightarrow> json \<Rightarrow> ('s kworld, 'row list) io_result" where
  "capped_send L err g b s = (if byteLength b \<le> L then (Inr (g b), s) else (Inl err, s))"

lemma allIO_capped:
  "allIO (\<lambda>ch. capped_send L err g (toBody ch)) chunks s =
     (if \<forall>ch \<in> set chunks. byteLength (toBody ch) \<le> L then Inr (map (\<lambda>ch. g (toBody ch)) chunks)
      else Inl err, s)"
  by (induction chunks) (auto simp: capped_send_def returnIO_def)

lemma pack_run_capped:
  assumes chunks: "packBySize items toBody (bodyLimit s) = Inr chunks"
    and g: "\<And>ch. g (toBody ch) = concat (map h ch)" and "concat chunks = items"
  shows "pack_run items toBody (capped_send L err g) s =
    (if \<forall>ch \<in> set chunks. byteLength (toBody ch) \<le> L then Inr (concat (map h items)) else Inl err, s)"
proof -
  have "concat (map (\<lambda>ch. concat (map h ch)) chunks) = concat (map h (concat chunks))"
    by (induction chunks) auto
  then show ?thesis
    using assms by (simp add: pack_run_def bindIO_def liftE_def returnIO_def allIO_capped)
qed

section \<open>Properties\<close>

text \<open>
  C6: whatever upstream answers, a walk that returns is consistent with itself: no two of its rows have
  the same key, the keys are those of the rows in order, the total it reports is the number of rows it
  holds, and that number is within the row cap.  (That it returns at all is the termination proof of
  \<open>walk_loop\<close>: the function is total on every stream of responses.)
\<close>

theorem walkBatchPages_sound:
  assumes "walkBatchPages c n row path b rowKey keyset s = (Inr res, s')"
  shows "pr_keys res = (case rowKey of None \<Rightarrow> [] | Some f \<Rightarrow> map f (pr_rows res)) \<and>
    distinct (pr_keys res) \<and> pr_total res = length (pr_rows res) \<and> length (pr_rows res) \<le> 100000 \<and>
    1 \<le> pr_pageCount res"
proof -
  have "result_ok rowKey res"
    using assms walk_start_ok unfolding walkBatchPages_def by (rule walk_loop_ok)
  then show ?thesis
    unfolding result_ok_def keys_ok_def KOIOS_MAX_PAGED_ROWS_def by blast
qed

definition answering :: "'j http_response \<Rightarrow> ('s, 'j) net" where
  "answering r = \<lparr>doFetch = (\<lambda>req s. (FetchResponse r, s)), delayImpl = (\<lambda>ms s. s), onRetry = (\<lambda>e s. s)\<rparr>"

lemma serves_short: "length js \<le> 1000 \<Longrightarrow> serves_list c (answering (page_response js 0)) path b js"
proof -
  assume len: "length js \<le> 1000"
  show ?thesis
    unfolding serves_list_def
  proof (intro allI impI)
    fix i :: nat and s
    assume "i = 0 \<or> 1000 * i < length js"
    with len have "i = 0" by auto
    then show "fst (doFetch (answering (page_response js 0))
        (koios_http_request c (page_url path (1000 * i)) (page_init path b)) s) =
      FetchResponse (page_response js (1000 * i))" by (simp add: answering_def)
  qed
qed

definition idle :: "unit kworld" where
  "idle = \<lparr>bodyLimit = 5120, kouter = ()\<rparr>"

theorem walkBatchPages_sound_witness:
  "\<exists>res s'. walkBatchPages default_client (answering (page_response [5, 6 :: nat] 0)) Some ''/account_txs''
      JNull (Some string_of_nat) None idle = (Inr res, s') \<and> distinct (pr_keys res) \<and> pr_total res = 2"
proof -
  obtain res s' where w: "walkBatchPages default_client (answering (page_response [5, 6 :: nat] 0)) Some ''/account_txs''
      JNull (Some string_of_nat) None idle = (Inr res, s')" "pr_rows res = [5, 6]"
    using walkBatchPages_served [OF serves_short, of "[5, 6 :: nat]" Some "[5, 6]" "Some string_of_nat"
        default_client "''/account_txs''" JNull idle]
    by (auto simp: fresh_keys_def string_of_nat_inj)
  from walkBatchPages_sound [OF w(1)] w show ?thesis by auto
qed



text \<open>
  With the consistency check asked for, rows read over several pages are returned only when two
  complete walks, one right after the other, listed the same keys in the same order; a caller that asks
  for the check without a key function is refused before any request.
\<close>

theorem batchAllPages_consistent:
  assumes "opt_verifyConsistency opts" and "opt_keyset opts = None"
  shows "(opt_rowKey opts = None \<longrightarrow>
      (\<exists>m. batchAllPages c n row path b opts s = (Inl (JsTypeError m), s))) \<and>
    (\<forall>f rows s'. opt_rowKey opts = Some f \<longrightarrow> batchAllPages c n row path b opts s = (Inr rows, s') \<longrightarrow>
      distinct (map f rows) \<and>
      (\<exists>t t1 first. walkBatchPages c n row path b (Some f) None t = (Inr first, t1) \<and>
         pr_keys first = map f rows \<and>
         (pr_pageCount first = 1 \<or>
          (\<exists>second. walkBatchPages c n row path b (Some f) None t1 = (Inr second, s') \<and>
             pr_rows second = rows))))"
proof (rule conjI; intro impI allI)
  assume "opt_rowKey opts = None"
  with assms(1) show "\<exists>m. batchAllPages c n row path b opts s = (Inl (JsTypeError m), s)"
    by (auto simp: batchAllPages_def throwIO_def)
next
  fix f rows s'
  assume key: "opt_rowKey opts = Some f" and res: "batchAllPages c n row path b opts s = (Inr rows, s')"
  let ?load = "bindIO (walkBatchPages c n row path b (Some f) None) (\<lambda>first.
        if pr_pageCount first = 1 then returnIO (pr_rows first)
        else bindIO (walkBatchPages c n row path b (Some f) None) (\<lambda>second.
          if \<not> sameMembership first second
          then throwIO (malformed ''koios changed the paged result between consistency passes for '' path)
          else returnIO (pr_rows second)))"
  have "koios_read c n path ?load s = (Inr rows, s')"
    using res assms key by (simp add: batchAllPages_def Let_def)
  then have "\<exists>t. ?load t = (Inr rows, s')"
    unfolding koios_read_def by (rule retry_loop_Inr)
  then obtain t where t: "?load t = (Inr rows, s')" by blast
  then obtain first t1 where first: "walkBatchPages c n row path b (Some f) None t = (Inr first, t1)"
    and rest: "(if pr_pageCount first = 1 then returnIO (pr_rows first)
        else bindIO (walkBatchPages c n row path b (Some f) None) (\<lambda>second.
          if \<not> sameMembership first second
          then throwIO (malformed ''koios changed the paged result between consistency passes for '' path)
          else returnIO (pr_rows second))) t1 = (Inr rows, s')"
    by (auto simp: bindIO_Inr_conv)
  have ok: "result_ok (Some f) r" if "walkBatchPages c n row path b (Some f) None u = (Inr r, v)" for u v r
    using that walk_start_ok unfolding walkBatchPages_def by (rule walk_loop_ok)
  show "distinct (map f rows) \<and>
      (\<exists>t t1 first. walkBatchPages c n row path b (Some f) None t = (Inr first, t1) \<and>
         pr_keys first = map f rows \<and>
         (pr_pageCount first = 1 \<or>
          (\<exists>second. walkBatchPages c n row path b (Some f) None t1 = (Inr second, s') \<and>
             pr_rows second = rows)))"
  proof (cases "pr_pageCount first = 1")
    case True
    with rest have "pr_rows first = rows" by (simp add: returnIO_def)
    with True first ok [OF first] show ?thesis
      by (auto simp: result_ok_def keys_ok_def)
  next
    case False
    with rest obtain second where second: "walkBatchPages c n row path b (Some f) None t1 = (Inr second, s')"
      "sameMembership first second" "pr_rows second = rows"
      by (auto simp: bindIO_Inr_conv returnIO_def throwIO_def split: if_splits)
    have "pr_keys first = pr_keys second"
      using second(2) by (auto simp: sameMembership_def list_all_length intro: nth_equalityI)
    moreover have "pr_keys second = map f rows" "distinct (map f rows)"
      using ok [OF second(1)] second(3) by (auto simp: result_ok_def keys_ok_def)
    ultimately show ?thesis using first second by auto
  qed
qed

theorem batchAllPages_consistent_witness:
  "\<exists>m. batchAllPages default_client (answering (page_response [5, 6 :: nat] 0)) Some ''/account_txs'' JNull
      \<lparr>opt_rowKey = None, opt_keyset = None, opt_verifyConsistency = True\<rparr> idle = (Inl (JsTypeError m), idle)"
  using batchAllPages_consistent [of "\<lparr>opt_rowKey = None, opt_keyset = None, opt_verifyConsistency = True\<rparr>"
      default_client "answering (page_response [5, 6 :: nat] 0)" Some "''/account_txs''" JNull idle]
  by simp


text \<open>The message Koios sends.\<close>

definition too_large :: thrown where
  "too_large = ProviderError ''koios returned 413 for /tx_info'' (Some 413)
     (Some ''Payload too large, body length was 172. Please ensure your request body size is below 170 bytes'')"

lemma limitFrom413_too_large: "limitFrom413 too_large = Some 170"
  by code_simp

definition tx_items :: "json list" where
  "tx_items = [JStr (replicate 20 CHR ''a''), JStr (replicate 20 CHR ''b'')]"

definition tx_rows :: "json \<Rightarrow> json list" where
  "tx_rows b = (case b of JObj [(k, JArr xs)] \<Rightarrow> xs | _ \<Rightarrow> [])"


end
