(* ===== verification/Koios_Budget.thy ===== *)
theory Koios_Budget
  imports Koios_Paging
begin

text \<open>
  How many requests the paged reads of \<^verbatim>\<open>src/providers/koios/client.ts\<close> can send.  Upstream is an
  arbitrary network: nothing is assumed of what it answers.  Every request is bounded by its own timeout, so a
  bound on their number is what makes a paged read return.
\<close>

section \<open>Counting requests\<close>

text \<open>An action that adds at most \<open>k\<close> requests to the log, from whatever state it starts in.\<close>

definition sends_at_most :: "nat \<Rightarrow> (('s \<times> http_request list) kworld, 'a) io_result \<Rightarrow> bool" where
  "sends_at_most k act \<longleftrightarrow> (\<forall>s. length (snd (kouter (snd (act s)))) \<le> length (snd (kouter s)) + k)"

named_theorems send_bounds

lemma sends_at_mostD:
  "sends_at_most k act \<Longrightarrow> act s = (r, s') \<Longrightarrow> length (snd (kouter s')) \<le> length (snd (kouter s)) + k"
  unfolding sends_at_most_def by (metis snd_conv)

lemma sends_mono: "sends_at_most k act \<Longrightarrow> k \<le> m \<Longrightarrow> sends_at_most m act"
  unfolding sends_at_most_def by (meson add_left_mono le_trans)

lemma sends_return [send_bounds]: "sends_at_most k (returnIO a)"
  by (simp add: sends_at_most_def returnIO_def)

lemma sends_throw [send_bounds]: "sends_at_most k (throwIO e)"
  by (simp add: sends_at_most_def throwIO_def)

lemma sends_bind:
  assumes "sends_at_most j m" and "\<And>a. sends_at_most k (f a)"
  shows "sends_at_most (j + k) (bindIO m f)"
  unfolding sends_at_most_def
proof
  fix s
  obtain r s' where m: "m s = (r, s')" by fastforce
  have s': "length (snd (kouter s')) \<le> length (snd (kouter s)) + j" by (rule sends_at_mostD [OF assms(1) m])
  show "length (snd (kouter (snd (bindIO m f s)))) \<le> length (snd (kouter s)) + (j + k)"
  proof (cases r)
    case (Inr a)
    obtain r2 s2 where f: "f a s' = (r2, s2)" by fastforce
    show ?thesis using sends_at_mostD [OF assms(2) f] s' m f Inr by (simp add: bindIO_def)
  qed (use s' m in \<open>simp add: bindIO_def\<close>)
qed

lemma sends_request: "sends_at_most 1 (requestWithMetadata c (logged n) path i)"
  unfolding sends_at_most_def
proof
  fix s
  obtain s' where "snd (requestWithMetadata c (logged n) path i s) =
      s\<lparr>kouter := (s', snd (kouter s) @ [koios_http_request c path i])\<rparr>" by (rule request_logged)
  then show "length (snd (kouter (snd (requestWithMetadata c (logged n) path i s)))) \<le> length (snd (kouter s)) + 1"
    by simp
qed

section \<open>The walk and the retries\<close>

lemma sends_walk_loop: "sends_at_most (Suc (walk_room keyset w)) (walk_loop c (logged n) row path b rowKey keyset w)"
proof (induction "walk_room keyset w" arbitrary: w rule: less_induct)
  case less
  show ?case unfolding sends_at_most_def
  proof
    fix s
    let ?req = "requestWithMetadata c (logged n) (page_path path keyset w) (page_init path b)"
    note unfold = walk_loop.simps [of c "logged n" row path b rowKey keyset w s]
    obtain r s' where req: "?req s = (r, s')" by fastforce
    have one: "length (snd (kouter s')) \<le> length (snd (kouter s)) + 1" by (rule sends_at_mostD [OF sends_request req])
    show "length (snd (kouter (snd (walk_loop c (logged n) row path b rowKey keyset w s)))) \<le>
        length (snd (kouter s)) + Suc (walk_room keyset w)"
    proof (cases "\<exists>x w'. r = Inr x \<and> walk_page row path rowKey keyset x w = Inr (WalkNext w')")
      case True
      then obtain x w' where x: "r = Inr x" "walk_page row path rowKey keyset x w = Inr (WalkNext w')" by blast
      have room: "walk_room keyset w' < walk_room keyset w" using x(2) by (rule walk_page_room)
      obtain r2 s2 where rest: "walk_loop c (logged n) row path b rowKey keyset w' s' = (r2, s2)" by fastforce
      show ?thesis using sends_at_mostD [OF less [OF room] rest] one room unfold req x rest by simp
    next
      case False
      then have "snd (walk_loop c (logged n) row path b rowKey keyset w s) = s'"
        using req by (auto simp: unfold split: sum.split walk_step.split)
      then show ?thesis using one by simp
    qed
  qed
qed

lemma sends_walk [send_bounds]:
  "sends_at_most (KOIOS_MAX_PAGED_ROWS + 3) (walkBatchPages c (logged n) row path b rowKey keyset)"
  using sends_walk_loop [of keyset walk_start c n row path b rowKey]
  by (simp add: walkBatchPages_def walk_room_def walk_start_def numeral_3_eq_3)

lemma sends_retry:
  assumes "sends_at_most k load" and "attempt \<le> limit"
  shows "sends_at_most ((Suc limit - attempt) * k)
    (retry_loop koios_isTransient limit (koios_onFail c (logged n) path) load attempt)"
  using assms(2)
proof (induction "limit - attempt" arbitrary: attempt)
  case 0
  then have "attempt = limit" by simp
  moreover have "snd (retry_loop koios_isTransient limit (koios_onFail c (logged n) path) load limit s) = snd (load s)" for s
    by (cases "load s"; cases "fst (load s)") (simp_all add: retry_loop.simps [of _ _ _ _ limit])
  ultimately show ?case using assms(1) by (simp add: sends_at_most_def)
next
  case (Suc d)
  let ?loop = "retry_loop koios_isTransient limit (koios_onFail c (logged n) path) load"
  have rest: "sends_at_most ((Suc limit - Suc attempt) * k) (?loop (Suc attempt))"
    using Suc.hyps(2) Suc.prems by (intro Suc.hyps(1)) simp_all
  have split: "(Suc limit - attempt) * k = k + (Suc limit - Suc attempt) * k"
    using Suc.prems by (simp add: Suc_diff_le)
  show ?case unfolding sends_at_most_def split
  proof
    fix s
    obtain r s' where l: "load s = (r, s')" by fastforce
    have here: "length (snd (kouter s')) \<le> length (snd (kouter s)) + k" by (rule sends_at_mostD [OF assms(1) l])
    show "length (snd (kouter (snd (?loop attempt s)))) \<le> length (snd (kouter s)) + (k + (Suc limit - Suc attempt) * k)"
    proof (cases "\<exists>e. r = Inl e \<and> koios_isTransient e")
      case True
      then obtain e where e: "r = Inl e" "koios_isTransient e" by blast
      let ?s = "koios_onFail c (logged n) path attempt e s'"
      obtain r2 s2 where again: "?loop (Suc attempt) ?s = (r2, s2)" by fastforce
      have "snd (?loop attempt s) = s2"
        using l e again Suc.hyps(2) by (simp add: retry_loop.simps [of _ _ _ _ attempt])
      then show ?thesis using sends_at_mostD [OF rest again] here by (simp add: koios_onFail_log)
    next
      case False
      then have "snd (?loop attempt s) = s'"
        using l by (cases r) (auto simp: retry_loop.simps [of _ _ _ _ attempt])
      then show ?thesis using here by simp
    qed
  qed
qed

lemma sends_read:
  "sends_at_most k load \<Longrightarrow> 1 \<le> kc_readAttempts c \<Longrightarrow>
     sends_at_most (kc_readAttempts c * k) (koios_read c (logged n) path load)"
  using sends_retry [of k load 1 "kc_readAttempts c" c n path] by (simp add: koios_read_def)

lemma sends_if: "sends_at_most k a \<Longrightarrow> sends_at_most k b \<Longrightarrow> sends_at_most k (if P then a else b)"
  by simp

lemma sends_batchAllPages:
  assumes "1 \<le> kc_readAttempts c"
  shows "sends_at_most (kc_readAttempts c * (KOIOS_MAX_PAGED_ROWS + 3 + (KOIOS_MAX_PAGED_ROWS + 3)))
    (batchAllPages c (logged n) row path b opts)"
proof -
  let ?k = "KOIOS_MAX_PAGED_ROWS + 3"
  have second: "sends_at_most ?k (bindIO (walkBatchPages c (logged n) row path b (opt_rowKey opts) None) (\<lambda>second.
      if \<not> sameMembership first second then throwIO (malformed m path) else returnIO (pr_rows second)))" for first m
    by (rule sends_mono [OF sends_bind [OF sends_walk sends_if [OF sends_throw sends_return]], of 0]) simp
  show ?thesis
    unfolding batchAllPages_def Let_def
    by (rule sends_if [OF sends_throw]) (rule sends_read [OF sends_bind [OF sends_walk sends_if [OF sends_return second]] assms])
qed

text \<open>
  C10: whatever upstream answers, page after page, a paged batch read ends within 100,003 pages for each of its two
  walks and each of its read attempts; nothing it is told can keep it asking.
\<close>

theorem batchAllPages_ends:
  assumes "1 \<le> kc_readAttempts c"
  shows "length (snd (kouter (snd (batchAllPages c (logged n) row path b opts w)))) \<le>
    length (snd (kouter w)) + kc_readAttempts c * (2 * (KOIOS_MAX_PAGED_ROWS + 3))"
  using sends_batchAllPages [OF assms, of n row path b opts] unfolding sends_at_most_def mult_2 by (rule spec)

theorem batchAllPages_ends_witness:
  "length (snd (kouter (snd (batchAllPages default_client (logged (answering (page_response [5, 6 :: nat] 0)))
      Some ''/account_txs'' JNull no_options \<lparr>bodyLimit = 5120, kouter = ((), [])\<rparr>)))) \<le> 0 + 2 * (2 * 100003)"
proof -
  have "kc_readAttempts default_client = 2" by (simp add: default_client_def)
  with batchAllPages_ends [of default_client "answering (page_response [5, 6 :: nat] 0)" Some "''/account_txs''" JNull
      no_options "\<lparr>bodyLimit = 5120, kouter = ((), [])\<rparr>"]
  show ?thesis by (simp add: KOIOS_MAX_PAGED_ROWS_def)
qed

end
