(* ===== verification/Token_Bucket.thy ===== *)
theory Token_Bucket
  imports Complex_Main Prelude
begin

text \<open>
  The two token buckets: \<^verbatim>\<open>src/providers/blockfrost/rate-limiter.ts\<close> (\<open>createRateLimiter\<close>) and
  \<^verbatim>\<open>src/prices/rate-limit.ts\<close> (\<open>createTokenBucket\<close>).  Token counts are doubles: a value is a rational,
  and every operation of the source rounds its exact result with \<open>rnd\<close>, a parameter; \<open>rounds u rnd\<close>
  says that its relative error is at most \<open>u\<close>, as IEEE 754 does with \<open>u = 2^-53\<close>.

  One turn of the loop of \<open>acquire\<close> (refill, check, spend) runs to completion on the one JavaScript
  thread, so an execution of any number of concurrent callers is the list of the times at which one
  of them takes a turn.
\<close>

record bucket =
  bk_tokens :: rat
  bk_last :: rat

definition rounds :: "rat \<Rightarrow> (rat \<Rightarrow> rat) \<Rightarrow> bool" where
  "rounds u rnd \<longleftrightarrow> 0 \<le> u \<and> (\<forall>x \<ge> 0. 0 \<le> rnd x \<and> rnd x \<le> (1 + u) * x) \<and> (\<forall>x \<le> 0. rnd x \<le> 0)"

definition bucket_refill :: "(rat \<Rightarrow> rat) \<Rightarrow> rat \<Rightarrow> rat \<Rightarrow> rat \<Rightarrow> bucket \<Rightarrow> bucket" where
  "bucket_refill rnd burst refillPerMs now b =
     (let elapsed = rnd (now - bk_last b) in
      if elapsed \<le> 0 then b
      else b\<lparr>bk_tokens := min burst (rnd (bk_tokens b + rnd (elapsed * refillPerMs))), bk_last := now\<rparr>)"

text \<open>One turn of the loop: \<open>None\<close> when the caller is cleared, else how long it waits before the next.\<close>

definition bucket_turn :: "(rat \<Rightarrow> rat) \<Rightarrow> rat \<Rightarrow> rat \<Rightarrow> rat \<Rightarrow> bucket \<Rightarrow> int option \<times> bucket" where
  "bucket_turn rnd burst refillPerMs now b0 =
     (let b = bucket_refill rnd burst refillPerMs now b0 in
      if bk_tokens b \<ge> 1 then (None, b\<lparr>bk_tokens := rnd (bk_tokens b - 1)\<rparr>)
      else (Some (max 1 \<lceil>rnd (rnd (1 - bk_tokens b) / refillPerMs)\<rceil>), b))"

text \<open>\<open>acquire\<close>: it may not return, when the clock does not move.\<close>

partial_function (option) bucket_acquire ::
  "(rat \<Rightarrow> rat) \<Rightarrow> rat \<Rightarrow> rat \<Rightarrow> ('s \<Rightarrow> rat) \<Rightarrow> (int \<Rightarrow> 's \<Rightarrow> 's) \<Rightarrow> bucket \<Rightarrow> 's \<Rightarrow> (bucket \<times> 's) option" where
  "bucket_acquire rnd burst refillPerMs now delay b s =
     (case bucket_turn rnd burst refillPerMs (now s) b of
        (None, b') \<Rightarrow> Some (b', s)
      | (Some w, b') \<Rightarrow> bucket_acquire rnd burst refillPerMs now delay b' (delay w s))"

section \<open>The two buckets\<close>

definition createRateLimiter :: "(rat \<Rightarrow> rat) \<Rightarrow> rat \<Rightarrow> nat \<Rightarrow> rat \<Rightarrow> rat \<times> bucket" where
  "createRateLimiter rnd requestsPerSecond burst now =
     (rnd (requestsPerSecond / 1000), \<lparr>bk_tokens = of_nat burst, bk_last = now\<rparr>)"

definition createTokenBucket :: "(rat \<Rightarrow> rat) \<Rightarrow> nat \<Rightarrow> rat \<Rightarrow> rat \<Rightarrow> rat \<times> bucket" where
  "createTokenBucket rnd capacity refillIntervalMs now =
     (rnd (1 / refillIntervalMs), \<lparr>bk_tokens = of_nat capacity, bk_last = now\<rparr>)"

section \<open>The budget\<close>

definition bucket_ok :: "rat \<Rightarrow> bucket \<Rightarrow> bool" where
  "bucket_ok burst b \<longleftrightarrow> 0 \<le> bk_tokens b \<and> bk_tokens b \<le> burst"

text \<open>The number of callers cleared when turns are taken at the given times.\<close>

fun cleared :: "(rat \<Rightarrow> rat) \<Rightarrow> rat \<Rightarrow> rat \<Rightarrow> rat list \<Rightarrow> bucket \<Rightarrow> nat \<times> bucket" where
  "cleared rnd burst rate [] b = (0, b)"
| "cleared rnd burst rate (t # ts) b =
     (case bucket_turn rnd burst rate t b of (w, b') \<Rightarrow>
      case cleared rnd burst rate ts b' of (k, b'') \<Rightarrow> ((if w = None then k + 1 else k), b''))"

lemma rounds_pos: "rounds u rnd \<Longrightarrow> 0 \<le> x \<Longrightarrow> 0 \<le> rnd x"
  and rounds_le: "rounds u rnd \<Longrightarrow> 0 \<le> x \<Longrightarrow> rnd x \<le> (1 + u) * x"
  and rounds_u: "rounds u rnd \<Longrightarrow> 0 \<le> u"
  and rounds_neg: "rounds u rnd \<Longrightarrow> x \<le> 0 \<Longrightarrow> rnd x \<le> 0"
  by (auto simp: rounds_def)

lemma refill_bounds:
  assumes rnd: "rounds u rnd" and rate: "0 \<le> rate" and ok: "bucket_ok burst b" and burst: "0 \<le> burst"
    and b': "b' = bucket_refill rnd burst rate t b"
  shows "bucket_ok burst b'" and "bk_last b \<le> bk_last b'"
    and "bk_tokens b' \<le> bk_tokens b + u * burst + (1 + u) ^ 3 * rate * (bk_last b' - bk_last b)"
proof -
  define elapsed where "elapsed = rnd (t - bk_last b)"
  have u: "0 \<le> u" using rnd by (rule rounds_u)
  have "bucket_ok burst b' \<and> bk_last b \<le> bk_last b' \<and>
      bk_tokens b' \<le> bk_tokens b + u * burst + (1 + u) ^ 3 * rate * (bk_last b' - bk_last b)"
  proof (cases "elapsed \<le> 0")
    case True
    then have "b' = b" by (simp add: b' bucket_refill_def elapsed_def)
    with ok u burst show ?thesis by simp
  next
    case False
    then have pos: "0 \<le> t - bk_last b"
      using rounds_neg [OF rnd, of "t - bk_last b"] by (metis elapsed_def linear)
    let ?gain = "rnd (elapsed * rate)" and ?tok = "bk_tokens b"
    have b'_eq: "b' = b\<lparr>bk_tokens := min burst (rnd (?tok + ?gain)), bk_last := t\<rparr>"
      using False by (simp add: b' bucket_refill_def elapsed_def Let_def)
    have el: "elapsed \<le> (1 + u) * (t - bk_last b)" "0 \<le> elapsed * rate"
      using rounds_le [OF rnd pos] False rate by (simp_all add: elapsed_def)
    have gain: "0 \<le> ?gain" "?gain \<le> (1 + u) * (elapsed * rate)"
      using rounds_pos [OF rnd el(2)] rounds_le [OF rnd el(2)] by auto
    have "elapsed * rate \<le> (1 + u) * (t - bk_last b) * rate"
      using el(1) rate by (rule mult_right_mono)
    then have "(1 + u) * (elapsed * rate) \<le> (1 + u) * ((1 + u) * (t - bk_last b) * rate)"
      using u by (intro mult_left_mono) auto
    with gain(2) have gain2: "?gain \<le> (1 + u) ^ 2 * rate * (t - bk_last b)"
      by (simp add: power2_eq_square mult_ac)
    have tok: "0 \<le> ?tok" "?tok \<le> burst" using ok by (auto simp: bucket_ok_def)
    have sum: "0 \<le> rnd (?tok + ?gain)" "rnd (?tok + ?gain) \<le> (1 + u) * (?tok + ?gain)"
      using rounds_pos [OF rnd, of "?tok + ?gain"] rounds_le [OF rnd, of "?tok + ?gain"] tok(1) gain(1) by auto
    have "(1 + u) * (?tok + ?gain) = ?tok + u * ?tok + (1 + u) * ?gain" by (simp add: algebra_simps)
    also have "u * ?tok \<le> u * burst" using tok u by (intro mult_left_mono) auto
    also have "(1 + u) * ?gain \<le> (1 + u) * ((1 + u) ^ 2 * rate * (t - bk_last b))"
      using gain2 u by (intro mult_left_mono) auto
    finally have "rnd (?tok + ?gain) \<le> ?tok + u * burst + (1 + u) ^ 3 * rate * (t - bk_last b)"
      using sum(2) by (simp add: power3_eq_cube power2_eq_square mult_ac)
    with sum(1) burst pos show ?thesis
      by (auto simp: b'_eq bucket_ok_def min_def)
  qed
  then show "bucket_ok burst b'" "bk_last b \<le> bk_last b'"
    "bk_tokens b' \<le> bk_tokens b + u * burst + (1 + u) ^ 3 * rate * (bk_last b' - bk_last b)" by auto
qed

lemma turn_bounds:
  assumes rnd: "rounds u rnd" and rate: "0 \<le> rate" and ok: "bucket_ok burst b" and burst: "0 \<le> burst"
    and turn: "bucket_turn rnd burst rate t b = (w, b')"
  shows "0 \<le> bk_tokens b'" and "bk_last b \<le> bk_last b'"
    and "bk_tokens b' + (if w = None then 1 else 0) \<le>
      bk_tokens b + 2 * (u * burst) + (1 + u) ^ 3 * rate * (bk_last b' - bk_last b)"
proof -
  let ?c = "bucket_refill rnd burst rate t b"
  note c = refill_bounds [OF rnd rate ok burst refl, of t]
  have u: "0 \<le> u" using rnd by (rule rounds_u)
  have ub: "0 \<le> u * burst" using u burst by simp
  have "0 \<le> bk_tokens b' \<and> bk_last b \<le> bk_last b' \<and> bk_tokens b' + (if w = None then 1 else 0) \<le>
      bk_tokens b + 2 * (u * burst) + (1 + u) ^ 3 * rate * (bk_last b' - bk_last b)"
  proof (cases "bk_tokens ?c \<ge> 1")
    case True
    then have b': "w = None" "bk_tokens b' = rnd (bk_tokens ?c - 1)" "bk_last b' = bk_last ?c"
      using turn by (auto simp: bucket_turn_def Let_def)
    have "bk_tokens b' \<le> (1 + u) * (bk_tokens ?c - 1)" "0 \<le> bk_tokens b'"
      using True rounds_le [OF rnd, of "bk_tokens ?c - 1"] rounds_pos [OF rnd, of "bk_tokens ?c - 1"]
      by (auto simp: b'(2))
    moreover have "(1 + u) * (bk_tokens ?c - 1) \<le> bk_tokens ?c - 1 + u * burst"
    proof -
      have "u * (bk_tokens ?c - 1) \<le> u * burst"
        using c(1) u by (intro mult_left_mono) (auto simp: bucket_ok_def)
      then show ?thesis by (simp add: algebra_simps)
    qed
    ultimately show ?thesis using c(2,3) b' by simp
  next
    case False
    then have "w \<noteq> None" "b' = ?c" using turn by (auto simp: bucket_turn_def Let_def)
    with c ub show ?thesis by (auto simp: bucket_ok_def)
  qed
  then show "0 \<le> bk_tokens b'" and "bk_last b \<le> bk_last b'"
    "bk_tokens b' + (if w = None then 1 else 0) \<le>
      bk_tokens b + 2 * (u * burst) + (1 + u) ^ 3 * rate * (bk_last b' - bk_last b)" by auto
qed


lemma turn_ok:
  assumes rnd: "rounds u rnd" and rate: "0 \<le> rate" and ok: "bucket_ok burst b" and burst: "0 \<le> burst"
    and turn: "bucket_turn rnd burst rate t b = (w, b')" and u: "u * burst \<le> 1"
  shows "bucket_ok burst b'"
proof (cases w)
  case None
  let ?c = "bucket_refill rnd burst rate t b"
  have c: "bucket_ok burst ?c" by (rule refill_bounds(1) [OF rnd rate ok burst refl])
  have turn': "1 \<le> bk_tokens ?c" "bk_tokens b' = rnd (bk_tokens ?c - 1)"
    using turn None by (auto simp: bucket_turn_def Let_def split: if_splits)
  have "bk_tokens b' \<le> (1 + u) * (bk_tokens ?c - 1)"
    using turn' rounds_le [OF rnd, of "bk_tokens ?c - 1"] by simp
  also have "\<dots> \<le> (1 + u) * (burst - 1)"
    using c rounds_u [OF rnd] by (intro mult_left_mono) (auto simp: bucket_ok_def)
  also have "\<dots> \<le> burst" using u rounds_u [OF rnd] by (simp add: algebra_simps)
  finally show ?thesis
    using turn_bounds(1) [OF rnd rate ok burst turn] by (simp add: bucket_ok_def)
next
  case (Some ms)
  then have "b' = bucket_refill rnd burst rate t b"
    using turn by (auto simp: bucket_turn_def Let_def split: if_splits)
  then show ?thesis using refill_bounds(1) [OF rnd rate ok burst] by blast
qed

lemma turn_last: "bucket_turn rnd burst rate t b = (w, b') \<Longrightarrow> bk_last b' \<in> {bk_last b, t}"
  by (auto simp: bucket_turn_def bucket_refill_def Let_def split: if_splits)

lemma cleared_budget:
  assumes rnd: "rounds u rnd" and rate: "0 \<le> rate" and burst: "0 \<le> burst" and u: "u * burst \<le> 1"
  shows "bucket_ok burst b \<Longrightarrow> cleared rnd burst rate ts b = (k, b') \<Longrightarrow>
    bucket_ok burst b' \<and> bk_last b \<le> bk_last b' \<and> bk_last b' \<in> insert (bk_last b) (set ts) \<and>
    of_nat k + bk_tokens b' \<le> bk_tokens b + of_nat (length ts) * (2 * (u * burst)) +
      (1 + u) ^ 3 * rate * (bk_last b' - bk_last b)"
proof (induction ts arbitrary: b k)
  case (Cons t ts)
  obtain w c where turn: "bucket_turn rnd burst rate t b = (w, c)" by fastforce
  obtain m where rest: "cleared rnd burst rate ts c = (m, b')" and k: "k = (if w = None then m + 1 else m)"
    using Cons.prems(2) turn by (auto split: prod.splits)
  note tb = turn_bounds [OF rnd rate Cons.prems(1) burst turn]
  have "bucket_ok burst c" by (rule turn_ok [OF rnd rate Cons.prems(1) burst turn u])
  note ih = Cons.IH [OF this rest]
  have "of_nat k + bk_tokens b' = (of_nat m + bk_tokens b') + (if w = None then 1 else 0)"
    by (simp add: k)
  also have "\<dots> \<le> bk_tokens b + of_nat (length (t # ts)) * (2 * (u * burst)) +
      (1 + u) ^ 3 * rate * (bk_last b' - bk_last b)"
    using ih tb(3) by (simp add: algebra_simps)
  finally show ?case using ih tb(2) turn_last [OF turn] by auto
qed simp

section \<open>Properties\<close>

text \<open>
  C13: however many requests are queued and in whatever order they take their turns, the Blockfrost
  limiter never holds more than a burst of tokens or a negative balance, and the number of requests it
  lets out until time \<open>T\<close> is at most a burst plus the configured rate times the time passed, up to the
  rounding of the doubles (nothing at all with exact arithmetic).
\<close>

theorem rate_limiter_budget:
  assumes "rounds u rnd" and "u * of_nat burst \<le> 1" and "0 \<le> rps"
    and "createRateLimiter rnd rps burst now = (rate, b)"
    and "cleared rnd (of_nat burst) rate ts b = (k, b')" and "\<forall>t \<in> set ts. t \<le> T" and "now \<le> T"
  shows "0 \<le> bk_tokens b' \<and> bk_tokens b' \<le> of_nat burst \<and>
    of_nat k \<le> of_nat burst + (1 + u) ^ 4 * (rps / 1000) * (T - now) +
      of_nat (length ts) * (2 * (u * of_nat burst))"
proof -
  have u: "0 \<le> u" using assms(1) by (rule rounds_u)
  have rate: "rate = rnd (rps / 1000)" and b: "bk_tokens b = of_nat burst" "bk_last b = now"
    using assms(4) by (auto simp: createRateLimiter_def)
  have rate_le: "0 \<le> rate" "rate \<le> (1 + u) * (rps / 1000)"
    using rounds_pos [OF assms(1), of "rps / 1000"] rounds_le [OF assms(1), of "rps / 1000"] assms(3)
    by (auto simp: rate)
  have "bucket_ok (of_nat burst) b" by (simp add: bucket_ok_def b)
  note c = cleared_budget [OF assms(1) rate_le(1) _ assms(2) this assms(5)]
  have last: "now \<le> bk_last b'" "bk_last b' \<le> T" using c assms(6,7) by (auto simp: b)
  have "(1 + u) ^ 3 * rate * (bk_last b' - now) \<le> (1 + u) ^ 3 * ((1 + u) * (rps / 1000)) * (T - now)"
    using rate_le last u assms(3) by (intro mult_mono mult_nonneg_nonneg) auto
  also have "(1 + u) ^ 3 * ((1 + u) * (rps / 1000)) * (T - now) = (1 + u) ^ 4 * (rps / 1000) * (T - now)"
    by (simp add: power4_eq_xxxx power3_eq_cube mult_ac)
  finally show ?thesis using c by (auto simp: b bucket_ok_def)
qed

theorem rate_limiter_budget_witness:
  "cleared (\<lambda>x. x) 2 (1 / 100) [0, 0, 0, 50, 100] \<lparr>bk_tokens = 2, bk_last = 0\<rparr> =
     (3, \<lparr>bk_tokens = 0, bk_last = 100\<rparr>) \<and> (3 :: rat) \<le> 2 + 1 * (10 / 1000) * (100 - 0)"
proof -
  have run: "cleared (\<lambda>x. x) (of_nat 2) (1 / 100) [0, 0, 0, 50, 100] \<lparr>bk_tokens = 2, bk_last = 0\<rparr> =
     (3, \<lparr>bk_tokens = 0, bk_last = 100\<rparr>)"
    by (simp add: bucket_turn_def bucket_refill_def Let_def)
  have init: "createRateLimiter (\<lambda>x. x) 10 2 0 = (1 / 100, \<lparr>bk_tokens = 2, bk_last = 0\<rparr>)"
    by (simp add: createRateLimiter_def)
  have "rounds 0 (\<lambda>x. x)" by (simp add: rounds_def)
  from rate_limiter_budget [OF this _ _ init run, of 100] run show ?thesis by simp
qed

text \<open>
  The price bucket keeps its budget too: until time \<open>T\<close> it clears at most its capacity plus one call
  per refill interval, up to rounding.
\<close>

lemma token_bucket_budget:
  assumes "rounds u rnd" and "u * of_nat capacity \<le> 1" and "0 < interval"
    and "createTokenBucket rnd capacity interval now = (rate, b)"
    and "cleared rnd (of_nat capacity) rate ts b = (k, b')" and "\<forall>t \<in> set ts. t \<le> T" and "now \<le> T"
  shows "0 \<le> bk_tokens b' \<and> bk_tokens b' \<le> of_nat capacity \<and>
    of_nat k \<le> of_nat capacity + (1 + u) ^ 4 * ((T - now) / interval) +
      of_nat (length ts) * (2 * (u * of_nat capacity))"
proof -
  have u: "0 \<le> u" using assms(1) by (rule rounds_u)
  have rate: "rate = rnd (1 / interval)" and b: "bk_tokens b = of_nat capacity" "bk_last b = now"
    using assms(4) by (auto simp: createTokenBucket_def)
  have rate_le: "0 \<le> rate" "rate \<le> (1 + u) * (1 / interval)"
    using rounds_pos [OF assms(1), of "1 / interval"] rounds_le [OF assms(1), of "1 / interval"] assms(3)
    by (auto simp: rate)
  have "bucket_ok (of_nat capacity) b" by (simp add: bucket_ok_def b)
  note c = cleared_budget [OF assms(1) rate_le(1) _ assms(2) this assms(5)]
  have last: "now \<le> bk_last b'" "bk_last b' \<le> T" using c assms(6,7) by (auto simp: b)
  have "(1 + u) ^ 3 * rate * (bk_last b' - now) \<le> (1 + u) ^ 3 * ((1 + u) * (1 / interval)) * (T - now)"
    using rate_le last u assms(3) by (intro mult_mono mult_nonneg_nonneg) auto
  also have "(1 + u) ^ 3 * ((1 + u) * (1 / interval)) * (T - now) = (1 + u) ^ 4 * ((T - now) / interval)"
    by (simp add: power4_eq_xxxx power3_eq_cube mult_ac)
  finally show ?thesis using c by (auto simp: b bucket_ok_def)
qed

lemma token_bucket_budget_witness:
  "cleared (\<lambda>x. x) 1 (1 / 2000) [0, 1000, 2000] \<lparr>bk_tokens = 1, bk_last = 0\<rparr> =
     (2, \<lparr>bk_tokens = 0, bk_last = 2000\<rparr>) \<and> (2 :: rat) \<le> 1 + (2000 - 0) / 2000"
proof -
  have run: "cleared (\<lambda>x. x) (of_nat 1) (1 / 2000) [0, 1000, 2000] \<lparr>bk_tokens = 1, bk_last = 0\<rparr> =
     (2, \<lparr>bk_tokens = 0, bk_last = 2000\<rparr>)"
    by (simp add: bucket_turn_def bucket_refill_def Let_def)
  have init: "createTokenBucket (\<lambda>x. x) 1 2000 0 = (1 / 2000, \<lparr>bk_tokens = 1, bk_last = 0\<rparr>)"
    by (simp add: createTokenBucket_def)
  have "rounds 0 (\<lambda>x. x)" by (simp add: rounds_def)
  from token_bucket_budget [OF this _ _ init run, of 2000] run show ?thesis by simp
qed



end
