(* ===== verification/Concurrency.thy ===== *)
theory Concurrency
  imports Errors
begin

text \<open>
  \<open>mapWithConcurrency\<close> of \<^verbatim>\<open>src/providers/blockfrost/concurrency.ts\<close>: a pool of workers over one
  shared iterator.  The interleaving is a step relation: the loop body of one worker between two
  \<open>await\<close>s is a step.  \<open>outcome i\<close> is how the call of \<open>worker\<close> on item \<open>i\<close> settles.
\<close>

record 'r pool =
  p_next :: nat
  p_busy :: "nat set"
  p_idle :: nat
  p_done :: nat
  p_results :: "nat \<Rightarrow> 'r option"
  p_failed :: "thrown option"

definition workerCount :: "nat \<Rightarrow> nat \<Rightarrow> nat" where
  "workerCount limit n = max 1 (min limit n)"

text \<open>The workers have been created; none has looked at the iterator yet.\<close>

definition pool_start :: "nat \<Rightarrow> nat \<Rightarrow> 'r pool" where
  "pool_start limit n = \<lparr>p_next = 0, p_busy = {}, p_idle = workerCount limit n, p_done = 0,
     p_results = (\<lambda>_. None), p_failed = None\<rparr>"

text \<open>
  \<open>claim\<close>: an idle worker takes the next entry and calls \<open>worker\<close>; \<open>quit\<close>: it takes an entry after a
  failure and returns; \<open>exhausted\<close>: there is no entry left; \<open>settle_ok\<close> and \<open>settle_err\<close>: its call
  settles, and the first rejection is the one \<open>Promise.all\<close> reports.
\<close>

inductive pool_step :: "(nat \<Rightarrow> 'r result) \<Rightarrow> nat \<Rightarrow> 'r pool \<Rightarrow> 'r pool \<Rightarrow> bool"
  for outcome n where
  claim: "0 < p_idle p \<Longrightarrow> p_next p < n \<Longrightarrow> p_failed p = None \<Longrightarrow>
    pool_step outcome n p (p\<lparr>p_idle := p_idle p - 1, p_busy := insert (p_next p) (p_busy p),
      p_next := p_next p + 1\<rparr>)"
| quit: "0 < p_idle p \<Longrightarrow> p_next p < n \<Longrightarrow> p_failed p \<noteq> None \<Longrightarrow>
    pool_step outcome n p (p\<lparr>p_idle := p_idle p - 1, p_done := p_done p + 1, p_next := p_next p + 1\<rparr>)"
| exhausted: "0 < p_idle p \<Longrightarrow> n \<le> p_next p \<Longrightarrow>
    pool_step outcome n p (p\<lparr>p_idle := p_idle p - 1, p_done := p_done p + 1\<rparr>)"
| settle_ok: "i \<in> p_busy p \<Longrightarrow> outcome i = Inr r \<Longrightarrow>
    pool_step outcome n p (p\<lparr>p_busy := p_busy p - {i}, p_idle := p_idle p + 1,
      p_results := (p_results p)(i := Some r)\<rparr>)"
| settle_err: "i \<in> p_busy p \<Longrightarrow> outcome i = Inl e \<Longrightarrow>
    pool_step outcome n p (p\<lparr>p_busy := p_busy p - {i}, p_done := p_done p + 1,
      p_failed := (case p_failed p of None \<Rightarrow> Some e | Some e' \<Rightarrow> Some e')\<rparr>)"

inductive_cases pool_stepE: "pool_step outcome n p q"

inductive pool_run :: "(nat \<Rightarrow> 'r result) \<Rightarrow> nat \<Rightarrow> nat \<Rightarrow> 'r pool \<Rightarrow> bool"
  for outcome limit n where
  run_start: "pool_run outcome limit n (pool_start limit n)"
| run_step: "pool_run outcome limit n p \<Longrightarrow> pool_step outcome n p q \<Longrightarrow> pool_run outcome limit n q"

definition pool_finished :: "nat \<Rightarrow> nat \<Rightarrow> 'r pool \<Rightarrow> bool" where
  "pool_finished limit n p \<longleftrightarrow> p_done p = workerCount limit n"

text \<open>What the caller gets when the pool has run: the results by index, or the first rejection.\<close>

definition pool_answer :: "nat \<Rightarrow> 'r pool \<Rightarrow> 'r list result" where
  "pool_answer n p = (case p_failed p of
     Some e \<Rightarrow> Inl e | None \<Rightarrow> Inr (map (\<lambda>i. the (p_results p i)) [0..<n]))"

section \<open>The invariant\<close>

definition pool_inv :: "(nat \<Rightarrow> 'r result) \<Rightarrow> nat \<Rightarrow> nat \<Rightarrow> 'r pool \<Rightarrow> bool" where
  "pool_inv outcome limit n p \<longleftrightarrow>
     finite (p_busy p) \<and> p_next p \<le> n \<and> (\<forall>i \<in> p_busy p. i < p_next p) \<and>
     p_idle p + card (p_busy p) + p_done p = workerCount limit n \<and>
     (\<forall>i r. p_results p i = Some r \<longrightarrow> i < p_next p \<and> i \<notin> p_busy p \<and> outcome i = Inr r) \<and>
     (p_failed p = None \<longrightarrow> (\<forall>i < p_next p. i \<in> p_busy p \<or> p_results p i \<noteq> None) \<and>
        (0 < p_done p \<longrightarrow> p_next p = n)) \<and>
     (\<forall>e. p_failed p = Some e \<longrightarrow> (\<exists>i < n. outcome i = Inl e))"

lemma pool_inv_start: "pool_inv outcome limit n (pool_start limit n)"
  by (simp add: pool_inv_def pool_start_def)

lemma pool_inv_step:
  assumes "pool_step outcome n p q" and inv: "pool_inv outcome limit n p"
  shows "pool_inv outcome limit n q"
  using assms(1)
proof (cases rule: pool_step.cases)
  case claim
  have new: "p_next p \<notin> p_busy p" using inv by (auto simp: pool_inv_def)
  have "card (insert (p_next p) (p_busy p)) = Suc (card (p_busy p))"
    using inv new by (simp add: pool_inv_def)
  with claim inv show ?thesis
    by (auto simp: pool_inv_def less_Suc_eq)
next
  case (settle_ok i r)
  have "0 < card (p_busy p)" "card (p_busy p - {i}) = card (p_busy p) - 1"
    using settle_ok inv by (auto simp: pool_inv_def card_gt_0_iff)
  with settle_ok inv show ?thesis
    by (auto simp: pool_inv_def)
next
  case (settle_err i e)
  have "0 < card (p_busy p)" "card (p_busy p - {i}) = card (p_busy p) - 1"
    using settle_err inv by (auto simp: pool_inv_def card_gt_0_iff)
  moreover have "i < n" using settle_err inv by (auto simp: pool_inv_def)
  ultimately show ?thesis
    using settle_err inv by (auto simp: pool_inv_def split: option.split)
next
  case quit
  with inv show ?thesis by (auto simp: pool_inv_def less_Suc_eq)
qed (use inv in \<open>auto simp: pool_inv_def\<close>)

lemma pool_run_inv: "pool_run outcome limit n p \<Longrightarrow> pool_inv outcome limit n p"
  by (induction rule: pool_run.induct) (auto intro: pool_inv_start pool_inv_step)

text \<open>Every step takes the pool nearer to its end.\<close>

definition pool_left :: "nat \<Rightarrow> 'r pool \<Rightarrow> nat" where
  "pool_left n p = 2 * (n - p_next p) + 2 * p_idle p + 3 * card (p_busy p)"

lemma pool_step_left:
  assumes "pool_step outcome n p q" and "pool_inv outcome limit n p"
  shows "pool_left n q < pool_left n p"
  using assms(1)
proof (cases rule: pool_step.cases)
  case claim
  have "card (insert (p_next p) (p_busy p)) = Suc (card (p_busy p))"
    using assms(2) by (subst card_insert_disjoint) (auto simp: pool_inv_def)
  with claim show ?thesis by (simp add: pool_left_def)
next
  case (settle_ok i r)
  have "0 < card (p_busy p)" "card (p_busy p - {i}) = card (p_busy p) - 1"
    using settle_ok assms(2) by (auto simp: pool_inv_def card_gt_0_iff)
  with settle_ok show ?thesis by (simp add: pool_left_def)
next
  case (settle_err i e)
  have "0 < card (p_busy p)" "card (p_busy p - {i}) = card (p_busy p) - 1"
    using settle_err assms(2) by (auto simp: pool_inv_def card_gt_0_iff)
  with settle_err show ?thesis by (simp add: pool_left_def)
qed (use assms(2) in \<open>simp_all add: pool_left_def pool_inv_def\<close>)

section \<open>The caller's view\<close>

text \<open>
  What the rest of the model calls: the workers run one after the other, in order, up to the first
  failure.  For calls that do not depend on each other, every interleaving gives its answer.
\<close>

definition mapWithConcurrency :: "'a list \<Rightarrow> nat \<Rightarrow> ('a \<Rightarrow> nat \<Rightarrow> ('s, 'r) io_result) \<Rightarrow> ('s, 'r list) io_result" where
  "mapWithConcurrency items limit worker = mapIO (\<lambda>(i, x). worker x i) (zip [0..<length items] items)"

section \<open>Properties\<close>

text \<open>
  At every moment of every interleaving at most \<open>limit\<close> calls are in flight (at least one worker
  always exists), no item is handed out twice, and after the first failure no new item is started.
\<close>

theorem pool_safety:
  assumes "pool_run outcome limit n p"
  shows "card (p_busy p) \<le> max 1 limit \<and> finite (p_busy p) \<and> p_busy p \<subseteq> {..<n} \<and>
    (\<forall>q. pool_step outcome n p q \<longrightarrow>
       p_busy q \<inter> {i. p_results p i \<noteq> None} = {} \<and>
       (p_failed p \<noteq> None \<longrightarrow> p_busy q \<subseteq> p_busy p \<and> p_failed q = p_failed p))"
proof -
  note inv = pool_run_inv [OF assms]
  have "card (p_busy p) \<le> max 1 limit" "finite (p_busy p)" "p_busy p \<subseteq> {..<n}"
    using inv by (auto simp: pool_inv_def workerCount_def)
  moreover have "p_busy q \<inter> {i. p_results p i \<noteq> None} = {} \<and>
       (p_failed p \<noteq> None \<longrightarrow> p_busy q \<subseteq> p_busy p \<and> p_failed q = p_failed p)"
    if "pool_step outcome n p q" for q
    using that
  proof (cases rule: pool_step.cases)
    case claim
    moreover have "p_results p (p_next p) = None"
      using inv by (cases "p_results p (p_next p)") (auto simp: pool_inv_def)
    ultimately show ?thesis using inv by (auto simp: pool_inv_def)
  qed (use inv in \<open>auto simp: pool_inv_def\<close>)
  ultimately show ?thesis by blast
qed

theorem pool_safety_witness:
  "card (p_busy (pool_start 3 5 :: nat pool)) \<le> max 1 3"
  using pool_safety [OF run_start [of "\<lambda>i. Inr i" 3 5]] by simp



end
