(* ===== verification/Koios_Wallet.thy ===== *)
theory Koios_Wallet
  imports Domain Koios_Paging "HOL-Library.Multiset"
begin

text \<open>
  The wallet reads of the Koios driver: \<^verbatim>\<open>src/providers/koios/tx-info.ts\<close>, \<^verbatim>\<open>account.ts\<close> and \<^verbatim>\<open>tx.ts\<close>.
  A row type is the record a zod schema lets through (see \<open>refine\<close>).
\<close>

definition hex64 :: "string \<Rightarrow> bool" where
  "hex64 s \<longleftrightarrow> length s = 64 \<and> list_all is_hex s"

definition assets_ok :: "assetItem list option \<Rightarrow> bool" where
  "assets_ok as \<longleftrightarrow> (case as of None \<Rightarrow> True | Some l \<Rightarrow> list_all assetItem_ok l)"

definition referenceScript_ok :: "ReferenceScript \<Rightarrow> bool" where
  "referenceScript_ok r \<longleftrightarrow> length (rs_hash r) = 56 \<and> list_all is_hex (rs_hash r) \<and>
     (case rs_bytes r of None \<Rightarrow> True | Some b \<Rightarrow> b \<noteq> [] \<and> even (length b) \<and> list_all is_hex b)"

section \<open>Transaction details\<close>

record txIoRow =
  tio_payment_addr :: "string option"
  tio_value :: numeric
  tio_asset_list :: "assetItem list option"

record txInputRow = txIoRow +
  tin_tx_hash :: string
  tin_tx_index :: nat

record withdrawalRow =
  wdr_stake_addr :: string
  wdr_amount :: numeric

record certRow =
  cer_index :: int
  cer_type :: string

record txInfoRow =
  ti_tx_hash :: string
  ti_block_hash :: string
  ti_block_height :: int
  ti_epoch_no :: int
  ti_absolute_slot :: int
  ti_tx_timestamp :: int
  ti_tx_block_index :: int
  ti_fee :: numeric
  ti_invalid_after :: "numeric option"
  ti_inputs :: "txInputRow list option"
  ti_outputs :: "txIoRow list option"
  ti_withdrawals :: "withdrawalRow list option"
  ti_certificates :: "certRow list option"
  ti_metadata :: "json option"

definition txIoRow_ok :: "('a) txIoRow_scheme \<Rightarrow> bool" where
  "txIoRow_ok r \<longleftrightarrow> numeric_ok (tio_value r) \<and> assets_ok (tio_asset_list r)"

fun invalidAfter_ok :: "numeric \<Rightarrow> bool" where
  "invalidAfter_ok (Num i) \<longleftrightarrow> 0 \<le> i \<and> isSafeInteger i"
| "invalidAfter_ok (NumStr s) \<longleftrightarrow> canonical_digits s"

text \<open>The transform: a Word64 that a number cannot hold is left out.\<close>

fun invalidAfter :: "numeric \<Rightarrow> nat option" where
  "invalidAfter (NumStr s) = (if BigInt_of s > MAX_SAFE_INTEGER then None else Some (nat (BigInt_of s)))"
| "invalidAfter (Num i) = Some (nat i)"

definition txInfoRow_ok :: "txInfoRow \<Rightarrow> bool" where
  "txInfoRow_ok r \<longleftrightarrow> numeric_ok (ti_fee r) \<and>
     (case ti_invalid_after r of None \<Rightarrow> True | Some v \<Rightarrow> invalidAfter_ok v) \<and>
     (case ti_inputs r of None \<Rightarrow> True
        | Some l \<Rightarrow> list_all (\<lambda>i. txIoRow_ok i \<and> hex64 (tin_tx_hash i)) l) \<and>
     (case ti_outputs r of None \<Rightarrow> True | Some l \<Rightarrow> list_all txIoRow_ok l) \<and>
     (case ti_withdrawals r of None \<Rightarrow> True | Some l \<Rightarrow> list_all (\<lambda>w. numeric_ok (wdr_amount w)) l)"

definition CERT_KIND :: "(string \<times> CertificateKind) list" where
  "CERT_KIND = [
     (''stake_registration'', Stake_registration),
     (''stake_deregistration'', Stake_deregistration),
     (''delegation'', Stake_delegation),
     (''pool_update'', Pool_registration),
     (''pool_retire'', Pool_retirement),
     (''vote_delegation'', Vote_delegation),
     (''drep_registration'', Drep_registration),
     (''drep_update'', Drep_update),
     (''drep_deregistration'', Drep_deregistration),
     (''committee_hot_auth'', Committee_hot_auth),
     (''committee_cold_resign'', Committee_cold_resign),
     (''treasury_MIR'', Move_instantaneous_rewards),
     (''reserve_MIR'', Move_instantaneous_rewards),
     (''genesis'', Genesis_key_delegation)]"

definition mapCertificate :: "certRow \<Rightarrow> TxCertificate" where
  "mapCertificate c = \<lparr>ce_kind = (case map_of CERT_KIND (cer_type c) of
     None \<Rightarrow> Other_certificate | Some k \<Rightarrow> k), ce_index = cer_index c\<rparr>"

definition mapTxIo :: "'a txIoRow_scheme \<Rightarrow> TxIo" where
  "mapTxIo r = \<lparr>io_address = tio_payment_addr r, io_value = numeric_string (tio_value r),
     io_assets = mapAssets (tio_asset_list r)\<rparr>"

definition mapTxInput :: "txInputRow \<Rightarrow> TxInput" where
  "mapTxInput r = \<lparr>io_address = io_address (mapTxIo r), io_value = io_value (mapTxIo r),
     io_assets = io_assets (mapTxIo r), in_txHash = tin_tx_hash r, in_outputIndex = tin_tx_index r\<rparr>"

text \<open>\<open>(xs ?? [])\<close>.\<close>

definition or_empty :: "'a list option \<Rightarrow> 'a list" where
  "or_empty xs = (case xs of None \<Rightarrow> [] | Some l \<Rightarrow> l)"

definition mapTx :: "txInfoRow \<Rightarrow> WalletTransaction" where
  "mapTx r = \<lparr>
     wt_txHash = ti_tx_hash r, wt_block = ti_block_height r, wt_blockHash = ti_block_hash r,
     wt_slot = ti_absolute_slot r, wt_epoch = ti_epoch_no r, wt_blockTime = ti_tx_timestamp r,
     wt_fee = numeric_string (ti_fee r),
     wt_ttl = (case ti_invalid_after r of None \<Rightarrow> None | Some v \<Rightarrow> invalidAfter v),
     wt_inputs = map mapTxInput (or_empty (ti_inputs r)),
     wt_outputs = map mapTxIo (or_empty (ti_outputs r)),
     wt_withdrawals = map (\<lambda>w. \<lparr>wd_stakeAddress = wdr_stake_addr w, wd_amount = numeric_string (wdr_amount w)\<rparr>)
       (or_empty (ti_withdrawals r)),
     wt_certificates = map mapCertificate (or_empty (ti_certificates r)),
     wt_metadata = ti_metadata r\<rparr>"

definition tx_info_body :: "json list \<Rightarrow> json" where
  "tx_info_body = list_body [] ''_tx_hashes''
     [(''_inputs'', JBool True), (''_metadata'', JBool True), (''_assets'', JBool True),
      (''_withdrawals'', JBool True), (''_certs'', JBool True)]"

fun check_requested :: "string set \<Rightarrow> string set \<Rightarrow> txInfoRow list \<Rightarrow> (string set) result" where
  "check_requested requested seen [] = Inr seen"
| "check_requested requested seen (r # rs) =
     (if ti_tx_hash r \<notin> requested
      then Inl (MalformedUpstreamError ''koios /tx_info returned an unrequested transaction'')
      else if ti_tx_hash r \<in> seen
      then Inl (MalformedUpstreamError ''koios /tx_info returned a duplicate transaction'')
      else check_requested requested (insert (ti_tx_hash r) seen) rs)"

definition hydrate_rows :: "string list \<Rightarrow> txInfoRow list \<Rightarrow> WalletTransaction list result" where
  "hydrate_rows hashes rows =
     bindE (check_requested (set hashes) {} rows) (\<lambda>seen.
       if card seen \<noteq> card (set hashes)
       then Inl (MalformedUpstreamError (''koios /tx_info omitted '' @
              string_of_nat (card (set hashes) - card seen) @ '' of '' @ string_of_nat (length hashes) @
              '' requested transactions''))
       else Inr (map mapTx (sort_key (\<lambda>r. (ti_block_height r, ti_tx_block_index r)) rows)))"

definition hydrateTxHistory :: "koios_client \<Rightarrow> ('s, 'j) net \<Rightarrow> ('j \<Rightarrow> txInfoRow option) \<Rightarrow> string list \<Rightarrow>
    ('s kworld, WalletTransaction list) io_result" where
  "hydrateTxHistory c n dec hashes =
     bindIO (batchAll c n (refine dec txInfoRow_ok) ''/tx_info'' (map JStr hashes) tx_info_body)
       (\<lambda>rows. liftE (hydrate_rows hashes rows))"

section \<open>Account reads\<close>

record accountInfoRow =
  ai_stake_address :: string
  ai_registered :: bool
  ai_delegated_pool :: "string option"
  ai_delegated_drep :: "string option"
  ai_total_balance :: numeric
  ai_rewards_available :: numeric
  ai_rewards :: numeric
  ai_withdrawals :: numeric

definition accountInfoRow_ok :: "accountInfoRow \<Rightarrow> bool" where
  "accountInfoRow_ok r \<longleftrightarrow> signedNumeric_ok (ai_total_balance r) \<and> numeric_ok (ai_rewards_available r) \<and>
     numeric_ok (ai_rewards r) \<and> numeric_ok (ai_withdrawals r)"

text \<open>A row of \<open>/account_utxos\<close>, \<open>/address_utxos\<close> and (with \<open>is_spent\<close>) \<open>/utxo_info\<close>.\<close>

record koiosUtxoRow =
  ku_tx_hash :: string
  ku_tx_index :: int
  ku_address :: string
  ku_block_height :: nat
  ku_value :: numeric
  ku_asset_list :: "assetItem list option"
  ku_datum_hash :: "string option"
  ku_inline_datum :: "string option"
  ku_reference_script :: "ReferenceScript option"

definition utxoRow_ok :: "'a koiosUtxoRow_scheme \<Rightarrow> bool" where
  "utxoRow_ok r \<longleftrightarrow> numeric_ok (ku_value r) \<and> assets_ok (ku_asset_list r) \<and>
     (case ku_reference_script r of None \<Rightarrow> True | Some s \<Rightarrow> referenceScript_ok s)"

definition mapUtxo :: "'a koiosUtxoRow_scheme \<Rightarrow> Utxo" where
  "mapUtxo r = \<lparr>u_txHash = ku_tx_hash r, u_outputIndex = ku_tx_index r, u_address = ku_address r,
     u_blockHeight = ku_block_height r, u_value = numeric_string (ku_value r),
     u_assets = mapAssets (ku_asset_list r), u_datumHash = ku_datum_hash r,
     u_inlineDatum = ku_inline_datum r,
     u_referenceScriptHash = map_option rs_hash (ku_reference_script r),
     u_referenceScript = ku_reference_script r\<rparr>"

record rewardRow =
  rr_earned_epoch :: nat
  rr_spendable_epoch :: nat
  rr_amount :: numeric
  rr_type :: RewardKind
  rr_pool_id :: "string option"

record accountRewardsRow =
  ar_stake_address :: string
  ar_rewards :: "rewardRow list option"

definition accountRewardsRow_ok :: "accountRewardsRow \<Rightarrow> bool" where
  "accountRewardsRow_ok r \<longleftrightarrow> (case ar_rewards r of None \<Rightarrow> True
     | Some l \<Rightarrow> list_all (\<lambda>w. numeric_ok (rr_amount w)) l)"

record accountTxRow =
  at_tx_hash :: string
  at_block_height :: int
  at_block_time :: int
  at_epoch_no :: int

definition HISTORY_PAGE_SIZE :: nat where "HISTORY_PAGE_SIZE = 50"

definition stake_body :: "string \<Rightarrow> json" where
  "stake_body a = JObj [(''_stake_addresses'', JArr [JStr a])]"

definition account_state :: "string \<Rightarrow> accountInfoRow list \<Rightarrow> AccountState result" where
  "account_state stakeAddress rows =
     (let canonical = toLowerCase stakeAddress in
      case rows of
        [] \<Rightarrow> Inr \<lparr>as_stakeAddress = canonical, as_registered = False, as_balance = ''0'',
               as_rewardsAvailable = ''0'', as_rewardsSum = ''0'', as_withdrawalsSum = ''0'',
               as_delegatedPool = None, as_delegatedDrep = None\<rparr>
      | r # _ \<Rightarrow>
          if length rows \<noteq> 1 \<or> ai_stake_address r \<noteq> canonical
          then Inl (MalformedUpstreamError ''koios returned invalid account_info row identity'')
          else Inr \<lparr>as_stakeAddress = canonical, as_registered = ai_registered r,
               as_balance = numeric_string (ai_total_balance r),
               as_rewardsAvailable = numeric_string (ai_rewards_available r),
               as_rewardsSum = numeric_string (ai_rewards r),
               as_withdrawalsSum = numeric_string (ai_withdrawals r),
               as_delegatedPool = ai_delegated_pool r, as_delegatedDrep = ai_delegated_drep r\<rparr>)"

definition getAccountState :: "koios_client \<Rightarrow> ('s, 'j) net \<Rightarrow> ('j \<Rightarrow> accountInfoRow option) \<Rightarrow> string \<Rightarrow>
    ('s kworld, AccountState) io_result" where
  "getAccountState c n dec stakeAddress =
     bindIO (koios_batch c n (z_array (refine dec accountInfoRow_ok)) ''/account_info''
              (stake_body (toLowerCase stakeAddress)))
       (\<lambda>rows. liftE (account_state stakeAddress rows))"

text \<open>\<open>`${tx_hash}#${tx_index}`\<close>.\<close>

definition utxo_key :: "'a koiosUtxoRow_scheme \<Rightarrow> string" where
  "utxo_key r = ku_tx_hash r @ ''#'' @ string_of_int (ku_tx_index r)"

definition account_utxo_options :: "koiosUtxoRow PagedBatchOptions" where
  "account_utxo_options = \<lparr>opt_rowKey = Some utxo_key,
     opt_keyset = Some (\<lambda>r. (ku_tx_hash r, ku_tx_index r)), opt_verifyConsistency = True\<rparr>"

definition getAccountUtxos :: "koios_client \<Rightarrow> ('s, 'j) net \<Rightarrow> ('j \<Rightarrow> koiosUtxoRow option) \<Rightarrow> string \<Rightarrow>
    ('s kworld, Utxo list) io_result" where
  "getAccountUtxos c n dec stakeAddress =
     bindIO (batchAllPages c n (refine dec utxoRow_ok) ''/account_utxos?order=tx_hash.asc,tx_index.asc''
              (JObj [(''_stake_addresses'', JArr [JStr stakeAddress]), (''_extended'', JBool True)])
              account_utxo_options)
       (\<lambda>rows. returnIO (map mapUtxo rows))"

definition account_txs_path :: "string \<Rightarrow> nat option \<Rightarrow> string" where
  "account_txs_path stakeAddress afterBlock = ''/account_txs?'' @ form_pairs
     ((''_stake_address'', stakeAddress) #
      (case afterBlock of None \<Rightarrow> [] | Some b \<Rightarrow> [(''_after_block_height'', string_of_nat b)]))"

definition getTxHistory :: "koios_client \<Rightarrow> ('s, 'j) net \<Rightarrow> ('j \<Rightarrow> accountTxRow option) \<Rightarrow>
    ('j \<Rightarrow> txInfoRow option) \<Rightarrow> string \<Rightarrow> nat option \<Rightarrow> ('s kworld, WalletTransaction list) io_result" where
  "getTxHistory c n dec dec_info stakeAddress afterBlock =
     bindIO (koios_get c n (z_array dec) (account_txs_path stakeAddress afterBlock)) (\<lambda>list.
       if list = [] then returnIO []
       else hydrateTxHistory c n dec_info
              (map at_tx_hash (history_window HISTORY_PAGE_SIZE at_block_height list)))"

definition map_reward :: "rewardRow \<Rightarrow> AccountReward" where
  "map_reward r = \<lparr>rw_earnedEpoch = rr_earned_epoch r, rw_spendableEpoch = rr_spendable_epoch r,
     rw_amount = numeric_string (rr_amount r), rw_kind = rr_type r, rw_poolId = rr_pool_id r\<rparr>"

definition reward_history :: "string \<Rightarrow> nat option \<Rightarrow> accountRewardsRow list \<Rightarrow> AccountReward list" where
  "reward_history stakeAddress afterEpoch rows =
     (let rewards = (case List.find (\<lambda>r. ar_stake_address r = stakeAddress) rows of
           None \<Rightarrow> [] | Some r \<Rightarrow> or_empty (ar_rewards r)) in
      map map_reward (sort_key rr_earned_epoch
        (filter (\<lambda>r. afterEpoch = None \<or> rr_earned_epoch r > the afterEpoch) rewards)))"

definition getRewardHistory :: "koios_client \<Rightarrow> ('s, 'j) net \<Rightarrow> ('j \<Rightarrow> accountRewardsRow option) \<Rightarrow>
    string \<Rightarrow> nat option \<Rightarrow> ('s kworld, AccountReward list) io_result" where
  "getRewardHistory c n dec stakeAddress afterEpoch =
     bindIO (koios_batch c n (z_array (refine dec accountRewardsRow_ok)) ''/account_rewards'' (stake_body stakeAddress))
       (\<lambda>rows. returnIO (reward_history stakeAddress afterEpoch rows))"

section \<open>Transactions\<close>

record txStatusRow =
  sr_tx_hash :: string
  sr_num_confirmations :: "int option"

definition txStatusRow_ok :: "txStatusRow \<Rightarrow> bool" where
  "txStatusRow_ok r \<longleftrightarrow> (case sr_num_confirmations r of None \<Rightarrow> True
     | Some k \<Rightarrow> 0 \<le> k \<and> k \<le> MAX_SAFE_INTEGER)"

record utxoInfoRow = koiosUtxoRow +
  ku_is_spent :: bool

definition utxoInfoRow_ok :: "utxoInfoRow \<Rightarrow> bool" where
  "utxoInfoRow_ok r \<longleftrightarrow> utxoRow_ok r \<and> hex64 (ku_tx_hash r) \<and> 0 \<le> ku_tx_index r"

definition submitTx :: "koios_client \<Rightarrow> ('s, 'j) net \<Rightarrow> ('j jvalue \<Rightarrow> string option) \<Rightarrow> string \<Rightarrow>
    ('s kworld, string) io_result" where
  "submitTx c n dec cborHex =
     (if cborHex = [] \<or> \<not> list_all is_hex cborHex \<or> odd (length cborHex)
      then throwIO (BadRequestError ''transaction must be a hex-encoded CBOR string'')
      else koios_submit c n (refine dec hex64) ''/submittx'' (hex_bytes cborHex) ''application/cbor'')"

definition tx_status :: "string \<Rightarrow> txStatusRow list \<Rightarrow> TxStatus result" where
  "tx_status hash rows =
     (let normalized = toLowerCase hash in
      case List.find (\<lambda>r. toLowerCase (sr_tx_hash r) = normalized) rows of
        None \<Rightarrow> if rows \<noteq> [] then Inl (MalformedUpstreamError ''koios returned tx_status rows for a different tx'')
                else Inr unknownTxStatus
      | Some r \<Rightarrow> (case sr_num_confirmations r of
            None \<Rightarrow> Inr unknownTxStatus | Some k \<Rightarrow> confirmedTxStatus k))"

definition getTxStatus :: "koios_client \<Rightarrow> ('s, 'j) net \<Rightarrow> ('j \<Rightarrow> txStatusRow option) \<Rightarrow> string \<Rightarrow>
    ('s kworld, TxStatus) io_result" where
  "getTxStatus c n dec hash =
     bindIO (koios_batch c n (z_array (refine dec txStatusRow_ok)) ''/tx_status''
              (JObj [(''_tx_hashes'', JArr [JStr (toLowerCase hash)])]))
       (\<lambda>rows. liftE (tx_status hash rows))"

definition mapResolved :: "utxoInfoRow \<Rightarrow> ResolvedUtxo" where
  "mapResolved r = Utxo.extend (mapUtxo r) \<lparr>ru_spent = ku_is_spent r\<rparr>"

text \<open>\<open>new Map(rows.map(\<dots>))\<close>: the last row of a reference wins.\<close>

definition by_ref :: "utxoInfoRow list \<Rightarrow> (string, utxoInfoRow) js_map" where
  "by_ref rows = fold (\<lambda>r. jm_set (utxo_key r) r) rows []"

definition resolve_refs :: "string list \<Rightarrow> utxoInfoRow list \<Rightarrow> ResolvedUtxo list" where
  "resolve_refs refs rows =
     concat (map (\<lambda>ref. case jm_get (by_ref rows) (toLowerCase ref) of
       None \<Rightarrow> [] | Some r \<Rightarrow> [mapResolved r]) refs)"

definition getUtxosByRef :: "koios_client \<Rightarrow> ('s, 'j) net \<Rightarrow> ('j \<Rightarrow> utxoInfoRow option) \<Rightarrow> string list \<Rightarrow>
    ('s kworld, ResolvedUtxo list) io_result" where
  "getUtxosByRef c n dec refs =
     (if refs = [] then returnIO []
      else bindIO (batchAll c n (refine dec utxoInfoRow_ok) ''/utxo_info'' (map JStr refs)
                    (list_body [] ''_utxo_refs'' [(''_extended'', JBool True)]))
             (\<lambda>rows. returnIO (resolve_refs refs rows)))"

section \<open>Facts\<close>

lemma check_requested_Inr:
  "check_requested req seen rows = Inr seen' \<longleftrightarrow>
     seen' = seen \<union> ti_tx_hash ` set rows \<and> ti_tx_hash ` set rows \<subseteq> req \<and>
     distinct (map ti_tx_hash rows) \<and> ti_tx_hash ` set rows \<inter> seen = {}"
  by (induction req seen rows rule: check_requested.induct) auto

lemma hydrate_rows_Inr:
  "hydrate_rows hashes rows = Inr txs \<longleftrightarrow>
     ti_tx_hash ` set rows = set hashes \<and> distinct (map ti_tx_hash rows) \<and>
     txs = map mapTx (sort_key (\<lambda>r. (ti_block_height r, ti_tx_block_index r)) rows)"
proof -
  have "ti_tx_hash ` set rows = set hashes"
    if "ti_tx_hash ` set rows \<subseteq> set hashes" "card (ti_tx_hash ` set rows) = card (set hashes)"
    using that by (simp add: card_subset_eq)
  then show ?thesis
    by (auto simp: hydrate_rows_def bindE_Inr_conv check_requested_Inr split: if_splits)
qed

lemma sorted_fst: "sorted (map (\<lambda>r. (f r, g r)) xs) \<Longrightarrow> sorted (map f xs)"
  by (induction xs) (auto simp: less_eq_prod_def)

text \<open>What a hydrated history is: the requested transactions, each once, oldest block first.\<close>

lemma hydrate_rows_exact:
  assumes "hydrate_rows hashes rows = Inr txs"
  shows "distinct (map wt_txHash txs)" and "set (map wt_txHash txs) = set hashes"
    and "sorted (map wt_block txs)" and "set txs = mapTx ` set rows"
proof -
  let ?s = "sort_key (\<lambda>r. (ti_block_height r, ti_tx_block_index r)) rows"
  have rows: "ti_tx_hash ` set rows = set hashes" "distinct (map ti_tx_hash rows)" "txs = map mapTx ?s"
    using assms by (auto simp: hydrate_rows_Inr)
  have hash: "map wt_txHash txs = map ti_tx_hash ?s" by (simp add: rows(3) mapTx_def)
  have "mset (map ti_tx_hash ?s) = mset (map ti_tx_hash rows)" by simp
  then have "distinct (map ti_tx_hash ?s)" using rows(2) mset_eq_imp_distinct_iff by blast
  with hash show "distinct (map wt_txHash txs)" by simp
  show "set (map wt_txHash txs) = set hashes" unfolding hash using rows(1) by simp
  have "sorted (map (\<lambda>r. (ti_block_height r, ti_tx_block_index r)) ?s)" by simp
  from sorted_fst [OF this] show "sorted (map wt_block txs)"
    by (simp add: rows(3) mapTx_def comp_def)
  show "set txs = mapTx ` set rows" by (simp add: rows(3))
qed

section \<open>Properties\<close>

text \<open>
  C21: a history is exactly what was asked for.  Whatever \<open>/tx_info\<close> answers, a hydrated page holds
  every requested transaction once and no other, oldest block first, each built from a row upstream
  sent; and the only other outcome is an error, as soon as a row is missing, extra or repeated.
\<close>

theorem hydrateTxHistory_exact:
  "(\<forall>txs s'. hydrateTxHistory c n dec hashes s = (Inr txs, s') \<longrightarrow>
      distinct (map wt_txHash txs) \<and> set (map wt_txHash txs) = set hashes \<and> sorted (map wt_block txs)) \<and>
   ((\<exists>txs. hydrate_rows hashes rows = Inr txs) \<longleftrightarrow>
      distinct (map ti_tx_hash rows) \<and> ti_tx_hash ` set rows = set hashes)"
proof (rule conjI, intro allI impI)
  fix txs s'
  assume "hydrateTxHistory c n dec hashes s = (Inr txs, s')"
  then obtain got where "hydrate_rows hashes got = Inr txs"
    by (auto simp: hydrateTxHistory_def bindIO_Inr_conv liftE_def)
  from hydrate_rows_exact [OF this]
  show "distinct (map wt_txHash txs) \<and> set (map wt_txHash txs) = set hashes \<and> sorted (map wt_block txs)"
    by blast
qed (auto simp: hydrate_rows_Inr)

definition sample_row :: "string \<Rightarrow> int \<Rightarrow> txInfoRow" where
  "sample_row h b = \<lparr>ti_tx_hash = h, ti_block_hash = ''b'', ti_block_height = b, ti_epoch_no = 1,
     ti_absolute_slot = 1, ti_tx_timestamp = 1, ti_tx_block_index = 0, ti_fee = Num 1, ti_invalid_after = None,
     ti_inputs = None, ti_outputs = None, ti_withdrawals = None, ti_certificates = None, ti_metadata = None\<rparr>"

theorem hydrateTxHistory_exact_witness:
  "\<exists>txs s'. hydrateTxHistory default_client (answering (page_response [sample_row ''bb'' 7, sample_row ''aa'' 5] 0))
      Some [''aa'', ''bb''] idle = (Inr txs, s') \<and> set (map wt_txHash txs) = {''aa'', ''bb''}"
proof -
  let ?rows = "[sample_row ''bb'' 7, sample_row ''aa'' 5]"
  have body: "packBySize [JStr ''aa'', JStr ''bb''] tx_info_body 5120 = Inr [[JStr ''aa'', JStr ''bb'']]"
    by code_simp
  have ok: "list_all txInfoRow_ok ?rows"
    by (simp add: txInfoRow_ok_def sample_row_def isSafeInteger_def MAX_SAFE_INTEGER_def)
  have got: "koios_batch default_client (answering (page_response ?rows 0)) (z_array (refine Some txInfoRow_ok))
      ''/tx_info'' (tx_info_body [JStr ''aa'', JStr ''bb'']) idle = (Inr ?rows, idle)"
    using ok by (simp add: koios_batch_def koios_read_def retry_loop.simps koios_request_data_def
        requestWithMetadata_def koios_fetch_def answering_def page_response_def KOIOS_PAGE_SIZE_def
        koios_parse_def z_array_def refine_def bindIO_def liftE_def returnIO_def idle_def Let_def)
  have "batchAll default_client (answering (page_response ?rows 0)) (refine Some txInfoRow_ok) ''/tx_info''
      (map JStr [''aa'', ''bb'']) tx_info_body idle = (Inr ?rows, idle)"
    using body got by (simp add: batchAll_def packAdaptively_def catchIO_def pack_run_def bindIO_def liftE_def
        returnIO_def idle_def)
  moreover have "\<exists>txs. hydrate_rows [''aa'', ''bb''] ?rows = Inr txs"
    using hydrateTxHistory_exact [of default_client "answering (page_response ?rows 0)" Some "[''aa'', ''bb'']" idle ?rows]
    by (auto simp: sample_row_def)
  ultimately obtain txs where run: "hydrateTxHistory default_client (answering (page_response ?rows 0))
      Some [''aa'', ''bb''] idle = (Inr txs, idle)"
    by (auto simp: hydrateTxHistory_def bindIO_def liftE_def)
  with hydrateTxHistory_exact [of default_client "answering (page_response ?rows 0)" Some "[''aa'', ''bb'']" idle ?rows]
  show ?thesis by auto
qed

text \<open>
  Paging a history forward skips nothing.  The page \<open>getTxHistory\<close> returns is made of the oldest
  transactions upstream listed, at least fifty of them when there are that many, and every listed
  transaction that is not on it is in a later block than all that are: the cursor the caller passes
  next, the last block of the page, leaves none of them behind.
\<close>

theorem getTxHistory_page:
  assumes "getTxHistory c n dec dec_info addr after s = (Inr txs, s')"
  shows "\<exists>list t. koios_get c n (z_array dec) (account_txs_path addr after) s = (Inr list, t) \<and>
    set (map wt_txHash txs) \<subseteq> at_tx_hash ` set list \<and> distinct (map wt_txHash txs) \<and>
    (\<exists>page rest. mset list = mset (page @ rest) \<and> set (map wt_txHash txs) = at_tx_hash ` set page \<and>
       min 50 (length list) \<le> length page \<and>
       (\<forall>x \<in> set page. \<forall>y \<in> set rest. at_block_height x < at_block_height y))"
proof -
  obtain list t where list: "koios_get c n (z_array dec) (account_txs_path addr after) s = (Inr list, t)"
    and rest: "(if list = [] then returnIO []
        else hydrateTxHistory c n dec_info
              (map at_tx_hash (history_window HISTORY_PAGE_SIZE at_block_height list))) t = (Inr txs, s')"
    using assms by (auto simp: getTxHistory_def bindIO_Inr_conv)
  let ?page = "history_window HISTORY_PAGE_SIZE at_block_height list"
  obtain later where later: "sort_key at_block_height list = ?page @ later"
    using history_window_prefix by blast
  have txs: "distinct (map wt_txHash txs) \<and> set (map wt_txHash txs) = at_tx_hash ` set ?page"
  proof (cases "list = []")
    case True
    with rest have "txs = []" by (simp add: returnIO_def)
    with True show ?thesis by (simp add: history_window_def)
  next
    case False
    with rest obtain got where "hydrate_rows (map at_tx_hash ?page) got = Inr txs"
      by (auto simp: hydrateTxHistory_def bindIO_Inr_conv liftE_def)
    from hydrate_rows_exact [OF this] show ?thesis by simp
  qed
  have "mset list = mset (?page @ later)" by (metis later mset_sort)
  moreover have "min 50 (length list) \<le> length ?page"
    using history_window_length [of HISTORY_PAGE_SIZE list] by (simp add: HISTORY_PAGE_SIZE_def)
  moreover have "\<forall>x \<in> set ?page. \<forall>y \<in> set later. at_block_height x < at_block_height y"
    using history_window_closed [OF _ later] by (simp add: HISTORY_PAGE_SIZE_def)
  moreover have "set (map wt_txHash txs) \<subseteq> at_tx_hash ` set list"
    using txs history_window_mset_subset [of HISTORY_PAGE_SIZE at_block_height list] by auto
  ultimately show ?thesis using list txs by blast
qed

theorem getTxHistory_page_witness:
  "\<exists>list t. koios_get default_client (answering (page_response ([] :: nat list) 0)) (z_array (\<lambda>_. None :: accountTxRow option))
      (account_txs_path ''stake1'' None) idle = (Inr list, t)"
proof -
  have "getTxHistory default_client (answering (page_response ([] :: nat list) 0)) (\<lambda>_. None) (\<lambda>_. None) ''stake1'' None idle =
      (Inr [], idle)"
    by (simp add: getTxHistory_def koios_get_def koios_read_def retry_loop.simps koios_request_data_def
        requestWithMetadata_def koios_fetch_def answering_def page_response_def
        koios_parse_def z_array_def bindIO_def liftE_def returnIO_def idle_def Let_def)
  from getTxHistory_page [OF this] show ?thesis by blast
qed

text \<open>
  A status is never another transaction's.  \<open>tx_status\<close> confirms a hash only from a row that names
  that hash (in either case), with the confirmation count of the first such row; rows that are all about
  other transactions are an upstream error, and no row, or a row without a count, is the inconclusive
  status that keeps the caller's overlay.
\<close>

lemma tx_status_own:
  "(case tx_status hash rows of
      Inl e \<Rightarrow> statusCode_of e = Some 502 \<and> rows \<noteq> [] \<and>
          (\<forall>r \<in> set rows. toLowerCase (sr_tx_hash r) \<noteq> toLowerCase hash) \<or>
        (\<exists>r \<in> set rows. \<not> txStatusRow_ok r)
    | Inr st \<Rightarrow> st = unknownTxStatus \<and> ts_overlayAction st = Overlay_retain \<or>
        (\<exists>us r vs. rows = us @ r # vs \<and> toLowerCase (sr_tx_hash r) = toLowerCase hash \<and>
          (\<forall>u \<in> set us. toLowerCase (sr_tx_hash u) \<noteq> toLowerCase hash) \<and>
          sr_num_confirmations r = Some (ts_confirmations st) \<and> ts_status st = Tx_confirmed))"
proof (cases "List.find (\<lambda>r. toLowerCase (sr_tx_hash r) = toLowerCase hash) rows")
  case None
  then have "\<forall>r \<in> set rows. toLowerCase (sr_tx_hash r) \<noteq> toLowerCase hash" by (simp add: find_None_iff)
  moreover have "tx_status hash rows = (if rows \<noteq> []
      then Inl (MalformedUpstreamError ''koios returned tx_status rows for a different tx'') else Inr unknownTxStatus)"
    using None by (simp add: tx_status_def)
  ultimately show ?thesis by (simp add: unknownTxStatus_def)
next
  case (Some r)
  then obtain i where i: "i < length rows" "toLowerCase (sr_tx_hash (rows ! i)) = toLowerCase hash" "r = rows ! i"
    "\<forall>j < i. toLowerCase (sr_tx_hash (rows ! j)) \<noteq> toLowerCase hash"
    by (auto simp: find_Some_iff)
  have split: "rows = take i rows @ r # drop (Suc i) rows" using i by (simp add: id_take_nth_drop)
  have before: "\<forall>u \<in> set (take i rows). toLowerCase (sr_tx_hash u) \<noteq> toLowerCase hash"
    using i(4) by (auto simp: in_set_conv_nth)
  have mem: "r \<in> set rows" using i by simp
  show ?thesis
  proof (cases "sr_num_confirmations r")
    case None
    with Some show ?thesis by (simp add: tx_status_def Let_def unknownTxStatus_def)
  next
    case count: (Some k)
    show ?thesis
    proof (cases "isSafeInteger k \<and> 0 \<le> k")
      case True
      then have "tx_status hash rows = Inr \<lparr>ts_status = Tx_confirmed, ts_seen = True, ts_confirmations = k,
          ts_overlayAction = Overlay_reconcile, ts_terminal = None\<rparr>"
        using Some count by (simp add: tx_status_def Let_def confirmedTxStatus_def)
      then show ?thesis using split before i(2,3) count by (simp, metis)
    next
      case False
      then have "\<not> txStatusRow_ok r"
        using count by (auto simp: txStatusRow_ok_def isSafeInteger_def MAX_SAFE_INTEGER_def)
      then show ?thesis
        using False Some count mem by (auto simp: tx_status_def Let_def confirmedTxStatus_def)
    qed
  qed
qed

lemma tx_status_own_witness:
  "\<exists>e. tx_status ''AB'' [\<lparr>sr_tx_hash = ''cd'', sr_num_confirmations = Some 4\<rparr>] = Inl e \<and>
     statusCode_of e = Some 502"
proof -
  let ?rows = "[\<lparr>sr_tx_hash = ''cd'', sr_num_confirmations = Some 4\<rparr>]"
  have "tx_status ''AB'' ?rows = Inl (MalformedUpstreamError ''koios returned tx_status rows for a different tx'')"
    by code_simp
  moreover have "list_all txStatusRow_ok ?rows" by (simp add: txStatusRow_ok_def MAX_SAFE_INTEGER_def)
  ultimately show ?thesis
    using tx_status_own [where hash = "''AB''" and rows = ?rows] by auto
qed

text \<open>
  The Koios reward history of a stake address written in upper case, a spelling Bech32 permits and
  the boundary accepts, is always empty: the rows, which Koios keys in lower case, are compared with the
  caller's spelling, while \<open>account_state\<close> compares with the canonical one.
\<close>

lemma reward_history_case:
  assumes "\<forall>r \<in> set rows. ar_stake_address r = toLowerCase addr" and "addr \<noteq> toLowerCase addr"
  shows "reward_history addr after rows = []"
proof -
  have "List.find (\<lambda>r. ar_stake_address r = addr) rows = None"
    using assms by (auto simp: find_None_iff)
  then show ?thesis by (simp add: reward_history_def)
qed

lemma reward_history_case_witness:
  "reward_history ''STAKE1U'' None [\<lparr>ar_stake_address = ''stake1u'', ar_rewards = Some
      [\<lparr>rr_earned_epoch = 5, rr_spendable_epoch = 7, rr_amount = Num 3, rr_type = Reward_member, rr_pool_id = None\<rparr>]\<rparr>] = [] \<and>
   reward_history ''stake1u'' None [\<lparr>ar_stake_address = ''stake1u'', ar_rewards = Some
      [\<lparr>rr_earned_epoch = 5, rr_spendable_epoch = 7, rr_amount = Num 3, rr_type = Reward_member, rr_pool_id = None\<rparr>]\<rparr>] \<noteq> []"
proof -
  let ?rows = "[\<lparr>ar_stake_address = ''stake1u'', ar_rewards = Some
      [\<lparr>rr_earned_epoch = 5, rr_spendable_epoch = 7, rr_amount = Num 3, rr_type = Reward_member, rr_pool_id = None\<rparr>]\<rparr>]"
  have low: "toLowerCase ''STAKE1U'' = ''stake1u''" by code_simp
  have "reward_history ''STAKE1U'' None ?rows = []"
    by (rule reward_history_case) (simp_all add: low)
  moreover have "reward_history ''stake1u'' None ?rows \<noteq> []"
    by (simp add: reward_history_def or_empty_def)
  ultimately show ?thesis by simp
qed

end
