(* ===== verification/Koios_Addresses.thy ===== *)
theory Koios_Addresses
  imports Koios_Wallet
begin

text \<open>
  \<^verbatim>\<open>src/providers/koios/addresses.ts\<close>: reads keyed by a set of addresses.  An address history is a merge
  of ordered streams, one per request body; a stream is read a page at a time, as far as the merge
  needs it.
\<close>

definition HISTORY_MAX_LIST_ROWS :: nat where "HISTORY_MAX_LIST_ROWS = 100000"
definition CREDENTIAL_PROBE_SIZE :: nat where "CREDENTIAL_PROBE_SIZE = 5"

record addressTxRow =
  ad_tx_hash :: string
  ad_block_height :: int
  ad_block_time :: int
  ad_epoch_no :: int

definition compareAddressTxRows :: "addressTxRow \<Rightarrow> addressTxRow \<Rightarrow> int" where
  "compareAddressTxRows l r =
     (if ad_block_height l \<noteq> ad_block_height r then ad_block_height l - ad_block_height r
      else if ad_tx_hash l = ad_tx_hash r then 0
      else if js_string_less (ad_tx_hash l) (ad_tx_hash r) then -1 else 1)"

section \<open>Streams\<close>

record AddressHistoryStream =
  sm_body :: json
  sm_rows :: "addressTxRow list"
  sm_index :: nat
  sm_offset :: nat
  sm_done :: bool
  sm_last :: "addressTxRow option"

definition new_stream :: "json \<Rightarrow> AddressHistoryStream" where
  "new_stream b = \<lparr>sm_body = b, sm_rows = [], sm_index = 0, sm_offset = 0, sm_done = False, sm_last = None\<rparr>"

text \<open>The rows of a page follow the last row read, and each other.\<close>

fun check_order :: "string \<Rightarrow> addressTxRow option \<Rightarrow> addressTxRow list \<Rightarrow> addressTxRow option result" where
  "check_order path prev [] = Inr prev"
| "check_order path prev (r # rs) =
     (if prev \<noteq> None \<and> compareAddressTxRows (the prev) r > 0
      then Inl (malformed ''koios returned an out-of-order page for '' path)
      else check_order path (Some r) rs)"

text \<open>Where the stream stands after a page: its offset, and whether it is complete.\<close>

definition stream_position :: "string \<Rightarrow> nat \<Rightarrow> addressTxRow KoiosBatchPage \<Rightarrow> AddressHistoryStream \<Rightarrow>
    (nat \<times> bool) result" where
  "stream_position path limit resp st =
     (let page = pg_rows resp in
      case pg_range resp of
        None \<Rightarrow>
          if pg_status resp = 206 \<or> sm_offset st \<noteq> 0
          then Inl (malformed ''koios omitted Content-Range from a partial response for '' path)
          else if length page \<ge> limit
          then Inl (malformed ''koios returned a full page without Content-Range for '' path)
          else Inr (sm_offset st + length page, True)
      | Some (RangeTotal tot) \<Rightarrow>
          if page \<noteq> [] \<or> tot \<noteq> sm_offset st
          then Inl (malformed ''koios returned a contradictory empty Content-Range on '' path)
          else Inr (sm_offset st, True)
      | Some (RangeSpan start fin tot) \<Rightarrow>
          if start \<noteq> sm_offset st \<or> int (length page) \<noteq> int fin - int start + 1
          then Inl (malformed ''koios returned a non-contiguous page for '' path)
          else if fin + 1 > HISTORY_MAX_LIST_ROWS
          then Inl (malformed ''koios paged result exceeds 100000 rows for '' path)
          else if fin + 1 \<noteq> tot \<and> pg_status resp \<noteq> 206
          then Inl (malformed ''koios returned an incomplete successful response for '' path)
          else Inr (fin + 1, fin + 1 = tot))"

definition fill_page :: "string \<Rightarrow> nat \<Rightarrow> addressTxRow KoiosBatchPage \<Rightarrow> AddressHistoryStream \<Rightarrow>
    AddressHistoryStream result" where
  "fill_page path limit resp st =
     bindE (stream_position path limit resp st) (\<lambda>(offset, finished).
     bindE (check_order path (sm_last st) (pg_rows resp)) (\<lambda>prev.
     Inr (st\<lparr>sm_rows := pg_rows resp, sm_index := 0, sm_offset := offset, sm_done := finished,
             sm_last := prev\<rparr>)))"

definition stream_limit :: "AddressHistoryStream \<Rightarrow> nat" where
  "stream_limit st = (if sm_offset st \<ge> HISTORY_MAX_LIST_ROWS then 1 else HISTORY_PAGE_SIZE)"

definition fillAddressHistoryStream :: "koios_client \<Rightarrow> ('s, 'j) net \<Rightarrow> ('j \<Rightarrow> addressTxRow option) \<Rightarrow>
    string \<Rightarrow> AddressHistoryStream \<Rightarrow> ('s kworld, AddressHistoryStream) io_result" where
  "fillAddressHistoryStream c n dec path st =
     (if sm_done st \<or> sm_index st < length (sm_rows st) then returnIO st
      else bindIO (koios_batchPageOnce c n dec
               (path @ (if str_includes path ''?'' then ''&'' else ''?'') @ ''limit='' @
                string_of_nat (stream_limit st) @ ''&offset='' @ string_of_nat (sm_offset st)) (sm_body st))
             (\<lambda>resp. liftE (fill_page path (stream_limit st) resp st)))"

definition stream_head :: "AddressHistoryStream \<Rightarrow> addressTxRow option" where
  "stream_head st = (if sm_index st < length (sm_rows st) then Some (sm_rows st ! sm_index st) else None)"

section \<open>The merge\<close>

text \<open>The head that comes first, the earlier stream on a tie.\<close>

fun select_head :: "(nat \<times> addressTxRow) option \<Rightarrow> (nat \<times> addressTxRow option) list \<Rightarrow>
    (nat \<times> addressTxRow) option" where
  "select_head best [] = best"
| "select_head best ((i, None) # hs) = select_head best hs"
| "select_head best ((i, Some r) # hs) =
     (if best = None \<or> compareAddressTxRows r (snd (the best)) < 0
      then select_head (Some (i, r)) hs else select_head best hs)"

definition next_head :: "AddressHistoryStream list \<Rightarrow> (nat \<times> addressTxRow) option" where
  "next_head sts = select_head None (zip [0..<length sts] (map stream_head sts))"

definition advance :: "nat \<Rightarrow> AddressHistoryStream list \<Rightarrow> AddressHistoryStream list" where
  "advance i sts = sts[i := (sts ! i)\<lparr>sm_index := sm_index (sts ! i) + 1\<rparr>]"

text \<open>What the loop has collected: the distinct rows in order, and the block the page ends in.\<close>

definition collect :: "addressTxRow \<Rightarrow> (string, addressTxRow) js_map \<times> int option \<Rightarrow>
    (string, addressTxRow) js_map \<times> int option" where
  "collect r acc = (case acc of (seen, boundary) \<Rightarrow>
     if jm_get seen (ad_tx_hash r) \<noteq> None then (seen, boundary)
     else let seen' = jm_set (ad_tx_hash r) r seen in
       (seen', if length seen' = HISTORY_PAGE_SIZE then Some (ad_block_height r) else boundary))"

text \<open>What a stream can still give: the rows it has buffered and the room left under the row cap.\<close>

definition stream_room :: "AddressHistoryStream \<Rightarrow> nat" where
  "stream_room st = (HISTORY_MAX_LIST_ROWS + 1 - sm_offset st) + (length (sm_rows st) - sm_index st)"

lemma stream_position_room:
  assumes "stream_position path limit resp st = Inr (offset, finished)" and "limit \<le> 50"
  shows "HISTORY_MAX_LIST_ROWS + 1 - offset + length (pg_rows resp) \<le> HISTORY_MAX_LIST_ROWS + 1 - sm_offset st"
  using assms
  by (auto simp: stream_position_def HISTORY_MAX_LIST_ROWS_def Let_def
      split: option.splits KoiosContentRange.splits if_splits)

lemma stream_limit_le: "stream_limit st \<le> 50"
  by (simp add: stream_limit_def HISTORY_PAGE_SIZE_def)

lemma fill_room:
  assumes "fillAddressHistoryStream c n dec path st s = (Inr st', s')"
  shows "stream_room st' \<le> stream_room st"
proof (cases "sm_done st \<or> sm_index st < length (sm_rows st)")
  case True
  with assms show ?thesis by (simp add: fillAddressHistoryStream_def returnIO_def)
next
  case False
  with assms obtain resp where "fill_page path (stream_limit st) resp st = Inr st'"
    by (auto simp: fillAddressHistoryStream_def bindIO_Inr_conv liftE_def)
  then obtain offset finished prev where pos: "stream_position path (stream_limit st) resp st = Inr (offset, finished)"
    and st': "st' = st\<lparr>sm_rows := pg_rows resp, sm_index := 0, sm_offset := offset, sm_done := finished, sm_last := prev\<rparr>"
    by (auto simp: fill_page_def bindE_Inr_conv)
  from stream_position_room [OF pos stream_limit_le] False show ?thesis
    by (simp add: st' stream_room_def)
qed

lemma fill_all_room:
  "allIO (fillAddressHistoryStream c n dec path) sts s = (Inr sts', s') \<Longrightarrow>
     sum_list (map stream_room sts') \<le> sum_list (map stream_room sts)"
proof (induction sts arbitrary: sts' s)
  case (Cons st sts)
  then obtain st1 t rest where *: "fillAddressHistoryStream c n dec path st s = (Inr st1, t)"
    "allIO (fillAddressHistoryStream c n dec path) sts t = (Inr rest, s')" "sts' = st1 # rest"
    by (auto simp: bindE_Inr_conv split: prod.splits)
  from fill_room [OF *(1)] Cons.IH [OF *(2)] *(3) show ?case by simp
qed (simp add: returnIO_def)

lemma select_head_from:
  "select_head best hs = Some (i, r) \<Longrightarrow> best = Some (i, r) \<or> (i, Some r) \<in> set hs"
  by (induction best hs rule: select_head.induct) (auto split: if_splits)

lemma next_head_SomeD:
  assumes "next_head sts = Some (i, r)"
  shows "i < length sts" and "stream_head (sts ! i) = Some r"
proof -
  have "(i, Some r) \<in> set (zip [0..<length sts] (map stream_head sts))"
    using select_head_from [of None _ i r] assms by (auto simp: next_head_def)
  then show "i < length sts" "stream_head (sts ! i) = Some r" by (auto simp: set_zip)
qed

lemma advance_room:
  assumes "next_head sts = Some (i, r)"
  shows "sum_list (map stream_room (advance i sts)) < sum_list (map stream_room sts)"
proof -
  note i = next_head_SomeD [OF assms]
  have "sm_index (sts ! i) < length (sm_rows (sts ! i))"
    using i(2) by (auto simp: stream_head_def split: if_splits)
  then have less: "stream_room ((sts ! i)\<lparr>sm_index := sm_index (sts ! i) + 1\<rparr>) < stream_room (sts ! i)"
    by (simp add: stream_room_def)
  have "map stream_room (advance i sts) =
      (map stream_room sts)[i := stream_room ((sts ! i)\<lparr>sm_index := sm_index (sts ! i) + 1\<rparr>)]"
    by (simp add: advance_def map_update)
  moreover have "sum_list ((map stream_room sts)[i := x]) < sum_list (map stream_room sts)"
    if "x < stream_room (sts ! i)" for x
    using that i(1) elem_le_sum_list [of i "map stream_room sts"] by (simp add: sum_list_update)
  ultimately show ?thesis using less by simp
qed

function merge_loop :: "koios_client \<Rightarrow> ('s, 'j) net \<Rightarrow> ('j \<Rightarrow> addressTxRow option) \<Rightarrow> string \<Rightarrow>
    AddressHistoryStream list \<Rightarrow> (string, addressTxRow) js_map \<times> int option \<Rightarrow>
    ('s kworld, addressTxRow list) io_result" where
  "merge_loop c n dec path sts acc s =
     (case allIO (fillAddressHistoryStream c n dec path) sts s of
        (Inl e, s') \<Rightarrow> (Inl e, s')
      | (Inr sts', s') \<Rightarrow> (case next_head sts' of
            None \<Rightarrow> (Inr (map snd (fst acc)), s')
          | Some (i, r) \<Rightarrow>
              if snd acc \<noteq> None \<and> ad_block_height r > the (snd acc) then (Inr (map snd (fst acc)), s')
              else merge_loop c n dec path (advance i sts') (collect r acc) s'))"
  by pat_completeness auto
termination
  by (relation "measure (\<lambda>(_, _, _, _, sts, _, _). sum_list (map stream_room sts))")
    (auto dest!: sym [of _ "allIO _ _ _"] fill_all_room advance_room)

declare merge_loop.simps [simp del]

definition address_txs_body :: "nat option \<Rightarrow> json list \<Rightarrow> json" where
  "address_txs_body afterBlock = list_body [] ''_addresses'' (case afterBlock of
     None \<Rightarrow> [] | Some b \<Rightarrow> [(''_after_block_height'', JInt (int b))])"

definition ADDRESS_TXS_PATH :: string where
  "ADDRESS_TXS_PATH = ''/address_txs?order=block_height.asc,tx_hash.asc''"

definition boundedAddressHistoryRows :: "koios_client \<Rightarrow> ('s, 'j) net \<Rightarrow> ('j \<Rightarrow> addressTxRow option) \<Rightarrow>
    string list \<Rightarrow> nat option \<Rightarrow> ('s kworld, addressTxRow list) io_result" where
  "boundedAddressHistoryRows c n dec addresses afterBlock =
     bindIO (packAdaptively (map JStr addresses) (address_txs_body afterBlock) (\<lambda>b.
         bindIO (fillAddressHistoryStream c n dec ADDRESS_TXS_PATH (new_stream b)) (\<lambda>st. returnIO [st])))
       (\<lambda>sts. merge_loop c n dec ADDRESS_TXS_PATH sts ([], None))"

definition getTxHistoryByAddresses :: "koios_client \<Rightarrow> ('s, 'j) net \<Rightarrow> ('j \<Rightarrow> addressTxRow option) \<Rightarrow>
    ('j \<Rightarrow> txInfoRow option) \<Rightarrow> string list \<Rightarrow> nat option \<Rightarrow> ('s kworld, WalletTransaction list) io_result" where
  "getTxHistoryByAddresses c n dec dec_info addresses afterBlock =
     (if addresses = [] then returnIO []
      else bindIO (koios_read c n ''/address_txs'' (boundedAddressHistoryRows c n dec addresses afterBlock)) (\<lambda>rows.
        if rows = [] then returnIO []
        else
          let distinct_rows = map snd (fold (\<lambda>r. jm_set (ad_tx_hash r) r) rows []) in
          hydrateTxHistory c n dec_info
            (map ad_tx_hash (history_window HISTORY_PAGE_SIZE ad_block_height distinct_rows))))"

section \<open>Outputs\<close>

definition pagedBatchAll :: "koios_client \<Rightarrow> ('s, 'j) net \<Rightarrow> ('j \<Rightarrow> 'row option) \<Rightarrow> string \<Rightarrow> string list \<Rightarrow>
    (json list \<Rightarrow> json) \<Rightarrow> 'row PagedBatchOptions \<Rightarrow> ('s kworld, 'row list) io_result" where
  "pagedBatchAll c n row path addresses toBody opts =
     packAdaptively (map JStr addresses) toBody (\<lambda>b. batchAllPages c n row path b opts)"

definition getUtxosByAddresses :: "koios_client \<Rightarrow> ('s, 'j) net \<Rightarrow> ('j \<Rightarrow> koiosUtxoRow option) \<Rightarrow>
    string list \<Rightarrow> ('s kworld, Utxo list) io_result" where
  "getUtxosByAddresses c n dec addresses =
     (if addresses = [] then returnIO []
      else bindIO (pagedBatchAll c n (refine dec utxoRow_ok) ''/address_utxos?order=tx_hash.asc,tx_index.asc''
               addresses (list_body [] ''_addresses'' [(''_extended'', JBool True)])
               \<lparr>opt_rowKey = Some utxo_key, opt_keyset = Some (\<lambda>r. (ku_tx_hash r, ku_tx_index r)),
                opt_verifyConsistency = False\<rparr>)
             (\<lambda>rows. returnIO (map mapUtxo rows)))"

section \<open>Discovery\<close>

definition filterUsedAddresses :: "koios_client \<Rightarrow> ('s, 'j) net \<Rightarrow> ('j \<Rightarrow> string option) \<Rightarrow> string list \<Rightarrow>
    ('s kworld, string list) io_result" where
  "filterUsedAddresses c n dec addresses =
     (if addresses = [] then returnIO []
      else bindIO (batchAll c n dec ''/address_info'' (map JStr addresses) (list_body [] ''_addresses'' []))
             (\<lambda>rows. returnIO (filter (\<lambda>a. a \<in> set rows) addresses)))"

definition credential_body :: "string list \<Rightarrow> json" where
  "credential_body creds = JObj [(''_payment_credentials'', JArr (map JStr creds))]"

definition credential_probe :: "koios_client \<Rightarrow> ('s, 'j) net \<Rightarrow> ('j \<Rightarrow> addressTxRow option) \<Rightarrow> string list \<Rightarrow>
    ('s kworld, addressTxRow list) io_result" where
  "credential_probe c n dec creds =
     koios_batch c n (z_array dec) ''/credential_txs?limit=1'' (credential_body creds)"

text \<open>Halving: \<open>Math.ceil(n / 2)\<close> is \<open>(n + 1) div 2\<close>.\<close>

function usedPaymentCredentials :: "koios_client \<Rightarrow> ('s, 'j) net \<Rightarrow> ('j \<Rightarrow> addressTxRow option) \<Rightarrow>
    string list \<Rightarrow> ('s kworld, string list) io_result" where
  "usedPaymentCredentials c n dec creds s =
     (if creds = [] then (Inr [], s)
      else case credential_probe c n dec creds s of
        (Inl e, s1) \<Rightarrow> (Inl e, s1)
      | (Inr rows, s1) \<Rightarrow>
          if rows = [] then (Inr [], s1)
          else if length creds = 1 then (Inr creds, s1)
          else let middle = (length creds + 1) div 2 in
            (case usedPaymentCredentials c n dec (take middle creds) s1 of
               (Inl e, s2) \<Rightarrow> (Inl e, s2)
             | (Inr left, s2) \<Rightarrow> (case usedPaymentCredentials c n dec (drop middle creds) s2 of
                   (Inl e, s3) \<Rightarrow> (Inl e, s3)
                 | (Inr right, s3) \<Rightarrow> (Inr (left @ right), s3))))"
  by pat_completeness auto
termination
proof (relation "measure (\<lambda>(_, _, _, creds, _). length creds)", goal_cases)
  case (2 c n dec creds s a b sum_a middle)
  then have "length creds \<ge> 2" by (cases creds; cases "tl creds") auto
  with 2 show ?case by auto
next
  case (3 c n dec creds s)
  then have "length creds \<ge> 2" by (cases creds; cases "tl creds") auto
  with 3 show ?case by auto
qed simp

declare usedPaymentCredentials.simps [simp del]

function chunks_of :: "nat \<Rightarrow> 'a list \<Rightarrow> 'a list list" where
  "chunks_of k xs = (if xs = [] \<or> k = 0 then [] else take k xs # chunks_of k (drop k xs))"
  by pat_completeness auto
termination
  by (relation "measure (\<lambda>(k, xs). length xs)") (auto simp: not_less)

declare chunks_of.simps [simp del]

definition filterUsedPaymentCredentials :: "koios_client \<Rightarrow> ('s, 'j) net \<Rightarrow> ('j \<Rightarrow> addressTxRow option) \<Rightarrow>
    string list \<Rightarrow> ('s kworld, string list) io_result" where
  "filterUsedPaymentCredentials c n dec paymentCredentials =
     (let unique = dedupe paymentCredentials in
      if unique = [] then returnIO []
      else bindIO (mapIO (usedPaymentCredentials c n dec) (chunks_of CREDENTIAL_PROBE_SIZE unique))
             (\<lambda>results. returnIO (filter (\<lambda>k. k \<in> set (concat results)) unique)))"

section \<open>Properties\<close>

lemma usedPaymentCredentials_exact:
  fixes n :: "('s, 'j) net" and dec :: "'j \<Rightarrow> addressTxRow option"
  assumes truthful: "\<And>ks s. set ks \<subseteq> set creds \<Longrightarrow> \<exists>rows s'. credential_probe c n dec ks s = (Inr rows, s') \<and>
      (rows \<noteq> [] \<longleftrightarrow> (\<exists>k \<in> set ks. used k))"
    and "set ks \<subseteq> set creds"
  shows "\<exists>s'. usedPaymentCredentials c n dec ks s = (Inr (filter used ks), s')"
  using assms(2)
proof (induction "length ks" arbitrary: ks s rule: less_induct)
  case less
  obtain rows s1 where probe: "credential_probe c n dec ks s = (Inr rows, s1)"
    "rows \<noteq> [] \<longleftrightarrow> (\<exists>k \<in> set ks. used k)"
    using truthful less.prems by blast
  show ?case
  proof (cases "length ks \<le> 1 \<or> rows = []")
    case True
    with probe show ?thesis
      by (cases ks) (auto simp: usedPaymentCredentials.simps [of _ _ _ _ s] filter_empty_conv)
  next
    case False
    let ?m = "(length ks + 1) div 2"
    have sub: "set (take ?m ks) \<subseteq> set creds" "set (drop ?m ks) \<subseteq> set creds"
      using less.prems by (meson set_take_subset set_drop_subset order_trans)+
    from False have m: "?m < length ks" "length ks - ?m < length ks" by auto
    obtain s2 where s2: "usedPaymentCredentials c n dec (take ?m ks) s1 = (Inr (filter used (take ?m ks)), s2)"
      using less.hyps [OF _ sub(1), of s1] m(1) by auto
    obtain s3 where s3: "usedPaymentCredentials c n dec (drop ?m ks) s2 = (Inr (filter used (drop ?m ks)), s3)"
      using less.hyps [OF _ sub(2), of s2] m(2) by auto
    have "filter used (take ?m ks) @ filter used (drop ?m ks) = filter used ks"
      by (metis append_take_drop_id filter_append)
    with False probe s2 s3 show ?thesis
      by (auto simp: usedPaymentCredentials.simps [of _ _ _ ks s] Let_def)
  qed
qed

lemma concat_chunks_of: "0 < k \<Longrightarrow> concat (chunks_of k xs) = xs"
  by (induction k xs rule: chunks_of.induct) (simp add: chunks_of.simps [of k xs for k xs])

lemma mapIO_used:
  fixes n :: "('s, 'j) net" and dec :: "'j \<Rightarrow> addressTxRow option"
  assumes truthful: "\<And>ks s. set ks \<subseteq> set creds \<Longrightarrow> \<exists>rows s'. credential_probe c n dec ks s = (Inr rows, s') \<and>
      (rows \<noteq> [] \<longleftrightarrow> (\<exists>k \<in> set ks. used k))"
    and "\<Union> (set ` set groups) \<subseteq> set creds"
  shows "\<exists>s'. mapIO (usedPaymentCredentials c n dec) groups s = (Inr (map (filter used) groups), s')"
  using assms(2)
proof (induction groups arbitrary: s)
  case (Cons g groups)
  obtain s1 where "usedPaymentCredentials c n dec g s = (Inr (filter used g), s1)"
  proof -
    have "set g \<subseteq> set creds" using Cons.prems by auto
    with usedPaymentCredentials_exact [OF truthful] that show thesis by blast
  qed
  with Cons.IH [of s1] Cons.prems show ?case by (auto simp: bindIO_run returnIO_run bindIO_def)
qed (simp add: returnIO_run)

text \<open>
  C22: probing credentials in groups and halving a group that matched finds exactly the used ones: as
long as every probe of a group tells truly whether some member was used, the answer is the list a
  filter over the distinct credentials would give, in the caller's order, whatever else upstream puts
  in the rows.
\<close>

theorem filterUsedPaymentCredentials_exact:
  fixes n :: "('s, 'j) net" and dec :: "'j \<Rightarrow> addressTxRow option"
  assumes truthful: "\<And>ks s. set ks \<subseteq> set creds \<Longrightarrow> \<exists>rows s'. credential_probe c n dec ks s = (Inr rows, s') \<and>
      (rows \<noteq> [] \<longleftrightarrow> (\<exists>k \<in> set ks. used k))"
  shows "\<exists>s'. filterUsedPaymentCredentials c n dec creds s = (Inr (filter used (dedupe creds)), s')"
proof (cases "dedupe creds = []")
  case False
  have "\<Union> (set ` set (chunks_of CREDENTIAL_PROBE_SIZE (dedupe creds))) \<subseteq> set creds"
    by (simp flip: set_concat add: concat_chunks_of CREDENTIAL_PROBE_SIZE_def)
  then obtain s1 where "mapIO (usedPaymentCredentials c n dec) (chunks_of CREDENTIAL_PROBE_SIZE (dedupe creds)) s =
      (Inr (map (filter used) (chunks_of CREDENTIAL_PROBE_SIZE (dedupe creds))), s1)"
    using mapIO_used [OF truthful] by blast
  moreover have "concat (map (filter used) (chunks_of CREDENTIAL_PROBE_SIZE (dedupe creds))) =
      filter used (dedupe creds)"
    by (simp add: filter_concat [symmetric] concat_chunks_of CREDENTIAL_PROBE_SIZE_def)
  moreover have "filter (\<lambda>k. k \<in> set (filter used (dedupe creds))) (dedupe creds) =
      filter used (dedupe creds)"
    by (rule filter_cong) auto
  ultimately show ?thesis using False
    by (simp add: filterUsedPaymentCredentials_def Let_def bindIO_run returnIO_run del: set_concat set_filter)
qed (simp add: filterUsedPaymentCredentials_def returnIO_run)

text \<open>An upstream that has seen exactly the credentials with a 1 in them.\<close>

definition probe_server :: "http_request \<Rightarrow> (addressTxRow) fetch_outcome" where
  "probe_server req = FetchResponse \<lparr>res_ok = True, res_status = 200, res_header = (\<lambda>_. None),
     res_json = JsonOk (JArray (case req_body req of TextBody t \<Rightarrow> if CHR ''1'' \<in> set t
       then [\<lparr>ad_tx_hash = ''00'', ad_block_height = 7, ad_block_time = 0, ad_epoch_no = 0\<rparr>] else [] | _ \<Rightarrow> [])),
     res_text = None\<rparr>"

definition probe_net :: "(unit, addressTxRow) net" where
  "probe_net = \<lparr>doFetch = (\<lambda>req s. (probe_server req, s)), delayImpl = (\<lambda>_ s. s), onRetry = (\<lambda>_ s. s)\<rparr>"

definition probe_client :: koios_client where
  "probe_client = \<lparr>kc_baseUrl = ''https://api.koios.rest/api/v1'', kc_token = None, kc_timeoutMs = 10000,
     kc_heavyTimeoutMs = 15000, kc_readAttempts = 3, kc_backoffMs = 150\<rparr>"

lemma set_intercalate: "set (intercalate sep xs) = \<Union> (set ` set xs) \<union> (if length xs \<ge> 2 then set sep else {})"
  by (induction sep xs rule: intercalate.induct) auto

lemma probe_truthful:
  assumes "set ks \<subseteq> set [''11'', ''22'', ''31'']"
  shows "\<exists>rows s'. credential_probe probe_client probe_net Some ks s = (Inr rows, s') \<and>
      (rows \<noteq> [] \<longleftrightarrow> (\<exists>k \<in> set ks. CHR ''1'' \<in> set k))"
proof -
  have ne: "CHR ''1'' \<noteq> char_of (34::nat)" by (simp add: char_of_def)
  have q: "CHR ''1'' \<in> set (quote_string k) \<longleftrightarrow> CHR ''1'' \<in> set k" if "k \<in> set ks" for k
    using that assms by (auto simp: quote_string_def escape_char_def Let_def char_of_def)
  have "CHR ''1'' \<in> set (stringify (credential_body ks)) \<longleftrightarrow> (\<exists>k \<in> set ks. CHR ''1'' \<in> set k)"
    using q ne by (auto simp: credential_body_def set_intercalate quote_string_def [of "''_payment_credentials''"]
        escape_char_def)
  then have "\<exists>rows. (rows \<noteq> [] \<longleftrightarrow> (\<exists>k \<in> set ks. CHR ''1'' \<in> set k)) \<and>
    koios_request_data probe_client probe_net ''/credential_txs?limit=1'' (post_json (credential_body ks)) s =
      (Inr (JArray rows), s\<lparr>kouter := ()\<rparr>)"
    by (cases "\<exists>k \<in> set ks. CHR ''1'' \<in> set k")
      (simp_all add: koios_request_data_def bindIO_def requestWithMetadata_def koios_fetch_def probe_net_def
        probe_server_def koios_http_request_def Let_def post_json_def returnIO_def)
  then obtain rows where rows: "rows \<noteq> [] \<longleftrightarrow> (\<exists>k \<in> set ks. CHR ''1'' \<in> set k)" and
    req: "koios_request_data probe_client probe_net ''/credential_txs?limit=1'' (post_json (credential_body ks)) s =
      (Inr (JArray rows), s\<lparr>kouter := ()\<rparr>)"
    by blast
  have "those (map Some rows) = Some rows" by (simp add: those_map_Some list.rel_map list.rel_refl)
  with req have "credential_probe probe_client probe_net Some ks s = (Inr rows, s\<lparr>kouter := ()\<rparr>)"
    by (simp add: credential_probe_def koios_batch_def koios_read_def retry_loop.simps [of _ _ _ _ "Suc 0" s]
        bindIO_run liftE_run koios_parse_def z_array_def)
  with rows show ?thesis by blast
qed

theorem filterUsedPaymentCredentials_exact_witness:
  "\<exists>s'. filterUsedPaymentCredentials probe_client probe_net Some [''31'', ''22'', ''11'', ''31''] idle =
     (Inr [''31'', ''11''], s')"
proof -
  have "\<exists>s'. filterUsedPaymentCredentials probe_client probe_net Some [''31'', ''22'', ''11'', ''31''] idle =
     (Inr (filter (\<lambda>k. CHR ''1'' \<in> set k) (dedupe [''31'', ''22'', ''11'', ''31''])), s')"
    by (rule filterUsedPaymentCredentials_exact) (rule probe_truthful, auto)
  then show ?thesis by (simp add: dedupe_def)
qed

end
