(* ===== verification/Koios_History.thy ===== *)
theory Koios_History
  imports Koios_Addresses
begin

text \<open>
  The address-keyed history of \<^verbatim>\<open>src/providers/koios/addresses.ts\<close>: what the incremental merge of
  \<open>boundedAddressHistoryRows\<close> returns.  The merge is a definition of \<open>Koios_Addresses\<close>; here are its
  invariant and its properties.
\<close>

section \<open>The order of the rows\<close>

lemma js_string_less_trans: "js_string_less a b \<Longrightarrow> js_string_less b c \<Longrightarrow> js_string_less a c"
proof (induction a b arbitrary: c rule: js_string_less.induct)
  case (1 b)
  then show ?case by (cases c) (auto simp: neq_Nil_conv)
next
  case (3 x xs y ys)
  then show ?case by (cases c) auto
qed simp

lemma js_string_less_total: "a = b \<or> js_string_less a b \<or> js_string_less b a"
proof (induction a b rule: js_string_less.induct)
  case (1 b)
  then show ?case by (cases b) auto
next
  case (3 x xs y ys)
  have "x = y \<or> (of_char x :: nat) \<noteq> of_char y" by (metis of_char_eq_iff)
  with 3 show ?case by auto
qed simp

definition row_le :: "addressTxRow \<Rightarrow> addressTxRow \<Rightarrow> bool" where
  "row_le a b \<longleftrightarrow> compareAddressTxRows a b \<le> 0"

lemma row_le_iff: "row_le a b \<longleftrightarrow> ad_block_height a < ad_block_height b \<or>
    ad_block_height a = ad_block_height b \<and>
      (ad_tx_hash a = ad_tx_hash b \<or> js_string_less (ad_tx_hash a) (ad_tx_hash b))"
  by (auto simp: row_le_def compareAddressTxRows_def)

lemma row_le_refl [simp]: "row_le a a"
  by (simp add: row_le_iff)

lemma row_le_trans: "row_le a b \<Longrightarrow> row_le b c \<Longrightarrow> row_le a c"
  using js_string_less_trans [of "ad_tx_hash a" "ad_tx_hash b" "ad_tx_hash c"] by (auto simp: row_le_iff)

lemma row_le_total: "\<not> row_le a b \<Longrightarrow> row_le b a"
  using js_string_less_total [of "ad_tx_hash a" "ad_tx_hash b"] by (auto simp: row_le_iff)

lemma row_le_height: "row_le a b \<Longrightarrow> ad_block_height a \<le> ad_block_height b"
  by (auto simp: row_le_iff)

definition le_opt :: "addressTxRow option \<Rightarrow> addressTxRow \<Rightarrow> bool" where
  "le_opt m r \<longleftrightarrow> (case m of None \<Rightarrow> True | Some a \<Rightarrow> row_le a r)"

lemma le_opt_trans: "le_opt m a \<Longrightarrow> row_le a b \<Longrightarrow> le_opt m b"
  by (auto simp: le_opt_def intro: row_le_trans split: option.splits)

section \<open>The streams\<close>

lemma check_order_Inr:
  "check_order path prev rs = Inr prev' \<Longrightarrow>
     sorted_wrt row_le rs \<and> (\<forall>r \<in> set rs. le_opt prev r) \<and>
     prev' = (if rs = [] then prev else Some (last rs))"
proof (induction path prev rs rule: check_order.induct)
  case (2 path prev r rs)
  then have "le_opt prev r" by (auto simp: le_opt_def row_le_def split: if_splits option.splits)
  moreover have "sorted_wrt row_le rs \<and> (\<forall>x \<in> set rs. le_opt (Some r) x) \<and>
      prev' = (if rs = [] then Some r else Some (last rs))"
    using 2 by (auto split: if_splits)
  ultimately show ?case by (auto simp: le_opt_def intro: row_le_trans split: option.splits)
qed auto

definition unread :: "AddressHistoryStream \<Rightarrow> addressTxRow list" where
  "unread st = drop (sm_index st) (sm_rows st)"

text \<open>
  A stream's unread rows are in order and none comes before the row \<open>m\<close> the merge took last; a stream
  that has run dry but is not complete read nothing after \<open>m\<close>.
\<close>

definition stream_inv :: "addressTxRow option \<Rightarrow> AddressHistoryStream \<Rightarrow> bool" where
  "stream_inv m st \<longleftrightarrow> sorted_wrt row_le (unread st) \<and> (\<forall>r \<in> set (unread st). le_opt m r) \<and>
     (unread st \<noteq> [] \<longrightarrow> sm_last st = Some (last (unread st))) \<and>
     (\<not> sm_done st \<longrightarrow> unread st = [] \<longrightarrow>
        (case sm_last st of None \<Rightarrow> m = None | Some l \<Rightarrow> le_opt m l))"

definition stream_full :: "AddressHistoryStream \<Rightarrow> bool" where
  "stream_full st \<longleftrightarrow> sm_done st \<or> unread st \<noteq> []"

lemma stream_head_unread: "stream_head st = (case unread st of [] \<Rightarrow> None | r # _ \<Rightarrow> Some r)"
proof (cases "sm_index st < length (sm_rows st)")
  case True
  then show ?thesis by (simp add: stream_head_def unread_def Cons_nth_drop_Suc [symmetric])
qed (simp add: stream_head_def unread_def)

lemma batchPageOnce_span:
  assumes "koios_batchPageOnce c n row path b s = (Inr resp, s')" and "pg_range resp = Some (RangeSpan start fin tot)"
  shows "start \<le> fin"
  using assms parseContentRange_span
  by (auto simp: koios_batchPageOnce_def bindIO_Inr_conv liftE_def bindE_Inr_conv split: option.splits)

lemma fill_inv:
  assumes fill: "fillAddressHistoryStream c n dec path st s = (Inr st', s')" and inv: "stream_inv m st"
  shows "stream_inv m st' \<and> stream_full st'"
proof (cases "sm_done st \<or> sm_index st < length (sm_rows st)")
  case True
  with fill have "st' = st" by (simp add: fillAddressHistoryStream_def returnIO_def)
  with True inv show ?thesis by (auto simp: stream_full_def unread_def)
next
  case False
  then have dry: "unread st = []" by (simp add: unread_def)
  from fill False obtain q resp u where resp: "koios_batchPageOnce c n dec q (sm_body st) s = (Inr resp, u)"
    and page: "fill_page path (stream_limit st) resp st = Inr st'"
    by (auto simp: fillAddressHistoryStream_def bindIO_Inr_conv liftE_def)
  from page obtain offset finished prev where
    pos: "stream_position path (stream_limit st) resp st = Inr (offset, finished)" and
    ord: "check_order path (sm_last st) (pg_rows resp) = Inr prev" and
    st': "st' = st\<lparr>sm_rows := pg_rows resp, sm_index := 0, sm_offset := offset, sm_done := finished, sm_last := prev\<rparr>"
    by (auto simp: fill_page_def bindE_Inr_conv)
  have new: "unread st' = pg_rows resp" by (simp add: st' unread_def)
  note ord = check_order_Inr [OF ord]
  have low: "le_opt m r" if "r \<in> set (pg_rows resp)" for r
  proof (cases "sm_last st")
    case None
    with inv dry False show ?thesis by (auto simp: stream_inv_def le_opt_def)
  next
    case (Some l)
    with inv dry False have "le_opt m l" by (auto simp: stream_inv_def)
    moreover have "row_le l r" using ord that Some by (auto simp: le_opt_def)
    ultimately show ?thesis by (rule le_opt_trans)
  qed
  have "finished \<or> pg_rows resp \<noteq> []"
    using pos batchPageOnce_span [OF resp]
    by (auto simp: stream_position_def Let_def split: option.splits KoiosContentRange.splits if_splits)
  with ord low show ?thesis
    by (auto simp: stream_inv_def stream_full_def new, auto simp: st')
qed

lemma fill_all_inv:
  "allIO (fillAddressHistoryStream c n dec path) sts s = (Inr sts', s') \<Longrightarrow>
     \<forall>st \<in> set sts. stream_inv m st \<Longrightarrow> \<forall>st \<in> set sts'. stream_inv m st \<and> stream_full st"
proof (induction sts arbitrary: sts' s)
  case (Cons st sts)
  then obtain st1 t rest where *: "fillAddressHistoryStream c n dec path st s = (Inr st1, t)"
    "allIO (fillAddressHistoryStream c n dec path) sts t = (Inr rest, s')" "sts' = st1 # rest"
    by (auto simp: bindE_Inr_conv split: prod.splits)
  have "stream_inv m st" using Cons.prems(2) by simp
  from fill_inv [OF *(1) this] Cons.IH [OF *(2)] Cons.prems(2) *(3) show ?case by simp
qed (simp add: returnIO_def)

section \<open>Taking a row\<close>

lemma select_head_min:
  "select_head best hs = Some (i, r) \<Longrightarrow>
     (\<forall>b. best = Some b \<longrightarrow> row_le r (snd b)) \<and> (\<forall>j x. (j, Some x) \<in> set hs \<longrightarrow> row_le r x)"
proof (induction best hs rule: select_head.induct)
  case (1 best)
  then show ?case by auto
next
  case (2 best i hs)
  then show ?case by auto
next
  case (3 best j x hs)
  show ?case
  proof (cases "best = None \<or> compareAddressTxRows x (snd (the best)) < 0")
    case True
    then have "best = Some b \<Longrightarrow> row_le x (snd b)" for b by (auto simp: row_le_def)
    with 3(1) [OF True] 3(3) True show ?thesis by (auto intro: row_le_trans)
  next
    case False
    then obtain b where b: "best = Some b" by auto
    from False b have "\<not> row_le x (snd b) \<or> row_le (snd b) x"
      by (auto simp: row_le_def compareAddressTxRows_def split: if_splits)
    then have "row_le (snd b) x" using row_le_total by blast
    with 3(2) [OF False] 3(3) False b show ?thesis by (auto intro: row_le_trans)
  qed
qed

lemma next_head_min:
  assumes "next_head sts = Some (i, r)" and "st \<in> set sts" and "x \<in> set (unread st)"
    and "sorted_wrt row_le (unread st)"
  shows "row_le r x"
proof -
  from assms(3) obtain h t where h: "unread st = h # t" by (cases "unread st") auto
  from assms(2) obtain j where j: "j < length sts" "sts ! j = st" by (auto simp: in_set_conv_nth)
  with h have "(j, Some h) \<in> set (zip [0..<length sts] (map stream_head sts))"
    by (auto simp: set_zip stream_head_unread intro!: exI [of _ j])
  with select_head_min [of None _ i r] assms(1) have "row_le r h" by (auto simp: next_head_def)
  with assms(3,4) h show ?thesis by (auto intro: row_le_trans)
qed

lemma advance_inv:
  assumes nh: "next_head sts = Some (i, r)" and inv: "\<forall>st \<in> set sts. stream_inv m st \<and> stream_full st"
  shows "\<forall>st \<in> set (advance i sts). stream_inv (Some r) st"
proof
  fix st assume "st \<in> set (advance i sts)"
  note i = next_head_SomeD [OF nh]
  have low: "\<forall>x \<in> set (unread st0). row_le r x" if "st0 \<in> set sts" for st0
    using next_head_min [OF nh that] inv that by (auto simp: stream_inv_def)
  from \<open>st \<in> set (advance i sts)\<close> consider "st \<in> set sts" | "st = (sts ! i)\<lparr>sm_index := sm_index (sts ! i) + 1\<rparr>"
    by (auto simp: advance_def dest: set_update_subset_insert [THEN subsetD])
  then show "stream_inv (Some r) st"
  proof cases
    case 1
    with inv low [of st] show ?thesis by (auto simp: stream_inv_def stream_full_def le_opt_def)
  next
    case 2
    let ?old = "sts ! i"
    have old: "stream_inv m ?old" "\<forall>x \<in> set (unread ?old). row_le r x" using inv low i(1) by (meson nth_mem)+
    have cut: "unread ?old = r # unread st"
      using i(2) by (auto simp: 2 unread_def stream_head_def Cons_nth_drop_Suc [symmetric] split: if_splits)
    with old 2 show ?thesis
      by (cases "unread st") (auto simp: stream_inv_def le_opt_def)
  qed
qed

section \<open>What has been collected\<close>

definition one_block :: "addressTxRow list \<Rightarrow> bool" where
  "one_block rows \<longleftrightarrow> (\<forall>i. 49 \<le> i \<and> i < length rows \<longrightarrow> ad_block_height (rows ! i) = ad_block_height (rows ! 49))"

definition collected :: "addressTxRow option \<Rightarrow> (string, addressTxRow) js_map \<times> int option \<Rightarrow> bool" where
  "collected m acc \<longleftrightarrow> (case acc of (seen, boundary) \<Rightarrow>
     jm_keys seen = map ad_tx_hash (map snd seen) \<and> distinct (map ad_tx_hash (map snd seen)) \<and>
     sorted_wrt row_le (map snd seen) \<and>
     (\<forall>r \<in> set (map snd seen). \<exists>a. m = Some a \<and> row_le r a) \<and>
     boundary = (if length seen < 50 then None else Some (ad_block_height (map snd seen ! 49))) \<and>
     one_block (map snd seen))"

lemma collected_start: "collected None ([], None)"
  by (simp add: collected_def one_block_def jm_keys_def)

lemma collected_step:
  assumes acc: "collected m (seen, boundary)" and r: "le_opt m r"
    and "boundary = None \<or> ad_block_height r \<le> the boundary"
  shows "collected (Some r) (collect r (seen, boundary))"
proof -
  have below: "row_le x r" if "x \<in> set (map snd seen)" for x
  proof -
    from acc that obtain a where "m = Some a" "row_le x a" by (fastforce simp: collected_def)
    with r show ?thesis by (auto simp: le_opt_def intro: row_le_trans)
  qed
  show ?thesis
  proof (cases "jm_get seen (ad_tx_hash r)")
    case (Some v)
    have "\<forall>x \<in> set (map snd seen). \<exists>a. Some r = Some a \<and> row_le x a" using below by blast
    with acc Some show ?thesis unfolding collected_def collect_def by simp
  next
    case None
    let ?rows = "map snd seen @ [r]"
    have new: "jm_set (ad_tx_hash r) r seen = seen @ [(ad_tx_hash r, r)]" by (rule jm_set_new [OF None])
    have fresh: "ad_tx_hash r \<notin> set (jm_keys seen)" using None by (simp add: jm_get_None_keys)
    have "sorted_wrt row_le ?rows" using acc below by (auto simp: collected_def sorted_wrt_append)
    moreover have "one_block ?rows" unfolding one_block_def
    proof (intro allI impI)
      fix i assume i: "49 \<le> i \<and> i < length ?rows"
      have old: "one_block (map snd seen)" using acc by (simp add: collected_def)
      consider "i = 49" | "49 < i" "i < length seen" | "i = length seen" "49 < i" using i by fastforce
      then show "ad_block_height (?rows ! i) = ad_block_height (?rows ! 49)"
      proof cases
        case 2
        with old [unfolded one_block_def, rule_format, of i] show ?thesis by (simp add: nth_append)
      next
        case 3
        with acc assms(3) have "ad_block_height r \<le> ad_block_height (map snd seen ! 49)"
          by (auto simp: collected_def)
        moreover have "ad_block_height (map snd seen ! 49) \<le> ad_block_height r"
          using 3 by (intro row_le_height below) auto
        ultimately show ?thesis using 3 by (simp add: nth_append)
      qed simp
    qed
    moreover have "\<forall>x \<in> set ?rows. \<exists>a. Some r = Some a \<and> row_le x a" using below by auto
    moreover have "(if length (seen @ [(ad_tx_hash r, r)]) = 50 then Some (ad_block_height r) else boundary) =
        (if Suc (length seen) < 50 then None else Some (ad_block_height (?rows ! 49)))"
      using acc by (auto simp: collected_def nth_append)
    ultimately show ?thesis using acc fresh
      by (simp add: collected_def collect_def None new jm_keys_def Let_def HISTORY_PAGE_SIZE_def)
        (auto simp: nth_append)
  qed
qed

section \<open>The merge\<close>

lemma merge_loop_collected:
  "merge_loop c n dec path sts acc s = (Inr rows, s') \<Longrightarrow> \<forall>st \<in> set sts. stream_inv m st \<Longrightarrow>
     collected m acc \<Longrightarrow> \<exists>m' acc'. collected m' acc' \<and> rows = map snd (fst acc')"
proof (induction c n dec path sts acc s arbitrary: m rule: merge_loop.induct)
  case (1 c n dec path sts acc s)
  obtain q u where fill: "allIO (fillAddressHistoryStream c n dec path) sts s = (q, u)" by fastforce
  with 1(2) obtain sts' where q: "q = Inr sts'"
    by (cases q) (auto simp: merge_loop.simps [of _ _ _ _ sts])
  have inv: "\<forall>st \<in> set sts'. stream_inv m st \<and> stream_full st"
    using fill_all_inv [OF fill [unfolded q] 1(3)] .
  show ?case
  proof (cases "next_head sts' = None \<or>
      (\<exists>i r. next_head sts' = Some (i, r) \<and> snd acc \<noteq> None \<and> ad_block_height r > the (snd acc))")
    case True
    with 1(2) fill q have "rows = map snd (fst acc)"
      by (auto simp: merge_loop.simps [of _ _ _ _ sts])
    with 1(4) show ?thesis by blast
  next
    case False
    then obtain i r where nh: "next_head sts' = Some (i, r)"
      and go: "\<not> (snd acc \<noteq> None \<and> ad_block_height r > the (snd acc))" by auto
    have run: "merge_loop c n dec path (advance i sts') (collect r acc) u = (Inr rows, s')"
      using 1(2) fill q nh go by (auto simp: merge_loop.simps [of _ _ _ _ sts] split: if_splits)
    note i = next_head_SomeD [OF nh]
    have "r \<in> set (unread (sts' ! i))"
      using i(2) by (auto simp: stream_head_unread split: list.splits)
    with inv i(1) have r: "le_opt m r" by (auto simp: stream_inv_def)
    obtain seen boundary where acc: "acc = (seen, boundary)" by fastforce
    have "collected (Some r) (collect r acc)"
      using collected_step [OF _ r, of seen boundary] 1(4) go by (auto simp: acc)
    with 1(1) [OF fill [symmetric] q nh refl go run advance_inv [OF nh inv]] show ?thesis .
  qed
qed

lemma pack_run_all:
  assumes "pack_run items toBody send s = (Inr rows, s')"
    and "\<And>b w rs w'. send b w = (Inr rs, w') \<Longrightarrow> \<forall>r \<in> set rs. P r"
  shows "\<forall>r \<in> set rows. P r"
proof -
  have all: "allIO (\<lambda>ch. send (toBody ch)) chunks w = (Inr per, w') \<Longrightarrow> \<forall>r \<in> set (concat per). P r"
    for chunks per w w'
  proof (induction chunks arbitrary: per w)
    case (Cons ch chunks)
    then obtain rs t rest where *: "send (toBody ch) w = (Inr rs, t)"
      "allIO (\<lambda>ch. send (toBody ch)) chunks t = (Inr rest, w')" "per = rs # rest"
      by (auto simp: bindE_Inr_conv split: prod.splits)
    from assms(2) [OF *(1)] Cons.IH [OF *(2)] *(3) show ?case by auto
  qed (simp add: returnIO_def)
  from assms(1) obtain chunks per where "allIO (\<lambda>ch. send (toBody ch)) chunks s = (Inr per, s')"
    "rows = concat per"
    by (auto simp: pack_run_def bindIO_Inr_conv liftE_def returnIO_def)
  with all show ?thesis by blast
qed

lemma packAdaptively_all:
  assumes "packAdaptively items toBody send s = (Inr rows, s')"
    and "\<And>b w rs w'. send b w = (Inr rs, w') \<Longrightarrow> \<forall>r \<in> set rs. P r"
  shows "\<forall>r \<in> set rows. P r"
proof -
  obtain t where "pack_run items toBody send t = (Inr rows, s')"
    using assms(1)
    by (auto simp: packAdaptively_def catchIO_Inr_conv throwIO_def split: option.splits if_splits)
  with pack_run_all assms(2) show ?thesis by blast
qed

lemma boundedAddressHistoryRows_collected:
  assumes "boundedAddressHistoryRows c n dec addresses afterBlock s = (Inr rows, s')"
  shows "\<exists>m acc. collected m acc \<and> rows = map snd (fst acc)"
proof -
  let ?send = "\<lambda>b. bindIO (fillAddressHistoryStream c n dec ADDRESS_TXS_PATH (new_stream b)) (\<lambda>st. returnIO [st])"
  from assms obtain sts u where
    pack: "packAdaptively (map JStr addresses) (address_txs_body afterBlock) ?send s = (Inr sts, u)" and
    merge: "merge_loop c n dec ADDRESS_TXS_PATH sts ([], None) u = (Inr rows, s')"
    by (auto simp: boundedAddressHistoryRows_def bindIO_Inr_conv)
  have new: "stream_inv None (new_stream b)" for b
    by (simp add: stream_inv_def new_stream_def unread_def)
  have "\<forall>st \<in> set sts. stream_inv None st"
  proof (rule packAdaptively_all [OF pack])
    fix b w rs w' assume "?send b w = (Inr rs, w')"
    then obtain st where "fillAddressHistoryStream c n dec ADDRESS_TXS_PATH (new_stream b) w = (Inr st, w')"
      and rs: "rs = [st]" by (auto simp: bindIO_Inr_conv returnIO_def)
    from fill_inv [OF this(1) new] rs show "\<forall>st \<in> set rs. stream_inv None st" by simp
  qed
  from merge_loop_collected [OF merge this collected_start] show ?thesis .
qed

lemma jm_set_distinct:
  "distinct (map f rows) \<Longrightarrow> set (map f rows) \<inter> set (jm_keys m) = {} \<Longrightarrow>
     fold (\<lambda>r. jm_set (f r) r) rows m = m @ map (\<lambda>r. (f r, r)) rows"
proof (induction rows arbitrary: m)
  case (Cons r rows)
  then have "jm_set (f r) r m = m @ [(f r, r)]" by (intro jm_set_new) (auto simp: jm_get_None_keys)
  with Cons show ?case by (auto simp: jm_keys_def)
qed simp

lemma history_window_one_block:
  assumes "sorted (map ad_block_height rows)" and "one_block rows"
  shows "history_window 50 ad_block_height rows = rows"
proof -
  have srt: "sort_key ad_block_height rows = rows" using assms(1) by (rule sort_key_id_if_sorted)
  let ?hs = "map ad_block_height rows" and ?e = "min 50 (length rows)"
  define b k where "b = ?hs ! (?e - 1)" and "k = extend_boundary ?hs b ?e"
  have spec: "?e \<le> k" "k \<le> length rows" "k < length rows \<Longrightarrow> ?hs ! k \<noteq> b"
    using extend_boundary_spec [of ?e ?hs b] by (auto simp: k_def)
  have "k = length rows"
  proof (rule ccontr)
    assume "k \<noteq> length rows"
    with spec have "k < length rows" "50 \<le> k" by auto
    with assms(2) [unfolded one_block_def, rule_format, of k] spec(3) show False
      by (simp add: b_def min_def)
  qed
  then show ?thesis
    unfolding history_window_def srt Let_def by (cases "rows = []") (simp_all add: k_def b_def)
qed

text \<open>
  C23: whatever the streams deliver, and however the addresses were packed into bodies, the merge
  returns each transaction once, in the order of block and hash, and beyond the fiftieth only the rest
  of the block that one is in: a page, so the window that follows it changes nothing.
\<close>

theorem address_history_page:
  assumes "boundedAddressHistoryRows c n dec addresses afterBlock s = (Inr rows, s')"
  shows "distinct (map ad_tx_hash rows) \<and> sorted_wrt (\<lambda>a b. compareAddressTxRows a b \<le> 0) rows \<and>
    (\<forall>i. 50 \<le> i \<and> i < length rows \<longrightarrow> ad_block_height (rows ! i) = ad_block_height (rows ! 49)) \<and>
    history_window HISTORY_PAGE_SIZE ad_block_height (map snd (fold (\<lambda>r. jm_set (ad_tx_hash r) r) rows [])) = rows"
proof -
  obtain m seen boundary where acc: "collected m (seen, boundary)" and rows: "rows = map snd seen"
    using boundedAddressHistoryRows_collected [OF assms] by auto
  then have dist: "distinct (map ad_tx_hash rows)" and srt: "sorted_wrt row_le rows" and block: "one_block rows"
    by (auto simp: collected_def)
  have "fold (\<lambda>r. jm_set (ad_tx_hash r) r) rows [] = map (\<lambda>r. (ad_tx_hash r, r)) rows"
    using jm_set_distinct [of ad_tx_hash rows "[]"] dist by (simp add: jm_keys_def)
  then have fold: "map snd (fold (\<lambda>r. jm_set (ad_tx_hash r) r) rows []) = rows" by (simp add: comp_def)
  have "sorted (map ad_block_height rows)"
    using srt by (auto simp: sorted_wrt_map intro: sorted_wrt_mono_rel [OF _ srt] row_le_height)
  with block have "history_window HISTORY_PAGE_SIZE ad_block_height rows = rows"
    by (simp add: history_window_one_block HISTORY_PAGE_SIZE_def)
  moreover have "\<forall>i. 50 \<le> i \<and> i < length rows \<longrightarrow> ad_block_height (rows ! i) = ad_block_height (rows ! 49)"
    by (intro allI impI) (rule block [unfolded one_block_def, rule_format], simp)
  moreover have "sorted_wrt (\<lambda>a b. compareAddressTxRows a b \<le> 0) rows"
    using srt by (simp add: row_le_def [abs_def])
  ultimately show ?thesis using dist unfolding fold by blast
qed

definition history_net :: "addressTxRow list \<Rightarrow> (unit, addressTxRow) net" where
  "history_net rows = \<lparr>doFetch = (\<lambda>req s. (FetchResponse \<lparr>res_ok = True, res_status = 200, res_header = (\<lambda>_. None),
     res_json = JsonOk (JArray rows), res_text = None\<rparr>, s)), delayImpl = (\<lambda>_ s. s), onRetry = (\<lambda>_ s. s)\<rparr>"

definition history_rows :: "addressTxRow list" where
  "history_rows = [\<lparr>ad_tx_hash = ''0b'', ad_block_height = 7, ad_block_time = 0, ad_epoch_no = 0\<rparr>,
     \<lparr>ad_tx_hash = ''0a'', ad_block_height = 9, ad_block_time = 0, ad_epoch_no = 0\<rparr>,
     \<lparr>ad_tx_hash = ''0a'', ad_block_height = 9, ad_block_time = 0, ad_epoch_no = 0\<rparr>]"

lemma fill_done: "sm_done st \<Longrightarrow> fillAddressHistoryStream c n dec path st s = (Inr st, s)"
  by (simp add: fillAddressHistoryStream_def returnIO_def)

lemma history_run:
  "boundedAddressHistoryRows probe_client (history_net history_rows) Some [''addr1''] None
     \<lparr>bodyLimit = 5120, kouter = ()\<rparr> = (Inr (take 2 history_rows), \<lparr>bodyLimit = 5120, kouter = ()\<rparr>)"
proof -
  let ?s = "\<lparr>bodyLimit = 5120, kouter = ()\<rparr>" and ?b = "address_txs_body None [JStr ''addr1'']"
  let ?st = "\<lambda>k. \<lparr>sm_body = ?b, sm_rows = history_rows, sm_index = k, sm_offset = 3, sm_done = True,
      sm_last = Some (history_rows ! 2)\<rparr>"
  have pack: "packBySize [JStr ''addr1''] (address_txs_body None) 5120 = Inr [[JStr ''addr1'']]" by code_simp
  have page: "fill_page ADDRESS_TXS_PATH 50 \<lparr>pg_rows = history_rows, pg_status = 200, pg_range = None\<rparr> (new_stream b) =
      Inr ((?st 0)\<lparr>sm_body := b\<rparr>)" for b
    by (simp add: fill_page_def stream_position_def new_stream_def history_rows_def compareAddressTxRows_def)
  have those: "those (map Some history_rows) = Some history_rows" by (simp add: history_rows_def)
  have fill: "fillAddressHistoryStream probe_client (history_net history_rows) Some ADDRESS_TXS_PATH (new_stream b) ?s =
      (Inr ((?st 0)\<lparr>sm_body := b\<rparr>), ?s)" for b
    by (simp add: fillAddressHistoryStream_def new_stream_def [of b] koios_batchPageOnce_def bindIO_def
        requestWithMetadata_def koios_fetch_def history_net_def Let_def liftE_def koios_parse_def z_array_def those
        stream_limit_def HISTORY_MAX_LIST_ROWS_def HISTORY_PAGE_SIZE_def page [unfolded new_stream_def])
  have merge: "merge_loop probe_client (history_net history_rows) Some ADDRESS_TXS_PATH [?st 0] ([], None) ?s =
      (Inr (take 2 history_rows), ?s)"
    by (simp add: merge_loop.simps [of _ _ _ _ "[_]"] fill_done returnIO_def next_head_def stream_head_def advance_def
        collect_def history_rows_def Let_def HISTORY_PAGE_SIZE_def jm_get_def)
  show ?thesis
    by (simp add: boundedAddressHistoryRows_def bindIO_def packAdaptively_def catchIO_def pack_run_def liftE_def
        pack fill returnIO_def merge)
qed

theorem address_history_page_witness:
  "history_window HISTORY_PAGE_SIZE ad_block_height
     (map snd (fold (\<lambda>r. jm_set (ad_tx_hash r) r) (take 2 history_rows) [])) = take 2 history_rows"
  using address_history_page [OF history_run] by blast

end
