(* ===== verification/Keyed_Cache.thy ===== *)
theory Keyed_Cache
  imports Cache
begin

text \<open>
  What a provider driver relies on when it reads through the cache it is given (\<open>cache.read(key, policy,
  load)\<close>, \<^verbatim>\<open>src/cache/index.ts\<close>): if every loader for a key yields proper values of that key, so does the
  read, and the cache keeps holding proper values.  Triples \<open>keeps I m Q\<close> say that a call keeps an
  invariant of the world and answers, when it answers, with a value \<open>Q\<close>.
\<close>

section \<open>Triples\<close>

definition keeps :: "('s \<Rightarrow> bool) \<Rightarrow> ('s, 'a) io_result \<Rightarrow> ('a \<Rightarrow> bool) \<Rightarrow> bool" where
  "keeps I m Q \<longleftrightarrow> (\<forall>s r t. I s \<longrightarrow> m s = (r, t) \<longrightarrow> I t \<and> (\<forall>a. r = Inr a \<longrightarrow> Q a))"

lemma keepsD: "keeps I m Q \<Longrightarrow> I s \<Longrightarrow> m s = (Inr a, t) \<Longrightarrow> I t \<and> Q a"
  by (simp add: keeps_def)

lemma keeps_weaken: "keeps I m Q \<Longrightarrow> (\<And>a. Q a \<Longrightarrow> R a) \<Longrightarrow> keeps I m R"
  by (auto simp: keeps_def)

lemma keeps_result: "keeps I m (\<lambda>_. True) \<Longrightarrow> (\<And>s a t. m s = (Inr a, t) \<Longrightarrow> Q a) \<Longrightarrow> keeps I m Q"
  by (auto simp: keeps_def)

lemma keeps_return: "Q a \<Longrightarrow> keeps I (returnIO a) Q"
  by (simp add: keeps_def returnIO_def)

lemma keeps_throw: "keeps I (throwIO e) Q"
  by (simp add: keeps_def throwIO_def)

lemma keeps_bind:
  assumes "keeps I m R" and "\<And>a. R a \<Longrightarrow> keeps I (f a) Q"
  shows "keeps I (bindIO m f) Q"
  unfolding keeps_def
proof (intro allI impI)
  fix s r t
  assume I: "I s" and run: "bindIO m f s = (r, t)"
  obtain r1 u where m: "m s = (r1, u)" by fastforce
  with assms(1) I have Iu: "I u" by (auto simp: keeps_def)
  show "I t \<and> (\<forall>a. r = Inr a \<longrightarrow> Q a)"
  proof (cases r1)
    case (Inl e)
    with run m Iu show ?thesis by (auto simp: bindIO_def)
  next
    case (Inr a)
    with assms(1) I m have "R a" by (auto simp: keeps_def)
    with assms(2) Iu run m Inr show ?thesis by (auto simp: bindIO_def keeps_def)
  qed
qed

lemma keeps_catch:
  assumes "keeps I m Q" and "\<And>e. keeps I (h e) Q"
  shows "keeps I (catchIO m h) Q"
  unfolding keeps_def
proof (intro allI impI)
  fix s r t
  assume I: "I s" and run: "catchIO m h s = (r, t)"
  obtain r1 u where m: "m s = (r1, u)" by fastforce
  show "I t \<and> (\<forall>a. r = Inr a \<longrightarrow> Q a)"
  proof (cases r1)
    case (Inl e)
    with assms(1) I m have "I u" by (auto simp: keeps_def)
    moreover from Inl run m have "h e u = (r, t)" by (simp add: catchIO_def)
    ultimately show ?thesis using assms(2) unfolding keeps_def by blast
  next
    case (Inr a)
    with assms(1) I run m show ?thesis by (auto simp: catchIO_def keeps_def)
  qed
qed

lemma keeps_liftE: "(\<And>a. r = Inr a \<Longrightarrow> Q a) \<Longrightarrow> keeps I (liftE r) Q"
  by (simp add: keeps_def liftE_def)

lemma keeps_mapIO:
  assumes "\<And>x. x \<in> set xs \<Longrightarrow> keeps I (f x) (Q x)"
  shows "keeps I (mapIO f xs) (list_all2 Q xs)"
  using assms
proof (induction xs)
  case (Cons x xs)
  show ?case
    unfolding mapIO.simps
    by (rule keeps_bind [where R = "Q x"], simp add: Cons.prems)
      (rule keeps_bind [where R = "list_all2 Q xs"], simp add: Cons, rule keeps_return, simp)
qed (simp add: keeps_return)

lemma keeps_allIO:
  assumes "\<And>x. x \<in> set xs \<Longrightarrow> keeps I (f x) (Q x)"
  shows "keeps I (allIO f xs) (list_all2 Q xs)"
  using assms
proof (induction xs)
  case (Cons x xs)
  show ?case
    unfolding keeps_def
  proof (intro allI impI)
    fix s r t
    assume I: "I s" and run: "allIO f (x # xs) s = (r, t)"
    obtain r1 u where x: "f x s = (r1, u)" by fastforce
    obtain rs v where xs: "allIO f xs u = (rs, v)" by fastforce
    have "keeps I (f x) (Q x)" by (simp add: Cons.prems)
    with I x have u: "I u" "\<forall>a. r1 = Inr a \<longrightarrow> Q x a" unfolding keeps_def by blast+
    have "keeps I (allIO f xs) (list_all2 Q xs)" by (rule Cons.IH) (simp add: Cons.prems)
    with u(1) xs have "I v" "\<forall>ys. rs = Inr ys \<longrightarrow> list_all2 Q xs ys" unfolding keeps_def by blast+
    note this u
    moreover have "t = v" "r = bindE r1 (\<lambda>y. bindE rs (\<lambda>ys. Inr (y # ys)))" using run x xs by simp_all
    ultimately show "I t \<and> (\<forall>ys. r = Inr ys \<longrightarrow> list_all2 Q (x # xs) ys)"
      by (cases r1; cases rs) simp_all
  qed
qed (simp add: keeps_return)

lemma keeps_let: "keeps I (f (g x)) Q \<Longrightarrow> keeps I (let y = g x in f y) Q"
  by simp

section \<open>The interface\<close>

locale keyed_cache =
  fixes I :: "'s \<Rightarrow> bool" and ok :: "string \<Rightarrow> 'v \<Rightarrow> bool"
    and read :: "string \<Rightarrow> policy \<Rightarrow> ('s, 'v) io_result \<Rightarrow> ('s, 'v) io_result"
  assumes read_keeps: "keeps I load (ok k) \<Longrightarrow> keeps I (read k pol load) (ok k)"
begin

lemma read_weaken: "keeps I load (ok k) \<Longrightarrow> (\<And>v. ok k v \<Longrightarrow> Q v) \<Longrightarrow> keeps I (read k pol load) Q"
  using read_keeps keeps_weaken by blast

text \<open>Reading many keys, each with its own loader, at once.\<close>

lemma read_all_keeps:
  "(\<And>k. k \<in> set ks \<Longrightarrow> keeps I (load k) (ok k)) \<Longrightarrow>
     keeps I (allIO (\<lambda>k. read k pol (load k)) ks) (list_all2 ok ks)"
  by (rule keeps_allIO) (rule read_keeps)

end

text \<open>\<open>noCache.read\<close>: the loader itself.\<close>

definition no_cache_read :: "string \<Rightarrow> policy \<Rightarrow> ('s, 'v) io_result \<Rightarrow> ('s, 'v) io_result" where
  "no_cache_read key pol load = load"

interpretation uncached: keyed_cache I ok no_cache_read for I ok
  by unfold_locales (simp add: no_cache_read_def)

text \<open>
  \<open>read\<close> of the memory cache when no other call comes in between: a hit, or the load and the steps
  that settle it (\<open>cache_read\<close>, \<open>cache_settle\<close> and \<open>cache_finally\<close> of the theory \<open>Cache\<close>).
\<close>

definition memory_read :: "('o \<Rightarrow> int) \<Rightarrow> string \<Rightarrow> policy \<Rightarrow> ('o \<times> 'v cache, 'v) io_result \<Rightarrow>
    ('o \<times> 'v cache, 'v) io_result" where
  "memory_read now key pol load s =
     (case cache_peek (now (fst s)) key (snd s) of
        Some v \<Rightarrow> (Inr v, s)
      | None \<Rightarrow>
         (case load s of (r, (out, c)) \<Rightarrow>
          (case cache_read (now out) key pol c of
             (ReadHit v, c1) \<Rightarrow> (Inr v, (out, c1))
           | (ReadJoin a, c1) \<Rightarrow> (Inl (JsError ''pending''), (out, c1))
           | (ReadStart a, c1) \<Rightarrow>
               (let c2 = cache_settle (now out) a r c1 in
                (settled_result (aphase (attempts c2 ! a)), (out, cache_finally a c2))))))"

definition memory_ok :: "('o \<Rightarrow> bool) \<Rightarrow> (string \<Rightarrow> 'v \<Rightarrow> bool) \<Rightarrow> 'o \<times> 'v cache \<Rightarrow> bool" where
  "memory_ok J ok s \<longleftrightarrow> J (fst s) \<and> store_inv ok (snd s)"

lemma store_inv_peek: "store_inv ok c \<Longrightarrow> cache_peek t k c = Some v \<Longrightarrow> ok k v"
  by (auto simp: store_inv_def cache_peek_def split: option.splits if_splits)

lemma started_settles:
  assumes "store_inv ok c" and "cache_read t k pol c = (ReadStart a, c1)" and "\<And>v. r = Inr v \<Longrightarrow> ok k v"
  shows "store_inv ok (cache_settle t a r c1) \<and>
    (\<forall>v. settled_result (aphase (attempts (cache_settle t a r c1) ! a)) = Inr v \<longrightarrow> ok k v)"
proof -
  let ?att = "\<lparr>akey = k, apolicy = pol, attemptGeneration = generationFor c k, aphase = Loading\<rparr>"
  have a: "a = length (attempts c)" and c1: "attempts c1 = attempts c @ [?att]" "entries c1 = entries c"
      "maxEntries c1 = maxEntries c"
    using assms(2) by (auto simp: cache_read_def split: option.splits)
  have att: "attempts c1 ! a = ?att" and len: "a < length (attempts c1)" by (simp_all add: a c1)
  have inv: "store_inv ok c1" using assms(1) c1 by (simp add: store_inv_def)
  show ?thesis
  proof (cases r)
    case (Inr v)
    with assms(3) have "ok k v" by simp
    then have "store_inv ok (cache_settle t a r c1)"
      using inv Inr by (auto simp: cache_settle_def att Let_def intro: store_inv_store)
    moreover have "aphase (attempts (cache_settle t a r c1) ! a) = Settled (Inr v)"
      using len Inr by (auto simp: cache_settle_def att Let_def set_phase_def evict_def)
    ultimately show ?thesis using \<open>ok k v\<close> by (simp add: settled_result_def)
  next
    case (Inl e)
    then have "store_inv ok (cache_settle t a r c1)" using inv by (simp add: cache_settle_def Let_def)
    moreover have "ok k v" if "settled_result (aphase (attempts (cache_settle t a r c1) ! a)) = Inr v" for v
      using that len Inl inv by (auto simp: cache_settle_def att Let_def set_phase_def store_inv_def settled_result_def split: option.splits if_splits)
    ultimately show ?thesis by blast
  qed
qed

interpretation memory: keyed_cache "memory_ok J ok" ok "memory_read now" for J ok now
proof
  fix load k pol
  assume load: "keeps (memory_ok J ok) load (ok k)"
  show "keeps (memory_ok J ok) (memory_read now k pol load) (ok k)"
    unfolding keeps_def
  proof (intro allI impI)
    fix s r t
    assume I: "memory_ok J ok s" and run: "memory_read now k pol load s = (r, t)"
    show "memory_ok J ok t \<and> (\<forall>a. r = Inr a \<longrightarrow> ok k a)"
    proof (cases "cache_peek (now (fst s)) k (snd s)")
      case (Some v)
      with run I store_inv_peek [of ok "snd s"] show ?thesis by (auto simp: memory_read_def memory_ok_def)
    next
      case None
      obtain q out c where l: "load s = (q, (out, c))" by (cases "load s") auto
      with load I have m: "memory_ok J ok (out, c) \<and> (\<forall>a. q = Inr a \<longrightarrow> ok k a)" unfolding keeps_def by blast
      then have c: "J out" "store_inv ok c" and q: "\<And>a. q = Inr a \<Longrightarrow> ok k a" by (simp_all add: memory_ok_def)
      obtain rr c1 where read: "cache_read (now out) k pol c = (rr, c1)" by fastforce
      then have frame: "entries c1 = entries c" "maxEntries c1 = maxEntries c"
        by (auto simp: cache_read_def split: option.splits)
      have inv1: "store_inv ok c1" using c(2) frame store_inv_cong by blast
      show ?thesis
      proof (cases rr)
        case (ReadHit v)
        with read have "cache_peek (now out) k c = Some v" by (auto simp: cache_read_def split: option.splits)
        with store_inv_peek [OF c(2)] run None l read ReadHit c inv1 show ?thesis
          by (auto simp: memory_read_def memory_ok_def)
      next
        case (ReadJoin a)
        with run None l read c inv1 show ?thesis by (auto simp: memory_read_def memory_ok_def)
      next
        case (ReadStart a)
        from started_settles [OF c(2) read [unfolded ReadStart] q]
        have "store_inv ok (cache_settle (now out) a q c1)"
          "\<forall>v. settled_result (aphase (attempts (cache_settle (now out) a q c1) ! a)) = Inr v \<longrightarrow> ok k v" by blast+
        moreover have "store_inv ok (cache_finally a d)" if "store_inv ok d" for d
          using that by (simp add: cache_finally_def Let_def)
        ultimately show ?thesis using run None l read ReadStart c
          by (auto simp: memory_read_def memory_ok_def Let_def)
      qed
    qed
  qed
qed

section \<open>Reading and storing directly\<close>

text \<open>A driver that fills the cache from a batch looks values up and stores them itself.\<close>

locale store_cache = keyed_cache +
  fixes peek :: "string \<Rightarrow> 'a \<Rightarrow> 'b option" and put :: "string \<Rightarrow> 'b \<Rightarrow> int \<Rightarrow> 'a \<Rightarrow> 'a"
  assumes peek_ok: "I s \<Longrightarrow> peek k s = Some v \<Longrightarrow> ok k v"
    and put_ok: "I s \<Longrightarrow> ok k v \<Longrightarrow> I (put k v ttl s)"
begin

lemma put_all_ok: "I s \<Longrightarrow> (\<And>k v. (k, v) \<in> set kvs \<Longrightarrow> ok k v) \<Longrightarrow> I (fold (\<lambda>(k, v). put k v ttl) kvs s)"
  by (induction kvs arbitrary: s) (auto simp: put_ok)

end

definition memory_peek :: "('o \<Rightarrow> int) \<Rightarrow> string \<Rightarrow> 'o \<times> 'v cache \<Rightarrow> 'v option" where
  "memory_peek now k s = cache_peek (now (fst s)) k (snd s)"

definition memory_put :: "('o \<Rightarrow> int) \<Rightarrow> string \<Rightarrow> 'v \<Rightarrow> int \<Rightarrow> 'o \<times> 'v cache \<Rightarrow> 'o \<times> 'v cache" where
  "memory_put now k v ttl s = (fst s, cache_set (now (fst s)) k v ttl (snd s))"

interpretation memory_store: store_cache "memory_ok J ok" ok "memory_read now" "memory_peek now" "memory_put now"
  for J ok now
proof
  fix s k v ttl
  show "memory_ok J ok s \<Longrightarrow> memory_peek now k s = Some v \<Longrightarrow> ok k v"
    by (auto simp: memory_ok_def memory_peek_def dest: store_inv_peek)
  show "memory_ok J ok s \<Longrightarrow> ok k v \<Longrightarrow> memory_ok J ok (memory_put now k v ttl s)"
    by (auto simp: memory_ok_def memory_put_def cache_set_def intro: store_inv_store)
qed

interpretation uncached_store: store_cache I ok no_cache_read "\<lambda>_ _. None" "\<lambda>_ _ _ s. s" for I ok
  by unfold_locales auto

end
