(* ===== verification/Pools.thy ===== *)
theory Pools
  imports Koios_History Js_Sort Keyed_Cache "HOL-Library.Sublist"
begin

text \<open>
  What the pool lists of both drivers share: the domain shapes of \<^verbatim>\<open>src/domain/types/pools.ts\<close>, the
  order by active stake, the substitution of the ranked stake into a hydrated page, and what both rely
  on from the cache they are given (\<open>read\<close> answers with a value some run of the loader produced).
\<close>

section \<open>Shapes\<close>

record PoolMetadata =
  pm_name :: "string option"
  pm_ticker :: "string option"
  pm_homepage :: "string option"
  pm_description :: "string option"

datatype PoolStatus = Pool_registered | Pool_retiring | Pool_retired

record PoolInfo =
  pi_poolId :: string
  pi_poolIdHex :: string
  pi_status :: PoolStatus
  pi_retiringEpoch :: "int option"
  pi_margin :: rat
  pi_fixedCost :: string
  pi_pledge :: string
  pi_livePledge :: string
  pi_activeStake :: string
  pi_liveStake :: string
  pi_saturation :: rat
  pi_liveDelegators :: int
  pi_blocksMinted :: int
  pi_metadata :: "PoolMetadata option"

record PoolListParams =
  pl_limit :: nat
  pl_offset :: nat
  pl_ticker :: "string option"

text \<open>\<open>/^pool1[0-9a-z]+$/\<close>.\<close>

definition pool_id_shape :: "string \<Rightarrow> bool" where
  "pool_id_shape s \<longleftrightarrow> take 5 s = ''pool1'' \<and> drop 5 s \<noteq> [] \<and>
     list_all (\<lambda>c. is_digit c \<or> c \<in> set ''abcdefghijklmnopqrstuvwxyz'') (drop 5 s)"

text \<open>\<open>String(v ?? 0)\<close>.\<close>

definition numeric_or_zero :: "numeric option \<Rightarrow> string" where
  "numeric_or_zero v = (case v of None \<Rightarrow> ''0'' | Some n \<Rightarrow> numeric_string n)"

text \<open>The off-chain fields; a pool with none of them has no metadata.\<close>

definition mapPoolMetadata :: "PoolMetadata option \<Rightarrow> PoolMetadata option" where
  "mapPoolMetadata m = (case m of
     None \<Rightarrow> None
   | Some md \<Rightarrow> if pm_name md = None \<and> pm_ticker md = None \<and> pm_homepage md = None \<and> pm_description md = None
       then None else Some md)"

section \<open>The ranking\<close>

record poolStakeRow =
  ps_pool_id :: string
  ps_active_stake :: "numeric option"

definition poolStakeRow_ok :: "'z poolStakeRow_scheme \<Rightarrow> bool" where
  "poolStakeRow_ok r \<longleftrightarrow> pool_id_shape (ps_pool_id r) \<and>
     (case ps_active_stake r of None \<Rightarrow> True | Some n \<Rightarrow> numeric_ok n)"

definition NO_ACTIVE_STAKE :: int where "NO_ACTIVE_STAKE = 0"

text \<open>\<open>BigInt(v)\<close> of a number or a string of digits.\<close>

definition activeStakeOf :: "'z poolStakeRow_scheme \<Rightarrow> int" where
  "activeStakeOf r = (case ps_active_stake r of None \<Rightarrow> NO_ACTIVE_STAKE | Some n \<Rightarrow> numeric_val n)"

definition byActiveStakeDesc :: "'z poolStakeRow_scheme \<Rightarrow> 'z poolStakeRow_scheme \<Rightarrow> int" where
  "byActiveStakeDesc a b =
     (let left = activeStakeOf a; right = activeStakeOf b in
      if left \<noteq> right then (if left > right then -1 else 1)
      else if js_string_less (ps_pool_id a) (ps_pool_id b) then -1
      else if js_string_less (ps_pool_id b) (ps_pool_id a) then 1 else 0)"

lemma js_string_less_irrefl [simp]: "\<not> js_string_less a a"
  by (induction a) auto

lemma byActiveStakeDesc_le:
  "byActiveStakeDesc a b \<le> 0 \<longleftrightarrow> activeStakeOf b < activeStakeOf a \<or>
     activeStakeOf a = activeStakeOf b \<and> (ps_pool_id a = ps_pool_id b \<or> js_string_less (ps_pool_id a) (ps_pool_id b))"
proof -
  have "\<not> js_string_less (ps_pool_id b) (ps_pool_id a)" if "js_string_less (ps_pool_id a) (ps_pool_id b)"
    using that js_string_less_trans [of "ps_pool_id a" "ps_pool_id b" "ps_pool_id a"] by auto
  then show ?thesis
    using js_string_less_total [of "ps_pool_id a" "ps_pool_id b"] by (auto simp: byActiveStakeDesc_def Let_def)
qed

interpretation by_stake: js_comparator byActiveStakeDesc
proof
  fix a b c :: "'z poolStakeRow_scheme"
  show "byActiveStakeDesc a b \<le> 0 \<or> byActiveStakeDesc b a \<le> 0"
    using js_string_less_total [of "ps_pool_id a" "ps_pool_id b"] by (auto simp: byActiveStakeDesc_le)
  show "byActiveStakeDesc a b \<le> 0 \<Longrightarrow> byActiveStakeDesc b c \<le> 0 \<Longrightarrow> byActiveStakeDesc a c \<le> 0"
    using js_string_less_trans [of "ps_pool_id a" "ps_pool_id b" "ps_pool_id c"] by (auto simp: byActiveStakeDesc_le)
qed

text \<open>\<open>rankedStake.get(pool.poolId) ?? pool.activeStake\<close>, with \<open>rankedStake\<close> made from the page.\<close>

definition ranked_stake :: "'z poolStakeRow_scheme list \<Rightarrow> (string, string) js_map" where
  "ranked_stake page = fold (\<lambda>r. jm_set (ps_pool_id r) (numeric_or_zero (ps_active_stake r))) page []"

definition with_ranked_stake :: "'z poolStakeRow_scheme list \<Rightarrow> PoolInfo list \<Rightarrow> PoolInfo list" where
  "with_ranked_stake page hydrated = map (\<lambda>p. p\<lparr>pi_activeStake :=
     (case jm_get (ranked_stake page) (pi_poolId p) of Some v \<Rightarrow> v | None \<Rightarrow> pi_activeStake p)\<rparr>) hydrated"

lemma ranked_stake_get:
  assumes "distinct (map ps_pool_id page)" and "r \<in> set page"
  shows "jm_get (ranked_stake page) (ps_pool_id r) = Some (numeric_or_zero (ps_active_stake r))"
proof -
  let ?kvs = "map (\<lambda>r. (ps_pool_id r, numeric_or_zero (ps_active_stake r))) page"
  have "jm_get (fold (\<lambda>(k, v). jm_set k v) ?kvs []) (ps_pool_id r) = map_of ?kvs (ps_pool_id r)"
    using jmap.get_put_all_distinct [of ?kvs "[]" "ps_pool_id r"] assms(1) by (simp add: comp_def split: option.splits)
  moreover have "fold (\<lambda>(k, v). jm_set k v) ?kvs [] = ranked_stake page"
    by (simp add: ranked_stake_def fold_map comp_def)
  moreover have "map_of ?kvs (ps_pool_id r) = Some (numeric_or_zero (ps_active_stake r))"
    using assms by (intro map_of_is_SomeI) (auto simp: comp_def)
  ultimately show ?thesis by simp
qed

lemma numeric_or_zero_val:
  "BigInt_of (numeric_or_zero (ps_active_stake r)) = activeStakeOf r"
proof (cases "ps_active_stake r")
  case None
  then show ?thesis
    by (simp add: numeric_or_zero_def activeStakeOf_def NO_ACTIVE_STAKE_def BigInt_of_def nat_of_string_def digit_val_def)
next
  case (Some v)
  then show ?thesis by (simp add: numeric_or_zero_def activeStakeOf_def)
qed

text \<open>A page served from a ranking: its pools in rank order, each with the stake it was ranked on.\<close>

definition page_of_ranking :: "'z poolStakeRow_scheme list \<Rightarrow> PoolInfo list \<Rightarrow> bool" where
  "page_of_ranking page infos \<longleftrightarrow>
     subseq (map pi_poolId infos) (map ps_pool_id page) \<and>
     (\<forall>i \<in> set infos. \<exists>r \<in> set page. pi_poolId i = ps_pool_id r \<and> BigInt_of (pi_activeStake i) = activeStakeOf r) \<and>
     sorted_wrt (\<lambda>a b. BigInt_of (pi_activeStake b) \<le> BigInt_of (pi_activeStake a)) infos"

lemma subseq_map_aligned:
  "subseq (map f xs) (map g ys) \<Longrightarrow> \<exists>zs. subseq zs ys \<and> map f xs = map g zs"
proof (induction ys arbitrary: xs)
  case Nil
  then have "xs = []" using list_emb_Nil2 by fastforce
  then show ?case by (intro exI [of _ "[]"]) simp
next
  case (Cons y ys)
  show ?case
  proof (cases "subseq (map f xs) (map g ys)")
    case True
    with Cons.IH show ?thesis by (meson list_emb_Cons)
  next
    case False
    with Cons.prems obtain x xs' where xs: "xs = x # xs'" "f x = g y" "subseq (map f xs') (map g ys)"
      by (cases xs) (auto split: if_splits)
    then obtain zs where "subseq zs ys" "map f xs' = map g zs" using Cons.IH by blast
    with xs show ?thesis by (intro exI [of _ "y # zs"]) auto
  qed
qed

lemma sorted_wrt_subseq: "subseq xs ys \<Longrightarrow> sorted_wrt P ys \<Longrightarrow> sorted_wrt P xs"
  by (induction rule: list_emb.induct) (auto dest: list_emb_set)

lemma with_ranked_stake_page:
  assumes "distinct (map ps_pool_id page)" and "sorted_wrt (\<lambda>a b. byActiveStakeDesc a b \<le> 0) page"
    and "subseq (map pi_poolId hydrated) (map ps_pool_id page)"
  shows "page_of_ranking page (with_ranked_stake page hydrated)"
proof -
  let ?infos = "with_ranked_stake page hydrated"
  have ids: "map pi_poolId ?infos = map pi_poolId hydrated" by (simp add: with_ranked_stake_def)
  then obtain zs where zs: "subseq zs page" "map pi_poolId ?infos = map ps_pool_id zs"
    using subseq_map_aligned [of pi_poolId ?infos ps_pool_id page] assms(3) by auto
  have sub: "set zs \<subseteq> set page" using zs(1) by (auto dest: list_emb_set)
  have stake: "list_all2 (\<lambda>i r. pi_poolId i = ps_pool_id r \<and> BigInt_of (pi_activeStake i) = activeStakeOf r) ?infos zs"
    unfolding list_all2_conv_all_nth
  proof (intro conjI allI impI)
    show len: "length ?infos = length zs" using zs(2) by (metis length_map)
    fix i assume i: "i < length ?infos"
    then show id: "pi_poolId (?infos ! i) = ps_pool_id (zs ! i)" using zs(2) len by (metis nth_map)
    have "zs ! i \<in> set page" using sub i len by auto
    with ranked_stake_get [OF assms(1)] id i
    have "pi_activeStake (?infos ! i) = numeric_or_zero (ps_active_stake (zs ! i))"
      by (simp add: with_ranked_stake_def)
    then show "BigInt_of (pi_activeStake (?infos ! i)) = activeStakeOf (zs ! i)" by (simp add: numeric_or_zero_val)
  qed
  have "sorted_wrt (\<lambda>a b. byActiveStakeDesc a b \<le> 0) zs" using sorted_wrt_subseq [OF zs(1) assms(2)] .
  then have "sorted_wrt (\<lambda>a b. activeStakeOf b \<le> activeStakeOf a) zs"
    by (rule sorted_wrt_mono_rel [rotated]) (auto simp: byActiveStakeDesc_le)
  with stake have "sorted_wrt (\<lambda>a b. BigInt_of (pi_activeStake b) \<le> BigInt_of (pi_activeStake a)) ?infos"
    by (auto simp: sorted_wrt_iff_nth_less list_all2_conv_all_nth)
  moreover have "\<exists>r \<in> set page. pi_poolId i = ps_pool_id r \<and> BigInt_of (pi_activeStake i) = activeStakeOf r"
    if "i \<in> set ?infos" for i
    using stake sub that by (fastforce simp: list_all2_conv_all_nth in_set_conv_nth)
  ultimately show ?thesis using ids assms(3) by (simp add: page_of_ranking_def)
qed

section \<open>The cache the pool lists are given\<close>

definition RANKING_TTL_MS :: int where "RANKING_TTL_MS = 6 * 24 * 60 * 60 * 1000"
definition PAGE_TTL_MS :: int where "PAGE_TTL_MS = 90000"
definition PAGE_STALE_IF_ERROR_MS :: int where "PAGE_STALE_IF_ERROR_MS = 10 * 60000"

record ('s, 'row) PoolMethodDeps =
  pd_readRanking :: "string \<Rightarrow> policy \<Rightarrow> ('s, 'row list) io_result \<Rightarrow> ('s, 'row list) io_result"
  pd_readPage :: "string \<Rightarrow> policy \<Rightarrow> ('s, PoolInfo list) io_result \<Rightarrow> ('s, PoolInfo list) io_result"
  pd_currentEpoch :: "('s, int) io_result option"

text \<open>A failure to read the epoch is not a failure of the list.\<close>

definition cacheEpoch :: "('s, 'row) PoolMethodDeps \<Rightarrow> ('s, int option) io_result" where
  "cacheEpoch deps = (case pd_currentEpoch deps of
     None \<Rightarrow> returnIO None
   | Some get \<Rightarrow> catchIO (bindIO get (\<lambda>e. returnIO (Some e))) (\<lambda>_. returnIO None))"

lemma cacheEpoch_total: "\<exists>e t. cacheEpoch deps s = (Inr e, t)"
  by (cases "pd_currentEpoch deps")
    (auto simp: cacheEpoch_def returnIO_def catchIO_def bindIO_def split: prod.split sum.split)

definition quiet_epoch :: "('s \<Rightarrow> bool) \<Rightarrow> ('s, 'row) PoolMethodDeps \<Rightarrow> bool" where
  "quiet_epoch I deps \<longleftrightarrow> (case pd_currentEpoch deps of None \<Rightarrow> True | Some get \<Rightarrow> keeps I get (\<lambda>_. True))"

lemma keeps_cacheEpoch: "quiet_epoch I deps \<Longrightarrow> keeps I (cacheEpoch deps) (\<lambda>_. True)"
  by (cases "pd_currentEpoch deps") (auto simp: cacheEpoch_def quiet_epoch_def intro!: keeps_return keeps_catch keeps_bind)

text \<open>The key of a page names the epoch, the ticker (an absent one like an empty one), the offset and the limit.\<close>

definition page_key :: "string \<Rightarrow> PoolListParams \<Rightarrow> string" where
  "page_key epoch params = ''pools:page:'' @ epoch @ '':'' @
     (case pl_ticker params of None \<Rightarrow> [] | Some t \<Rightarrow> t) @ '':'' @
     string_of_nat (pl_offset params) @ '':'' @ string_of_nat (pl_limit params)"

lemma split_first: "c \<notin> set a \<Longrightarrow> c \<notin> set b \<Longrightarrow> a @ c # x = b @ c # y \<Longrightarrow> a = b \<and> x = y"
proof (induction a arbitrary: b)
  case Nil
  then show ?case by (cases b) auto
next
  case (Cons d a)
  then show ?case by (cases b) auto
qed

lemma split_last: "c \<notin> set a \<Longrightarrow> c \<notin> set b \<Longrightarrow> x @ c # a = y @ c # b \<Longrightarrow> a = b \<and> x = y"
proof -
  assume ne: "c \<notin> set a" "c \<notin> set b" and eq: "x @ c # a = y @ c # b"
  from arg_cong [OF eq, of rev] have "rev a @ c # rev x = rev b @ c # rev y" by simp
  from split_first [OF _ _ this] ne show "a = b \<and> x = y" by simp
qed

lemma no_colon_nat: "CHR '':'' \<notin> set (string_of_nat n)"
proof
  assume "CHR '':'' \<in> set (string_of_nat n)"
  with string_of_nat_digits [of n] have "is_digit (CHR '':'')" by (simp add: list_all_iff)
  then show False by (simp add: is_digit_def)
qed

lemma no_colon_int: "CHR '':'' \<notin> set (string_of_int i)"
  unfolding string_of_int_def using no_colon_nat by auto

text \<open>So two requests share a page only if they ask the same, once an empty ticker is refused (as the route does).\<close>

lemma page_key_inj:
  assumes "page_key d p = page_key e q" and "CHR '':'' \<notin> set d" "CHR '':'' \<notin> set e"
    and "pl_ticker p \<noteq> Some []" "pl_ticker q \<noteq> Some []"
  shows "d = e \<and> p = (q :: PoolListParams)"
proof -
  let ?t = "\<lambda>p :: PoolListParams. case pl_ticker p of None \<Rightarrow> [] | Some t \<Rightarrow> t"
  let ?r = "\<lambda>p :: PoolListParams. ?t p @ CHR '':'' # string_of_nat (pl_offset p) @ CHR '':'' # string_of_nat (pl_limit p)"
  from assms(1) have "d @ CHR '':'' # ?r p = e @ CHR '':'' # ?r q" by (simp add: page_key_def)
  from split_first [OF assms(2,3) this] have de: "d = e" and r: "?r p = ?r q" by blast+
  from r have "(?t p @ CHR '':'' # string_of_nat (pl_offset p)) @ CHR '':'' # string_of_nat (pl_limit p) =
      (?t q @ CHR '':'' # string_of_nat (pl_offset q)) @ CHR '':'' # string_of_nat (pl_limit q)" by simp
  from split_last [OF no_colon_nat no_colon_nat this] have l: "pl_limit p = pl_limit q"
    and o: "?t p @ CHR '':'' # string_of_nat (pl_offset p) = ?t q @ CHR '':'' # string_of_nat (pl_offset q)"
    by (simp_all add: string_of_nat_inj)
  from split_last [OF no_colon_nat no_colon_nat o] have "pl_offset p = pl_offset q" and "?t p = ?t q"
    by (simp_all add: string_of_nat_inj)
  moreover from \<open>?t p = ?t q\<close> assms(4,5) have "pl_ticker p = pl_ticker q" by (auto split: option.splits)
  ultimately show ?thesis using de l by (cases p; cases q) simp
qed

text \<open>The pages a cache may hold under a key: pages \<open>served\<close> for every request with that key.\<close>

definition page_ok :: "(PoolListParams \<Rightarrow> PoolInfo list \<Rightarrow> bool) \<Rightarrow> string \<Rightarrow> PoolInfo list \<Rightarrow> bool" where
  "page_ok served key infos \<longleftrightarrow> (\<forall>epoch params. CHR '':'' \<notin> set epoch \<longrightarrow> pl_ticker params \<noteq> Some [] \<longrightarrow>
     key = page_key epoch params \<longrightarrow> served params infos)"

lemma read_page_keeps:
  assumes "keyed_cache I (page_ok served) read" and "keeps I load (served params)"
    and "CHR '':'' \<notin> set epoch" and "pl_ticker params \<noteq> Some []"
  shows "keeps I (read (page_key epoch params) pol load) (served params)"
proof -
  have "page_ok served (page_key epoch params) infos" if "served params infos" for infos
    unfolding page_ok_def
  proof (intro allI impI)
    fix e q
    assume "CHR '':'' \<notin> set e" "pl_ticker q \<noteq> Some []" "page_key epoch params = page_key e q"
    from page_key_inj [OF this(3) assms(3) this(1) assms(4) this(2)] that show "served q infos" by simp
  qed
  with assms(2) have "keeps I load (page_ok served (page_key epoch params))" by (rule keeps_weaken)
  from keyed_cache.read_keeps [OF assms(1) this] have "keeps I (read (page_key epoch params) pol load) (page_ok served (page_key epoch params))" .
  then show ?thesis by (rule keeps_weaken) (use assms(3,4) in \<open>auto simp: page_ok_def\<close>)
qed

end
