(* ===== verification/Koios_Pools.thy ===== *)
theory Koios_Pools
  imports Pools
begin

text \<open>
  \<^verbatim>\<open>src/providers/koios/pools.ts\<close>: the registered pools, ranked by active stake and served in pages.
  The scan walks \<^verbatim>\<open>/pool_list\<close> by keyset with at most twenty reads of a thousand rows and one probe; a
  page is cut from the ranking and hydrated with \<^verbatim>\<open>/pool_info\<close>.  Identical requests that are in flight
  at the same time share one answer in the source; here requests follow one another.
\<close>

definition POOL_LIST_PAGE_SIZE :: nat where "POOL_LIST_PAGE_SIZE = 1000"
definition POOL_LIST_MAX_PAGES :: nat where "POOL_LIST_MAX_PAGES = 20"

record poolInfoRow =
  pr_pool_id_bech32 :: string
  pr_pool_id_hex :: string
  pr_pool_status :: PoolStatus
  pr_retiring_epoch :: "int option"
  pr_margin :: rat
  pr_fixed_cost :: "numeric option"
  pr_pledge :: "numeric option"
  pr_live_pledge :: "numeric option"
  pr_active_stake :: "numeric option"
  pr_live_stake :: "numeric option"
  pr_live_saturation :: "rat option"
  pr_live_delegators :: "int option"
  pr_block_count :: "int option"
  pr_meta_json :: "PoolMetadata option"

text \<open>\<open>z.number().int().nonnegative()\<close>, where it may be absent.\<close>

definition count_ok :: "int option \<Rightarrow> bool" where
  "count_ok v \<longleftrightarrow> (case v of None \<Rightarrow> True | Some i \<Rightarrow> isSafeInteger i \<and> 0 \<le> i)"

definition numeric_opt_ok :: "numeric option \<Rightarrow> bool" where
  "numeric_opt_ok v \<longleftrightarrow> (case v of None \<Rightarrow> True | Some n \<Rightarrow> numeric_ok n)"

definition poolInfoRow_ok :: "poolInfoRow \<Rightarrow> bool" where
  "poolInfoRow_ok r \<longleftrightarrow> pool_id_shape (pr_pool_id_bech32 r) \<and>
     length (pr_pool_id_hex r) = 56 \<and> list_all is_hex (pr_pool_id_hex r) \<and>
     count_ok (pr_retiring_epoch r) \<and> 0 \<le> pr_margin r \<and> pr_margin r \<le> 1 \<and>
     numeric_opt_ok (pr_fixed_cost r) \<and> numeric_opt_ok (pr_pledge r) \<and> numeric_opt_ok (pr_live_pledge r) \<and>
     numeric_opt_ok (pr_active_stake r) \<and> numeric_opt_ok (pr_live_stake r) \<and>
     (case pr_live_saturation r of None \<Rightarrow> True | Some v \<Rightarrow> 0 \<le> v) \<and>
     count_ok (pr_live_delegators r) \<and> count_ok (pr_block_count r)"

definition mapPoolInfo :: "poolInfoRow \<Rightarrow> PoolInfo" where
  "mapPoolInfo row = \<lparr>
     pi_poolId = pr_pool_id_bech32 row,
     pi_poolIdHex = pr_pool_id_hex row,
     pi_status = pr_pool_status row,
     pi_retiringEpoch = pr_retiring_epoch row,
     pi_margin = pr_margin row,
     pi_fixedCost = numeric_or_zero (pr_fixed_cost row),
     pi_pledge = numeric_or_zero (pr_pledge row),
     pi_livePledge = numeric_or_zero (pr_live_pledge row),
     pi_activeStake = numeric_or_zero (pr_active_stake row),
     pi_liveStake = numeric_or_zero (pr_live_stake row),
     pi_saturation = (case pr_live_saturation row of None \<Rightarrow> 0 | Some v \<Rightarrow> v) / 100,
     pi_liveDelegators = (case pr_live_delegators row of None \<Rightarrow> 0 | Some v \<Rightarrow> v),
     pi_blocksMinted = (case pr_block_count row of None \<Rightarrow> 0 | Some v \<Rightarrow> v),
     pi_metadata = mapPoolMetadata (pr_meta_json row)\<rparr>"

section \<open>The scan\<close>

definition pageQuery :: "string option \<Rightarrow> string option \<Rightarrow> nat \<Rightarrow> (string \<times> string) list" where
  "pageQuery ticker after rowLimit =
     [(''pool_status'', ''eq.registered''), (''order'', ''pool_id_bech32.asc''),
      (''select'', ''pool_id_bech32,active_stake''), (''limit'', string_of_nat rowLimit)] @
     (case after of None \<Rightarrow> [] | Some a \<Rightarrow> [(''pool_id_bech32'', ''gt.'' @ a)]) @
     (case ticker of None \<Rightarrow> [] | Some t \<Rightarrow> [(''ticker'', ''ilike.*'' @ t @ ''*'')])"

definition read_stakes :: "koios_client \<Rightarrow> ('s, 'j) net \<Rightarrow> ('j \<Rightarrow> poolStakeRow option) \<Rightarrow> string option \<Rightarrow>
    string option \<Rightarrow> nat \<Rightarrow> ('s kworld, poolStakeRow list) io_result" where
  "read_stakes c n dec ticker after rowLimit =
     koios_get c n (z_array (refine dec poolStakeRow_ok)) (''/pool_list?'' @ form_pairs (pageQuery ticker after rowLimit))"

text \<open>The loop over pages: what is left of the bound, the cursor and the rows so far.\<close>

primrec pool_pages :: "koios_client \<Rightarrow> ('s, 'j) net \<Rightarrow> ('j \<Rightarrow> poolStakeRow option) \<Rightarrow> string option \<Rightarrow> nat \<Rightarrow>
    string option \<Rightarrow> poolStakeRow list \<Rightarrow> ('s kworld, poolStakeRow list) io_result" where
  "pool_pages c n dec ticker 0 after rows =
     bindIO (read_stakes c n dec ticker after 1) (\<lambda>probe.
     if probe = [] then returnIO rows
     else throwIO (ProviderError (''koios /pool_list has more than '' @
            string_of_nat (POOL_LIST_MAX_PAGES * POOL_LIST_PAGE_SIZE) @
            '' registered pools, beyond this provider's scan bound'') None None))"
| "pool_pages c n dec ticker (Suc k) after rows =
     bindIO (read_stakes c n dec ticker after POOL_LIST_PAGE_SIZE) (\<lambda>parsed.
     if length parsed < POOL_LIST_PAGE_SIZE then returnIO (rows @ parsed)
     else pool_pages c n dec ticker k (Some (ps_pool_id (last parsed))) (rows @ parsed))"

definition registeredPoolStakes :: "koios_client \<Rightarrow> ('s, 'j) net \<Rightarrow> ('j \<Rightarrow> poolStakeRow option) \<Rightarrow> string option \<Rightarrow>
    ('s kworld, poolStakeRow list) io_result" where
  "registeredPoolStakes c n dec ticker = pool_pages c n dec ticker POOL_LIST_MAX_PAGES None []"

section \<open>Pages\<close>

text \<open>\<open>poolIds.flatMap(id => byId.get(id) ? [f] : [])\<close>.\<close>

definition hydrate_by_id :: "('row \<Rightarrow> string) \<Rightarrow> ('row \<Rightarrow> PoolInfo) \<Rightarrow> 'row list \<Rightarrow> string list \<Rightarrow> PoolInfo list" where
  "hydrate_by_id idOf f rows poolIds =
     (let byId = fold (\<lambda>r. jm_set (idOf r) r) rows [] in
      concat (map (\<lambda>i. case jm_get byId i of None \<Rightarrow> [] | Some row \<Rightarrow> [f row]) poolIds))"

definition kp_poolInfoByIds :: "koios_client \<Rightarrow> ('s, 'j) net \<Rightarrow> ('j \<Rightarrow> poolInfoRow option) \<Rightarrow> string list \<Rightarrow>
    ('s kworld, PoolInfo list) io_result" where
  "kp_poolInfoByIds c n dec poolIds =
     (if poolIds = [] then returnIO []
      else bindIO (batchAll c n (refine dec poolInfoRow_ok) ''/pool_info'' (map JStr poolIds)
                    (list_body [] ''_pool_bech32_ids'' []))
             (\<lambda>rows. returnIO (hydrate_by_id pr_pool_id_bech32 mapPoolInfo rows poolIds)))"

definition kp_rankedPools :: "koios_client \<Rightarrow> ('s, 'j) net \<Rightarrow> ('j \<Rightarrow> poolStakeRow option) \<Rightarrow>
    ('s kworld, poolStakeRow) PoolMethodDeps \<Rightarrow> string option \<Rightarrow> int option \<Rightarrow>
    ('s kworld, poolStakeRow list) io_result" where
  "kp_rankedPools c n dec deps ticker epoch =
     (let scan = bindIO (registeredPoolStakes c n dec ticker) (\<lambda>rows. returnIO (js_sort byActiveStakeDesc rows)) in
      case (ticker, epoch) of
        (None, Some e) \<Rightarrow> pd_readRanking deps (''pools:ranking:'' @ string_of_int e) (PlainTtl RANKING_TTL_MS) scan
      | _ \<Rightarrow> scan)"

definition kp_servePage :: "koios_client \<Rightarrow> ('s, 'j) net \<Rightarrow> ('j \<Rightarrow> poolStakeRow option) \<Rightarrow> ('j \<Rightarrow> poolInfoRow option) \<Rightarrow>
    ('s kworld, poolStakeRow) PoolMethodDeps \<Rightarrow> PoolListParams \<Rightarrow> int option \<Rightarrow> ('s kworld, PoolInfo list) io_result" where
  "kp_servePage c n sdec idec deps params epoch =
     bindIO (kp_rankedPools c n sdec deps (pl_ticker params) epoch) (\<lambda>ranking.
     let page = take (pl_limit params) (drop (pl_offset params) ranking) in
     bindIO (kp_poolInfoByIds c n idec (map ps_pool_id page)) (\<lambda>hydrated.
     returnIO (with_ranked_stake page hydrated)))"

definition kp_getPoolList :: "koios_client \<Rightarrow> ('s, 'j) net \<Rightarrow> ('j \<Rightarrow> poolStakeRow option) \<Rightarrow> ('j \<Rightarrow> poolInfoRow option) \<Rightarrow>
    ('s kworld, poolStakeRow) PoolMethodDeps \<Rightarrow> PoolListParams \<Rightarrow> ('s kworld, PoolInfo list) io_result" where
  "kp_getPoolList c n sdec idec deps params =
     bindIO (cacheEpoch deps) (\<lambda>epoch.
     case epoch of
       None \<Rightarrow> kp_servePage c n sdec idec deps params None
     | Some e \<Rightarrow> pd_readPage deps (page_key (string_of_int e) params) (CachePolicy PAGE_TTL_MS (Some PAGE_STALE_IF_ERROR_MS))
                   (kp_servePage c n sdec idec deps params (Some e)))"

section \<open>Facts\<close>

lemma hydrate_by_id_get: "jm_get (fold (\<lambda>r. jm_set (idOf r) r) rows m) i = Some row \<Longrightarrow>
    row \<in> set rows \<and> idOf row = i \<or> jm_get m i = Some row"
  by (induction rows arbitrary: m) (fastforce split: if_splits)+

lemma hydrate_by_id_subseq:
  assumes "\<And>r. pi_poolId (f r) = idOf r"
  shows "subseq (map pi_poolId (hydrate_by_id idOf f rows poolIds)) poolIds"
proof (induction poolIds)
  case (Cons i poolIds)
  show ?case
  proof (cases "jm_get (fold (\<lambda>r. jm_set (idOf r) r) rows []) i")
    case None
    with Cons show ?thesis by (simp add: hydrate_by_id_def Let_def list_emb_Cons)
  next
    case (Some row)
    from hydrate_by_id_get [OF Some] have "idOf row = i" by auto
    with Some Cons assms show ?thesis by (simp add: hydrate_by_id_def Let_def)
  qed
qed (simp add: hydrate_by_id_def)

lemma kp_poolInfoByIds_subseq:
  assumes "kp_poolInfoByIds c n dec poolIds s = (Inr infos, t)"
  shows "subseq (map pi_poolId infos) poolIds"
proof -
  have "pi_poolId (mapPoolInfo r) = pr_pool_id_bech32 r" for r by (simp add: mapPoolInfo_def)
  from hydrate_by_id_subseq [of mapPoolInfo pr_pool_id_bech32, OF this] assms show ?thesis
    by (auto simp: kp_poolInfoByIds_def io_simps split: if_splits)
qed

text \<open>
  What upstream answers a page of \<^verbatim>\<open>/pool_list\<close> with: rows in the order of their ids, all after the
  cursor (\<open>order=pool_id_bech32.asc\<close> and \<open>pool_id_bech32=gt.\<dots>\<close>, and the id is a key).
\<close>

definition keyset_server :: "koios_client \<Rightarrow> ('s, 'j) net \<Rightarrow> ('j \<Rightarrow> poolStakeRow option) \<Rightarrow> string option \<Rightarrow> bool" where
  "keyset_server c n dec ticker \<longleftrightarrow>
     (\<forall>after rowLimit s rows t. read_stakes c n dec ticker after rowLimit s = (Inr rows, t) \<longrightarrow>
        sorted_wrt js_string_less (map ps_pool_id rows) \<and>
        (\<forall>a r. after = Some a \<longrightarrow> r \<in> set rows \<longrightarrow> js_string_less a (ps_pool_id r)))"

definition behind :: "poolStakeRow list \<Rightarrow> string option \<Rightarrow> bool" where
  "behind rows after \<longleftrightarrow> (\<forall>r \<in> set rows. \<exists>a. after = Some a \<and> (ps_pool_id r = a \<or> js_string_less (ps_pool_id r) a))"

lemma sorted_ids_append:
  assumes "sorted_wrt js_string_less (map ps_pool_id rows)" "behind rows after"
    and "sorted_wrt js_string_less (map ps_pool_id later)"
    and "\<forall>a r. after = Some a \<longrightarrow> r \<in> set later \<longrightarrow> js_string_less a (ps_pool_id r)"
  shows "sorted_wrt js_string_less (map ps_pool_id (rows @ later))"
  using assms by (fastforce simp: sorted_wrt_append behind_def intro: js_string_less_trans)

lemma behind_last:
  assumes "sorted_wrt js_string_less (map ps_pool_id rows)" "rows \<noteq> []"
  shows "behind rows (Some (ps_pool_id (last rows)))"
proof -
  from assms(2) obtain us r where rows: "rows = us @ [r]" by (metis rev_exhaust)
  with assms(1) show ?thesis by (auto simp: behind_def sorted_wrt_append)
qed

lemma pool_pages_sorted:
  assumes "keyset_server c n dec ticker" and "pool_pages c n dec ticker k after rows s = (Inr all, t)"
    and "sorted_wrt js_string_less (map ps_pool_id rows)" and "behind rows after"
  shows "sorted_wrt js_string_less (map ps_pool_id all)"
  using assms(2-4)
proof (induction k arbitrary: after rows s)
  case 0
  then show ?case by (auto simp: io_simps split: if_splits)
next
  case (Suc k)
  from Suc.prems(1) obtain parsed u where parsed: "read_stakes c n dec ticker after POOL_LIST_PAGE_SIZE s = (Inr parsed, u)"
    and rest: "(if length parsed < POOL_LIST_PAGE_SIZE then returnIO (rows @ parsed)
      else pool_pages c n dec ticker k (Some (ps_pool_id (last parsed))) (rows @ parsed)) u = (Inr all, t)"
    by (auto simp: io_simps)
  from assms(1) parsed have page: "sorted_wrt js_string_less (map ps_pool_id parsed)"
      "\<forall>a r. after = Some a \<longrightarrow> r \<in> set parsed \<longrightarrow> js_string_less a (ps_pool_id r)"
    unfolding keyset_server_def by blast+
  have sorted: "sorted_wrt js_string_less (map ps_pool_id (rows @ parsed))"
    using sorted_ids_append [OF Suc.prems(2,3) page] .
  show ?case
  proof (cases "length parsed < POOL_LIST_PAGE_SIZE")
    case True
    with rest sorted show ?thesis by (simp add: io_simps)
  next
    case False
    then have "parsed \<noteq> []" by (auto simp: POOL_LIST_PAGE_SIZE_def)
    with behind_last [OF sorted] have "behind (rows @ parsed) (Some (ps_pool_id (last parsed)))" by simp
    with Suc.IH sorted rest False show ?thesis by auto
  qed
qed

lemma sorted_ids_distinct: "sorted_wrt js_string_less xs \<Longrightarrow> distinct xs"
  by (induction xs) auto

lemma registeredPoolStakes_distinct:
  assumes "keyset_server c n dec ticker" and "registeredPoolStakes c n dec ticker s = (Inr rows, t)"
  shows "distinct (map ps_pool_id rows)"
  using pool_pages_sorted [OF assms(1) assms(2) [unfolded registeredPoolStakes_def]]
  by (intro sorted_ids_distinct) (simp add: behind_def)

text \<open>What a ranking is: all the rows of one scan, sorted.\<close>

definition ranking_of :: "koios_client \<Rightarrow> ('s, 'j) net \<Rightarrow> ('j \<Rightarrow> poolStakeRow option) \<Rightarrow> string option \<Rightarrow>
    poolStakeRow list \<Rightarrow> bool" where
  "ranking_of c n dec ticker ranking \<longleftrightarrow> (\<exists>rows u v. registeredPoolStakes c n dec ticker u = (Inr rows, v) \<and>
     ranking = js_sort byActiveStakeDesc rows)"

definition served_page :: "koios_client \<Rightarrow> ('s, 'j) net \<Rightarrow> ('j \<Rightarrow> poolStakeRow option) \<Rightarrow> PoolListParams \<Rightarrow>
    PoolInfo list \<Rightarrow> bool" where
  "served_page c n dec params infos \<longleftrightarrow> (\<exists>ranking. ranking_of c n dec (pl_ticker params) ranking \<and>
     page_of_ranking (take (pl_limit params) (drop (pl_offset params) ranking)) infos)"

text \<open>
  The world of the pool list: its cache holds rankings of upstream's pools and pages cut from them,
  which the reads from upstream leave alone.
\<close>

definition koios_pool_world :: "('s kworld \<Rightarrow> bool) \<Rightarrow> koios_client \<Rightarrow> ('s, 'j) net \<Rightarrow> ('j \<Rightarrow> poolStakeRow option) \<Rightarrow>
    ('j \<Rightarrow> poolInfoRow option) \<Rightarrow> ('s kworld, poolStakeRow) PoolMethodDeps \<Rightarrow> bool" where
  "koios_pool_world I c n sdec idec deps \<longleftrightarrow>
     keyed_cache I (\<lambda>_. ranking_of c n sdec None) (pd_readRanking deps) \<and>
     keyed_cache I (page_ok (served_page c n sdec)) (pd_readPage deps) \<and> quiet_epoch I deps \<and>
     (\<forall>ticker. keeps I (registeredPoolStakes c n sdec ticker) (\<lambda>_. True)) \<and>
     (\<forall>ids. keeps I (kp_poolInfoByIds c n idec ids) (\<lambda>_. True))"

lemma kp_rankedPools_keeps:
  assumes "koios_pool_world I c n sdec idec deps"
  shows "keeps I (kp_rankedPools c n sdec deps ticker epoch) (ranking_of c n sdec ticker)"
proof -
  let ?scan = "\<lambda>t. bindIO (registeredPoolStakes c n sdec t) (\<lambda>rows. returnIO (js_sort byActiveStakeDesc rows))"
  have scan: "keeps I (?scan t) (ranking_of c n sdec t)" for t
  proof (rule keeps_result)
    show "keeps I (?scan t) (\<lambda>_. True)"
      using assms unfolding koios_pool_world_def by (intro keeps_bind [where R = "\<lambda>_. True"] keeps_return) blast+
  qed (auto simp: io_simps ranking_of_def)
  have read: "keeps I (pd_readRanking deps k pol (?scan None)) (ranking_of c n sdec None)" for k pol
  proof -
    have "keyed_cache I (\<lambda>_ :: string. ranking_of c n sdec None) (pd_readRanking deps)"
      using assms by (simp add: koios_pool_world_def)
    from keyed_cache.read_keeps [OF this scan] show ?thesis .
  qed
  show ?thesis
    using scan read by (cases ticker; cases epoch) (simp_all add: kp_rankedPools_def Let_def)
qed

lemma kp_servePage_keeps:
  assumes "koios_pool_world I c n sdec idec deps" and "keyset_server c n sdec (pl_ticker params)"
  shows "keeps I (kp_servePage c n sdec idec deps params epoch) (served_page c n sdec params)"
  unfolding kp_servePage_def
proof (rule keeps_bind [OF kp_rankedPools_keeps [OF assms(1)]])
  fix ranking
  assume rk: "ranking_of c n sdec (pl_ticker params) ranking"
  let ?page = "take (pl_limit params) (drop (pl_offset params) ranking)"
  from rk obtain rows v w where rows: "registeredPoolStakes c n sdec (pl_ticker params) v = (Inr rows, w)"
      "ranking = js_sort byActiveStakeDesc rows" by (auto simp: ranking_of_def)
  then have "distinct (map ps_pool_id ranking)"
    using registeredPoolStakes_distinct [OF assms(2)] by (simp add: distinct_map_js_sort)
  then have ids: "distinct (map ps_pool_id ?page)" by (simp flip: take_map drop_map)
  have sorted: "sorted_wrt (\<lambda>a b. byActiveStakeDesc a b \<le> 0) ?page"
    unfolding rows(2) by (rule by_stake.sorted_js_sort_slice)
  have info: "keeps I (kp_poolInfoByIds c n idec (map ps_pool_id ?page))
      (\<lambda>infos. subseq (map pi_poolId infos) (map ps_pool_id ?page))"
  proof (rule keeps_result)
    show "keeps I (kp_poolInfoByIds c n idec (map ps_pool_id ?page)) (\<lambda>_. True)"
      using assms(1) unfolding koios_pool_world_def by blast
  qed (rule kp_poolInfoByIds_subseq)
  show "keeps I (let page = ?page in bindIO (kp_poolInfoByIds c n idec (map ps_pool_id page))
      (\<lambda>hydrated. returnIO (with_ranked_stake page hydrated))) (served_page c n sdec params)"
    unfolding Let_def
    by (rule keeps_bind [OF info], rule keeps_return)
      (use rk with_ranked_stake_page [OF ids sorted] in \<open>auto simp: served_page_def\<close>)
qed

lemma kp_getPoolList_keeps:
  assumes "koios_pool_world I c n sdec idec deps" and "keyset_server c n sdec (pl_ticker params)"
    and "pl_ticker params \<noteq> Some []"
  shows "keeps I (kp_getPoolList c n sdec idec deps params) (served_page c n sdec params)"
  unfolding kp_getPoolList_def
proof (rule keeps_bind [where R = "\<lambda>_. True"])
  show "keeps I (cacheEpoch deps) (\<lambda>_. True)"
    using assms(1) by (intro keeps_cacheEpoch) (simp add: koios_pool_world_def)
  fix epoch
  have "keyed_cache I (page_ok (served_page c n sdec)) (pd_readPage deps)"
    using assms(1) by (simp add: koios_pool_world_def)
  note cached = read_page_keeps [OF this kp_servePage_keeps [OF assms(1,2)] no_colon_int assms(3)]
  show "keeps I (case epoch of
       None \<Rightarrow> kp_servePage c n sdec idec deps params None
     | Some e \<Rightarrow> pd_readPage deps (page_key (string_of_int e) params) (CachePolicy PAGE_TTL_MS (Some PAGE_STALE_IF_ERROR_MS))
                   (kp_servePage c n sdec idec deps params (Some e))) (served_page c n sdec params)"
    using kp_servePage_keeps [OF assms(1,2)] cached by (cases epoch) simp_all
qed

text \<open>
  C35: every page of the pool list is a slice of one ranking.  The ranking holds all the registered
  pools of a scan, ordered by active stake (ties by id); the pools of the page come from the slice the
  caller asked for, in its order and without repetition, and each reports the very stake it was ranked
  on, so the stakes descend.  This holds whether ranking and page come from upstream or from a cache
  that holds proper values, whose keys never confuse two requests.
\<close>

theorem koios_pool_page:
  assumes "koios_pool_world I c n sdec idec deps" and "keyset_server c n sdec (pl_ticker params)"
    and "pl_ticker params \<noteq> Some []"
    and "I s" and "kp_getPoolList c n sdec idec deps params s = (Inr infos, t)"
  shows "\<exists>rows u v. registeredPoolStakes c n sdec (pl_ticker params) u = (Inr rows, v) \<and>
    distinct (map ps_pool_id rows) \<and>
    page_of_ranking (take (pl_limit params) (drop (pl_offset params) (js_sort byActiveStakeDesc rows))) infos"
proof -
  have "served_page c n sdec params infos"
    using keepsD [OF kp_getPoolList_keeps [OF assms(1-3)] assms(4,5)] by blast
  then show ?thesis
    unfolding served_page_def ranking_of_def using registeredPoolStakes_distinct [OF assms(2)] by blast
qed

section \<open>A concrete upstream\<close>

text \<open>A service that answers each URL with a list of at most a thousand rows.\<close>

definition koios_site :: "(string \<Rightarrow> 'j list) \<Rightarrow> ('s, 'j) net" where
  "koios_site f = \<lparr>doFetch = (\<lambda>req s. (FetchResponse (page_response (f (req_url req)) 0), s)),
     delayImpl = (\<lambda>ms s. s), onRetry = (\<lambda>e s. s)\<rparr>"

lemma koios_get_site:
  assumes "f (kc_baseUrl c @ path) = js" and "length js \<le> 1000" and "those (map row js) = Some rows"
  shows "koios_get c (koios_site f) (z_array row) path s = (Inr rows, s)"
  using assms
  by (simp add: koios_get_def koios_read_def retry_loop.simps [of _ _ _ _ "Suc 0"] koios_request_data_def
        requestWithMetadata_def koios_fetch_def koios_site_def page_response_def KOIOS_PAGE_SIZE_def koios_http_request_def get_init_def
        koios_parse_def z_array_def bindIO_def liftE_def returnIO_def Let_def truthy_def)

lemma koios_batch_site:
  assumes "f (kc_baseUrl c @ path) = js" and "length js \<le> 1000" and "those (map row js) = Some rows"
  shows "koios_batch c (koios_site f) (z_array row) path b s = (Inr rows, s)"
  using assms
  by (simp add: koios_batch_def koios_read_def retry_loop.simps [of _ _ _ _ "Suc 0"] koios_request_data_def
        requestWithMetadata_def koios_fetch_def koios_site_def page_response_def KOIOS_PAGE_SIZE_def koios_http_request_def post_json_def
        koios_parse_def z_array_def bindIO_def liftE_def returnIO_def Let_def truthy_def)

definition small_pool :: poolStakeRow where
  "small_pool = \<lparr>ps_pool_id = ''pool1a'', ps_active_stake = Some (NumStr ''5'')\<rparr>"
definition large_pool :: poolStakeRow where
  "large_pool = \<lparr>ps_pool_id = ''pool1b'', ps_active_stake = Some (NumStr ''70'')\<rparr>"

definition large_info :: poolInfoRow where
  "large_info = \<lparr>pr_pool_id_bech32 = ''pool1b'', pr_pool_id_hex = replicate 56 (CHR ''0''), pr_pool_status = Pool_registered,
     pr_retiring_epoch = None, pr_margin = 0, pr_fixed_cost = None, pr_pledge = None, pr_live_pledge = None,
     pr_active_stake = Some (NumStr ''90''), pr_live_stake = None, pr_live_saturation = None, pr_live_delegators = None,
     pr_block_count = None, pr_meta_json = None\<rparr>"

definition first_stakes_url :: string where
  "first_stakes_url = kc_baseUrl default_client @ ''/pool_list?'' @ form_pairs (pageQuery None None POOL_LIST_PAGE_SIZE)"

definition pool_site :: "string \<Rightarrow> (poolStakeRow + poolInfoRow) list" where
  "pool_site url = (if url = first_stakes_url then [Inl small_pool, Inl large_pool]
     else if url = kc_baseUrl default_client @ ''/pool_info'' then [Inr large_info] else [])"

definition as_stake :: "poolStakeRow + poolInfoRow \<Rightarrow> poolStakeRow option" where
  "as_stake j = (case j of Inl r \<Rightarrow> Some r | Inr _ \<Rightarrow> None)"
definition as_info :: "poolStakeRow + poolInfoRow \<Rightarrow> poolInfoRow option" where
  "as_info j = (case j of Inl _ \<Rightarrow> None | Inr r \<Rightarrow> Some r)"

definition plain_deps :: "(unit kworld, poolStakeRow) PoolMethodDeps" where
  "plain_deps = \<lparr>pd_readRanking = no_cache_read, pd_readPage = no_cache_read, pd_currentEpoch = Some (returnIO 500)\<rparr>"

definition stake_query :: string where
  "stake_query = form_pairs [(''pool_status'', ''eq.registered''), (''order'', ''pool_id_bech32.asc''),
      (''select'', ''pool_id_bech32,active_stake'')] @ ''&'' @ form_encode ''limit'' @ ''=''"

lemma stakes_query: "form_pairs (pageQuery None after k) = stake_query @ string_of_nat k @
    (case after of None \<Rightarrow> [] | Some a \<Rightarrow> CHR ''&'' # form_pairs [(''pool_id_bech32'', ''gt.'' @ a)])"
  by (cases after) (simp_all only: pageQuery_def stake_query_def option.case append.simps append_assoc
      form_pairs.simps list.map prod.case intercalate.simps form_encode_nat append_Nil2)

lemma cursor_query: "form_pairs (pageQuery None (Some a) k) \<noteq> form_pairs (pageQuery None None m)"
proof
  assume "form_pairs (pageQuery None (Some a) k) = form_pairs (pageQuery None None m)"
  then have "string_of_nat k @ CHR ''&'' # form_pairs [(''pool_id_bech32'', ''gt.'' @ a)] = string_of_nat m"
    unfolding stakes_query same_append_eq option.case append_Nil2 .
  from arg_cong [OF this, of set] have "CHR ''&'' \<in> set (string_of_nat m)" by force
  with string_of_nat_digits [of m] have "is_digit (CHR ''&'')" by (simp add: list_all_iff)
  then show False by (simp add: is_digit_def)
qed

lemma limit_query: "form_pairs (pageQuery None None k) = form_pairs (pageQuery None None m) \<longleftrightarrow> k = m"
  unfolding stakes_query same_append_eq option.case append_Nil2 by (rule string_of_nat_inj)

lemma pool_rows_ok: "poolStakeRow_ok small_pool" "poolStakeRow_ok large_pool" "poolInfoRow_ok large_info"
  by (code_simp, code_simp, code_simp)

lemma read_stakes_site:
  "read_stakes default_client (koios_site pool_site) as_stake None after k s =
    (Inr (if after = None \<and> k = 1000 then [small_pool, large_pool] else []), s)"
proof -
  let ?path = "''/pool_list?'' @ form_pairs (pageQuery None after k)"
  have url: "kc_baseUrl default_client @ ?path = first_stakes_url \<longleftrightarrow> after = None \<and> k = 1000"
    unfolding first_stakes_url_def append_same_eq same_append_eq POOL_LIST_PAGE_SIZE_def
    by (cases after) (simp_all only: cursor_query limit_query option.distinct simp_thms)
  have other: "kc_baseUrl default_client @ ?path \<noteq> kc_baseUrl default_client @ ''/pool_info''" by simp
  let ?js = "if after = None \<and> k = 1000 then [Inl small_pool, Inl large_pool] else []"
  have "pool_site (kc_baseUrl default_client @ ?path) = ?js"
    using url other by (simp add: pool_site_def)
  moreover have "those (map (refine as_stake poolStakeRow_ok) ?js) =
      Some (if after = None \<and> k = 1000 then [small_pool, large_pool] else [])"
    by (simp add: refine_def as_stake_def pool_rows_ok)
  ultimately show ?thesis unfolding read_stakes_def by (intro koios_get_site) auto
qed

theorem koios_pool_page_witness:
  "\<exists>infos. kp_getPoolList default_client (koios_site pool_site) as_stake as_info plain_deps
      \<lparr>pl_limit = 1, pl_offset = 0, pl_ticker = None\<rparr> idle = (Inr infos, idle) \<and>
    map (\<lambda>i. (pi_poolId i, pi_activeStake i)) infos = [(''pool1b'', ''70'')] \<and>
    page_of_ranking [large_pool] infos"
proof -
  let ?n = "koios_site pool_site" and ?p = "\<lparr>pl_limit = 1, pl_offset = 0, pl_ticker = None\<rparr>"
  have world: "koios_pool_world (\<lambda>_. True) default_client ?n as_stake as_info plain_deps"
    by (simp add: koios_pool_world_def plain_deps_def uncached.keyed_cache_axioms quiet_epoch_def keeps_def)
  have server: "keyset_server default_client ?n as_stake (pl_ticker ?p)"
    by (auto simp: keyset_server_def read_stakes_site small_pool_def large_pool_def split: if_splits)
  have scan: "registeredPoolStakes default_client ?n as_stake None s = (Inr [small_pool, large_pool], s)" for s :: "unit kworld"
  proof -
    have max: "POOL_LIST_MAX_PAGES = Suc 19" by (simp add: POOL_LIST_MAX_PAGES_def)
    show ?thesis
      unfolding registeredPoolStakes_def max pool_pages.simps
      by (simp add: POOL_LIST_PAGE_SIZE_def read_stakes_site bindIO_def returnIO_def)
  qed
  have order: "js_sort byActiveStakeDesc [small_pool, large_pool] = [large_pool, small_pool]"
    by (simp add: js_sort_def byActiveStakeDesc_le small_pool_def large_pool_def activeStakeOf_def nat_of_string_def digit_val_def)
  have "koios_batch default_client ?n (z_array (refine as_info poolInfoRow_ok)) ''/pool_info''
      (list_body [] ''_pool_bech32_ids'' [] [JStr ''pool1b'']) idle = (Inr [large_info], idle)"
  proof (rule koios_batch_site)
    show "pool_site (kc_baseUrl default_client @ ''/pool_info'') = [Inr large_info]"
      by (simp add: pool_site_def first_stakes_url_def)
  qed (simp_all add: refine_def as_info_def pool_rows_ok)
  moreover have "packBySize [JStr ''pool1b''] (list_body [] ''_pool_bech32_ids'' []) 5120 = Inr [[JStr ''pool1b'']]"
    by code_simp
  ultimately have info: "kp_poolInfoByIds default_client ?n as_info [''pool1b''] idle = (Inr [mapPoolInfo large_info], idle)"
    by (simp add: kp_poolInfoByIds_def batchAll_def packAdaptively_def catchIO_def pack_run_def bindIO_def liftE_def
        returnIO_def idle_def hydrate_by_id_def large_info_def jm_get_def)
  let ?infos = "with_ranked_stake [large_pool] [mapPoolInfo large_info]"
  have run: "kp_getPoolList default_client ?n as_stake as_info plain_deps ?p idle = (Inr ?infos, idle)"
    using info scan [of idle] order
    by (simp add: kp_getPoolList_def cacheEpoch_def plain_deps_def kp_servePage_def kp_rankedPools_def no_cache_read_def
        bindIO_def catchIO_def returnIO_def Let_def large_pool_def)
  from koios_pool_page [OF world server _ _ run] scan order
  have "page_of_ranking [large_pool] ?infos" by auto
  moreover have "map (\<lambda>i. (pi_poolId i, pi_activeStake i)) ?infos = [(''pool1b'', ''70'')]"
    by (simp add: with_ranked_stake_def ranked_stake_def large_pool_def mapPoolInfo_def large_info_def numeric_or_zero_def jm_get_def)
  ultimately show ?thesis by (intro exI [of _ ?infos] conjI run)
qed

end
