(* ===== verification/Blockfrost_Pools.thy ===== *)
theory Blockfrost_Pools
  imports Koios_Pools Blockfrost_Lists
begin

text \<open>
  \<^verbatim>\<open>src/providers/blockfrost/pools.ts\<close>: the same pool lists over Blockfrost, which has no batch read of
  pools (each is fetched by its id), no status field (it is inferred from the certificate histories and
  the list of retiring pools) and an extended list that carries the metadata.  The ranking, the ticker
  filter and the substitution of the ranked stake are those of the theory \<open>Pools\<close>.
\<close>

record bfPoolRow =
  bp_pool_id :: string
  bp_hex :: string
  bp_blocks_minted :: "int option"
  bp_live_stake :: "numeric option"
  bp_live_saturation :: "rat option"
  bp_live_delegators :: "int option"
  bp_active_stake :: "numeric option"
  bp_declared_pledge :: "numeric option"
  bp_live_pledge :: "numeric option"
  bp_margin_cost :: rat
  bp_fixed_cost :: "numeric option"
  bp_registration :: "string list"
  bp_retirement :: "string list"

definition bfPoolRow_ok :: "bfPoolRow \<Rightarrow> bool" where
  "bfPoolRow_ok r \<longleftrightarrow> pool_id_shape (bp_pool_id r) \<and> length (bp_hex r) = 56 \<and> list_all is_hex (bp_hex r) \<and>
     count_ok (bp_blocks_minted r) \<and> numeric_opt_ok (bp_live_stake r) \<and>
     (case bp_live_saturation r of None \<Rightarrow> True | Some v \<Rightarrow> 0 \<le> v) \<and> count_ok (bp_live_delegators r) \<and>
     numeric_opt_ok (bp_active_stake r) \<and> numeric_opt_ok (bp_declared_pledge r) \<and>
     numeric_opt_ok (bp_live_pledge r) \<and> 0 \<le> bp_margin_cost r \<and> bp_margin_cost r \<le> 1 \<and>
     numeric_opt_ok (bp_fixed_cost r)"

record poolExtendedRow = poolStakeRow +
  pe_metadata :: "PoolMetadata option"

record poolRetireRow =
  pt_pool_id :: string
  pt_epoch :: int

definition poolRetireRow_ok :: "poolRetireRow \<Rightarrow> bool" where
  "poolRetireRow_ok r \<longleftrightarrow> pool_id_shape (pt_pool_id r) \<and> isSafeInteger (pt_epoch r) \<and> 0 \<le> pt_epoch r"

definition poolStatus :: "bfPoolRow \<Rightarrow> int option \<Rightarrow> PoolStatus" where
  "poolStatus row retiringEpoch =
     (if retiringEpoch \<noteq> None then Pool_retiring
      else if length (bp_registration row) > length (bp_retirement row) then Pool_registered else Pool_retired)"

definition bf_mapPoolInfo :: "bfPoolRow \<Rightarrow> PoolMetadata option \<Rightarrow> int option \<Rightarrow> PoolInfo" where
  "bf_mapPoolInfo row metadata retiringEpoch = \<lparr>
     pi_poolId = bp_pool_id row,
     pi_poolIdHex = bp_hex row,
     pi_status = poolStatus row retiringEpoch,
     pi_retiringEpoch = retiringEpoch,
     pi_margin = bp_margin_cost row,
     pi_fixedCost = numeric_or_zero (bp_fixed_cost row),
     pi_pledge = numeric_or_zero (bp_declared_pledge row),
     pi_livePledge = numeric_or_zero (bp_live_pledge row),
     pi_activeStake = numeric_or_zero (bp_active_stake row),
     pi_liveStake = numeric_or_zero (bp_live_stake row),
     pi_saturation = (case bp_live_saturation row of None \<Rightarrow> 0 | Some v \<Rightarrow> v),
     pi_liveDelegators = (case bp_live_delegators row of None \<Rightarrow> 0 | Some v \<Rightarrow> v),
     pi_blocksMinted = (case bp_blocks_minted row of None \<Rightarrow> 0 | Some v \<Rightarrow> v),
     pi_metadata = metadata\<rparr>"

text \<open>The four decoders of the driver.\<close>

record 'j bf_pool_schemas =
  sc_pool :: "('j, bfPoolRow) schema"
  sc_metadata :: "('j, PoolMetadata) schema"
  sc_extended :: "'j \<Rightarrow> poolExtendedRow option"
  sc_retire :: "'j \<Rightarrow> poolRetireRow option"

section \<open>Best-effort reads\<close>

definition retiringPools :: "bf_client \<Rightarrow> ('s, 'j) bf_net \<Rightarrow> 'j bf_pool_schemas \<Rightarrow>
    ('s, (string, int) js_map) io_result" where
  "retiringPools c n sc = catchIO
     (bindIO (collectPages c n (refine (sc_retire sc) poolRetireRow_ok) ''/pools/retiring'' None
         (default_pages\<lparr>po_label := Some ''/pools/retiring''\<rparr>)) (\<lambda>rows.
      returnIO (fold (\<lambda>r. jm_set (pt_pool_id r) (pt_epoch r)) rows [])))
     (\<lambda>_. returnIO [])"

definition pool_path :: "string \<Rightarrow> string" where
  "pool_path i = ''/pools/'' @ encodeURIComponent i"

definition poolMetadata :: "bf_client \<Rightarrow> ('s, 'j) bf_net \<Rightarrow> 'j bf_pool_schemas \<Rightarrow> string \<Rightarrow>
    ('s, PoolMetadata option) io_result" where
  "poolMetadata c n sc poolId = catchIO
     (bindIO (bf_getOrUndefined c n (sc_metadata sc) (pool_path poolId @ ''/metadata'')) (\<lambda>row.
      returnIO (case row of None \<Rightarrow> None | Some m \<Rightarrow> mapPoolMetadata (Some m))))
     (\<lambda>_. returnIO None)"

section \<open>Hydration\<close>

definition hydrate_pool :: "bf_client \<Rightarrow> ('s, 'j) bf_net \<Rightarrow> 'j bf_pool_schemas \<Rightarrow> (string, int) js_map \<Rightarrow>
    (string, PoolMetadata option) js_map option \<Rightarrow> string \<Rightarrow> ('s, PoolInfo option) io_result" where
  "hydrate_pool c n sc retiring inlineMetadata i =
     bindIO (bf_getOrUndefined c n (refine (sc_pool sc) bfPoolRow_ok) (pool_path i)) (\<lambda>row. case row of
       None \<Rightarrow> returnIO None
     | Some row \<Rightarrow>
         bindIO (case (case inlineMetadata of None \<Rightarrow> None | Some m \<Rightarrow> jm_get m i) of
                   Some md \<Rightarrow> returnIO md
                 | None \<Rightarrow> poolMetadata c n sc i) (\<lambda>metadata.
         returnIO (Some (bf_mapPoolInfo row metadata (jm_get retiring i)))))"

definition bp_poolInfoByIds :: "bf_client \<Rightarrow> ('s, 'j) bf_net \<Rightarrow> 'j bf_pool_schemas \<Rightarrow> string list \<Rightarrow>
    (string, int) js_map \<Rightarrow> (string, PoolMetadata option) js_map option \<Rightarrow> ('s, PoolInfo list) io_result" where
  "bp_poolInfoByIds c n sc poolIds retiring inlineMetadata =
     (if poolIds = [] then returnIO []
      else bindIO (mapIO (hydrate_pool c n sc retiring inlineMetadata) poolIds) (\<lambda>mapped.
           returnIO (List.map_filter (\<lambda>p. p) mapped)))"

definition bf_getPoolInfo :: "bf_client \<Rightarrow> ('s, 'j) bf_net \<Rightarrow> 'j bf_pool_schemas \<Rightarrow> string list \<Rightarrow>
    ('s, PoolInfo list) io_result" where
  "bf_getPoolInfo c n sc poolIds =
     (if poolIds = [] then returnIO []
      else bindIO (retiringPools c n sc) (\<lambda>retiring. bp_poolInfoByIds c n sc poolIds retiring None))"

section \<open>Pages\<close>

definition extended_list :: "bf_client \<Rightarrow> ('s, 'j) bf_net \<Rightarrow> 'j bf_pool_schemas \<Rightarrow>
    ('s, poolExtendedRow list) io_result" where
  "extended_list c n sc = collectPages c n (refine (sc_extended sc) poolStakeRow_ok) ''/pools/extended'' None
     (default_pages\<lparr>po_label := Some ''/pools/extended''\<rparr>)"

definition bp_rankedPools :: "bf_client \<Rightarrow> ('s, 'j) bf_net \<Rightarrow> 'j bf_pool_schemas \<Rightarrow>
    ('s, poolExtendedRow) PoolMethodDeps \<Rightarrow> int option \<Rightarrow> ('s, poolExtendedRow list) io_result" where
  "bp_rankedPools c n sc deps epoch =
     (let scan = bindIO (extended_list c n sc) (\<lambda>rows. returnIO (js_sort byActiveStakeDesc rows)) in
      case epoch of
        None \<Rightarrow> scan
      | Some e \<Rightarrow> pd_readRanking deps (''pools:ranking:'' @ string_of_int e) (PlainTtl RANKING_TTL_MS) scan)"

definition ticker_matches :: "string option \<Rightarrow> poolExtendedRow \<Rightarrow> bool" where
  "ticker_matches ticker row \<longleftrightarrow> (case ticker of
     None \<Rightarrow> True
   | Some needle \<Rightarrow> (case pe_metadata row of
       None \<Rightarrow> False
     | Some md \<Rightarrow> (case pm_ticker md of
         None \<Rightarrow> False
       | Some t \<Rightarrow> str_includes (toLowerCase t) (toLowerCase needle))))"

definition inline_metadata :: "poolExtendedRow list \<Rightarrow> (string, PoolMetadata option) js_map" where
  "inline_metadata page = fold (\<lambda>r. jm_set (ps_pool_id r) (mapPoolMetadata (pe_metadata r))) page []"

definition bp_servePage :: "bf_client \<Rightarrow> ('s, 'j) bf_net \<Rightarrow> 'j bf_pool_schemas \<Rightarrow>
    ('s, poolExtendedRow) PoolMethodDeps \<Rightarrow> PoolListParams \<Rightarrow> int option \<Rightarrow> ('s, PoolInfo list) io_result" where
  "bp_servePage c n sc deps params epoch =
     bindIO (bp_rankedPools c n sc deps epoch) (\<lambda>ranked.
     let filtered = filter (ticker_matches (pl_ticker params)) ranked;
         page = take (pl_limit params) (drop (pl_offset params) filtered) in
     bindIO (retiringPools c n sc) (\<lambda>retiring.
     bindIO (bp_poolInfoByIds c n sc (map ps_pool_id page) retiring (Some (inline_metadata page))) (\<lambda>hydrated.
     returnIO (with_ranked_stake page hydrated))))"

definition bp_getPoolList :: "bf_client \<Rightarrow> ('s, 'j) bf_net \<Rightarrow> 'j bf_pool_schemas \<Rightarrow>
    ('s, poolExtendedRow) PoolMethodDeps \<Rightarrow> PoolListParams \<Rightarrow> ('s, PoolInfo list) io_result" where
  "bp_getPoolList c n sc deps params =
     (if pl_limit params = 0 then returnIO []
      else bindIO (cacheEpoch deps) (\<lambda>epoch.
        pd_readPage deps (page_key (case epoch of None \<Rightarrow> ''none'' | Some e \<Rightarrow> string_of_int e) params)
          (CachePolicy PAGE_TTL_MS (Some PAGE_STALE_IF_ERROR_MS)) (bp_servePage c n sc deps params epoch)))"

section \<open>Facts\<close>

text \<open>The best-effort reads never fail, so a pool's core data survives an outage of either endpoint.\<close>

lemma retiringPools_total: "\<exists>m t. retiringPools c n sc s = (Inr m, t)"
  by (auto simp: retiringPools_def catchIO_def returnIO_def bindIO_def split: prod.split sum.split)

lemma poolMetadata_total: "\<exists>m t. poolMetadata c n sc i s = (Inr m, t)"
  by (auto simp: poolMetadata_def catchIO_def returnIO_def bindIO_def split: prod.split sum.split)

text \<open>
  The status is only as good as the certificate counts: a pool that updated its parameters (a second
  registration certificate) and then retired is listed as registered once \<^verbatim>\<open>/pools/retiring\<close> drops it.
\<close>

lemma poolStatus_after_update:
  "length (bp_registration row) = 2 \<Longrightarrow> length (bp_retirement row) = 1 \<Longrightarrow> poolStatus row None = Pool_registered"
  by (simp add: poolStatus_def)

text \<open>What \<^verbatim>\<open>/pools/{pool_id}\<close> answers about: the pool that was asked for.\<close>

definition own_pool_server :: "bf_client \<Rightarrow> ('s, 'j) bf_net \<Rightarrow> 'j bf_pool_schemas \<Rightarrow> bool" where
  "own_pool_server c n sc \<longleftrightarrow> (\<forall>i s r t.
     bf_getOrUndefined c n (refine (sc_pool sc) bfPoolRow_ok) (pool_path i) s = (Inr (Some r), t) \<longrightarrow> bp_pool_id r = i)"

lemma hydrate_pool_id:
  assumes "own_pool_server c n sc" and "hydrate_pool c n sc retiring inl i s = (Inr (Some p), t)"
  shows "pi_poolId p = i"
proof -
  from assms(2) obtain r u where r: "bf_getOrUndefined c n (refine (sc_pool sc) bfPoolRow_ok) (pool_path i) s = (Inr (Some r), u)"
    and p: "\<exists>md. p = bf_mapPoolInfo r md (jm_get retiring i)"
    unfolding hydrate_pool_def by (auto simp: io_simps split: option.splits)
  from assms(1) r have "bp_pool_id r = i" unfolding own_pool_server_def by blast
  with p show ?thesis by (auto simp: bf_mapPoolInfo_def)
qed

lemma hydrate_pools_subseq:
  assumes "own_pool_server c n sc" and "mapIO (hydrate_pool c n sc retiring inl) poolIds s = (Inr mapped, t)"
  shows "subseq (map pi_poolId (List.map_filter (\<lambda>p. p) mapped)) poolIds"
  using assms(2)
proof (induction poolIds arbitrary: s mapped)
  case (Cons i poolIds)
  from Cons.prems obtain p ps u where p: "hydrate_pool c n sc retiring inl i s = (Inr p, u)"
    and ps: "mapIO (hydrate_pool c n sc retiring inl) poolIds u = (Inr ps, t)" and m: "mapped = p # ps"
    by (auto simp: io_simps split: prod.splits sum.splits)
  from Cons.IH [OF ps] have sub: "subseq (map pi_poolId (List.map_filter (\<lambda>p. p) ps)) poolIds" .
  show ?case
  proof (cases p)
    case None
    with sub m show ?thesis by (simp add: map_filter_simps list_emb_Cons)
  next
    case (Some q)
    with hydrate_pool_id [OF assms(1)] p have "pi_poolId q = i" by blast
    with sub m Some show ?thesis by (simp add: map_filter_simps)
  qed
qed (simp add: returnIO_def map_filter_simps)

lemma bp_poolInfoByIds_subseq:
  assumes "own_pool_server c n sc" and "bp_poolInfoByIds c n sc poolIds retiring inl s = (Inr infos, t)"
  shows "subseq (map pi_poolId infos) poolIds"
  using assms(2) hydrate_pools_subseq [OF assms(1)] by (auto simp: bp_poolInfoByIds_def io_simps split: if_splits)

definition bf_ranking :: "bf_client \<Rightarrow> ('s, 'j) bf_net \<Rightarrow> 'j bf_pool_schemas \<Rightarrow> poolExtendedRow list \<Rightarrow> bool" where
  "bf_ranking c n sc ranking \<longleftrightarrow> (\<exists>rows u v. extended_list c n sc u = (Inr rows, v) \<and>
     ranking = js_sort byActiveStakeDesc rows)"

definition bf_served_page :: "bf_client \<Rightarrow> ('s, 'j) bf_net \<Rightarrow> 'j bf_pool_schemas \<Rightarrow> PoolListParams \<Rightarrow>
    PoolInfo list \<Rightarrow> bool" where
  "bf_served_page c n sc params infos \<longleftrightarrow> (\<exists>ranking. bf_ranking c n sc ranking \<and>
     page_of_ranking (take (pl_limit params) (drop (pl_offset params)
       (filter (ticker_matches (pl_ticker params)) ranking))) infos)"

text \<open>The world of the pool list: the cache holds proper values, which reads from upstream leave alone.\<close>

definition bf_pool_world :: "('s \<Rightarrow> bool) \<Rightarrow> bf_client \<Rightarrow> ('s, 'j) bf_net \<Rightarrow> 'j bf_pool_schemas \<Rightarrow>
    ('s, poolExtendedRow) PoolMethodDeps \<Rightarrow> bool" where
  "bf_pool_world I c n sc deps \<longleftrightarrow>
     keyed_cache I (\<lambda>_. bf_ranking c n sc) (pd_readRanking deps) \<and>
     keyed_cache I (page_ok (bf_served_page c n sc)) (pd_readPage deps) \<and> quiet_epoch I deps \<and>
     keeps I (extended_list c n sc) (\<lambda>_. True) \<and> keeps I (retiringPools c n sc) (\<lambda>_. True) \<and>
     (\<forall>ids retiring inl. keeps I (bp_poolInfoByIds c n sc ids retiring inl) (\<lambda>_. True))"

text \<open>What upstream answers: the list names every pool once, and a pool read by its id is that pool.\<close>

definition bf_pool_upstream :: "bf_client \<Rightarrow> ('s, 'j) bf_net \<Rightarrow> 'j bf_pool_schemas \<Rightarrow> bool" where
  "bf_pool_upstream c n sc \<longleftrightarrow> own_pool_server c n sc \<and>
     (\<forall>u rows v. extended_list c n sc u = (Inr rows, v) \<longrightarrow> distinct (map ps_pool_id rows))"

lemma bp_rankedPools_keeps:
  assumes "bf_pool_world I c n sc deps"
  shows "keeps I (bp_rankedPools c n sc deps epoch) (bf_ranking c n sc)"
proof -
  let ?scan = "bindIO (extended_list c n sc) (\<lambda>rows. returnIO (js_sort byActiveStakeDesc rows))"
  have scan: "keeps I ?scan (bf_ranking c n sc)"
  proof (rule keeps_result)
    show "keeps I ?scan (\<lambda>_. True)"
      using assms unfolding bf_pool_world_def by (intro keeps_bind [where R = "\<lambda>_. True"] keeps_return) blast+
  qed (auto simp: io_simps bf_ranking_def)
  have "keyed_cache I (\<lambda>_ :: string. bf_ranking c n sc) (pd_readRanking deps)"
    using assms by (simp add: bf_pool_world_def)
  note read = keyed_cache.read_keeps [OF this scan]
  show ?thesis using scan read by (cases epoch) (simp_all add: bp_rankedPools_def Let_def)
qed

lemma distinct_ids_slice:
  "distinct (map f xs) \<Longrightarrow> distinct (map f (take k (drop j (filter P xs))))"
  by (simp add: distinct_map_filter flip: take_map drop_map)

lemma bp_servePage_keeps:
  assumes "bf_pool_world I c n sc deps" and "bf_pool_upstream c n sc"
  shows "keeps I (bp_servePage c n sc deps params epoch) (bf_served_page c n sc params)"
  unfolding bp_servePage_def
proof (rule keeps_bind [OF bp_rankedPools_keeps [OF assms(1)]])
  fix ranking
  assume rk: "bf_ranking c n sc ranking"
  let ?page = "take (pl_limit params) (drop (pl_offset params) (filter (ticker_matches (pl_ticker params)) ranking))"
  from rk obtain rows v w where rows: "extended_list c n sc v = (Inr rows, w)" "ranking = js_sort byActiveStakeDesc rows"
    by (auto simp: bf_ranking_def)
  have "distinct (map ps_pool_id rows)" using assms(2) rows(1) unfolding bf_pool_upstream_def by blast
  then have "distinct (map ps_pool_id ranking)" by (simp add: rows(2) distinct_map_js_sort)
  then have ids: "distinct (map ps_pool_id ?page)" by (rule distinct_ids_slice)
  have sorted: "sorted_wrt (\<lambda>a b. byActiveStakeDesc a b \<le> 0) ?page"
    unfolding rows(2) by (intro sorted_wrt_take sorted_wrt_drop sorted_wrt_filter by_stake.sorted_js_sort)
  have own: "own_pool_server c n sc" using assms(2) by (simp add: bf_pool_upstream_def)
  have retiring: "keeps I (retiringPools c n sc) (\<lambda>_. True)" using assms(1) by (simp add: bf_pool_world_def)
  have info: "keeps I (bp_poolInfoByIds c n sc (map ps_pool_id ?page) retiring inl)
      (\<lambda>infos. subseq (map pi_poolId infos) (map ps_pool_id ?page))" for retiring inl
  proof (rule keeps_result)
    show "keeps I (bp_poolInfoByIds c n sc (map ps_pool_id ?page) retiring inl) (\<lambda>_. True)"
      using assms(1) unfolding bf_pool_world_def by blast
  qed (rule bp_poolInfoByIds_subseq [OF own])
  show "keeps I (let filtered = filter (ticker_matches (pl_ticker params)) ranking;
         page = take (pl_limit params) (drop (pl_offset params) filtered) in
     bindIO (retiringPools c n sc) (\<lambda>retiring.
     bindIO (bp_poolInfoByIds c n sc (map ps_pool_id page) retiring (Some (inline_metadata page))) (\<lambda>hydrated.
     returnIO (with_ranked_stake page hydrated)))) (bf_served_page c n sc params)"
    unfolding Let_def
    by (rule keeps_bind [OF retiring], rule keeps_bind [OF info], rule keeps_return)
      (use rk with_ranked_stake_page [OF ids sorted] in \<open>auto simp: bf_served_page_def\<close>)
qed

text \<open>
  C36: a page of the Blockfrost pool list is a slice of one ranking too.  The pools come from the slice
  the caller asked for of the pools whose ticker matches, in its order, each with the stake it was
  ranked on, whether ranking and page come from upstream or from a cache that holds proper values; an
  empty limit asks neither.
\<close>

theorem bf_pool_page:
  assumes "bf_pool_world I c n sc deps" and "bf_pool_upstream c n sc" and "pl_ticker params \<noteq> Some []"
    and "I s" and "bp_getPoolList c n sc deps params s = (Inr infos, t)"
  shows "pl_limit params = 0 \<and> infos = [] \<and> t = s \<or>
    (\<exists>rows u v. extended_list c n sc u = (Inr rows, v) \<and>
      page_of_ranking (take (pl_limit params) (drop (pl_offset params)
        (filter (ticker_matches (pl_ticker params)) (js_sort byActiveStakeDesc rows)))) infos)"
proof (cases "pl_limit params = 0")
  case True
  with assms(5) show ?thesis by (simp add: bp_getPoolList_def returnIO_def)
next
  case False
  have "keeps I (bp_getPoolList c n sc deps params) (bf_served_page c n sc params)"
    unfolding bp_getPoolList_def if_not_P [OF False]
  proof (rule keeps_bind [where R = "\<lambda>_. True"])
    show "keeps I (cacheEpoch deps) (\<lambda>_. True)"
      using assms(1) by (intro keeps_cacheEpoch) (simp add: bf_pool_world_def)
    fix epoch :: "int option"
    have cached: "keyed_cache I (page_ok (bf_served_page c n sc)) (pd_readPage deps)" using assms(1) by (simp add: bf_pool_world_def)
    have colon: "CHR '':'' \<notin> set (case epoch of None \<Rightarrow> ''none'' | Some e \<Rightarrow> string_of_int e)"
      by (cases epoch) (simp_all add: no_colon_int)
    show "keeps I (pd_readPage deps (page_key (case epoch of None \<Rightarrow> ''none'' | Some e \<Rightarrow> string_of_int e) params)
          (CachePolicy PAGE_TTL_MS (Some PAGE_STALE_IF_ERROR_MS)) (bp_servePage c n sc deps params epoch)) (bf_served_page c n sc params)"
      by (rule read_page_keeps [OF cached bp_servePage_keeps [OF assms(1,2)] colon assms(3)])
  qed
  from keepsD [OF this assms(4,5)] obtain ranking where "bf_ranking c n sc ranking"
    "page_of_ranking (take (pl_limit params) (drop (pl_offset params) (filter (ticker_matches (pl_ticker params)) ranking))) infos"
    unfolding bf_served_page_def by blast
  then show ?thesis unfolding bf_ranking_def by blast
qed

section \<open>A concrete upstream\<close>

definition small_row :: poolExtendedRow where
  "small_row = \<lparr>ps_pool_id = ''pool1a'', ps_active_stake = Some (NumStr ''5''), pe_metadata = None\<rparr>"
definition large_row :: poolExtendedRow where
  "large_row = \<lparr>ps_pool_id = ''pool1b'', ps_active_stake = Some (NumStr ''70''), pe_metadata = None\<rparr>"

definition large_pool_row :: bfPoolRow where
  "large_pool_row = \<lparr>bp_pool_id = ''pool1b'', bp_hex = replicate 56 (CHR ''0''), bp_blocks_minted = None, bp_live_stake = None,
     bp_live_saturation = None, bp_live_delegators = None, bp_active_stake = Some (NumStr ''90''), bp_declared_pledge = None,
     bp_live_pledge = None, bp_margin_cost = 0, bp_fixed_cost = None, bp_registration = [''h''], bp_retirement = []\<rparr>"

definition bf_pool_server :: "string \<Rightarrow> (poolExtendedRow + bfPoolRow) fetch_outcome" where
  "bf_pool_server path =
     (if path = page_path_at ''/pools/extended'' 100 1 then ok_json (JArray [Inl small_row, Inl large_row])
      else if path = ''/pools/pool1b'' then ok_json (JOther (Inr large_pool_row))
      else ok_json (JArray []))"

definition example_schemas :: "(poolExtendedRow + bfPoolRow) bf_pool_schemas" where
  "example_schemas = \<lparr>sc_pool = (\<lambda>v. case v of JOther (Inr r) \<Rightarrow> Some r | _ \<Rightarrow> None), sc_metadata = (\<lambda>_. None),
     sc_extended = (\<lambda>j. case j of Inl r \<Rightarrow> Some r | Inr _ \<Rightarrow> None), sc_retire = (\<lambda>_. None)\<rparr>"

definition bf_plain_deps :: "(unit, poolExtendedRow) PoolMethodDeps" where
  "bf_plain_deps = \<lparr>pd_readRanking = no_cache_read, pd_readPage = no_cache_read, pd_currentEpoch = None\<rparr>"

lemma bf_rows_ok: "poolStakeRow_ok small_row" "poolStakeRow_ok large_row" "bfPoolRow_ok large_pool_row"
  by (code_simp, code_simp, code_simp)

lemma bf_getOrUndefined_by_path_Some:
  assumes "f path = ok_json v" and "bf_getOrUndefined c (by_path c f) sch path s = (Inr (Some a), t)"
  shows "sch v = Some a"
proof -
  from retry_loop_Inr [OF assms(2) [unfolded bf_getOrUndefined_def bf_read_def]]
  obtain u where "bindIO (bf_request c (by_path c f) path bf_get_init True) (\<lambda>res. liftE (
       if res_status res = 404 then Inr None
       else bindE (bf_answer sch path res) (\<lambda>a. Inr (Some a)))) u = (Inr (Some a), t)" ..
  with bf_request_by_path [of f path _ c u] assms(1) show ?thesis
    by (auto simp: bindIO_def liftE_def ok_json_def bf_answer_def readBody_def bf_parse_def sum_simps split: option.splits)
qed

lemma encodeURIComponent_no_escape: "CHR ''%'' \<notin> set (encodeURIComponent s) \<Longrightarrow> encodeURIComponent s = s"
  by (induction s) (auto simp: encodeURIComponent_def Let_def split: if_splits)

lemma example_pool_path: "pool_path i = ''/pools/pool1b'' \<longleftrightarrow> i = ''pool1b''"
proof
  assume "pool_path i = ''/pools/pool1b''"
  then have "encodeURIComponent i = ''pool1b''" by (simp add: pool_path_def)
  with encodeURIComponent_no_escape [of i] show "i = ''pool1b''" by simp
next
  have "encodeURIComponent ''pool1b'' = ''pool1b''" by code_simp
  then show "pool_path i = ''/pools/pool1b''" if "i = ''pool1b''" using that by (simp add: pool_path_def)
qed

lemma example_pool: "bf_getOrUndefined bf_default (by_path bf_default bf_pool_server)
    (refine (sc_pool example_schemas) bfPoolRow_ok) ''/pools/pool1b'' s = (Inr (Some large_pool_row), s)"
  by (rule bf_getOrUndefined_by_path [where v = "JOther (Inr large_pool_row)"])
    (simp_all add: bf_pool_server_def page_path_at_def refine_def example_schemas_def bf_rows_ok)

lemma example_own_pool: "own_pool_server bf_default (by_path bf_default bf_pool_server) example_schemas"
  unfolding own_pool_server_def
proof (intro allI impI)
  fix i r and s t :: unit
  assume run: "bf_getOrUndefined bf_default (by_path bf_default bf_pool_server)
    (refine (sc_pool example_schemas) bfPoolRow_ok) (pool_path i) s = (Inr (Some r), t)"
  consider (ours) "pool_path i = ''/pools/pool1b''" | (list) js where "bf_pool_server (pool_path i) = ok_json (JArray js)"
    unfolding bf_pool_server_def by (metis (full_types))
  then show "bp_pool_id r = i"
  proof cases
    case ours
    with run example_pool [of s] example_pool_path [of i] show ?thesis by (simp add: large_pool_row_def)
  next
    case list
    from bf_getOrUndefined_by_path_Some [OF this run] show ?thesis by (simp add: refine_def example_schemas_def)
  qed
qed

lemma example_list: "extended_list bf_default (by_path bf_default bf_pool_server) example_schemas s = (Inr [small_row, large_row], s)"
proof -
  have "bf_get bf_default (by_path bf_default bf_pool_server) (z_array (refine (sc_extended example_schemas) poolStakeRow_ok))
      (page_path_at ''/pools/extended'' 100 1) s = (Inr [small_row, large_row], s)"
    by (rule bf_get_by_path [where v = "JArray [Inl small_row, Inl large_row]"])
      (simp_all add: bf_pool_server_def z_array_def refine_def example_schemas_def bf_rows_ok)
  moreover have max: "po_maxPages (default_pages\<lparr>po_label := l\<rparr>) = Suc 499" for l
    by (simp add: default_pages_def BF_MAX_PAGES_def)
  ultimately show ?thesis
    unfolding extended_list_def collectPages_def max scan_pages.simps
    by (simp add: default_pages_def BF_PAGE_SIZE_def list_page_def bindIO_def returnIO_def)
qed

theorem bf_pool_page_witness:
  "\<exists>infos. bp_getPoolList bf_default (by_path bf_default bf_pool_server) example_schemas bf_plain_deps
      \<lparr>pl_limit = 1, pl_offset = 0, pl_ticker = None\<rparr> () = (Inr infos, ()) \<and>
    map (\<lambda>i. (pi_poolId i, pi_activeStake i)) infos = [(''pool1b'', ''70'')] \<and> page_of_ranking [large_row] infos"
proof -
  let ?n = "by_path bf_default bf_pool_server" and ?p = "\<lparr>pl_limit = 1, pl_offset = 0, pl_ticker = None\<rparr>"
  have world: "bf_pool_world (\<lambda>_. True) bf_default ?n example_schemas bf_plain_deps"
    by (simp add: bf_pool_world_def bf_plain_deps_def uncached.keyed_cache_axioms quiet_epoch_def keeps_def)
  have "distinct (map ps_pool_id rows)" if "extended_list bf_default ?n example_schemas u = (Inr rows, v)" for u rows v
    using that example_list [of u] by (simp add: small_row_def large_row_def)
  with example_own_pool have upstream: "bf_pool_upstream bf_default ?n example_schemas"
    unfolding bf_pool_upstream_def by blast
  have order: "js_sort byActiveStakeDesc [small_row, large_row] = [large_row, small_row]"
    by (simp add: js_sort_def byActiveStakeDesc_le small_row_def large_row_def activeStakeOf_def nat_of_string_def digit_val_def)
  obtain retiring where retiring: "retiringPools bf_default ?n example_schemas () = (Inr retiring, ())"
    using retiringPools_total [of bf_default ?n example_schemas "()"] by auto
  let ?info = "bf_mapPoolInfo large_pool_row None (jm_get retiring ''pool1b'')"
  have meta: "jm_get (inline_metadata [large_row]) ''pool1b'' = Some None"
    by (simp add: inline_metadata_def large_row_def mapPoolMetadata_def jm_get_def)
  have "pool_path ''pool1b'' = ''/pools/pool1b''" by (simp add: example_pool_path)
  with example_pool meta have "bp_poolInfoByIds bf_default ?n example_schemas [''pool1b''] retiring (Some (inline_metadata [large_row])) ()
      = (Inr [?info], ())"
    by (simp add: bp_poolInfoByIds_def hydrate_pool_def bindIO_def returnIO_def map_filter_simps)
  then have run: "bp_getPoolList bf_default ?n example_schemas bf_plain_deps ?p () = (Inr (with_ranked_stake [large_row] [?info]), ())"
    using example_list [of "()"] order retiring
    by (simp add: bp_getPoolList_def cacheEpoch_def bf_plain_deps_def bp_servePage_def bp_rankedPools_def no_cache_read_def
        bindIO_def returnIO_def Let_def ticker_matches_def) (simp add: large_row_def)
  from bf_pool_page [OF world upstream _ _ run] example_list order
  have "page_of_ranking [large_row] (with_ranked_stake [large_row] [?info])"
    by (auto simp: ticker_matches_def)
  moreover have "map (\<lambda>i. (pi_poolId i, pi_activeStake i)) (with_ranked_stake [large_row] [?info]) = [(''pool1b'', ''70'')]"
    by (simp add: with_ranked_stake_def ranked_stake_def large_row_def bf_mapPoolInfo_def large_pool_row_def numeric_or_zero_def jm_get_def)
  ultimately show ?thesis by (intro exI [of _ "with_ranked_stake [large_row] [?info]"] conjI run)
qed

end
