(* ===== verification/Chain_Reads.thy ===== *)
theory Chain_Reads
  imports Blockfrost_Lists Koios_Client
begin

text \<open>
  \<^verbatim>\<open>src/providers/koios/chain.ts\<close> and \<^verbatim>\<open>src/providers/blockfrost/chain.ts\<close>: the tip and the protocol
  parameters, read from one row each and mapped to the shapes of the domain.
\<close>

definition wholeNonNegative :: "int \<Rightarrow> bool" where
  "wholeNonNegative i \<longleftrightarrow> isSafeInteger i \<and> 0 \<le> i"

section \<open>Koios\<close>

record koiosTipRow =
  kt_hash :: string
  kt_epoch_no :: int
  kt_abs_slot :: int
  kt_block_no :: int
  kt_block_time :: int

definition koiosTipRow_ok :: "koiosTipRow \<Rightarrow> bool" where
  "koiosTipRow_ok r \<longleftrightarrow> wholeNonNegative (kt_epoch_no r) \<and> wholeNonNegative (kt_abs_slot r) \<and>
     wholeNonNegative (kt_block_no r) \<and> wholeNonNegative (kt_block_time r)"

text \<open>The parameters both services report under one name; what differs is in the extensions.\<close>

record paramsRow =
  pa_epoch :: int
  pa_min_fee_a :: int
  pa_min_fee_b :: int
  pa_max_tx_size :: int
  pa_max_block_size :: int
  pa_key_deposit :: numeric
  pa_pool_deposit :: numeric
  pa_min_pool_cost :: numeric
  pa_coins_per_utxo_size :: numeric
  pa_collateral_percent :: int
  pa_max_collateral_inputs :: int
  pa_price_mem :: rat
  pa_price_step :: rat
  pa_max_tx_ex_mem :: numeric
  pa_max_tx_ex_steps :: numeric
  pa_protocol_major :: int
  pa_protocol_minor :: int
  pa_cost_models :: "json option"

definition paramsRow_ok :: "'z paramsRow_scheme \<Rightarrow> bool" where
  "paramsRow_ok r \<longleftrightarrow>
     list_all wholeNonNegative [pa_epoch r, pa_min_fee_a r, pa_min_fee_b r, pa_max_tx_size r, pa_max_block_size r,
       pa_collateral_percent r, pa_max_collateral_inputs r, pa_protocol_major r, pa_protocol_minor r] \<and>
     list_all numeric_ok [pa_key_deposit r, pa_pool_deposit r, pa_min_pool_cost r, pa_coins_per_utxo_size r,
       pa_max_tx_ex_mem r, pa_max_tx_ex_steps r] \<and>
     0 \<le> pa_price_mem r \<and> 0 \<le> pa_price_step r"

record koiosParamsRow = paramsRow +
  kp_max_val_size :: int

definition koiosParamsRow_ok :: "koiosParamsRow \<Rightarrow> bool" where
  "koiosParamsRow_ok r \<longleftrightarrow> paramsRow_ok r \<and> wholeNonNegative (kp_max_val_size r)"

definition koios_getTip :: "koios_client \<Rightarrow> ('s, 'j) net \<Rightarrow> ('j \<Rightarrow> koiosTipRow option) \<Rightarrow> ('s kworld, Tip) io_result" where
  "koios_getTip c n dec =
     bindIO (koios_getFirst c n (refine dec koiosTipRow_ok) ''/tip'') (\<lambda>row.
     returnIO \<lparr>tip_block = kt_block_no row, tip_slot = kt_abs_slot row, tip_epoch = kt_epoch_no row,
       tip_hash = kt_hash row, tip_blockTime = kt_block_time row\<rparr>)"

definition koios_params :: "koiosParamsRow \<Rightarrow> ProtocolParams" where
  "koios_params row = \<lparr>
     pp_epoch = pa_epoch row,
     pp_minFeeA = pa_min_fee_a row,
     pp_minFeeB = pa_min_fee_b row,
     pp_maxTxSize = pa_max_tx_size row,
     pp_maxBlockBodySize = pa_max_block_size row,
     pp_keyDeposit = numeric_string (pa_key_deposit row),
     pp_poolDeposit = numeric_string (pa_pool_deposit row),
     pp_minPoolCost = numeric_string (pa_min_pool_cost row),
     pp_coinsPerUtxoByte = numeric_string (pa_coins_per_utxo_size row),
     pp_maxValueSize = kp_max_val_size row,
     pp_collateralPercent = pa_collateral_percent row,
     pp_maxCollateralInputs = pa_max_collateral_inputs row,
     pp_priceMem = pa_price_mem row,
     pp_priceStep = pa_price_step row,
     pp_maxTxExMem = numeric_string (pa_max_tx_ex_mem row),
     pp_maxTxExSteps = numeric_string (pa_max_tx_ex_steps row),
     pp_protocolVersion = (pa_protocol_major row, pa_protocol_minor row),
     pp_costModels = Some (case pa_cost_models row of None \<Rightarrow> JObj [] | Some m \<Rightarrow> m)\<rparr>"

definition koios_getProtocolParams :: "koios_client \<Rightarrow> ('s, 'j) net \<Rightarrow> ('j \<Rightarrow> koiosParamsRow option) \<Rightarrow>
    ('s kworld, ProtocolParams) io_result" where
  "koios_getProtocolParams c n dec =
     bindIO (koios_getFirst c n (refine dec koiosParamsRow_ok) ''/epoch_params?order=epoch_no.desc&limit=1'') (\<lambda>row.
     returnIO (koios_params row))"

section \<open>Blockfrost\<close>

record bfTipRow =
  bt_height :: int
  bt_hash :: string
  bt_slot :: int
  bt_epoch :: int
  bt_time :: int

definition bfTipRow_ok :: "bfTipRow \<Rightarrow> bool" where
  "bfTipRow_ok r \<longleftrightarrow> wholeNonNegative (bt_height r) \<and> wholeNonNegative (bt_slot r) \<and>
     wholeNonNegative (bt_epoch r) \<and> wholeNonNegative (bt_time r)"

text \<open>\<open>max_val_size\<close> is a number or a digit string here, and must be small enough to become a number.\<close>

record bfParamsRow = paramsRow +
  bq_max_val_size :: numeric
  bq_cost_models_raw :: "json option"

definition bfParamsRow_ok :: "bfParamsRow \<Rightarrow> bool" where
  "bfParamsRow_ok r \<longleftrightarrow> paramsRow_ok r \<and> smallNumeric (bq_max_val_size r) \<noteq> None"

definition bf_getTip :: "bf_client \<Rightarrow> ('s, 'j) bf_net \<Rightarrow> ('j jvalue \<Rightarrow> bfTipRow option) \<Rightarrow> ('s, Tip) io_result" where
  "bf_getTip c n dec =
     bindIO (bf_get c n (refine dec bfTipRow_ok) ''/blocks/latest'') (\<lambda>row.
     returnIO \<lparr>tip_block = bt_height row, tip_slot = bt_slot row, tip_epoch = bt_epoch row,
       tip_hash = bt_hash row, tip_blockTime = bt_time row\<rparr>)"

definition bf_params :: "bfParamsRow \<Rightarrow> ProtocolParams" where
  "bf_params row = \<lparr>
     pp_epoch = pa_epoch row,
     pp_minFeeA = pa_min_fee_a row,
     pp_minFeeB = pa_min_fee_b row,
     pp_maxTxSize = pa_max_tx_size row,
     pp_maxBlockBodySize = pa_max_block_size row,
     pp_keyDeposit = numeric_string (pa_key_deposit row),
     pp_poolDeposit = numeric_string (pa_pool_deposit row),
     pp_minPoolCost = numeric_string (pa_min_pool_cost row),
     pp_coinsPerUtxoByte = numeric_string (pa_coins_per_utxo_size row),
     pp_maxValueSize = the (smallNumeric (bq_max_val_size row)),
     pp_collateralPercent = pa_collateral_percent row,
     pp_maxCollateralInputs = pa_max_collateral_inputs row,
     pp_priceMem = pa_price_mem row,
     pp_priceStep = pa_price_step row,
     pp_maxTxExMem = numeric_string (pa_max_tx_ex_mem row),
     pp_maxTxExSteps = numeric_string (pa_max_tx_ex_steps row),
     pp_protocolVersion = (pa_protocol_major row, pa_protocol_minor row),
     pp_costModels = Some (case bq_cost_models_raw row of Some m \<Rightarrow> m
       | None \<Rightarrow> (case pa_cost_models row of Some m \<Rightarrow> m | None \<Rightarrow> JObj []))\<rparr>"

definition bf_getProtocolParams :: "bf_client \<Rightarrow> ('s, 'j) bf_net \<Rightarrow> ('j jvalue \<Rightarrow> bfParamsRow option) \<Rightarrow>
    ('s, ProtocolParams) io_result" where
  "bf_getProtocolParams c n dec =
     bindIO (bf_get c n (refine dec bfParamsRow_ok) ''/epochs/latest/parameters'') (\<lambda>row.
     returnIO (bf_params row))"

section \<open>Facts\<close>

text \<open>What a transaction builder may rely on.\<close>

definition params_ok :: "ProtocolParams \<Rightarrow> bool" where
  "params_ok p \<longleftrightarrow>
     list_all wholeNonNegative [pp_epoch p, pp_minFeeA p, pp_minFeeB p, pp_maxTxSize p, pp_maxBlockBodySize p,
       pp_maxValueSize p, pp_collateralPercent p, pp_maxCollateralInputs p,
       fst (pp_protocolVersion p), snd (pp_protocolVersion p)] \<and>
     list_all all_digits [pp_keyDeposit p, pp_poolDeposit p, pp_minPoolCost p, pp_coinsPerUtxoByte p,
       pp_maxTxExMem p, pp_maxTxExSteps p] \<and>
     0 \<le> pp_priceMem p \<and> 0 \<le> pp_priceStep p \<and> pp_costModels p \<noteq> None"

definition tip_ok :: "Tip \<Rightarrow> bool" where
  "tip_ok t \<longleftrightarrow> list_all wholeNonNegative [tip_block t, tip_slot t, tip_epoch t, tip_blockTime t]"

lemma numeric_string_digits: "numeric_ok v \<Longrightarrow> all_digits (numeric_string v)"
  using numeric_ok_string by blast

lemma smallNumeric_whole: "smallNumeric v = Some i \<Longrightarrow> wholeNonNegative i"
  by (auto simp: smallNumeric_def wholeNonNegative_def isSafeInteger_def split: numeric.splits if_splits)

lemma koios_params_ok: "koiosParamsRow_ok r \<Longrightarrow> params_ok (koios_params r)"
  by (simp add: koiosParamsRow_ok_def paramsRow_ok_def params_ok_def koios_params_def numeric_string_digits)

lemma bf_params_ok: "bfParamsRow_ok r \<Longrightarrow> params_ok (bf_params r)"
  by (auto simp: bfParamsRow_ok_def paramsRow_ok_def params_ok_def bf_params_def numeric_string_digits
      intro: smallNumeric_whole)

lemma koios_getFirst_row:
  assumes "koios_getFirst c n row path s = (Inr a, t)"
  shows "\<exists>j. row j = Some a"
proof -
  from retry_loop_Inr [OF assms [unfolded koios_getFirst_def koios_read_def]] obtain rows where
    "(case rows of [] \<Rightarrow> Inl (MalformedUpstreamError (''koios returned no rows for '' @ path))
       | r # _ \<Rightarrow> (case row r of
           None \<Rightarrow> Inl (MalformedUpstreamError (''koios response shape mismatch for '' @ path))
         | Some a \<Rightarrow> Inr a)) = Inr a"
    by (simp only: io_simps sum_simps prod.inject) blast
  then show ?thesis by (cases rows) (auto split: option.splits)
qed

lemma bf_get_row: "bf_get c n sch path s = (Inr a, t) \<Longrightarrow> \<exists>v. sch v = Some a"
  unfolding bf_get_def bf_read_def
  by (drule retry_loop_Inr) (auto simp: io_simps sum_simps bf_answer_def bf_failure_def bf_parse_def Let_def split: if_splits option.splits)

lemma tips_ok:
  "koios_getTip kc kn kdec s = (Inr t, v) \<Longrightarrow> tip_ok t"
  "bf_getTip c n dec u = (Inr t, w) \<Longrightarrow> tip_ok t"
  unfolding koios_getTip_def bf_getTip_def
  by (auto simp: io_simps refine_Some koiosTipRow_ok_def bfTipRow_ok_def tip_ok_def
      dest!: koios_getFirst_row bf_get_row)


definition example_params :: bfParamsRow where
  "example_params = \<lparr>pa_epoch = 500, pa_min_fee_a = 44, pa_min_fee_b = 155381, pa_max_tx_size = 16384,
     pa_max_block_size = 90112, pa_key_deposit = NumStr ''2000000'', pa_pool_deposit = Num 500000000,
     pa_min_pool_cost = NumStr ''170000000'', pa_coins_per_utxo_size = NumStr ''4310'', pa_collateral_percent = 150,
     pa_max_collateral_inputs = 3, pa_price_mem = 577 / 10000, pa_price_step = 721 / 10000000,
     pa_max_tx_ex_mem = NumStr ''14000000'', pa_max_tx_ex_steps = NumStr ''10000000000'', pa_protocol_major = 10,
     pa_protocol_minor = 0, pa_cost_models = None, bq_max_val_size = NumStr ''5000'', bq_cost_models_raw = None\<rparr>"

lemma example_params_ok: "bfParamsRow_ok example_params"
  by (simp add: bfParamsRow_ok_def paramsRow_ok_def example_params_def wholeNonNegative_def isSafeInteger_def
      MAX_SAFE_INTEGER_def all_digits_def is_digit_def smallNumeric_def nat_of_string_def digit_val_def)


end
