(* ===== verification/Identifiers.thy ===== *)
theory Identifiers
  imports Byron Json Koios_Schema
begin

text \<open>
  What the HTTP boundary accepts as an identifier: \<^verbatim>\<open>src/domain/drep.ts\<close>, \<^verbatim>\<open>src/domain/stake-address.ts\<close>,
  \<^verbatim>\<open>src/domain/constants.ts\<close>, and the checks of \<^verbatim>\<open>src/http/routes\<close> (payment addresses, key hashes,
  pool ids, subjects, output references).  The Bech32 codec is a third-party package: its two functions
  are the fields of \<open>bech32\<close>, a parameter of every check that decodes.
\<close>

record bech32 =
  decodeUnsafe :: "string \<Rightarrow> nat \<Rightarrow> (string \<times> nat list) option"
  fromWordsUnsafe :: "nat list \<Rightarrow> byte list option"

definition BECH32_LIMIT :: nat where "BECH32_LIMIT = 1023"

definition hex_byte :: "byte \<Rightarrow> string" where
  "hex_byte b = [hex_digit (unat b div 16), hex_digit (unat b mod 16)]"

definition toHex :: "byte list \<Rightarrow> string" where
  "toHex bytes = toLowerCase (concat (map hex_byte bytes))"

section \<open>DReps\<close>

definition DREP_CREDENTIAL_BYTES :: nat where "DREP_CREDENTIAL_BYTES = 28"
definition CIP129_DREP_BYTES :: nat where "CIP129_DREP_BYTES = DREP_CREDENTIAL_BYTES + 1"
definition CIP129_DREP_KEY_HEADER :: byte where "CIP129_DREP_KEY_HEADER = 0x22"
definition CIP129_DREP_SCRIPT_HEADER :: byte where "CIP129_DREP_SCRIPT_HEADER = 0x23"

definition drepCredentialHex :: "bech32 \<Rightarrow> string \<Rightarrow> string option" where
  "drepCredentialHex B v =
     (case decodeUnsafe B v BECH32_LIMIT of
        None \<Rightarrow> None
      | Some (hrp, ws) \<Rightarrow>
          if hrp \<noteq> ''drep'' then None
          else case fromWordsUnsafe B ws of
            None \<Rightarrow> None
          | Some bytes \<Rightarrow>
              if length bytes = CIP129_DREP_BYTES then
                (let header = bytes ! 0 in
                 if header \<noteq> CIP129_DREP_KEY_HEADER \<and> header \<noteq> CIP129_DREP_SCRIPT_HEADER then None
                 else Some (toHex (drop 1 bytes)))
              else if length bytes = DREP_CREDENTIAL_BYTES then Some (toHex bytes)
              else None)"

definition isDrepId :: "bech32 \<Rightarrow> string \<Rightarrow> bool" where
  "isDrepId B v \<longleftrightarrow> drepCredentialHex B v \<noteq> None"

section \<open>Stake addresses\<close>

definition REWARD_ADDRESS_BYTES :: nat where "REWARD_ADDRESS_BYTES = 29"
definition REWARD_KEY_HASH_TYPE :: byte where "REWARD_KEY_HASH_TYPE = 0x0e"
definition REWARD_SCRIPT_HASH_TYPE :: byte where "REWARD_SCRIPT_HASH_TYPE = 0x0f"
definition MAINNET_NETWORK_ID :: byte where "MAINNET_NETWORK_ID = 1"

definition configuredNetworkId :: "string \<Rightarrow> byte option" where
  "configuredNetworkId network =
     (if network = ''mainnet'' then Some MAINNET_NETWORK_ID
      else if network = ''preprod'' \<or> network = ''preview'' then Some 0
      else None)"

definition isStakeAddressForNetwork :: "bech32 \<Rightarrow> string \<Rightarrow> string \<Rightarrow> bool" where
  "isStakeAddressForNetwork B v network =
     (case decodeUnsafe B v BECH32_LIMIT of
        None \<Rightarrow> False
      | Some (hrp, ws) \<Rightarrow>
          (case fromWordsUnsafe B ws of
             None \<Rightarrow> False
           | Some bytes \<Rightarrow>
               if length bytes \<noteq> REWARD_ADDRESS_BYTES then False
               else
                 let header = bytes ! 0; addressType = drop_bit 4 header in
                 if addressType \<noteq> REWARD_KEY_HASH_TYPE \<and> addressType \<noteq> REWARD_SCRIPT_HASH_TYPE then False
                 else
                   let networkId = header AND 0x0f;
                       expectedPrefix = (if networkId = MAINNET_NETWORK_ID then ''stake'' else ''stake_test'') in
                   if hrp \<noteq> expectedPrefix then False
                   else configuredNetworkId network = Some networkId))"

section \<open>Payment addresses\<close>

definition CREDENTIAL_BYTES :: nat where "CREDENTIAL_BYTES = 28"
definition BASE_ADDRESS_BYTES :: nat where "BASE_ADDRESS_BYTES = 1 + CREDENTIAL_BYTES * 2"
definition ENTERPRISE_ADDRESS_BYTES :: nat where "ENTERPRISE_ADDRESS_BYTES = 1 + CREDENTIAL_BYTES"
definition POINTER_PREFIX_BYTES :: nat where "POINTER_PREFIX_BYTES = 1 + CREDENTIAL_BYTES"
definition MAX_POINTER_UINT_BYTES :: nat where "MAX_POINTER_UINT_BYTES = 10"

text \<open>The loop of \<open>nextPointerPart\<close>; \<open>i\<close> is the index.\<close>

function pointer_scan :: "byte list \<Rightarrow> nat \<Rightarrow> nat \<Rightarrow> nat option" where
  "pointer_scan bytes offset i =
     (if i < length bytes then
        let b = bytes ! i; len = i - offset + 1 in
        if len > MAX_POINTER_UINT_BYTES then None
        else if len = 1 \<and> b AND 0x80 \<noteq> 0 \<and> b AND 0x7f = 0 then None
        else if len = MAX_POINTER_UINT_BYTES \<and> (bytes ! offset) AND 0x7f > 1 then None
        else if b AND 0x80 = 0 then Some (i + 1)
        else pointer_scan bytes offset (i + 1)
      else None)"
  by pat_completeness auto
termination
  by (relation "measure (\<lambda>(bytes, _, i). length bytes - i)") auto

declare pointer_scan.simps [simp del]

definition nextPointerPart :: "byte list \<Rightarrow> nat \<Rightarrow> nat option" where
  "nextPointerPart bytes offset = pointer_scan bytes offset offset"

definition hasPointerPayload :: "byte list \<Rightarrow> bool" where
  "hasPointerPayload bytes =
     (case nextPointerPart bytes POINTER_PREFIX_BYTES of
        None \<Rightarrow> False
      | Some o1 \<Rightarrow> (case nextPointerPart bytes o1 of
            None \<Rightarrow> False
          | Some o2 \<Rightarrow> (case nextPointerPart bytes o2 of
                None \<Rightarrow> False
              | Some o3 \<Rightarrow> o3 = length bytes)))"

definition isBech32PaymentAddress :: "bech32 \<Rightarrow> string \<Rightarrow> byte option \<Rightarrow> bool" where
  "isBech32PaymentAddress B v expectedNetworkId =
     (case decodeUnsafe B v BECH32_LIMIT of
        None \<Rightarrow> False
      | Some (hrp, ws) \<Rightarrow>
          (case fromWordsUnsafe B ws of
             None \<Rightarrow> False
           | Some bytes \<Rightarrow>
               if bytes = [] then False
               else
                 let type = drop_bit 4 (bytes ! 0); networkId = (bytes ! 0) AND 0x0f in
                 if networkId \<noteq> 0 \<and> networkId \<noteq> 1 then False
                 else if hrp \<noteq> (if networkId = 1 then ''addr'' else ''addr_test'') then False
                 else if expectedNetworkId \<noteq> None \<and> expectedNetworkId \<noteq> Some networkId then False
                 else if type \<le> 3 then length bytes = BASE_ADDRESS_BYTES
                 else if type \<le> 5 then length bytes > POINTER_PREFIX_BYTES \<and> hasPointerPayload bytes
                 else if type \<le> 7 then length bytes = ENTERPRISE_ADDRESS_BYTES
                 else False))"

definition isPaymentAddress :: "bech32 \<Rightarrow> (string \<Rightarrow> byte list result) \<Rightarrow> string \<Rightarrow> byte option \<Rightarrow> bool" where
  "isPaymentAddress B b58 v expectedNetworkId \<longleftrightarrow>
     isBech32PaymentAddress B v expectedNetworkId \<or> isByronAddress b58 v"

definition paymentCredentialHex :: "bech32 \<Rightarrow> string \<Rightarrow> string option" where
  "paymentCredentialHex B v =
     (case decodeUnsafe B v BECH32_LIMIT of
        None \<Rightarrow> None
      | Some (hrp, ws) \<Rightarrow>
          if hrp \<noteq> ''addr_vkh'' then None
          else case fromWordsUnsafe B ws of
            None \<Rightarrow> None
          | Some bytes \<Rightarrow> if length bytes \<noteq> 28 then None else Some (concat (map hex_byte bytes)))"

definition POOL_KEY_HASH_BYTES :: nat where "POOL_KEY_HASH_BYTES = 28"

definition isPoolId :: "bech32 \<Rightarrow> string \<Rightarrow> bool" where
  "isPoolId B v =
     (case decodeUnsafe B v BECH32_LIMIT of
        None \<Rightarrow> False
      | Some (hrp, ws) \<Rightarrow>
          if hrp \<noteq> ''pool'' then False
          else case fromWordsUnsafe B ws of
            None \<Rightarrow> False
          | Some bytes \<Rightarrow> length bytes = POOL_KEY_HASH_BYTES)"

section \<open>Subjects and output references\<close>

definition POLICY_ID_HEX_LEN :: nat where "POLICY_ID_HEX_LEN = 56"
definition MAX_ASSET_NAME_HEX_LEN :: nat where "MAX_ASSET_NAME_HEX_LEN = 64"
definition MAX_SUBJECT_HEX_LEN :: nat where
  "MAX_SUBJECT_HEX_LEN = POLICY_ID_HEX_LEN + MAX_ASSET_NAME_HEX_LEN"

definition isSubject :: "string \<Rightarrow> bool" where
  "isSubject v \<longleftrightarrow> length v \<ge> POLICY_ID_HEX_LEN \<and> length v \<le> MAX_SUBJECT_HEX_LEN \<and>
     length v mod 2 = 0 \<and> v \<noteq> [] \<and> list_all is_hex v"

definition isTxHash :: "string \<Rightarrow> bool" where
  "isTxHash s \<longleftrightarrow> length s = 64 \<and> list_all is_hex s"

definition MAX_OUTPUT_INDEX :: nat where "MAX_OUTPUT_INDEX = 32767"

definition between :: "char \<Rightarrow> char \<Rightarrow> char \<Rightarrow> bool" where
  "between lo hi c \<longleftrightarrow> (of_char lo :: nat) \<le> of_char c \<and> (of_char c :: nat) \<le> of_char hi"

text \<open>The alternatives of the index part of \<open>UTXO_REF\<close>, in the order of the pattern.\<close>

definition index_pattern :: "string \<Rightarrow> bool" where
  "index_pattern s \<longleftrightarrow>
     (case s of
        [a, b, c, d, e] \<Rightarrow>
          a = CHR ''0'' \<and> list_all is_digit [b, c, d, e] \<or>
          between CHR ''1'' CHR ''2'' a \<and> list_all is_digit [b, c, d, e] \<or>
          a = CHR ''3'' \<and> between CHR ''0'' CHR ''1'' b \<and> list_all is_digit [c, d, e] \<or>
          a = CHR ''3'' \<and> b = CHR ''2'' \<and> between CHR ''0'' CHR ''6'' c \<and> list_all is_digit [d, e] \<or>
          a = CHR ''3'' \<and> b = CHR ''2'' \<and> c = CHR ''7'' \<and> between CHR ''0'' CHR ''5'' d \<and> is_digit e \<or>
          a = CHR ''3'' \<and> b = CHR ''2'' \<and> c = CHR ''7'' \<and> d = CHR ''6'' \<and> between CHR ''0'' CHR ''7'' e
      | _ \<Rightarrow> 1 \<le> length s \<and> length s \<le> 4 \<and> list_all is_digit s)"

definition utxo_ref_matches :: "string \<Rightarrow> bool" where
  "utxo_ref_matches ref \<longleftrightarrow> isTxHash (take 64 ref) \<and> take 1 (drop 64 ref) = ''#'' \<and>
     index_pattern (drop 65 ref)"

definition normalizeUtxoRef :: "string \<Rightarrow> string option" where
  "normalizeUtxoRef ref =
     (if \<not> utxo_ref_matches ref then None
      else let index = nat_of_string (drop 65 ref) in
        if \<not> isSafeInteger (int index) \<or> index > MAX_OUTPUT_INDEX then None
        else Some (toLowerCase (take 64 ref) @ ''#'' @ string_of_nat index))"

section \<open>The encoding of a pointer address\<close>

lemma low7: "unat (b AND 0x7f :: byte) = unat b mod 128"
proof -
  have "(0x7f :: byte) = mask 7" by (simp add: mask_eq_exp_minus_1)
  then have "b AND 0x7f = take_bit 7 b" by (simp add: take_bit_eq_mask)
  then show ?thesis by (simp add: take_bit_eq_mod unat_mod)
qed

lemma byte_lt: "unat (b :: byte) < 256"
  using unsigned_less [of b] by simp

lemma high_bit: "(b AND 0x80 :: byte) = 0 \<longleftrightarrow> unat b < 128"
proof -
  have "(b AND 0x80 :: byte) = 0 \<longleftrightarrow> \<not> bit b 7"
    using and_exp_eq_0_iff_not_bit [of b 7] by simp
  also have "bit b 7 \<longleftrightarrow> bit (unat b) 7"
    by (simp add: bit_unsigned_iff)
  also have "\<dots> \<longleftrightarrow> odd (unat b div 128)"
    by (simp add: bit_iff_odd)
  finally show ?thesis using byte_lt [of b] by (cases "unat b < 128") (auto simp: div_if)
qed

text \<open>
  A natural number in base 128, most significant group first and without leading zeros; every byte but
  the last carries the continuation bit.
\<close>

fun base128 :: "nat \<Rightarrow> nat list" where
  "base128 n = (if n < 128 then [n] else base128 (n div 128) @ [n mod 128])"

declare base128.simps [simp del]

definition pointer_uint :: "nat \<Rightarrow> byte list" where
  "pointer_uint n = (let gs = base128 n in map (\<lambda>g. word_of_nat (128 + g)) (butlast gs) @ [word_of_nat (last gs)])"

definition groups_val :: "nat list \<Rightarrow> nat" where
  "groups_val gs = foldl (\<lambda>v g. 128 * v + g) 0 gs"

lemma groups_val_snoc: "groups_val (gs @ [g]) = 128 * groups_val gs + g"
  by (simp add: groups_val_def)

lemma groups_val_Cons: "groups_val (g # gs) = g * 128 ^ length gs + groups_val gs"
proof -
  have "foldl (\<lambda>v g. 128 * v + g) a gs = a * 128 ^ length gs + groups_val gs" for a
  proof (induction gs rule: rev_induct)
    case (snoc g gs)
    then show ?case by (simp add: groups_val_snoc)
  qed (simp add: groups_val_def)
  from this [of g] show ?thesis by (simp add: groups_val_def)
qed

lemma groups_val_lt: "\<forall>g \<in> set gs. g < 128 \<Longrightarrow> groups_val gs < 128 ^ length gs"
proof (induction gs rule: rev_induct)
  case (snoc g gs)
  then have "groups_val gs + 1 \<le> 128 ^ length gs" "g < 128" by auto
  then have "128 * (groups_val gs + 1) \<le> 128 * 128 ^ length gs" by (intro mult_left_mono) auto
  with \<open>g < 128\<close> show ?case by (simp add: groups_val_snoc)
qed (simp add: groups_val_def)

definition minimal :: "nat list \<Rightarrow> bool" where
  "minimal gs \<longleftrightarrow> gs \<noteq> [] \<and> (\<forall>g \<in> set gs. g < 128) \<and> (1 < length gs \<longrightarrow> hd gs \<noteq> 0)"

lemma base128_val: "groups_val (base128 n) = n"
proof (induction n rule: base128.induct)
  case (1 n)
  show ?case
  proof (cases "n < 128")
    case True
    then show ?thesis by (simp add: base128.simps [of n] groups_val_def)
  next
    case False
    with 1 show ?thesis by (simp add: base128.simps [of n] groups_val_snoc)
  qed
qed

lemma base128_minimal: "minimal (base128 n) \<and> (0 < n \<longrightarrow> hd (base128 n) \<noteq> 0)"
proof (induction n rule: base128.induct)
  case (1 n)
  show ?case
  proof (cases "n < 128")
    case True
    then show ?thesis by (simp add: base128.simps [of n] minimal_def)
  next
    case False
    then have "0 < n div 128" by (simp add: div_greater_zero_iff)
    with 1 False show ?thesis by (auto simp: base128.simps [of n] minimal_def hd_append)
  qed
qed

lemma minimal_base128: "minimal gs \<Longrightarrow> base128 (groups_val gs) = gs"
proof (induction gs rule: rev_induct)
  case (snoc g gs)
  show ?case
  proof (cases "gs = []")
    case True
    with snoc show ?thesis by (simp add: groups_val_def minimal_def base128.simps [of g])
  next
    case False
    with snoc have m: "minimal gs" "hd gs \<noteq> 0" "g < 128" by (auto simp: minimal_def hd_append)
    obtain h t where gs: "gs = h # t" using False by (cases gs) auto
    have "0 < groups_val gs" using m(2) by (simp add: gs groups_val_Cons)
    then have "\<not> 128 * groups_val gs + g < 128" by simp
    then show ?thesis
      using snoc.IH [OF m(1)] m(3)
      by (subst base128.simps) (simp add: groups_val_snoc)
  qed
qed (simp add: minimal_def)

text \<open>Ten groups whose first is at most one are the numbers below \<open>2 ^ 64\<close>.\<close>

lemma minimal_bound:
  assumes "minimal gs"
  shows "groups_val gs < 2 ^ 64 \<longleftrightarrow> length gs \<le> 10 \<and> (length gs = 10 \<longrightarrow> hd gs \<le> 1)"
proof -
  from assms obtain h t where gs: "gs = h # t" by (cases gs) (auto simp: minimal_def)
  have t: "groups_val t < 128 ^ length t" using assms by (intro groups_val_lt) (auto simp: minimal_def gs)
  have all: "groups_val gs < 128 ^ length gs" using assms by (intro groups_val_lt) (auto simp: minimal_def)
  have val: "groups_val gs = h * 128 ^ length t + groups_val t" by (simp add: gs groups_val_Cons)
  consider "length gs \<le> 9" | "length gs = 10" | "11 \<le> length gs" by linarith
  then show ?thesis
  proof cases
    case 1
    have "(128::nat) ^ length gs \<le> 128 ^ 9" using 1 by (intro power_increasing) auto
    with all 1 show ?thesis by simp
  next
    case 2
    then have len: "length t = 9" by (simp add: gs)
    have "h \<le> 1 \<longleftrightarrow> groups_val gs < 2 ^ 64"
    proof
      assume "h \<le> 1"
      then have "h * 128 ^ 9 \<le> 128 ^ 9" by simp
      with t show "groups_val gs < 2 ^ 64" by (simp add: val len)
    next
      assume small: "groups_val gs < 2 ^ 64"
      show "h \<le> 1"
      proof (rule ccontr)
        assume "\<not> h \<le> 1"
        then have "2 * 128 ^ 9 \<le> h * 128 ^ 9" by (intro mult_right_mono) auto
        with small show False by (simp add: val len)
      qed
    qed
    with 2 show ?thesis by (simp add: gs)
  next
    case 3
    then have "1 \<le> h" "10 \<le> length t" using assms by (auto simp: minimal_def gs)
    then have "1 * (128::nat) ^ 10 \<le> h * 128 ^ length t" by (intro mult_mono power_increasing) auto
    with 3 show ?thesis by (simp add: val)
  qed
qed

text \<open>The same on the bytes.\<close>

definition pointer_part :: "byte list \<Rightarrow> bool" where
  "pointer_part p \<longleftrightarrow> p \<noteq> [] \<and> (\<forall>b \<in> set (butlast p). 128 \<le> unat b) \<and> unat (last p) < 128 \<and>
     (1 < length p \<longrightarrow> unat (hd p) mod 128 \<noteq> 0) \<and> length p \<le> 10 \<and> (length p = 10 \<longrightarrow> unat (hd p) mod 128 \<le> 1)"

lemma pointer_part_iff: "pointer_part p \<longleftrightarrow> (\<exists>n < 2 ^ 64. p = pointer_uint n)"
proof
  assume p: "pointer_part p"
  define gs where "gs = map (\<lambda>b. unat b mod 128) p"
  have min: "minimal gs" using p by (auto simp: minimal_def gs_def pointer_part_def hd_map)
  have "groups_val gs < 2 ^ 64"
    using p by (subst minimal_bound [OF min]) (auto simp: gs_def pointer_part_def hd_map)
  moreover have "pointer_uint (groups_val gs) = p"
  proof -
    have "map (\<lambda>g. word_of_nat (128 + g)) (butlast gs) = butlast p"
      unfolding gs_def map_butlast [symmetric] list.map_comp
    proof (rule map_idI)
      fix b assume "b \<in> set (butlast p)"
      then have "128 \<le> unat b" using p by (auto simp: pointer_part_def)
      with byte_lt [of b] have "128 + unat b mod 128 = unat b" by (simp add: le_mod_geq)
      then show "((\<lambda>g. word_of_nat (128 + g)) \<circ> (\<lambda>b. unat b mod 128)) b = b"
        by (metis comp_apply of_nat_unat ucast_id)
    qed
    moreover have "word_of_nat (last gs) = last p"
      using p by (simp add: gs_def pointer_part_def last_map)
    ultimately show ?thesis
      using p by (simp add: pointer_uint_def minimal_base128 [OF min] pointer_part_def)
  qed
  ultimately show "\<exists>n < 2 ^ 64. p = pointer_uint n" by (intro exI [of _ "groups_val gs"]) simp
next
  assume "\<exists>n < 2 ^ 64. p = pointer_uint n"
  then obtain n where n: "n < 2 ^ 64" "p = pointer_uint n" by blast
  define gs where "gs = base128 n"
  have min: "minimal gs" "groups_val gs = n" by (simp_all add: gs_def base128_minimal base128_val)
  have bnd: "length gs \<le> 10" "length gs = 10 \<Longrightarrow> hd gs \<le> 1"
    using minimal_bound [OF min(1)] n(1) min(2) by auto
  have len: "length p = length gs" using min(1) by (simp add: n(2) pointer_uint_def gs_def [symmetric] minimal_def)
  have small: "g < 128" if "g \<in> set gs" for g using min(1) that by (simp add: minimal_def)
  have u: "unat (word_of_nat (128 + g) :: byte) = 128 + g" "unat (word_of_nat g :: byte) = g" if "g \<in> set gs" for g
    using small [OF that] by (simp_all add: unat_of_nat del: of_nat_add)
  obtain h t where hd: "gs = h # t" using min(1) by (cases gs) (auto simp: minimal_def)
  have p: "p = map (\<lambda>g. word_of_nat (128 + g)) (butlast gs) @ [word_of_nat (last gs)]"
    by (simp only: n(2) pointer_uint_def gs_def Let_def)
  have hdp: "unat (hd p) mod 128 = hd gs"
    using u [of h] small [of h] by (cases t) (auto simp: p hd)
  have "\<forall>b \<in> set (butlast p). 128 \<le> unat b"
  proof
    fix b assume "b \<in> set (butlast p)"
    then obtain g where "g \<in> set gs" "b = word_of_nat (128 + g)"
      by (auto simp: p butlast_append dest: in_set_butlastD)
    then show "128 \<le> unat b" by (simp only: u(1) le_add1)
  qed
  moreover have "unat (last p) < 128" using u(2) [of "last gs"] small [of "last gs"] hd by (auto simp: p)
  ultimately show "pointer_part p"
    using bnd min(1) len by (auto simp: pointer_part_def hdp minimal_def)
qed


text \<open>What the scan stops at, from any byte of a number whose bytes so far continue.\<close>

definition part_at :: "byte list \<Rightarrow> nat \<Rightarrow> nat \<Rightarrow> bool" where
  "part_at bytes off e \<longleftrightarrow> off < e \<and> e \<le> length bytes \<and> e - off \<le> 10 \<and>
     (\<forall>j. off \<le> j \<and> j < e - 1 \<longrightarrow> 128 \<le> unat (bytes ! j)) \<and> unat (bytes ! (e - 1)) < 128 \<and>
     (1 < e - off \<longrightarrow> unat (bytes ! off) mod 128 \<noteq> 0) \<and> (e - off = 10 \<longrightarrow> unat (bytes ! off) mod 128 \<le> 1)"

lemma low7_0: "(b AND 0x7f :: byte) = 0 \<longleftrightarrow> unat b mod 128 = 0"
  by (metis low7 unat_0_iff)

lemma low7_gt1: "(b AND 0x7f :: byte) > 1 \<longleftrightarrow> 1 < unat b mod 128"
  by (simp add: word_less_nat_alt low7)

lemma pointer_scan_part:
  assumes "off \<le> i" and "\<forall>j. off \<le> j \<and> j < i \<longrightarrow> 128 \<le> unat (bytes ! j)"
    and "off < i \<longrightarrow> unat (bytes ! off) mod 128 \<noteq> 0" and "i < length bytes \<or> i = length bytes"
  shows "pointer_scan bytes off i = Some e \<longleftrightarrow> i < e \<and> part_at bytes off e"
  using assms
proof (induction bytes off i rule: pointer_scan.induct)
  case (1 bytes off i)
  let ?b = "bytes ! i" and ?len = "i - off + 1"
  consider (out) "i = length bytes" | (long) "i < length bytes" "?len > 10"
    | (zero) "i < length bytes" "?len = 1" "128 \<le> unat ?b" "unat ?b mod 128 = 0"
    | (big) "i < length bytes" "?len = 10" "1 < unat (bytes ! off) mod 128"
    | (stop) "i < length bytes" "?len \<le> 10" "unat ?b < 128" "?len = 10 \<longrightarrow> unat (bytes ! off) mod 128 \<le> 1"
    | (go) "i < length bytes" "?len \<le> 10" "128 \<le> unat ?b" "?len = 1 \<longrightarrow> unat ?b mod 128 \<noteq> 0"
        "?len = 10 \<longrightarrow> unat (bytes ! off) mod 128 \<le> 1"
    using 1(5) by linarith
  then show ?case
  proof cases
    case out
    then show ?thesis by (auto simp: pointer_scan.simps [of bytes off "length bytes"] part_at_def)
  next
    case long
    then show ?thesis using 1(2)
      by (auto simp: pointer_scan.simps [of bytes off i] Let_def MAX_POINTER_UINT_BYTES_def part_at_def)
  next
    case zero
    then have i: "i = off" using 1(2) by simp
    from zero have "\<not> part_at bytes off e" if "i < e"
      using that by (cases "e = i + 1") (auto simp: i part_at_def)
    with zero show ?thesis
      by (simp add: pointer_scan.simps [of bytes off off] Let_def MAX_POINTER_UINT_BYTES_def low7_0 high_bit i)
  next
    case big
    then have "\<not> part_at bytes off e" if "i < e" using that 1(2) by (auto simp: part_at_def)
    with big show ?thesis
      by (simp add: pointer_scan.simps [of bytes off i] Let_def MAX_POINTER_UINT_BYTES_def low7_gt1)
  next
    case stop
    have "part_at bytes off e \<longleftrightarrow> e = i + 1" if "i < e"
    proof
      assume p: "part_at bytes off e"
      show "e = i + 1"
      proof (rule ccontr)
        assume "e \<noteq> i + 1"
        with that have "i < e - 1" by linarith
        with p 1(2) have "128 \<le> unat ?b" by (simp add: part_at_def)
        with stop show False by simp
      qed
    next
      assume "e = i + 1"
      with stop 1(2,3,4) show "part_at bytes off e" by (auto simp: part_at_def)
    qed
    moreover have "pointer_scan bytes off i = Some (i + 1)"
      using stop by (auto simp: pointer_scan.simps [of bytes off i] Let_def MAX_POINTER_UINT_BYTES_def low7_gt1 low7_0 high_bit)
    ultimately show ?thesis by auto
  next
    case go
    then have eq: "pointer_scan bytes off i = pointer_scan bytes off (i + 1)"
      by (auto simp: pointer_scan.simps [of bytes off i] Let_def MAX_POINTER_UINT_BYTES_def low7_gt1 low7_0 high_bit)
    have "pointer_scan bytes off (i + 1) = Some e \<longleftrightarrow> i + 1 < e \<and> part_at bytes off e"
    proof (rule 1(1) [OF go(1) refl refl])
      show "\<forall>j. off \<le> j \<and> j < i + 1 \<longrightarrow> 128 \<le> unat (bytes ! j)"
        using 1(3) go(3) by (auto simp: less_Suc_eq)
      show "off < i + 1 \<longrightarrow> unat (bytes ! off) mod 128 \<noteq> 0"
        using 1(2,4) go(4) by (cases "off = i") auto
    qed (use go 1(2) in \<open>auto simp: MAX_POINTER_UINT_BYTES_def low7_gt1 low7_0 high_bit\<close>)
    moreover have "part_at bytes off e \<Longrightarrow> i < e \<Longrightarrow> i + 1 < e"
      using go(3) by (cases "e = i + 1") (auto simp: part_at_def)
    ultimately show ?thesis unfolding eq by linarith
  qed
qed

lemma part_at_pointer_part:
  assumes "off \<le> length bytes"
  shows "part_at bytes off e \<longleftrightarrow> off < e \<and> e \<le> length bytes \<and> pointer_part (take (e - off) (drop off bytes))"
proof (cases "off < e \<and> e \<le> length bytes")
  case True
  let ?p = "take (e - off) (drop off bytes)"
  have len: "length ?p = e - off" using True by auto
  have nth: "?p ! j = bytes ! (off + j)" if "j < e - off" for j using that True by simp
  have "?p \<noteq> []" using True by auto
  have eq: "off + (e - off - 1) = e - 1" using True by simp
  have "?p ! (e - off - 1) = bytes ! (off + (e - off - 1))" using True by (intro nth) linarith
  then have "?p ! (e - off - 1) = bytes ! (e - 1)" unfolding eq .
  then have hl: "hd ?p = bytes ! off" "last ?p = bytes ! (e - 1)"
    using True nth [of 0] unfolding hd_conv_nth [OF \<open>?p \<noteq> []\<close>] last_conv_nth [OF \<open>?p \<noteq> []\<close>] len
    by simp_all
  have bl: "butlast ?p = take (e - off - 1) (drop off bytes)" using True by (subst butlast_take) auto
  have bn: "length (take (e - off - 1) (drop off bytes)) = e - off - 1" using True by auto
  have "(\<forall>b \<in> set (butlast ?p). 128 \<le> unat b) \<longleftrightarrow> (\<forall>j < e - off - 1. 128 \<le> unat (?p ! j))"
    unfolding bl all_set_conv_all_nth bn by simp
  also have "\<dots> \<longleftrightarrow> (\<forall>j. off \<le> j \<and> j < e - 1 \<longrightarrow> 128 \<le> unat (bytes ! j))"
  proof safe
    fix j assume all: "\<forall>j < e - off - 1. 128 \<le> unat (?p ! j)" and j: "off \<le> j" "j < e - 1"
    from all [rule_format, of "j - off"] j nth [of "j - off"] show "128 \<le> unat (bytes ! j)" by simp
  next
    fix j assume "\<forall>j. off \<le> j \<and> j < e - 1 \<longrightarrow> 128 \<le> unat (bytes ! j)" "j < e - off - 1"
    with nth [of j] show "128 \<le> unat (?p ! j)" by simp
  qed
  finally show ?thesis using True \<open>?p \<noteq> []\<close> unfolding part_at_def pointer_part_def hl len by blast
qed (auto simp: part_at_def)

lemma nextPointerPart_iff:
  assumes "off \<le> length bytes"
  shows "nextPointerPart bytes off = Some e \<longleftrightarrow>
    (\<exists>n < 2 ^ 64. \<exists>rest. drop off bytes = pointer_uint n @ rest \<and> e = off + length (pointer_uint n))"
proof -
  have "nextPointerPart bytes off = Some e \<longleftrightarrow> off < e \<and> part_at bytes off e"
    unfolding nextPointerPart_def using assms by (intro pointer_scan_part) auto
  also have "\<dots> \<longleftrightarrow> off < e \<and> e \<le> length bytes \<and> (\<exists>n < 2 ^ 64. take (e - off) (drop off bytes) = pointer_uint n)"
    by (auto simp: part_at_pointer_part [OF assms] pointer_part_iff)
  also have "\<dots> \<longleftrightarrow> (\<exists>n < 2 ^ 64. \<exists>rest. drop off bytes = pointer_uint n @ rest \<and> e = off + length (pointer_uint n))"
  proof safe
    fix n :: nat assume n: "n < 2 ^ 64" "off < e" "e \<le> length bytes" "take (e - off) (drop off bytes) = pointer_uint n"
    then have "drop off bytes = pointer_uint n @ drop (e - off) (drop off bytes)"
      by (metis append_take_drop_id)
    moreover have "e = off + length (pointer_uint n)" using n by (simp flip: n(4))
    ultimately show "\<exists>n < 2 ^ 64. \<exists>rest. drop off bytes = pointer_uint n @ rest \<and> e = off + length (pointer_uint n)"
      using n(1) by blast
  next
    fix n :: nat and rest assume n: "n < 2 ^ 64" "drop off bytes = pointer_uint n @ rest"
    have "pointer_uint n \<noteq> []" by (simp add: pointer_uint_def Let_def)
    then show "off < off + length (pointer_uint n)" by simp
    have "length (drop off bytes) = length (pointer_uint n) + length rest" by (simp add: n(2))
    then show "off + length (pointer_uint n) \<le> length bytes" using assms by simp
    show "\<exists>na < 2 ^ 64. take (off + length (pointer_uint n) - off) (drop off bytes) = pointer_uint na"
      using n by auto
  qed
  finally show ?thesis .
qed

section \<open>Properties\<close>

lemma drop_step: "drop off xs = p @ r \<Longrightarrow> drop (off + length p) xs = r"
  by (metis add.commute append_eq_conv_conj drop_drop)

lemma hasPointerPayload_cases:
  assumes len: "POINTER_PREFIX_BYTES \<le> length bytes"
  shows "hasPointerPayload bytes \<longleftrightarrow> (\<exists>a b c. a < 2 ^ 64 \<and> b < 2 ^ 64 \<and> c < 2 ^ 64 \<and>
    drop POINTER_PREFIX_BYTES bytes = pointer_uint a @ pointer_uint b @ pointer_uint c)"
proof
  assume "hasPointerPayload bytes"
  then obtain o1 o2 where n: "nextPointerPart bytes POINTER_PREFIX_BYTES = Some o1"
    "nextPointerPart bytes o1 = Some o2" "nextPointerPart bytes o2 = Some (length bytes)"
    by (auto simp: hasPointerPayload_def split: option.splits)
  from n(1) obtain a r1 where a: "a < 2 ^ 64" "drop POINTER_PREFIX_BYTES bytes = pointer_uint a @ r1"
    "o1 = POINTER_PREFIX_BYTES + length (pointer_uint a)"
    by (auto simp: nextPointerPart_iff [OF len])
  have r1: "drop o1 bytes = r1" using drop_step [OF a(2)] by (simp add: a(3))
  have l1: "o1 \<le> length bytes" using len arg_cong [OF a(2), of length] by (simp add: a(3))
  from n(2) obtain b r2 where b: "b < 2 ^ 64" "r1 = pointer_uint b @ r2" "o2 = o1 + length (pointer_uint b)"
    by (auto simp: nextPointerPart_iff [OF l1] r1)
  have r2: "drop o2 bytes = r2" using drop_step [of o1 bytes] r1 b(2,3) by blast
  have l2: "o2 \<le> length bytes" using l1 arg_cong [OF r1, of length] arg_cong [OF b(2), of length] by (simp add: b(3))
  from n(3) obtain c r3 where c: "c < 2 ^ 64" "r2 = pointer_uint c @ r3" "length bytes = o2 + length (pointer_uint c)"
    by (auto simp: nextPointerPart_iff [OF l2] r2)
  have "length (drop o2 bytes) = length (pointer_uint c) + length r3" using r2 c(2) by simp
  then have "r3 = []" using c(3) by simp
  with a b c show "\<exists>a b c. a < 2 ^ 64 \<and> b < 2 ^ 64 \<and> c < 2 ^ 64 \<and>
    drop POINTER_PREFIX_BYTES bytes = pointer_uint a @ pointer_uint b @ pointer_uint c" by auto
next
  assume "\<exists>a b c. a < 2 ^ 64 \<and> b < 2 ^ 64 \<and> c < 2 ^ 64 \<and>
    drop POINTER_PREFIX_BYTES bytes = pointer_uint a @ pointer_uint b @ pointer_uint c"
  then obtain a b c :: nat where abc: "a < 2 ^ 64" "b < 2 ^ 64" "c < 2 ^ 64"
    "drop POINTER_PREFIX_BYTES bytes = pointer_uint a @ pointer_uint b @ pointer_uint c" by blast
  let ?o1 = "POINTER_PREFIX_BYTES + length (pointer_uint a)"
  let ?o2 = "?o1 + length (pointer_uint b)"
  have all: "length bytes = ?o2 + length (pointer_uint c)" using len arg_cong [OF abc(4), of length] by simp
  have d1: "drop ?o1 bytes = pointer_uint b @ pointer_uint c"
    by (rule drop_step [OF abc(4)])
  have d2: "drop ?o2 bytes = pointer_uint c"
    by (rule drop_step [OF d1])
  have "nextPointerPart bytes POINTER_PREFIX_BYTES = Some ?o1" using abc by (auto simp: nextPointerPart_iff [OF len])
  moreover have "nextPointerPart bytes ?o1 = Some ?o2"
    using abc(2) d1 all by (subst nextPointerPart_iff) auto
  moreover have "nextPointerPart bytes ?o2 = Some (length bytes)"
    using abc(3) d2 all by (subst nextPointerPart_iff) auto
  ultimately show "hasPointerPayload bytes" by (simp add: hasPointerPayload_def)
qed

text \<open>
  C24: the scan of a pointer address accepts exactly the ledger's encoding: what follows the credential
  is three natural numbers below \<open>2 ^ 64\<close>, each in base 128, most significant group first, without a
  redundant leading zero group, and nothing else.
\<close>

theorem hasPointerPayload_iff:
  assumes "POINTER_PREFIX_BYTES \<le> length bytes"
  shows "hasPointerPayload bytes \<longleftrightarrow> (\<exists>a b c. a < 2 ^ 64 \<and> b < 2 ^ 64 \<and> c < 2 ^ 64 \<and>
    drop POINTER_PREFIX_BYTES bytes = pointer_uint a @ pointer_uint b @ pointer_uint c)"
  by (rule hasPointerPayload_cases [OF assms])

theorem hasPointerPayload_iff_witness:
  "hasPointerPayload (replicate 29 0x41 @ [0x81, 0x48, 0x00, 0x7f]) \<and>
   \<not> hasPointerPayload (replicate 29 0x41 @ [0x80, 0x48, 0x00, 0x7f])"
proof
  let ?bs = "replicate 29 0x41 @ [0x81, 0x48, 0x00, 0x7f :: byte]"
  have enc: "pointer_uint 200 = [0x81, 0x48]" "pointer_uint 0 = [0]" "pointer_uint 127 = [0x7f]"
    by (simp_all add: pointer_uint_def base128.simps)
  have "POINTER_PREFIX_BYTES \<le> length ?bs" "drop POINTER_PREFIX_BYTES ?bs = pointer_uint 200 @ pointer_uint 0 @ pointer_uint 127"
    by (simp_all add: POINTER_PREFIX_BYTES_def CREDENTIAL_BYTES_def enc)
  moreover have "(200::nat) < 2 ^ 64" "(0::nat) < 2 ^ 64" "(127::nat) < 2 ^ 64" by simp_all
  ultimately show "hasPointerPayload ?bs" by (subst hasPointerPayload_iff) blast+
  show "\<not> hasPointerPayload (replicate 29 0x41 @ [0x80, 0x48, 0x00, 0x7f])"
    by (simp add: hasPointerPayload_def nextPointerPart_def pointer_scan.simps Let_def MAX_POINTER_UINT_BYTES_def
        POINTER_PREFIX_BYTES_def CREDENTIAL_BYTES_def nth_append)
qed

lemma header_split: "drop_bit 4 h = (t :: byte) \<and> h AND 0x0f = i \<longleftrightarrow> unat h div 16 = unat t \<and> unat h mod 16 = unat i"
proof -
  have "(0x0f :: byte) = mask 4" by (simp add: mask_eq_exp_minus_1)
  then have "h AND 0x0f = take_bit 4 h" by (simp add: take_bit_eq_mask)
  then have "unat (h AND 0x0f) = unat h mod 16" by (simp add: take_bit_eq_mod unat_mod)
  moreover have "unat (drop_bit 4 h) = unat h div 16" by (simp add: drop_bit_eq_div unat_div)
  ultimately show ?thesis by (metis word_unat_eq_iff)
qed

lemma header_iff:
  assumes "unat t < 16" and "unat i < 16"
  shows "drop_bit 4 h = (t :: byte) \<and> h AND 0x0f = i \<longleftrightarrow> unat h = 16 * unat t + unat i"
  unfolding header_split
proof
  assume "unat h div 16 = unat t \<and> unat h mod 16 = unat i"
  then show "unat h = 16 * unat t + unat i" using div_mult_mod_eq [of "unat h" 16] by linarith
next
  assume "unat h = 16 * unat t + unat i"
  then show "unat h div 16 = unat t \<and> unat h mod 16 = unat i" using assms by simp
qed

lemma reward_header:
  "(drop_bit 4 h = 0x0e \<or> drop_bit 4 h = (0x0f :: byte)) \<and> h AND 0x0f = 1 \<longleftrightarrow> h = 0xe1 \<or> h = 0xf1"
  "(drop_bit 4 h = 0x0e \<or> drop_bit 4 h = (0x0f :: byte)) \<and> h AND 0x0f = 0 \<longleftrightarrow> h = 0xe0 \<or> h = 0xf0"
  using header_iff [of "0x0e" 1 h] header_iff [of "0x0f" 1 h] header_iff [of "0x0e" 0 h] header_iff [of "0x0f" 0 h]
  by (auto simp: word_unat_eq_iff)

lemma stake_cases:
  "isStakeAddressForNetwork B v network \<longleftrightarrow>
      (\<exists>hrp ws bytes. decodeUnsafe B v BECH32_LIMIT = Some (hrp, ws) \<and> fromWordsUnsafe B ws = Some bytes \<and>
         length bytes = 29 \<and>
         (network = ''mainnet'' \<and> hrp = ''stake'' \<and> bytes ! 0 \<in> {0xe1, 0xf1} \<or>
          (network = ''preprod'' \<or> network = ''preview'') \<and> hrp = ''stake_test'' \<and> bytes ! 0 \<in> {0xe0, 0xf0}))"
proof (cases "\<exists>hrp ws bytes. decodeUnsafe B v BECH32_LIMIT = Some (hrp, ws) \<and> fromWordsUnsafe B ws = Some bytes")
  case True
  then obtain hrp ws bytes where d: "decodeUnsafe B v BECH32_LIMIT = Some (hrp, ws)" "fromWordsUnsafe B ws = Some bytes"
    by blast
  show ?thesis
    using reward_header [of "bytes ! 0"]
    by (auto simp: isStakeAddressForNetwork_def d Let_def REWARD_ADDRESS_BYTES_def REWARD_KEY_HASH_TYPE_def
        REWARD_SCRIPT_HASH_TYPE_def MAINNET_NETWORK_ID_def configuredNetworkId_def)
next
  case False
  then show ?thesis by (auto simp: isStakeAddressForNetwork_def split: option.splits)
qed

text \<open>
  A stake address belongs to one network: what is accepted is a 29-byte payload whose header says
  the credential is a key or a script hash, whose network id agrees both with the human-readable part
  and with the configured network; so no address is accepted both on mainnet and on a test network, the
  two test networks accept the same addresses, and a network the service does not know accepts none.
\<close>

theorem stake_address_network:
  "(isStakeAddressForNetwork B v network \<longleftrightarrow>
      (\<exists>hrp ws bytes. decodeUnsafe B v BECH32_LIMIT = Some (hrp, ws) \<and> fromWordsUnsafe B ws = Some bytes \<and>
         length bytes = 29 \<and>
         (network = ''mainnet'' \<and> hrp = ''stake'' \<and> bytes ! 0 \<in> {0xe1, 0xf1} \<or>
          (network = ''preprod'' \<or> network = ''preview'') \<and> hrp = ''stake_test'' \<and> bytes ! 0 \<in> {0xe0, 0xf0}))) \<and>
   \<not> (isStakeAddressForNetwork B v ''mainnet'' \<and> isStakeAddressForNetwork B v ''preprod'') \<and>
   isStakeAddressForNetwork B v ''preprod'' = isStakeAddressForNetwork B v ''preview''"
proof (intro conjI)
  show iff: "isStakeAddressForNetwork B v network \<longleftrightarrow>
      (\<exists>hrp ws bytes. decodeUnsafe B v BECH32_LIMIT = Some (hrp, ws) \<and> fromWordsUnsafe B ws = Some bytes \<and>
         length bytes = 29 \<and>
         (network = ''mainnet'' \<and> hrp = ''stake'' \<and> bytes ! 0 \<in> {0xe1, 0xf1} \<or>
          (network = ''preprod'' \<or> network = ''preview'') \<and> hrp = ''stake_test'' \<and> bytes ! 0 \<in> {0xe0, 0xf0}))"
    for network by (rule stake_cases)
  show "\<not> (isStakeAddressForNetwork B v ''mainnet'' \<and> isStakeAddressForNetwork B v ''preprod'')"
    "isStakeAddressForNetwork B v ''preprod'' = isStakeAddressForNetwork B v ''preview''"
    by (auto simp: stake_cases)
qed

lemma is_digit_code: "is_digit c \<longleftrightarrow> 48 \<le> (of_char c :: nat) \<and> (of_char c :: nat) \<le> 57"
proof -
  have "is_digit c \<longleftrightarrow> (of_char c :: nat) \<in> of_char ` set ''0123456789''"
    unfolding is_digit_def by (rule inj_image_mem_iff [symmetric]) (simp add: inj_def)
  also have "of_char ` set ''0123456789'' = {48, 49, 50, 51, 52, 53, 54, 55, 56, 57 :: nat}" by simp
  finally show ?thesis by (simp only: insert_iff empty_iff) presburger
qed

lemma char_code: "c = d \<longleftrightarrow> (of_char c :: nat) = of_char d"
  by (simp add: of_char_eq_iff)

lemma five_digits:
  assumes "a \<le> 9" "b \<le> 9" "c \<le> 9" "d \<le> 9" "e \<le> (9 :: nat)"
  shows "10000 * a + 1000 * b + 100 * c + 10 * d + e \<le> 32767 \<longleftrightarrow>
     a = 0 \<or> 1 \<le> a \<and> a \<le> 2 \<or> a = 3 \<and> b \<le> 1 \<or> a = 3 \<and> b = 2 \<and> c \<le> 6 \<or>
     a = 3 \<and> b = 2 \<and> c = 7 \<and> d \<le> 5 \<or> a = 3 \<and> b = 2 \<and> c = 7 \<and> d = 6 \<and> e \<le> 7"
proof
  assume le: "10000 * a + 1000 * b + 100 * c + 10 * d + e \<le> 32767"
  then have "a \<le> 3" "a = 3 \<Longrightarrow> b \<le> 2" "a = 3 \<Longrightarrow> b = 2 \<Longrightarrow> c \<le> 7" "a = 3 \<Longrightarrow> b = 2 \<Longrightarrow> c = 7 \<Longrightarrow> d \<le> 6"
    "a = 3 \<Longrightarrow> b = 2 \<Longrightarrow> c = 7 \<Longrightarrow> d = 6 \<Longrightarrow> e \<le> 7" by linarith+
  moreover have "a = 0 \<or> 1 \<le> a" "a \<le> 2 \<or> 3 \<le> a" "b \<le> 1 \<or> 2 \<le> b" "c \<le> 6 \<or> 7 \<le> c" "d \<le> 5 \<or> 6 \<le> d" by linarith+
  ultimately show "a = 0 \<or> 1 \<le> a \<and> a \<le> 2 \<or> a = 3 \<and> b \<le> 1 \<or> a = 3 \<and> b = 2 \<and> c \<le> 6 \<or>
     a = 3 \<and> b = 2 \<and> c = 7 \<and> d \<le> 5 \<or> a = 3 \<and> b = 2 \<and> c = 7 \<and> d = 6 \<and> e \<le> 7"
    by (metis le_antisym)
next
  assume "a = 0 \<or> 1 \<le> a \<and> a \<le> 2 \<or> a = 3 \<and> b \<le> 1 \<or> a = 3 \<and> b = 2 \<and> c \<le> 6 \<or>
     a = 3 \<and> b = 2 \<and> c = 7 \<and> d \<le> 5 \<or> a = 3 \<and> b = 2 \<and> c = 7 \<and> d = 6 \<and> e \<le> 7"
  then show "10000 * a + 1000 * b + 100 * c + 10 * d + e \<le> 32767"
    using assms by (elim disjE conjE) linarith+
qed

lemma index_pattern_iff:
  "index_pattern s \<longleftrightarrow> all_digits s \<and> length s \<le> 5 \<and> nat_of_string s \<le> 32767"
proof (cases "length s = 5")
  case True
  then obtain a b c d e where s: "s = [a, b, c, d, e]" by (auto simp: numeral_eq_Suc length_Suc_conv)
  show ?thesis
  proof (cases "list_all is_digit s")
    case digits: True
    have digit: "\<exists>n \<le> 9. (of_char x :: nat) = n + 48" if "x \<in> set s" for x
      using digits that by (intro exI [of _ "of_char x - 48"]) (auto simp: list_all_iff is_digit_code)
    obtain A B C D E :: nat where v: "A \<le> 9" "B \<le> 9" "C \<le> 9" "D \<le> 9" "E \<le> 9"
      "of_char a = A + 48" "of_char b = B + 48" "of_char c = C + 48" "of_char d = D + 48" "of_char e = E + 48"
      using digit [of a] digit [of b] digit [of c] digit [of d] digit [of e] by (auto simp: s)
    have "nat_of_string s = 10000 * A + 1000 * B + 100 * C + 10 * D + E"
      by (simp add: s nat_of_string_def digit_val_def v)
    moreover have "index_pattern s \<longleftrightarrow> A = 0 \<or> 1 \<le> A \<and> A \<le> 2 \<or> A = 3 \<and> B \<le> 1 \<or> A = 3 \<and> B = 2 \<and> C \<le> 6 \<or>
       A = 3 \<and> B = 2 \<and> C = 7 \<and> D \<le> 5 \<or> A = 3 \<and> B = 2 \<and> C = 7 \<and> D = 6 \<and> E \<le> 7"
      using digits
      by (simp add: s index_pattern_def between_def v char_code [of _ "CHR ''0''"] char_code [of _ "CHR ''3''"] char_code [of _ "CHR ''2''"] char_code [of _ "CHR ''7''"] char_code [of _ "CHR ''6''"])
    ultimately show ?thesis
      using digits five_digits [OF v(1-5)] by (simp add: s all_digits_def)
  next
    case False
    then show ?thesis
      by (auto simp: s index_pattern_def all_digits_def between_def is_digit_code char_code [of _ "CHR ''0''"] char_code [of _ "CHR ''3''"] char_code [of _ "CHR ''2''"] char_code [of _ "CHR ''7''"] char_code [of _ "CHR ''6''"])
  qed
next
  case False
  have "nat_of_string s \<le> 32767" if "length s \<le> 4" "list_all is_digit s"
  proof -
    have "nat_of_string t < 10 ^ length t" if "list_all is_digit t" for t
      using that
    proof (induction t rule: rev_induct)
      case (snoc x t)
      then have "digit_val x \<le> 9" "nat_of_string t + 1 \<le> 10 ^ length t" by (auto simp: is_digit_code digit_val_def)
      then show ?case by (simp add: nat_of_string_snoc)
    qed (simp add: nat_of_string_def)
    from this [OF that(2)] have "nat_of_string s < 10 ^ length s" .
    also have "(10::nat) ^ length s \<le> 10 ^ 4" using that(1) by (intro power_increasing) auto
    finally show ?thesis by simp
  qed
  with False show ?thesis
    by (auto simp: index_pattern_def all_digits_def Suc_le_eq split: list.splits)
qed

lemma lower_char_hex: "is_hex c \<Longrightarrow> is_hex (lower_char c)"
proof -
  have "list_all (\<lambda>c. is_hex (lower_char c)) ''0123456789abcdefABCDEF''" by code_simp
  moreover assume "is_hex c"
  then have "c \<in> set ''0123456789abcdefABCDEF''" by (simp only: is_hex_def)
  ultimately show ?thesis by (simp only: list_all_iff)
qed

lemma toLowerCase_hex: "list_all is_hex s \<Longrightarrow> list_all is_hex (toLowerCase s)"
  by (auto simp: list_all_iff toLowerCase_def lower_char_hex)

lemma string_of_nat_length: "n < 10 ^ k \<Longrightarrow> 0 < k \<Longrightarrow> length (string_of_nat n) \<le> k"
proof (induction n arbitrary: k rule: string_of_nat.induct)
  case (1 n)
  show ?case
  proof (cases "n < 10")
    case True
    with 1 show ?thesis by (simp add: string_of_nat.simps [of n])
  next
    case False
    then obtain j where j: "k = Suc j" "0 < j" using 1(2,3) by (cases k; cases "k - 1") auto
    then have "n div 10 < 10 ^ j" using 1(2) by (simp add: div_less_iff_less_mult mult.commute)
    from 1(1) [OF False this j(2)] False j show ?thesis by (simp add: string_of_nat.simps [of n])
  qed
qed

lemma normalizeUtxoRef_Some:
  "normalizeUtxoRef ref = Some r \<longleftrightarrow> (\<exists>h i. isTxHash h \<and> all_digits i \<and> length i \<le> 5 \<and> nat_of_string i \<le> 32767 \<and>
      ref = h @ ''#'' @ i \<and> r = toLowerCase h @ ''#'' @ string_of_nat (nat_of_string i))"
proof
  assume n: "normalizeUtxoRef ref = Some r"
  then have m: "isTxHash (take 64 ref)" "take 1 (drop 64 ref) = ''#''" "index_pattern (drop 65 ref)"
    by (auto simp: normalizeUtxoRef_def utxo_ref_matches_def split: if_splits)
  have "ref = take 64 ref @ take 1 (drop 64 ref) @ drop 65 ref"
    using append_take_drop_id [of 64 ref] append_take_drop_id [of 1 "drop 64 ref"] by simp
  then have "ref = take 64 ref @ ''#'' @ drop 65 ref" using m(2) by simp
  with m n show "\<exists>h i. isTxHash h \<and> all_digits i \<and> length i \<le> 5 \<and> nat_of_string i \<le> 32767 \<and>
      ref = h @ ''#'' @ i \<and> r = toLowerCase h @ ''#'' @ string_of_nat (nat_of_string i)"
    by (intro exI [of _ "take 64 ref"] exI [of _ "drop 65 ref"])
      (auto simp: index_pattern_iff normalizeUtxoRef_def Let_def split: if_splits)
next
  assume "\<exists>h i. isTxHash h \<and> all_digits i \<and> length i \<le> 5 \<and> nat_of_string i \<le> 32767 \<and>
      ref = h @ ''#'' @ i \<and> r = toLowerCase h @ ''#'' @ string_of_nat (nat_of_string i)"
  then obtain h i where hi: "isTxHash h" "all_digits i" "length i \<le> 5" "nat_of_string i \<le> 32767"
    "ref = h @ ''#'' @ i" "r = toLowerCase h @ ''#'' @ string_of_nat (nat_of_string i)" by blast
  have "length h = 64" using hi(1) by (simp add: isTxHash_def)
  then have parts: "take 64 ref = h" "drop 64 ref = ''#'' @ i" "drop 65 ref = i" by (simp_all add: hi(5))
  have "isSafeInteger (int (nat_of_string i))" using hi(4) by (simp add: isSafeInteger_def MAX_SAFE_INTEGER_def)
  with hi parts show "normalizeUtxoRef ref = Some r"
    by (simp add: normalizeUtxoRef_def utxo_ref_matches_def index_pattern_iff Let_def MAX_OUTPUT_INDEX_def not_less)
qed

text \<open>
  An output reference is accepted exactly when it is 64 hex digits, a hash sign and at most five
  digits that name an index up to 32767 (the alternatives of the pattern say precisely that), and what
  goes on is canonical: the hash in lower case and the index without leading zeros, so that normalising
  is idempotent and two spellings of one output become the same string.
\<close>

theorem normalizeUtxoRef_canonical:
  "(normalizeUtxoRef ref = Some r \<longleftrightarrow>
     (\<exists>h i. isTxHash h \<and> all_digits i \<and> length i \<le> 5 \<and> nat_of_string i \<le> 32767 \<and>
        ref = h @ ''#'' @ i \<and> r = toLowerCase h @ ''#'' @ string_of_nat (nat_of_string i))) \<and>
   (normalizeUtxoRef ref = Some r \<longrightarrow> normalizeUtxoRef r = Some r)"
proof (intro conjI impI)
  show "normalizeUtxoRef ref = Some r \<longleftrightarrow>
     (\<exists>h i. isTxHash h \<and> all_digits i \<and> length i \<le> 5 \<and> nat_of_string i \<le> 32767 \<and>
        ref = h @ ''#'' @ i \<and> r = toLowerCase h @ ''#'' @ string_of_nat (nat_of_string i))"
    by (rule normalizeUtxoRef_Some)
  assume "normalizeUtxoRef ref = Some r"
  then obtain h i where hi: "isTxHash h" "nat_of_string i \<le> 32767"
    "r = toLowerCase h @ ''#'' @ string_of_nat (nat_of_string i)"
    unfolding normalizeUtxoRef_Some by blast
  have "isTxHash (toLowerCase h)" using hi(1) by (simp add: isTxHash_def toLowerCase_hex)
  moreover have "length (string_of_nat (nat_of_string i)) \<le> 5"
    using hi(2) by (intro string_of_nat_length) auto
  ultimately show "normalizeUtxoRef r = Some r"
    unfolding normalizeUtxoRef_Some
    using hi string_of_nat_digits [of "nat_of_string i"]
    by (intro exI [of _ "toLowerCase h"] exI [of _ "string_of_nat (nat_of_string i)"])
      (simp add: all_digits_def str_simps)
qed

theorem normalizeUtxoRef_canonical_witness:
  "normalizeUtxoRef (replicate 64 CHR ''A'' @ ''#007'') = Some (replicate 64 CHR ''a'' @ ''#7'') \<and>
   normalizeUtxoRef (replicate 64 CHR ''a'' @ ''#7'') = Some (replicate 64 CHR ''a'' @ ''#7'')"
proof -
  have "normalizeUtxoRef (replicate 64 CHR ''A'' @ ''#007'') = Some (replicate 64 CHR ''a'' @ ''#7'')"
    by code_simp
  with normalizeUtxoRef_canonical [of "replicate 64 CHR ''A'' @ ''#007''" "replicate 64 CHR ''a'' @ ''#7''"]
  show ?thesis by blast
qed

end
