(* ===== verification/Governance.thy ===== *)
theory Governance
  imports Identifiers Json Js_Map Keyed_Cache
begin

text \<open>
  The governance shapes of \<^verbatim>\<open>src/domain/types/governance.ts\<close> and what both drivers do alike with
  off-chain JSON and with the fate of a proposal.
\<close>

datatype DrepStatus = Drep_registered | Drep_deregistered | Drep_not_registered

record DrepInfo =
  dr_drepId :: string
  dr_hex :: string
  dr_hasScript :: bool
  dr_status :: DrepStatus
  dr_active :: bool
  dr_deposit :: string
  dr_votingPower :: string
  dr_expiresEpoch :: "int option"
  dr_metadataUrl :: "string option"
  dr_metadataHash :: "string option"
  dr_name :: "string option"
  dr_image :: "string option"

record DrepListParams =
  dl_limit :: nat
  dl_offset :: nat

datatype ProposalType = ParameterChange | HardForkInitiation | TreasuryWithdrawals | NoConfidence
  | NewCommittee | NewConstitution | InfoAction

datatype ProposalStatus = P_open | P_ratified | P_enacted | P_dropped | P_expired

record VoteCountTally =
  vt_yes :: int
  vt_no :: int
  vt_abstain :: int

record VoteTally = VoteCountTally +
  vt_yesPower :: string
  vt_noPower :: string
  vt_abstainPower :: string

record Proposal =
  po_proposalId :: string
  po_txHash :: string
  po_index :: int
  po_type :: ProposalType
  po_status :: ProposalStatus
  po_proposedEpoch :: "int option"
  po_expiryEpoch :: "int option"
  po_decidedEpoch :: "int option"
  po_deposit :: string
  po_returnAddress :: string
  po_title :: "string option"
  po_abstract :: "string option"
  po_metadataUrl :: "string option"
  po_metadataHash :: "string option"
  po_metadataValid :: "bool option"
  po_drepVotes :: "VoteTally option"
  po_poolVotes :: "VoteTally option"
  po_committeeVotes :: "VoteCountTally option"

record ProposalListParams =
  pq_limit :: nat
  pq_offset :: nat

section \<open>Off-chain JSON\<close>

text \<open>\<open>isRecord\<close>: an object or an array, not \<open>null\<close>; and the field of a record, when it has one.\<close>

definition isRecord :: "json \<Rightarrow> bool" where
  "isRecord v = (case v of JObj _ \<Rightarrow> True | JArr _ \<Rightarrow> True | _ \<Rightarrow> False)"

definition field :: "json \<Rightarrow> string \<Rightarrow> json option" where
  "field v k = (case v of JObj kvs \<Rightarrow> map_of kvs k | _ \<Rightarrow> None)"

definition record_field :: "json \<Rightarrow> string \<Rightarrow> json option" where
  "record_field v k = (case field v k of Some w \<Rightarrow> if isRecord w then Some w else None | None \<Rightarrow> None)"

text \<open>A non-empty string.\<close>

definition str_field :: "json \<Rightarrow> string \<Rightarrow> string option" where
  "str_field v k = (case field v k of Some (JStr s) \<Rightarrow> if s \<noteq> [] then Some s else None | _ \<Rightarrow> None)"

definition first_of :: "'a option \<Rightarrow> 'a option \<Rightarrow> 'a option" where
  "first_of a b = (case a of Some x \<Rightarrow> Some x | None \<Rightarrow> b)"

definition opt_field :: "json option \<Rightarrow> string \<Rightarrow> string option" where
  "opt_field v k = (case v of None \<Rightarrow> None | Some w \<Rightarrow> str_field w k)"

text \<open>Name and image of a DRep.\<close>

type_synonym meta_fields = "string option \<times> string option"

definition drepMetaFields :: "json \<Rightarrow> meta_fields" where
  "drepMetaFields metaJson =
     (if \<not> isRecord metaJson then (None, None)
      else let body = record_field metaJson ''body'' in
        (first_of (opt_field body ''givenName'') (str_field metaJson ''name''),
         case body of None \<Rightarrow> None | Some b \<Rightarrow> opt_field (record_field b ''image'') ''contentUrl''))"

text \<open>Title and abstract of a proposal.\<close>

definition proposalMeta :: "json \<Rightarrow> meta_fields" where
  "proposalMeta metaJson =
     (if \<not> isRecord metaJson then (None, None)
      else let body = (case record_field metaJson ''body'' of Some b \<Rightarrow> b | None \<Rightarrow> metaJson) in
        (str_field body ''title'', str_field body ''abstract''))"

text \<open>Only strings that are not empty come out of off-chain JSON, whatever it holds.\<close>

lemma str_field_ne: "str_field v k = Some s \<Longrightarrow> s \<noteq> []"
  by (auto simp: str_field_def split: option.splits json.splits if_splits)

lemma meta_fields_ne:
  "drepMetaFields v = (a, b) \<Longrightarrow> a \<noteq> Some [] \<and> b \<noteq> Some []"
  "proposalMeta v = (a, b) \<Longrightarrow> a \<noteq> Some [] \<and> b \<noteq> Some []"
  by (auto simp: drepMetaFields_def proposalMeta_def first_of_def opt_field_def Let_def dest: str_field_ne
      split: if_splits option.splits)

section \<open>The fate of a proposal\<close>

text \<open>Enacted, ratified, dropped and expired epochs, in that order of precedence.\<close>

definition proposalStatus :: "int option \<Rightarrow> int option \<Rightarrow> int option \<Rightarrow> int option \<Rightarrow> ProposalStatus \<times> int option" where
  "proposalStatus enacted ratified dropped expired =
     (case enacted of Some e \<Rightarrow> (P_enacted, Some e) | None \<Rightarrow>
      case ratified of Some e \<Rightarrow> (P_ratified, Some e) | None \<Rightarrow>
      case dropped of Some e \<Rightarrow> (P_dropped, Some e) | None \<Rightarrow>
      case expired of Some e \<Rightarrow> (P_expired, Some e) | None \<Rightarrow> (P_open, None))"

definition or_zero :: "int option \<Rightarrow> int" where
  "or_zero v = (case v of None \<Rightarrow> 0 | Some i \<Rightarrow> i)"

definition voteCountTally :: "int option \<Rightarrow> int option \<Rightarrow> int option \<Rightarrow> VoteCountTally" where
  "voteCountTally yes no abstain = \<lparr>vt_yes = or_zero yes, vt_no = or_zero no, vt_abstain = or_zero abstain\<rparr>"

text \<open>\<open>String(v ?? 0)\<close>, and the sum of such values.\<close>

definition numeric_text :: "numeric option \<Rightarrow> string" where
  "numeric_text v = (case v of None \<Rightarrow> ''0'' | Some n \<Rightarrow> numeric_string n)"

definition addNumeric :: "numeric option list \<Rightarrow> string" where
  "addNumeric vs = string_of_int (sum_list (map (\<lambda>v. BigInt_of (numeric_text v)) vs))"

definition stakeWeightedTally :: "int option \<Rightarrow> int option \<Rightarrow> int option \<Rightarrow> numeric option \<Rightarrow> numeric option \<Rightarrow> string \<Rightarrow> VoteTally" where
  "stakeWeightedTally yes no abstain yesPower noPower abstainPower =
     \<lparr>vt_yes = or_zero yes, vt_no = or_zero no, vt_abstain = or_zero abstain,
      vt_yesPower = numeric_text yesPower, vt_noPower = numeric_text noPower, vt_abstainPower = abstainPower\<rparr>"

end
