(* ===== verification/Koios_Governance.thy ===== *)
theory Koios_Governance
  imports Governance Koios_History Koios_Pools
begin

text \<open>
  \<^verbatim>\<open>src/providers/koios/governance.ts\<close>: DReps by id with their off-chain names, the list of registered
  DReps, and the proposals with their tallies.
\<close>

definition DREP_LIST_PAGE_SIZE :: nat where "DREP_LIST_PAGE_SIZE = 1000"
definition DREP_LIST_MAX_PAGES :: nat where "DREP_LIST_MAX_PAGES = 20"
definition DREP_MEMBERSHIP_TTL_MS :: int where "DREP_MEMBERSHIP_TTL_MS = 2 * 60000"
definition DREP_MEMBERSHIP_STALE_MS :: int where "DREP_MEMBERSHIP_STALE_MS = 10 * 60000"
definition DREP_METADATA_TTL_MS :: int where "DREP_METADATA_TTL_MS = 60 * 60000"

section \<open>Rows\<close>

record drepListRow =
  dx_drep_id :: string
  dx_registered :: bool

record drepInfoRow =
  di_drep_id :: string
  di_hex :: string
  di_has_script :: bool
  di_drep_status :: DrepStatus
  di_active :: bool
  di_deposit :: "numeric option"
  di_amount :: "numeric option"
  di_expires_epoch_no :: "int option"
  di_meta_url :: "string option"
  di_meta_hash :: "string option"

definition count_opt_ok :: "int option \<Rightarrow> bool" where
  "count_opt_ok v \<longleftrightarrow> (case v of None \<Rightarrow> True | Some i \<Rightarrow> isSafeInteger i \<and> 0 \<le> i)"

definition num_opt_ok :: "numeric option \<Rightarrow> bool" where
  "num_opt_ok v \<longleftrightarrow> (case v of None \<Rightarrow> True | Some n \<Rightarrow> numeric_ok n)"

definition drepInfoRow_ok :: "bech32 \<Rightarrow> drepInfoRow \<Rightarrow> bool" where
  "drepInfoRow_ok B r \<longleftrightarrow> length (di_hex r) = 56 \<and> list_all is_hex (di_hex r) \<and>
     num_opt_ok (di_deposit r) \<and> num_opt_ok (di_amount r) \<and> count_opt_ok (di_expires_epoch_no r) \<and>
     drepCredentialHex B (di_drep_id r) = Some (toLowerCase (di_hex r))"

record drepMetadataRow =
  dm_drep_id :: string
  dm_meta_json :: "json option"

definition mapDrepInfo :: "drepInfoRow \<Rightarrow> DrepInfo" where
  "mapDrepInfo row = \<lparr>
     dr_drepId = di_drep_id row,
     dr_hex = di_hex row,
     dr_hasScript = di_has_script row,
     dr_status = di_drep_status row,
     dr_active = di_active row,
     dr_deposit = numeric_text (di_deposit row),
     dr_votingPower = numeric_text (di_amount row),
     dr_expiresEpoch = di_expires_epoch_no row,
     dr_metadataUrl = di_meta_url row,
     dr_metadataHash = di_meta_hash row,
     dr_name = None,
     dr_image = None\<rparr>"

definition with_meta :: "meta_fields option \<Rightarrow> DrepInfo \<Rightarrow> DrepInfo" where
  "with_meta m d = (case m of None \<Rightarrow> d
     | Some (nm, img) \<Rightarrow> d\<lparr>dr_name := first_of nm (dr_name d), dr_image := first_of img (dr_image d)\<rparr>)"

record proposalRow =
  pw_proposal_id :: string
  pw_tx_hash :: string
  pw_index :: int
  pw_type :: ProposalType
  pw_deposit :: numeric
  pw_return_address :: string
  pw_proposed_epoch :: int
  pw_expiration :: "int option"
  pw_ratified_epoch :: "int option"
  pw_enacted_epoch :: "int option"
  pw_dropped_epoch :: "int option"
  pw_expired_epoch :: "int option"
  pw_meta_url :: "string option"
  pw_meta_hash :: "string option"
  pw_meta_json :: "json option"
  pw_meta_is_valid :: "bool option"

definition proposal_id_shape :: "string \<Rightarrow> bool" where
  "proposal_id_shape s \<longleftrightarrow> take 11 s = ''gov_action1'' \<and> drop 11 s \<noteq> [] \<and>
     list_all (\<lambda>c. is_digit c \<or> c \<in> set ''abcdefghijklmnopqrstuvwxyz'') (drop 11 s)"

definition proposalRow_ok :: "proposalRow \<Rightarrow> bool" where
  "proposalRow_ok r \<longleftrightarrow> proposal_id_shape (pw_proposal_id r) \<and> length (pw_tx_hash r) = 64 \<and> list_all is_hex (pw_tx_hash r) \<and>
     numeric_ok (pw_deposit r) \<and>
     list_all (\<lambda>i. isSafeInteger i \<and> 0 \<le> i) [pw_index r, pw_proposed_epoch r] \<and>
     list_all count_opt_ok [pw_expiration r, pw_ratified_epoch r, pw_enacted_epoch r, pw_dropped_epoch r, pw_expired_epoch r]"

record votingSummaryRow =
  vs_drep_yes :: "int option"
  vs_drep_no :: "int option"
  vs_drep_abstain :: "int option"
  vs_drep_yes_power :: "numeric option"
  vs_drep_no_power :: "numeric option"
  vs_drep_active_abstain_power :: "numeric option"
  vs_drep_always_abstain_power :: "numeric option"
  vs_pool_yes :: "int option"
  vs_pool_no :: "int option"
  vs_pool_abstain :: "int option"
  vs_pool_yes_power :: "numeric option"
  vs_pool_no_power :: "numeric option"
  vs_pool_active_abstain_power :: "numeric option"
  vs_pool_passive_abstain_power :: "numeric option"
  vs_committee_yes :: "int option"
  vs_committee_no :: "int option"
  vs_committee_abstain :: "int option"

definition votingSummaryRow_ok :: "votingSummaryRow \<Rightarrow> bool" where
  "votingSummaryRow_ok r \<longleftrightarrow>
     list_all count_opt_ok [vs_drep_yes r, vs_drep_no r, vs_drep_abstain r, vs_pool_yes r, vs_pool_no r, vs_pool_abstain r,
       vs_committee_yes r, vs_committee_no r, vs_committee_abstain r] \<and>
     list_all num_opt_ok [vs_drep_yes_power r, vs_drep_no_power r, vs_drep_active_abstain_power r,
       vs_drep_always_abstain_power r, vs_pool_yes_power r, vs_pool_no_power r, vs_pool_active_abstain_power r,
       vs_pool_passive_abstain_power r]"

section \<open>The methods' surroundings\<close>

text \<open>
  \<open>gd_caching\<close> is \<open>cache !== noCache\<close>; the decoders, the percent-encoding and bech32 are those of the
  theories they come from.
\<close>

record ('s, 'j) gov_deps =
  gd_client :: koios_client
  gd_net :: "('s, 'j) net"
  gd_bech32 :: bech32
  gd_caching :: bool
  gd_readIds :: "string \<Rightarrow> policy \<Rightarrow> ('s kworld, string list) io_result \<Rightarrow> ('s kworld, string list) io_result"
  gd_peekMeta :: "string \<Rightarrow> 's kworld \<Rightarrow> meta_fields option"
  gd_generation :: "string \<Rightarrow> 's kworld \<Rightarrow> nat"
  gd_setMeta :: "string \<Rightarrow> meta_fields \<Rightarrow> int \<Rightarrow> nat \<Rightarrow> 's kworld \<Rightarrow> 's kworld"
  gd_encode :: "string \<Rightarrow> string"
  gd_list :: "'j \<Rightarrow> drepListRow option"
  gd_info :: "'j \<Rightarrow> drepInfoRow option"
  gd_meta :: "'j \<Rightarrow> drepMetadataRow option"
  gd_proposal :: "'j \<Rightarrow> proposalRow option"
  gd_summary :: "'j \<Rightarrow> votingSummaryRow option"

section \<open>Registered DReps\<close>

definition drep_query :: "string option \<Rightarrow> nat \<Rightarrow> (string \<times> string) list" where
  "drep_query after rowLimit =
     [(''order'', ''drep_id.asc''), (''select'', ''drep_id,registered''), (''limit'', string_of_nat rowLimit)] @
     (case after of None \<Rightarrow> [] | Some a \<Rightarrow> [(''drep_id'', ''gt.'' @ a)])"

definition read_dreps :: "('s, 'j) gov_deps \<Rightarrow> string option \<Rightarrow> nat \<Rightarrow> ('s kworld, drepListRow list) io_result" where
  "read_dreps g after rowLimit =
     koios_get (gd_client g) (gd_net g) (z_array (gd_list g)) (''/drep_list?'' @ form_pairs (drep_query after rowLimit))"

text \<open>\<open>needed\<close> is \<open>None\<close> for \<open>Infinity\<close>.\<close>

primrec drep_pages :: "('s, 'j) gov_deps \<Rightarrow> nat option \<Rightarrow> nat \<Rightarrow> string option \<Rightarrow> string list \<Rightarrow>
    ('s kworld, string list) io_result" where
  "drep_pages g needed 0 after ids =
     bindIO (read_dreps g after 1) (\<lambda>probe.
     if probe = [] then returnIO ids
     else throwIO (ProviderError (''koios /drep_list has more than '' @
            string_of_nat (DREP_LIST_MAX_PAGES * DREP_LIST_PAGE_SIZE) @
            '' rows, beyond this provider's scan bound'') None None))"
| "drep_pages g needed (Suc k) after ids =
     bindIO (read_dreps g after DREP_LIST_PAGE_SIZE) (\<lambda>rows.
     let ids' = ids @ map dx_drep_id (filter dx_registered rows) in
     if length rows < DREP_LIST_PAGE_SIZE then returnIO ids'
     else if (case needed of None \<Rightarrow> False | Some m \<Rightarrow> length ids' \<ge> m) then returnIO ids'
     else drep_pages g needed k (Some (dx_drep_id (last rows))) ids')"

definition registeredDreps :: "('s, 'j) gov_deps \<Rightarrow> nat option \<Rightarrow> ('s kworld, string list) io_result" where
  "registeredDreps g needed = drep_pages g needed DREP_LIST_MAX_PAGES None []"

section \<open>Off-chain names\<close>

definition meta_key :: "string \<Rightarrow> string" where
  "meta_key hex = ''gov:drep-meta:'' @ hex"

text \<open>The rows of one chunk: each name is taken, and stored under the generation it was asked in.\<close>

fun take_meta :: "('s, 'j) gov_deps \<Rightarrow> (string, nat) js_map \<Rightarrow> drepMetadataRow list \<Rightarrow> (string, meta_fields) js_map \<Rightarrow>
    's kworld \<Rightarrow> (string, meta_fields) js_map \<times> 's kworld" where
  "take_meta g generations [] byHex s = (byHex, s)"
| "take_meta g generations (row # rows) byHex s =
     (case drepCredentialHex (gd_bech32 g) (dm_drep_id row) of
        None \<Rightarrow> take_meta g generations rows byHex s
      | Some hex \<Rightarrow>
          let fields = (case dm_meta_json row of None \<Rightarrow> (None, None) | Some v \<Rightarrow> drepMetaFields v);
              gen = (case jm_get generations hex of Some n \<Rightarrow> n | None \<Rightarrow> gd_generation g (meta_key hex) s) in
          take_meta g generations rows (jm_set hex fields byHex)
            (gd_setMeta g (meta_key hex) fields DREP_METADATA_TTL_MS gen s))"

fun meta_chunks :: "('s, 'j) gov_deps \<Rightarrow> (string, nat) js_map \<Rightarrow> json list list \<Rightarrow> (string, meta_fields) js_map \<Rightarrow>
    's kworld \<Rightarrow> (string, meta_fields) js_map \<times> 's kworld" where
  "meta_chunks g generations [] byHex s = (byHex, s)"
| "meta_chunks g generations (chunk # chunks) byHex s =
     (case koios_batch (gd_client g) (gd_net g) (z_array (gd_meta g)) ''/drep_metadata'' (list_body [] ''_drep_ids'' [] chunk) s of
        (Inl _, t) \<Rightarrow> meta_chunks g generations chunks byHex t
      | (Inr rows, t) \<Rightarrow> (case take_meta g generations rows byHex t of (byHex', u) \<Rightarrow>
          meta_chunks g generations chunks byHex' u))"

definition drepMetadataByHex :: "('s, 'j) gov_deps \<Rightarrow> string list \<Rightarrow> ('s kworld, (string, meta_fields) js_map) io_result" where
  "drepMetadataByHex g drepIds s =
     (let cred = drepCredentialHex (gd_bech32 g);
          hexes = List.map_filter (\<lambda>i. map_option (\<lambda>h. (i, h)) (cred i)) drepIds;
          byHex = fold (\<lambda>(i, h) m. case gd_peekMeta g (meta_key h) s of Some f \<Rightarrow> jm_set h f m | None \<Rightarrow> m) hexes [];
          missing = filter (\<lambda>(i, h). gd_peekMeta g (meta_key h) s = None) hexes in
      if missing = [] then (Inr byHex, s)
      else
        let generations = fold (\<lambda>(i, h). jm_set h (gd_generation g (meta_key h) s)) missing [] in
        case packBySize (map (JStr \<circ> fst) missing) (list_body [] ''_drep_ids'' []) (bodyLimit s) of
          Inl e \<Rightarrow> (Inl e, s)
        | Inr chunks \<Rightarrow> (case meta_chunks g generations chunks byHex s of (m, t) \<Rightarrow> (Inr m, t)))"

section \<open>DReps\<close>

definition hydrate_dreps :: "bech32 \<Rightarrow> drepInfoRow list \<Rightarrow> (string, meta_fields) js_map \<Rightarrow> string list \<Rightarrow> DrepInfo list" where
  "hydrate_dreps B rows metaByHex drepIds =
     (let infoByHex = fold (\<lambda>r. jm_set (toLowerCase (di_hex r)) r) rows [] in
      concat (map (\<lambda>i. case drepCredentialHex B i of
          None \<Rightarrow> []
        | Some hex \<Rightarrow> (case jm_get infoByHex hex of
            None \<Rightarrow> []
          | Some row \<Rightarrow> [with_meta (jm_get metaByHex hex) (mapDrepInfo row)])) drepIds))"

definition drepInfoByIds :: "('s, 'j) gov_deps \<Rightarrow> string list \<Rightarrow> ('s kworld, DrepInfo list) io_result" where
  "drepInfoByIds g drepIds =
     (if drepIds = [] then returnIO []
      else bindIO (bothIO
          (batchAll (gd_client g) (gd_net g) (refine (gd_info g) (drepInfoRow_ok (gd_bech32 g))) ''/drep_info''
             (map JStr drepIds) (list_body [] ''_drep_ids'' []))
          (drepMetadataByHex g drepIds)) (\<lambda>(rows, metaByHex).
        returnIO (hydrate_dreps (gd_bech32 g) rows metaByHex drepIds)))"

definition getDrepList :: "('s, 'j) gov_deps \<Rightarrow> DrepListParams \<Rightarrow> ('s kworld, DrepInfo list) io_result" where
  "getDrepList g params =
     bindIO (if gd_caching g
             then gd_readIds g ''gov:drep-membership'' (CachePolicy DREP_MEMBERSHIP_TTL_MS (Some DREP_MEMBERSHIP_STALE_MS))
                    (registeredDreps g None)
             else registeredDreps g (Some (dl_offset params + dl_limit params))) (\<lambda>registered.
     bindIO (drepInfoByIds g (take (dl_limit params) (drop (dl_offset params) registered))) (\<lambda>hydrated.
     returnIO (filter (\<lambda>d. dr_status d = Drep_registered) hydrated)))"

section \<open>Proposals\<close>

definition proposal_votes :: "ProposalType \<Rightarrow> votingSummaryRow option \<Rightarrow>
    VoteTally option \<times> VoteTally option \<times> VoteCountTally option" where
  "proposal_votes ty votes = (case votes of
     None \<Rightarrow> (None, None, None)
   | Some v \<Rightarrow>
       (Some (stakeWeightedTally (vs_drep_yes v) (vs_drep_no v) (vs_drep_abstain v) (vs_drep_yes_power v) (vs_drep_no_power v)
          (addNumeric [vs_drep_active_abstain_power v, vs_drep_always_abstain_power v])),
        (if ty = TreasuryWithdrawals \<or> ty = NewConstitution then None
         else Some (stakeWeightedTally (vs_pool_yes v) (vs_pool_no v) (vs_pool_abstain v) (vs_pool_yes_power v) (vs_pool_no_power v)
          (addNumeric [vs_pool_active_abstain_power v, vs_pool_passive_abstain_power v]))),
        (if ty = NewCommittee \<or> ty = NoConfidence then None
         else Some (voteCountTally (vs_committee_yes v) (vs_committee_no v) (vs_committee_abstain v)))))"

definition map_proposal :: "proposalRow \<Rightarrow> votingSummaryRow option \<Rightarrow> Proposal" where
  "map_proposal row votes =
     (case proposalStatus (pw_enacted_epoch row) (pw_ratified_epoch row) (pw_dropped_epoch row) (pw_expired_epoch row) of (st, decided) \<Rightarrow>
      case (case pw_meta_json row of None \<Rightarrow> (None, None) | Some v \<Rightarrow> proposalMeta v) of (title, summ) \<Rightarrow>
      case proposal_votes (pw_type row) votes of (drepVotes, poolVotes, committeeVotes) \<Rightarrow>
      \<lparr>po_proposalId = pw_proposal_id row,
       po_txHash = pw_tx_hash row,
       po_index = pw_index row,
       po_type = pw_type row,
       po_status = st,
       po_proposedEpoch = Some (pw_proposed_epoch row),
       po_expiryEpoch = pw_expiration row,
       po_decidedEpoch = decided,
       po_deposit = numeric_string (pw_deposit row),
       po_returnAddress = pw_return_address row,
       po_title = title,
       po_abstract = summ,
       po_metadataUrl = pw_meta_url row,
       po_metadataHash = pw_meta_hash row,
       po_metadataValid = pw_meta_is_valid row,
       po_drepVotes = drepVotes,
       po_poolVotes = poolVotes,
       po_committeeVotes = committeeVotes\<rparr>)"

definition proposals_path :: "ProposalListParams \<Rightarrow> string" where
  "proposals_path params = ''/proposal_list?'' @ form_pairs
     [(''order'', ''block_time.desc,proposal_id.desc''), (''limit'', string_of_nat (pq_limit params)),
      (''offset'', string_of_nat (pq_offset params))]"

definition proposal_tally :: "('s, 'j) gov_deps \<Rightarrow> proposalRow \<Rightarrow> ('s kworld, votingSummaryRow option) io_result" where
  "proposal_tally g row = catchIO
     (bindIO (koios_get (gd_client g) (gd_net g) (z_array (refine (gd_summary g) votingSummaryRow_ok))
        (''/proposal_voting_summary?_proposal_id='' @ gd_encode g (pw_proposal_id row))) (\<lambda>summary.
      returnIO (case summary of [] \<Rightarrow> None | v # _ \<Rightarrow> Some v)))
     (\<lambda>_. returnIO None)"

definition getProposals :: "('s, 'j) gov_deps \<Rightarrow> ProposalListParams \<Rightarrow> ('s kworld, Proposal list) io_result" where
  "getProposals g params =
     bindIO (koios_get (gd_client g) (gd_net g) (z_array (refine (gd_proposal g) proposalRow_ok)) (proposals_path params)) (\<lambda>rows.
     if rows = [] then returnIO []
     else bindIO (allIO (proposal_tally g) rows) (\<lambda>tallies.
       returnIO (map2 map_proposal rows tallies)))"

section \<open>Facts\<close>

lemma koios_get_Inr: "koios_get c n (z_array row) path s = (Inr rows, t) \<Longrightarrow> \<exists>js. those (map row js) = Some rows"
  unfolding koios_get_def koios_read_def
  by (drule retry_loop_Inr) (auto simp: io_simps koios_parse_def z_array_def split: option.splits jvalue.splits if_splits)

lemma batchAll_rows_ok:
  assumes "batchAll c n (refine dec ok) path items toBody s = (Inr rows, t)"
  shows "\<forall>r \<in> set rows. ok r"
proof -
  have one: "\<forall>r \<in> set rs. ok r" if "koios_batch c n (z_array (refine dec ok)) path b w = (Inr rs, w')" for b w rs w'
  proof -
    from retry_loop_Inr [OF that [unfolded koios_batch_def koios_read_def]] obtain js where
      "those (map (refine dec ok) js) = Some rs"
      by (auto simp: io_simps koios_parse_def z_array_def split: option.splits jvalue.splits if_splits)
    then show ?thesis
      by (induction js arbitrary: rs) (auto simp: refine_Some split: option.splits)
  qed
  from assms show ?thesis
    unfolding batchAll_def by (auto simp: returnIO_def split: if_splits dest!: packAdaptively_all [where P = ok] intro: one dest: one)
qed


text \<open>Every DRep answered is one that was asked for, in the order asked, under its own credential.\<close>

definition own_credential :: "bech32 \<Rightarrow> DrepInfo \<Rightarrow> bool" where
  "own_credential B d \<longleftrightarrow> drepCredentialHex B (dr_drepId d) = Some (toLowerCase (dr_hex d))"

lemma with_meta_frame [simp]:
  "dr_drepId (with_meta m d) = dr_drepId d" "dr_hex (with_meta m d) = dr_hex d" "dr_status (with_meta m d) = dr_status d"
  "dr_votingPower (with_meta m d) = dr_votingPower d" "dr_active (with_meta m d) = dr_active d"
  by (auto simp: with_meta_def split: option.splits prod.splits)

lemma mapDrepInfo_own: "drepInfoRow_ok B r \<Longrightarrow> own_credential B (mapDrepInfo r)"
  by (simp add: own_credential_def drepInfoRow_ok_def mapDrepInfo_def)

lemma info_by_hex_get: "jm_get (fold (\<lambda>r. jm_set (toLowerCase (di_hex r)) r) rows m) h = Some row \<Longrightarrow>
    row \<in> set rows \<and> toLowerCase (di_hex row) = h \<or> jm_get m h = Some row"
  by (induction rows arbitrary: m) (fastforce split: if_splits)+

definition asked_credentials :: "bech32 \<Rightarrow> string list \<Rightarrow> string list" where
  "asked_credentials B ids = List.map_filter (drepCredentialHex B) ids"

lemma hydrate_dreps_own:
  assumes "\<forall>r \<in> set rows. drepInfoRow_ok B r"
  shows "subseq (map (toLowerCase \<circ> dr_hex) (hydrate_dreps B rows metaByHex ids)) (asked_credentials B ids) \<and>
    list_all (own_credential B) (hydrate_dreps B rows metaByHex ids)"
proof (induction ids)
  case (Cons i ids)
  show ?case
  proof (cases "drepCredentialHex B i")
    case None
    with Cons show ?thesis by (simp add: hydrate_dreps_def asked_credentials_def map_filter_simps Let_def)
  next
    case (Some hex)
    show ?thesis
    proof (cases "jm_get (fold (\<lambda>r. jm_set (toLowerCase (di_hex r)) r) rows []) hex")
      case None
      with Some Cons show ?thesis
        by (simp add: hydrate_dreps_def asked_credentials_def map_filter_simps Let_def list_emb_Cons)
    next
      case row: (Some row)
      from info_by_hex_get [OF row] have r: "row \<in> set rows" "toLowerCase (di_hex row) = hex" by auto
      with assms have "own_credential B (with_meta m (mapDrepInfo row))" for m
        using mapDrepInfo_own [of B row] by (simp add: own_credential_def)
      moreover have "dr_hex (mapDrepInfo row) = di_hex row" by (simp add: mapDrepInfo_def)
      ultimately show ?thesis using Some row r Cons
        by (simp add: hydrate_dreps_def asked_credentials_def map_filter_simps Let_def)
    qed
  qed
qed (simp add: hydrate_dreps_def asked_credentials_def map_filter_simps)

lemma drepInfoByIds_own:
  assumes "drepInfoByIds g ids s = (Inr dreps, t)"
  shows "subseq (map (toLowerCase \<circ> dr_hex) dreps) (asked_credentials (gd_bech32 g) ids) \<and>
    list_all (own_credential (gd_bech32 g)) dreps"
proof (cases "ids = []")
  case True
  with assms show ?thesis by (simp add: drepInfoByIds_def io_simps)
next
  case False
  with assms obtain rows meta u where "batchAll (gd_client g) (gd_net g) (refine (gd_info g) (drepInfoRow_ok (gd_bech32 g)))
      ''/drep_info'' (map JStr ids) (list_body [] ''_drep_ids'' []) s = (Inr rows, u)"
    and dreps: "dreps = hydrate_dreps (gd_bech32 g) rows meta ids"
    by (auto simp: drepInfoByIds_def io_simps)
  from batchAll_rows_ok [OF this(1)] show ?thesis unfolding dreps by (rule hydrate_dreps_own)
qed

text \<open>
  A list that stays as it is during the walks: \<open>page\<close> gives the rows behind a cursor.  Its membership
  is what the cursors lead through.
\<close>

definition steady_dreps :: "('s, 'j) gov_deps \<Rightarrow> (string option \<Rightarrow> drepListRow list) \<Rightarrow> bool" where
  "steady_dreps g page \<longleftrightarrow> (\<forall>after s rows t. read_dreps g after DREP_LIST_PAGE_SIZE s = (Inr rows, t) \<longrightarrow> rows = page after)"

primrec membership :: "(string option \<Rightarrow> drepListRow list) \<Rightarrow> nat \<Rightarrow> string option \<Rightarrow> string list" where
  "membership page 0 after = []"
| "membership page (Suc k) after = map dx_drep_id (filter dx_registered (page after)) @
     (if length (page after) < DREP_LIST_PAGE_SIZE then [] else membership page k (Some (dx_drep_id (last (page after)))))"

text \<open>Reading all of it, or reading on until enough are in hand, gives the same first DReps.\<close>

lemma drep_pages_membership:
  assumes "steady_dreps g page" and "drep_pages g needed k after ids s = (Inr all, t)"
    and "case needed of None \<Rightarrow> True | Some m \<Rightarrow> n \<le> m"
  shows "take n all = take n (ids @ membership page k after)"
  using assms(2)
proof (induction k arbitrary: after ids s)
  case 0
  then show ?case by (auto simp: io_simps split: if_splits)
next
  case (Suc k)
  let ?here = "ids @ map dx_drep_id (filter dx_registered (page after))"
  from Suc.prems obtain rows u where rows: "read_dreps g after DREP_LIST_PAGE_SIZE s = (Inr rows, u)"
    and rest: "(let ids' = ids @ map dx_drep_id (filter dx_registered rows) in
     if length rows < DREP_LIST_PAGE_SIZE then returnIO ids'
     else if (case needed of None \<Rightarrow> False | Some m \<Rightarrow> length ids' \<ge> m) then returnIO ids'
     else drep_pages g needed k (Some (dx_drep_id (last rows))) ids') u = (Inr all, t)"
    unfolding drep_pages.simps bindIO_Inr_conv by blast
  have "rows = page after" using assms(1) rows unfolding steady_dreps_def by blast
  note rest = rest [unfolded this Let_def]
  show ?case
  proof (cases "length (page after) < DREP_LIST_PAGE_SIZE")
    case True
    with rest show ?thesis by (simp add: io_simps)
  next
    case more: False
    show ?thesis
    proof (cases "case needed of None \<Rightarrow> False | Some m \<Rightarrow> length ?here \<ge> m")
      case True
      with rest more have "all = ?here" by (simp add: io_simps)
      moreover from True assms(3) have "n \<le> length ?here" by (auto split: option.splits)
      ultimately show ?thesis using more by (simp flip: append_assoc)
    next
      case False
      with rest more Suc.IH show ?thesis by (simp flip: append_assoc)
    qed
  qed
qed

text \<open>A failing \<^verbatim>\<open>/drep_metadata\<close> costs names, never the call: only a body that cannot be sent refuses it.\<close>

lemma drep_names_best_effort:
  assumes "drepMetadataByHex g ids s = (Inl e, t)"
  shows "t = s \<and> (\<exists>missing. set missing \<subseteq> set ids \<and>
    packBySize (map JStr missing) (list_body [] ''_drep_ids'' []) (bodyLimit s) = Inl e)"
proof -
  let ?hexes = "List.map_filter (\<lambda>i. map_option (\<lambda>h. (i, h)) (drepCredentialHex (gd_bech32 g) i)) ids"
  let ?missing = "filter (\<lambda>(i, h). gd_peekMeta g (meta_key h) s = None) ?hexes"
  have "fst ` set ?missing \<subseteq> set ids" by (auto simp: List.map_filter_def)
  moreover have "t = s \<and> packBySize (map JStr (map fst ?missing)) (list_body [] ''_drep_ids'' []) (bodyLimit s) = Inl e"
    using assms by (auto simp: drepMetadataByHex_def Let_def split: if_splits sum.splits prod.splits)
  ultimately show ?thesis by (intro conjI exI [of _ "map fst ?missing"]) auto
qed

section \<open>The list of DReps\<close>

definition drep_slice :: "DrepListParams \<Rightarrow> string list \<Rightarrow> string list" where
  "drep_slice params ids = take (dl_limit params) (drop (dl_offset params) ids)"

definition drep_answer :: "bech32 \<Rightarrow> string list \<Rightarrow> DrepInfo list \<Rightarrow> bool" where
  "drep_answer B ids dreps \<longleftrightarrow>
     subseq (map (toLowerCase \<circ> dr_hex) dreps) (asked_credentials B ids) \<and>
     list_all (\<lambda>d. own_credential B d \<and> dr_status d = Drep_registered) dreps"

text \<open>A membership list as a walk gives it: of the whole list, or far enough for the page.\<close>

definition walked :: "('s, 'j) gov_deps \<Rightarrow> nat option set \<Rightarrow> string list \<Rightarrow> bool" where
  "walked g how ids \<longleftrightarrow> (\<exists>needed u v. needed \<in> how \<and> registeredDreps g needed u = (Inr ids, v))"

lemma walked_self: "registeredDreps g needed u = (Inr ids, v) \<Longrightarrow> walked g {needed} ids"
  unfolding walked_def by blast

lemma walked_mono: "walked g how ids \<Longrightarrow> how \<subseteq> how' \<Longrightarrow> walked g how' ids"
  unfolding walked_def by blast

definition gov_world :: "('s kworld \<Rightarrow> bool) \<Rightarrow> ('s, 'j) gov_deps \<Rightarrow> bool" where
  "gov_world I g \<longleftrightarrow> keyed_cache I (\<lambda>_. walked g {None}) (gd_readIds g) \<and>
     (\<forall>needed. keeps I (registeredDreps g needed) (\<lambda>_. True)) \<and> (\<forall>ids. keeps I (drepInfoByIds g ids) (\<lambda>_. True))"

lemma subseq_filter_map: "subseq (map f xs) zs \<Longrightarrow> subseq (map f (filter P xs)) zs"
  by (rule subseq_order.order_trans [OF subseq_map [OF subseq_filter_left]])

lemma getDrepList_keeps:
  assumes "gov_world I g"
  shows "keeps I (getDrepList g params) (\<lambda>dreps. \<exists>ids.
    walked g {None, Some (dl_offset params + dl_limit params)} ids \<and> drep_answer (gd_bech32 g) (drep_slice params ids) dreps)"
  unfolding getDrepList_def
proof (rule keeps_bind [where R = "walked g {None, Some (dl_offset params + dl_limit params)}"])
  have scan: "keeps I (registeredDreps g needed) (walked g {needed})" for needed
  proof (rule keeps_result)
    show "keeps I (registeredDreps g needed) (\<lambda>_. True)" using assms unfolding gov_world_def by blast
  qed (rule walked_self)
  have "keyed_cache I (\<lambda>_ :: string. walked g {None}) (gd_readIds g)" using assms unfolding gov_world_def by blast
  note cached = keyed_cache.read_keeps [OF this scan]
  show "keeps I (if gd_caching g
             then gd_readIds g ''gov:drep-membership'' (CachePolicy DREP_MEMBERSHIP_TTL_MS (Some DREP_MEMBERSHIP_STALE_MS))
                    (registeredDreps g None)
             else registeredDreps g (Some (dl_offset params + dl_limit params)))
      (walked g {None, Some (dl_offset params + dl_limit params)})"
  proof (cases "gd_caching g")
    case True
    show ?thesis unfolding if_P [OF True] by (rule keeps_weaken [OF cached], erule walked_mono, simp)
  next
    case False
    show ?thesis unfolding if_not_P [OF False] by (rule keeps_weaken [OF scan], erule walked_mono, simp)
  qed
next
  fix ids
  assume ids: "walked g {None, Some (dl_offset params + dl_limit params)} ids"
  let ?slice = "drep_slice params ids"
  have info: "keeps I (drepInfoByIds g ?slice) (\<lambda>dreps. subseq (map (toLowerCase \<circ> dr_hex) dreps)
      (asked_credentials (gd_bech32 g) ?slice) \<and> list_all (own_credential (gd_bech32 g)) dreps)"
    proof (rule keeps_result)
    show "keeps I (drepInfoByIds g ?slice) (\<lambda>_. True)" using assms unfolding gov_world_def by blast
  qed (rule drepInfoByIds_own)
  show "keeps I (bindIO (drepInfoByIds g (take (dl_limit params) (drop (dl_offset params) ids))) (\<lambda>hydrated.
     returnIO (filter (\<lambda>d. dr_status d = Drep_registered) hydrated))) (\<lambda>dreps. \<exists>ids.
    walked g {None, Some (dl_offset params + dl_limit params)} ids \<and> drep_answer (gd_bech32 g) (drep_slice params ids) dreps)"
    unfolding drep_slice_def [symmetric]
    by (rule keeps_bind [OF info], rule keeps_return, rule exI [of _ ids])
      (use ids in \<open>auto simp: drep_answer_def list_all_iff intro: subseq_filter_map\<close>)
qed

lemma walked_slice:
  assumes "walked g {None, Some (dl_offset params + dl_limit params)} ids" and "steady_dreps g page"
  shows "drep_slice params ids = drep_slice params (membership page DREP_LIST_MAX_PAGES None)"
proof -
  let ?n = "dl_offset params + dl_limit params"
  from assms(1) obtain needed u v where needed: "needed \<in> {None, Some ?n}"
    and run: "registeredDreps g needed u = (Inr ids, v)" unfolding walked_def by blast
  from needed have "case needed of None \<Rightarrow> True | Some m \<Rightarrow> ?n \<le> m" by auto
  from drep_pages_membership [OF assms(2) run [unfolded registeredDreps_def] this(1)]
  have "take ?n ids = take ?n (membership page DREP_LIST_MAX_PAGES None)" by simp
  then show ?thesis by (simp add: drep_slice_def take_drop add.commute)
qed

text \<open>
  C40: the list of DReps shows only registered DReps, each under its own credential, in the order of the
  walk over upstream's list and only from the slice that was asked for.  A cached membership and the walk
  that stops early cut the same slice: that of the whole list, when the list does not change meanwhile.
\<close>

theorem drep_list_page:
  assumes "gov_world I g" and "steady_dreps g page" and "I s" and "getDrepList g params s = (Inr dreps, t)"
  shows "drep_answer (gd_bech32 g) (drep_slice params (membership page DREP_LIST_MAX_PAGES None)) dreps"
proof -
  from keepsD [OF getDrepList_keeps [OF assms(1)] assms(3,4)] obtain ids where
    "walked g {None, Some (dl_offset params + dl_limit params)} ids"
    "drep_answer (gd_bech32 g) (drep_slice params ids) dreps" by blast
  with walked_slice [OF _ assms(2)] show ?thesis by simp
qed


definition one_hex :: string where "one_hex = replicate 56 (CHR ''0'')"

definition one_bech32 :: bech32 where
  "one_bech32 = \<lparr>decodeUnsafe = (\<lambda>v lim. if v = ''drep1a'' then Some (''drep'', []) else None),
     fromWordsUnsafe = (\<lambda>ws. Some (replicate 28 0))\<rparr>"

definition one_info :: drepInfoRow where
  "one_info = \<lparr>di_drep_id = ''drep1a'', di_hex = one_hex, di_has_script = False, di_drep_status = Drep_registered,
     di_active = True, di_deposit = None, di_amount = Some (NumStr ''5''), di_expires_epoch_no = None,
     di_meta_url = None, di_meta_hash = None\<rparr>"

definition drep_site :: "string \<Rightarrow> (drepListRow + drepInfoRow) list" where
  "drep_site url =
     (if url = kc_baseUrl default_client @ ''/drep_info'' then [Inr one_info]
      else if url = kc_baseUrl default_client @ ''/drep_metadata'' then []
      else if url = kc_baseUrl default_client @ ''/drep_list?'' @ form_pairs (drep_query None DREP_LIST_PAGE_SIZE)
      then [Inl \<lparr>dx_drep_id = ''drep1a'', dx_registered = True\<rparr>, Inl \<lparr>dx_drep_id = ''drep1b'', dx_registered = False\<rparr>]
      else [])"

definition one_gov :: "(unit, drepListRow + drepInfoRow) gov_deps" where
  "one_gov = \<lparr>gd_client = default_client, gd_net = koios_site drep_site, gd_bech32 = one_bech32, gd_caching = False,
     gd_readIds = no_cache_read, gd_peekMeta = (\<lambda>_ _. None), gd_generation = (\<lambda>_ _. 0), gd_setMeta = (\<lambda>_ _ _ _ s. s),
     gd_encode = (\<lambda>s. s),
     gd_list = (\<lambda>j. case j of Inl r \<Rightarrow> Some r | Inr _ \<Rightarrow> None),
     gd_info = (\<lambda>j. case j of Inl _ \<Rightarrow> None | Inr r \<Rightarrow> Some r),
     gd_meta = (\<lambda>_. None), gd_proposal = (\<lambda>_. None), gd_summary = (\<lambda>_. None)\<rparr>"

lemma one_credential: "drepCredentialHex one_bech32 ''drep1a'' = Some one_hex"
  by code_simp

lemma one_info_ok: "drepInfoRow_ok one_bech32 one_info"
  by code_simp

definition one_page :: "string option \<Rightarrow> drepListRow list" where
  "one_page after = (if form_pairs (drep_query after DREP_LIST_PAGE_SIZE) = form_pairs (drep_query None DREP_LIST_PAGE_SIZE)
     then [\<lparr>dx_drep_id = ''drep1a'', dx_registered = True\<rparr>, \<lparr>dx_drep_id = ''drep1b'', dx_registered = False\<rparr>] else [])"

lemma read_dreps_site: "read_dreps one_gov after DREP_LIST_PAGE_SIZE s = (Inr (one_page after), s)"
proof -
  let ?path = "''/drep_list?'' @ form_pairs (drep_query after DREP_LIST_PAGE_SIZE)"
  have "drep_site (kc_baseUrl default_client @ ?path) = map Inl (one_page after)"
    by (simp add: drep_site_def one_page_def)
  moreover have "those (map (gd_list one_gov) (map Inl (one_page after))) = Some (one_page after)"
    by (simp add: one_page_def one_gov_def)
  moreover have "length (one_page after) \<le> 1000" by (simp add: one_page_def)
  ultimately have "koios_get default_client (koios_site drep_site) (z_array (gd_list one_gov)) ?path s = (Inr (one_page after), s)"
    by (intro koios_get_site) auto
  then show ?thesis by (simp add: read_dreps_def one_gov_def)
qed

theorem drep_list_page_witness:
  "\<exists>dreps. getDrepList one_gov \<lparr>dl_limit = 1, dl_offset = 0\<rparr> idle = (Inr dreps, idle) \<and>
    map (\<lambda>d. (dr_drepId d, dr_votingPower d)) dreps = [(''drep1a'', ''5'')] \<and>
    drep_answer one_bech32 [''drep1a''] dreps"
proof -
  let ?p = "\<lparr>dl_limit = 1, dl_offset = 0\<rparr> :: DrepListParams"
  have world: "gov_world (\<lambda>_. True) one_gov"
    by (simp add: gov_world_def one_gov_def uncached.keyed_cache_axioms keeps_def)
  have steady: "steady_dreps one_gov one_page" by (simp add: steady_dreps_def read_dreps_site)
  have max: "DREP_LIST_MAX_PAGES = Suc 19" by (simp add: DREP_LIST_MAX_PAGES_def)
  have page: "one_page None = [\<lparr>dx_drep_id = ''drep1a'', dx_registered = True\<rparr>, \<lparr>dx_drep_id = ''drep1b'', dx_registered = False\<rparr>]"
    by (simp add: one_page_def)
  have list: "registeredDreps one_gov needed idle = (Inr [''drep1a''], idle)" for needed
    unfolding registeredDreps_def max drep_pages.simps
    by (simp add: bindIO_def read_dreps_site page returnIO_def) (simp add: DREP_LIST_PAGE_SIZE_def returnIO_def)
  have slice: "drep_slice ?p (membership one_page DREP_LIST_MAX_PAGES None) = [''drep1a'']"
    unfolding max membership.simps page by (simp add: drep_slice_def DREP_LIST_PAGE_SIZE_def)
  have cred: "drepCredentialHex (gd_bech32 one_gov) ''drep1a'' = Some one_hex" by (simp add: one_gov_def one_credential)
  have pack: "packBySize [JStr ''drep1a''] (list_body [] ''_drep_ids'' []) 5120 = Inr [[JStr ''drep1a'']]" by code_simp
  have "koios_batch default_client (koios_site drep_site) (z_array (refine (gd_info one_gov) (drepInfoRow_ok one_bech32))) ''/drep_info''
      (list_body [] ''_drep_ids'' [] [JStr ''drep1a'']) idle = (Inr [one_info], idle)"
    by (rule koios_batch_site [where js = "[Inr one_info]"]) (simp_all add: drep_site_def refine_def one_info_ok one_gov_def)
  with pack have info: "batchAll default_client (koios_site drep_site) (refine (gd_info one_gov) (drepInfoRow_ok one_bech32)) ''/drep_info''
      [JStr ''drep1a''] (list_body [] ''_drep_ids'' []) idle = (Inr [one_info], idle)"
    by (simp add: batchAll_def packAdaptively_def catchIO_def pack_run_def bindIO_def liftE_def returnIO_def idle_def)
  have "koios_batch default_client (koios_site drep_site) (z_array (gd_meta one_gov)) ''/drep_metadata''
      (list_body [] ''_drep_ids'' [] [JStr ''drep1a'']) idle = (Inr [], idle)"
    by (rule koios_batch_site [where js = "[]"]) (simp_all add: drep_site_def)
  with pack have names: "drepMetadataByHex one_gov [''drep1a''] idle = (Inr [], idle)"
    by (simp add: drepMetadataByHex_def cred map_filter_simps Let_def idle_def) (simp add: one_gov_def)
  let ?d = "mapDrepInfo one_info"
  have hex: "toLowerCase (di_hex one_info) = one_hex" by code_simp
  have run: "getDrepList one_gov ?p idle = (Inr [?d], idle)"
    using list [of "Some 1"] info names cred hex
    by (simp add: getDrepList_def drepInfoByIds_def one_gov_def bindIO_def bothIO_def returnIO_def hydrate_dreps_def
        with_meta_def mapDrepInfo_def one_info_def jm_get_def)
  from drep_list_page [OF world steady _ run] slice have "drep_answer one_bech32 [''drep1a''] [?d]"
    by (simp add: one_gov_def)
  moreover have "map (\<lambda>d. (dr_drepId d, dr_votingPower d)) [?d] = [(''drep1a'', ''5'')]"
    by (simp add: mapDrepInfo_def one_info_def numeric_text_def)
  ultimately show ?thesis by (intro exI [of _ "[?d]"] conjI run)
qed

section \<open>Proposals and their tallies\<close>

lemma proposal_tally_total: "\<exists>v t. proposal_tally g row s = (Inr v, t)"
  by (simp add: proposal_tally_def catchIO_def returnIO_def split: prod.split sum.split)

lemma allIO_total:
  assumes "\<And>x s. \<exists>y t. f x s = (Inr y, t)"
  shows "\<exists>ys t. allIO f xs s = (Inr ys, t)"
proof (induction xs arbitrary: s)
  case (Cons x xs)
  from assms obtain y u where x: "f x s = (Inr y, u)" by blast
  from Cons obtain ys t where "allIO f xs u = (Inr ys, t)" by blast
  with x show ?case by simp
qed (simp add: returnIO_def)

text \<open>A tally that cannot be read costs its proposal the votes; the list fails only with its own read.\<close>

lemma proposals_best_effort:
  assumes "koios_get (gd_client g) (gd_net g) (z_array (refine (gd_proposal g) proposalRow_ok)) (proposals_path params) s = (Inr rows, u)"
  shows "\<exists>tallies t. length tallies = length rows \<and> getProposals g params s = (Inr (map2 map_proposal rows tallies), t)"
proof (cases "rows = []")
  case True
  with assms show ?thesis by (auto simp: getProposals_def bindIO_def returnIO_def)
next
  case False
  obtain tallies t where run: "allIO (proposal_tally g) rows u = (Inr tallies, t)"
    using allIO_total [of "proposal_tally g", OF proposal_tally_total] by blast
  with False assms have "getProposals g params s = (Inr (map2 map_proposal rows tallies), t)"
    by (simp add: getProposals_def bindIO_def returnIO_def)
  with allIO_Inr_length [OF run] show ?thesis by blast
qed

text \<open>
  The bodies without a franchise have no tally: no pools on withdrawals and constitutions, no committee
  on its own replacement.  A power is the decimal of the exact sum.
\<close>

lemma proposal_votes_shape:
  "proposal_votes ty None = (None, None, None)"
  "proposal_votes ty (Some v) = (d, p, c) \<Longrightarrow> d \<noteq> None \<and>
     (p = None \<longleftrightarrow> ty \<in> {TreasuryWithdrawals, NewConstitution}) \<and> (c = None \<longleftrightarrow> ty \<in> {NewCommittee, NoConfidence})"
  by (auto simp: proposal_votes_def split: if_splits)

lemma numeric_text_val: "BigInt_of (numeric_text v) = (case v of None \<Rightarrow> 0 | Some n \<Rightarrow> numeric_val n)"
proof (cases v)
  case None
  have "BigInt_of ''0'' = 0" by code_simp
  with None show ?thesis by (simp add: numeric_text_def)
qed (simp add: numeric_text_def)

lemma addNumeric_exact:
  "BigInt_of (addNumeric vs) = sum_list (map (\<lambda>v. case v of None \<Rightarrow> 0 | Some n \<Rightarrow> numeric_val n) vs)"
  by (simp add: addNumeric_def numeric_text_val)

end
