(* ===== verification/Decimal.thy ===== *)
theory Decimal
  imports Errors Js_Num
begin

text \<open>
  \<^verbatim>\<open>src/prices/decimal.ts\<close>: a price as a plain decimal string.  \<open>Number.prototype.toString\<close> is a
  parameter (the shortest literal that reads back as the number); what the source does with its result,
  the rewriting of an exponential literal, is defined here and keeps the value exactly.
\<close>

section \<open>Literals\<close>

text \<open>\<open>/^(-?)(\d+)(?:\.(\d+))?e([+-]?\d+)$/i\<close>: sign, integer digits, fraction digits, exponent.\<close>

definition exponential_parts :: "string \<Rightarrow> (string \<times> string \<times> string \<times> int) option" where
  "exponential_parts str =
     (let sign = (if take 1 str = ''-'' then ''-'' else []); t = drop (length sign) str;
          ip = takeWhile is_digit t; r1 = dropWhile is_digit t;
          fp = (if take 1 r1 = ''.'' then takeWhile is_digit (tl r1) else []);
          r2 = (if fp = [] then r1 else dropWhile is_digit (tl r1)) in
      if ip = [] \<or> r2 = [] then None
      else map_option (\<lambda>e. (sign, ip, fp, e)) (js_exponent r2))"

definition strip_zeros :: "string \<Rightarrow> string" where
  "strip_zeros s = rev (dropWhile (\<lambda>c. c = CHR ''0'') (rev s))"

definition strip_point :: "string \<Rightarrow> string" where
  "strip_point s = (if s \<noteq> [] \<and> last s = CHR ''.'' then butlast s else s)"

definition expandExponential :: "string \<Rightarrow> string" where
  "expandExponential str = (case exponential_parts str of
     None \<Rightarrow> str
   | Some (sign, intPart, fracPart, exponent) \<Rightarrow>
       let digits = intPart @ fracPart; pointPos = int (length intPart) + exponent in
       if pointPos \<le> 0 then
         sign @ strip_point (strip_zeros (''0.'' @ replicate (nat (- pointPos)) (CHR ''0'') @ digits))
       else if pointPos \<ge> int (length digits) then
         sign @ digits @ replicate (nat (pointPos - int (length digits))) (CHR ''0'')
       else sign @ strip_point (strip_zeros (take (nat pointPos) digits @ ''.'' @ drop (nat pointPos) digits)))"

definition has_exponent :: "string \<Rightarrow> bool" where
  "has_exponent s \<longleftrightarrow> CHR ''e'' \<in> set s \<or> CHR ''E'' \<in> set s"

definition toDecimalString :: "(jsnum \<Rightarrow> string) \<Rightarrow> jsnum \<Rightarrow> string result" where
  "toDecimalString num_string n =
     (if \<not> js_isFinite n
      then Inl (JsRangeError (''cannot format a non-finite number as a decimal string: '' @ num_string n))
      else let str = num_string n in
        Inr (if has_exponent str then expandExponential str else str))"

definition divideDecimalStrings :: "(jsnum \<Rightarrow> string) \<Rightarrow> string \<Rightarrow> string \<Rightarrow> string result" where
  "divideDecimalStrings num_string numerator denominator =
     (case js_Number numerator of
        JsNum a \<Rightarrow>
          (case js_Number denominator of
             JsNum b \<Rightarrow> if b = 0 then Inl (JsRangeError ''cannot divide by a zero denominator'')
               else toDecimalString num_string (js_finite_or_inf (a / b))
           | _ \<Rightarrow> Inl (JsRangeError ''cannot divide with a non-finite denominator''))
      | _ \<Rightarrow> Inl (JsRangeError ''cannot divide with a non-finite numerator''))"

section \<open>Values\<close>

definition lit_value :: "string \<Rightarrow> rat option" where
  "lit_value s = (if take 1 s = ''-'' then map_option uminus (js_decimal (tl s)) else js_decimal s)"

text \<open>A decimal a naive parser reads: digits, and perhaps a point and digits.\<close>

definition plain_unsigned :: "string \<Rightarrow> bool" where
  "plain_unsigned t \<longleftrightarrow> (\<exists>ip fp. (t = ip \<or> t = ip @ ''.'' @ fp \<and> fp \<noteq> []) \<and> ip \<noteq> [] \<and>
     list_all is_digit ip \<and> list_all is_digit fp)"

definition plain_decimal :: "string \<Rightarrow> bool" where
  "plain_decimal s \<longleftrightarrow> plain_unsigned (if take 1 s = ''-'' then tl s else s)"

lemma digits_take_drop:
  assumes "list_all is_digit ds" and "r = [] \<or> \<not> is_digit (hd r)"
  shows "takeWhile is_digit (ds @ r) = ds" "dropWhile is_digit (ds @ r) = r"
  using assms by (induction ds) (auto simp: takeWhile_eq_Nil_iff dropWhile_eq_self_iff)

lemma not_digit_marks [simp]: "\<not> is_digit (CHR ''.'')" "\<not> is_digit (CHR ''-'')" "\<not> is_digit (CHR ''e'')" "\<not> is_digit (CHR ''E'')"
  "is_digit (CHR ''0'')"
  by (simp_all add: is_digit_def)

lemma nat_of_string_append:
  "nat_of_string (a @ b) = nat_of_string a * 10 ^ length b + nat_of_string b"
proof (induction b rule: rev_induct)
  case (snoc c b)
  then show ?case by (simp add: nat_of_string_snoc add_mult_distrib2 flip: append_assoc)
qed (simp add: nat_of_string_def)

lemma nat_of_string_zeros: "nat_of_string (replicate n (CHR ''0'')) = 0"
proof (induction n)
  case (Suc n)
  then show ?case
    by (simp add: replicate_append_same [symmetric] nat_of_string_snoc digit_val_def)
qed (simp add: nat_of_string_def)

lemma pow10_add: "pow10 (a + b) = pow10 a * pow10 b"
proof -
  have p: "pow10 e = (10 :: rat) powi e" for e
    by (simp add: pow10_def power_int_def inverse_eq_divide power_divide)
  show ?thesis by (simp add: p power_int_add)
qed

lemma pow10_nat: "pow10 (int n) = 10 ^ n"
  by (simp add: pow10_def)

text \<open>The value of a plain decimal: its digits, shifted by the length of the fraction.\<close>

lemma plain_value:
  assumes "list_all is_digit ip" "list_all is_digit fp" "ip \<noteq> []"
  shows "js_decimal ip = Some (of_nat (nat_of_string ip))"
    and "js_decimal (ip @ ''.'' @ fp) = Some (of_nat (nat_of_string (ip @ fp)) * pow10 (- int (length fp)))"
proof -
  show "js_decimal ip = Some (of_nat (nat_of_string ip))"
  proof -
    have d: "takeWhile is_digit ip = ip" "dropWhile is_digit ip = []"
      using digits_take_drop [OF assms(1), of "[]"] by simp_all
    show ?thesis using assms(3) by (simp add: js_decimal_def js_exponent_def pow10_def Let_def d)
  qed
  have "takeWhile is_digit (ip @ ''.'' @ fp) = ip" "dropWhile is_digit (ip @ ''.'' @ fp) = ''.'' @ fp"
    using digits_take_drop [OF assms(1), of "''.'' @ fp"] by auto
  moreover have f: "takeWhile is_digit fp = fp" "dropWhile is_digit fp = []"
    using digits_take_drop [OF assms(2), of "[]"] by simp_all
  ultimately show "js_decimal (ip @ ''.'' @ fp) = Some (of_nat (nat_of_string (ip @ fp)) * pow10 (- int (length fp)))"
    using assms(3) by (simp add: js_decimal_def js_exponent_def Let_def f)
qed

lemma strip_zeros_point: "strip_zeros (a @ ''.'' @ f) = a @ ''.'' @ strip_zeros f"
proof (cases "dropWhile (\<lambda>c. c = CHR ''0'') (rev f)")
  case Nil
  then have "\<forall>c \<in> set (rev f). c = CHR ''0''" by (simp add: dropWhile_eq_Nil_conv)
  then have "dropWhile (\<lambda>c. c = CHR ''0'') (rev f @ CHR ''.'' # rev a) = CHR ''.'' # rev a"
    by (subst dropWhile_append2) auto
  with Nil show ?thesis by (simp add: strip_zeros_def)
next
  case (Cons c cs)
  have "c \<in> set (dropWhile (\<lambda>c. c = CHR ''0'') (rev f))" "c \<noteq> CHR ''0''"
    using Cons hd_dropWhile [of "\<lambda>c. c = CHR ''0''" "rev f"] by simp_all
  then have "c \<in> set (rev f)" by (blast dest: set_dropWhileD)
  from dropWhile_append1 [OF this, of "\<lambda>c. c = CHR ''0''"] \<open>c \<noteq> CHR ''0''\<close>
  have "dropWhile (\<lambda>c. c = CHR ''0'') (rev f @ CHR ''.'' # rev a) = (c # cs) @ CHR ''.'' # rev a"
    by (simp add: Cons)
  with Cons show ?thesis by (simp add: strip_zeros_def)
qed

lemma strip_zeros_split: "\<exists>k. f = strip_zeros f @ replicate k (CHR ''0'')"
proof -
  have "rev f = takeWhile (\<lambda>c. c = CHR ''0'') (rev f) @ dropWhile (\<lambda>c. c = CHR ''0'') (rev f)" by simp
  moreover have "takeWhile (\<lambda>c. c = CHR ''0'') (rev f) = replicate (length (takeWhile (\<lambda>c. c = CHR ''0'') (rev f))) (CHR ''0'')"
    by (rule replicate_length_same [symmetric]) (auto dest: set_takeWhileD)
  ultimately have "f = strip_zeros f @ rev (replicate (length (takeWhile (\<lambda>c. c = CHR ''0'') (rev f))) (CHR ''0''))"
    by (metis rev_append rev_rev_ident strip_zeros_def)
  then show ?thesis unfolding rev_replicate by blast
qed

lemma strip_point_point: "list_all is_digit g \<Longrightarrow> strip_point (a @ ''.'' @ g) = (if g = [] then a else a @ ''.'' @ g)"
proof (cases g rule: rev_cases)
  case (snoc ys y)
  assume "list_all is_digit g"
  with snoc have "y \<noteq> CHR ''.''" by (auto simp: is_digit_def)
  with snoc show ?thesis by (simp add: strip_point_def)
qed (simp add: strip_point_def butlast_append)

lemma stripped_decimal:
  assumes "list_all is_digit a" "list_all is_digit f" "a \<noteq> []"
  defines "s \<equiv> strip_point (strip_zeros (a @ ''.'' @ f))"
  shows "plain_unsigned s \<and> js_decimal s = Some (of_nat (nat_of_string (a @ f)) * pow10 (- int (length f)))"
proof -
  obtain k where f: "f = strip_zeros f @ replicate k (CHR ''0'')" using strip_zeros_split by blast
  let ?g = "strip_zeros f"
  have g: "list_all is_digit ?g" using assms(2) f by (metis list_all_append)
  have s: "s = (if ?g = [] then a else a @ ''.'' @ ?g)"
    unfolding s_def strip_zeros_point using strip_point_point [OF g] .
  have "nat_of_string (a @ f) = nat_of_string ((a @ ?g) @ replicate k (CHR ''0''))" using f by (metis append_assoc)
  then have n: "nat_of_string (a @ f) = nat_of_string (a @ ?g) * 10 ^ k"
    by (simp only: nat_of_string_append [of "a @ ?g"] nat_of_string_zeros length_replicate add_0_right)
  have "length f = length ?g + k" using f by (metis length_append length_replicate)
  then have "pow10 (int k) * pow10 (- int (length f)) = pow10 (- int (length ?g))" by (simp flip: pow10_add)
  then have v: "rat_of_nat (nat_of_string (a @ f)) * pow10 (- int (length f)) =
      of_nat (nat_of_string (a @ ?g)) * pow10 (- int (length ?g))"
    by (simp add: n pow10_nat mult.assoc)
  have "plain_unsigned s"
    unfolding plain_unsigned_def s using assms(1,3) g by (intro exI [of _ a] exI [of _ ?g]) auto
  moreover have "js_decimal s = Some (of_nat (nat_of_string (a @ ?g)) * pow10 (- int (length ?g)))"
    using plain_value [OF assms(1) g assms(3)] by (simp add: s pow10_def)
  ultimately show ?thesis using v by simp
qed

lemma list_all_takeWhile_digits: "list_all is_digit (takeWhile is_digit xs)"
  by (auto simp: list_all_iff dest: set_takeWhileD)

lemma take_one: "take 1 r = [c] \<longleftrightarrow> r \<noteq> [] \<and> hd r = c"
  by (cases r) auto

lemma js_decimal_parts:
  assumes "takeWhile is_digit t = ip" and "dropWhile is_digit t = r" and "ip \<noteq> []"
    and "fp = (if take 1 r = ''.'' then takeWhile is_digit (tl r) else [])"
    and "js_exponent (if fp = [] then r else dropWhile is_digit (tl r)) = Some e"
  shows "js_decimal t = Some (of_nat (nat_of_string (ip @ fp)) * pow10 (e - int (length fp)))"
proof (cases "take 1 r = ''.''")
  case True
  then obtain r' where r: "r = CHR ''.'' # r'" by (cases r) auto
  with assms(5) have "fp \<noteq> []" by (auto simp: js_exponent_def)
  with assms(4,5) r have "fp = takeWhile is_digit r'" "js_exponent (dropWhile is_digit r') = Some e" by simp_all
  with assms(3) r show ?thesis unfolding js_decimal_def Let_def assms(1,2) by simp
next
  case False
  then have "\<not> (r \<noteq> [] \<and> hd r = CHR ''.'')" using take_one [of r "CHR ''.''"] by simp
  with assms(3-5) False show ?thesis unfolding js_decimal_def Let_def assms(1,2) by auto
qed

lemma exponential_parts_value:
  assumes "exponential_parts s = Some (sign, ip, fp, e)"
  shows "list_all is_digit ip" "list_all is_digit fp" "ip \<noteq> []" "sign = [] \<or> sign = ''-''" "(sign = ''-'') = (take 1 s = ''-'')"
    "lit_value s = Some ((if sign = [] then 1 else - 1) * (of_nat (nat_of_string (ip @ fp)) * pow10 (e - int (length fp))))"
proof -
  let ?t = "drop (length sign) s"
  let ?r1 = "dropWhile is_digit ?t"
  from assms have sign: "sign = (if take 1 s = ''-'' then ''-'' else [])" and ip: "ip = takeWhile is_digit ?t"
    and fp: "fp = (if take 1 ?r1 = ''.'' then takeWhile is_digit (tl ?r1) else [])" and ne: "ip \<noteq> []"
    and e: "js_exponent (if fp = [] then ?r1 else dropWhile is_digit (tl ?r1)) = Some e"
    and e_ne: "(if fp = [] then ?r1 else dropWhile is_digit (tl ?r1)) \<noteq> []"
    by (auto simp: exponential_parts_def Let_def dropWhile_eq_Nil_conv [THEN iffD2] split: if_splits)
  show "list_all is_digit ip" unfolding ip by (rule list_all_takeWhile_digits)
  show "list_all is_digit fp" unfolding fp by (simp only: list_all_takeWhile_digits list.pred_inject if_split simp_thms)
  show "ip \<noteq> []" "sign = [] \<or> sign = ''-''" "(sign = ''-'') = (take 1 s = ''-'')"
    using ne by (simp_all add: sign)
  have "js_decimal ?t = Some (of_nat (nat_of_string (ip @ fp)) * pow10 (e - int (length fp)))"
    by (rule js_decimal_parts [OF ip [symmetric] refl ne fp e])
  moreover have "lit_value s = (if sign = [] then js_decimal ?t else map_option uminus (js_decimal ?t))"
    by (auto simp: lit_value_def sign drop_Suc)
  ultimately have "lit_value s = (if sign = [] then Some (of_nat (nat_of_string (ip @ fp)) * pow10 (e - int (length fp)))
      else map_option uminus (Some (of_nat (nat_of_string (ip @ fp)) * pow10 (e - int (length fp)))))"
    by (simp only:)
  then show "lit_value s = Some ((if sign = [] then 1 else - 1) * (of_nat (nat_of_string (ip @ fp)) * pow10 (e - int (length fp))))"
    by (cases "sign = []") (simp_all del: of_nat_mult)
qed

text \<open>The three places the point can land, without the sign.\<close>

lemma expanded_decimal:
  fixes ip fp :: string and e :: int
  assumes "list_all is_digit ip" "list_all is_digit fp" "ip \<noteq> []"
  defines "digits \<equiv> ip @ fp" and "pos \<equiv> int (length ip) + e"
  defines "r \<equiv> (if pos \<le> 0 then strip_point (strip_zeros (''0.'' @ replicate (nat (- pos)) (CHR ''0'') @ digits))
      else if pos \<ge> int (length digits) then digits @ replicate (nat (pos - int (length digits))) (CHR ''0'')
      else strip_point (strip_zeros (take (nat pos) digits @ ''.'' @ drop (nat pos) digits)))"
  shows "plain_unsigned r \<and> js_decimal r = Some (of_nat (nat_of_string digits) * pow10 (e - int (length fp)))"
proof -
  have dg: "list_all is_digit digits" "digits \<noteq> []" using assms by (auto simp: digits_def)
  have len: "pos - int (length digits) = e - int (length fp)" by (simp add: pos_def digits_def)
  consider (left) "pos \<le> 0" | (right) "0 < pos" "pos \<ge> int (length digits)" | (inside) "0 < pos" "pos < int (length digits)"
    by linarith
  then show ?thesis
  proof cases
    case left
    let ?z = "replicate (nat (- pos)) (CHR ''0'')"
    have "list_all is_digit (?z @ digits)" using dg by (auto simp: list_all_iff)
    from stripped_decimal [OF _ this, of "''0''"]
    have "plain_unsigned r \<and> js_decimal r = Some (of_nat (nat_of_string ((''0'' @ ?z) @ digits)) * pow10 (- int (length (?z @ digits))))"
      using left by (simp add: r_def)
    moreover have "''0'' @ ?z = replicate (Suc (nat (- pos))) (CHR ''0'')" by simp
    then have "nat_of_string ((''0'' @ ?z) @ digits) = nat_of_string digits"
      by (simp only: nat_of_string_append nat_of_string_zeros)
    moreover have "- int (length (?z @ digits)) = e - int (length fp)" using left len by simp
    ultimately show ?thesis by simp
  next
    case right
    let ?z = "replicate (nat (pos - int (length digits))) (CHR ''0'')"
    have dz: "list_all is_digit (digits @ ?z)" "digits @ ?z \<noteq> []" using dg by (auto simp: list_all_iff)
    have "plain_unsigned r" unfolding plain_unsigned_def
      using right dz by (intro exI [of _ "digits @ ?z"] exI [of _ "[]"]) (simp add: r_def)
    moreover have "js_decimal r = Some (of_nat (nat_of_string digits) * pow10 (pos - int (length digits)))"
      using plain_value(1) [OF dz(1) _ dz(2), of "[]"] right
      by (simp add: r_def nat_of_string_append [of digits] nat_of_string_zeros pow10_def)
    ultimately show ?thesis using len by simp
  next
    case inside
    have "list_all is_digit (take (nat pos) digits)" "list_all is_digit (drop (nat pos) digits)" "take (nat pos) digits \<noteq> []"
      using dg inside by (auto simp: list_all_iff dest: in_set_takeD in_set_dropD)
    from stripped_decimal [OF this] inside len show ?thesis by (simp add: r_def of_nat_diff)
  qed
qed

lemma plain_unsigned_no_sign: "plain_unsigned t \<Longrightarrow> take 1 t \<noteq> ''-''"
  unfolding plain_unsigned_def by (auto simp: neq_Nil_conv)

text \<open>The expansion of an exponential literal is a plain decimal of the same value, whatever the exponent.\<close>

lemma expandExponential_exact:
  assumes "exponential_parts s \<noteq> None"
  shows "plain_decimal (expandExponential s) \<and> lit_value (expandExponential s) = lit_value s"
proof -
  from assms obtain sign ip fp e where p: "exponential_parts s = Some (sign, ip, fp, e)" by auto
  note v = exponential_parts_value [OF p]
  let ?digits = "ip @ fp" and ?pos = "int (length ip) + e"
  define r where "r = (if ?pos \<le> 0 then strip_point (strip_zeros (''0.'' @ replicate (nat (- ?pos)) (CHR ''0'') @ ?digits))
      else if ?pos \<ge> int (length ?digits) then ?digits @ replicate (nat (?pos - int (length ?digits))) (CHR ''0'')
      else strip_point (strip_zeros (take (nat ?pos) ?digits @ ''.'' @ drop (nat ?pos) ?digits)))"
  have res: "expandExponential s = sign @ r"
    unfolding expandExponential_def p r_def by (simp add: Let_def)
  from expanded_decimal [OF v(1,2,3), of e]
  have r: "plain_unsigned r" "js_decimal r = Some (of_nat (nat_of_string ?digits) * pow10 (e - int (length fp)))"
    unfolding r_def by blast+
  from v(4) show ?thesis
  proof
    assume "sign = []"
    with res r v(6) plain_unsigned_no_sign [OF r(1)] show ?thesis by (simp add: plain_decimal_def lit_value_def)
  next
    assume "sign = ''-''"
    with res r v(6) show ?thesis by (simp add: plain_decimal_def lit_value_def)
  qed
qed

lemma exponential_parts_has_exponent: "exponential_parts s \<noteq> None \<Longrightarrow> has_exponent s"
proof -
  assume parts: "exponential_parts s \<noteq> None"
  define t where "t = drop (length (if take 1 s = ''-'' then ''-'' else [])) s"
  define r2 where "r2 = (if (if take 1 (dropWhile is_digit t) = ''.'' then takeWhile is_digit (tl (dropWhile is_digit t)) else []) = []
    then dropWhile is_digit t else dropWhile is_digit (tl (dropWhile is_digit t)))"
  from parts have "r2 \<noteq> []" "js_exponent r2 \<noteq> None"
    by (auto simp: exponential_parts_def Let_def r2_def t_def split: if_splits)
  then have "hd r2 = CHR ''e'' \<or> hd r2 = CHR ''E''" by (cases r2) (auto simp: js_exponent_def split: if_splits)
  moreover have "set r2 \<subseteq> set t"
  proof -
    have "set (dropWhile is_digit xs) \<subseteq> set xs" "set (tl xs) \<subseteq> set xs" for xs :: string
      by (auto dest: set_dropWhileD) (cases xs, auto)
    then show ?thesis unfolding r2_def by (auto split: if_splits) (metis (no_types) subsetD)+
  qed
  moreover have "set t \<subseteq> set s" unfolding t_def by (rule set_drop_subset)
  ultimately show ?thesis using \<open>r2 \<noteq> []\<close> hd_in_set [of r2] unfolding has_exponent_def by (metis subsetD)
qed

text \<open>
  C38: a formatted price is a plain decimal string, digits with at most a point and digits and never an
  exponent, and it has exactly the value of the literal the language prints for the number, at any
  magnitude; a number that is not finite is refused.
\<close>

theorem toDecimalString_exact:
  assumes "exponential_parts (num_string n) \<noteq> None \<or> plain_decimal (num_string n)"
  shows "case toDecimalString num_string n of
      Inl e \<Rightarrow> \<not> js_isFinite n \<and> (\<exists>m. e = JsRangeError m)
    | Inr s \<Rightarrow> js_isFinite n \<and> plain_decimal s \<and> \<not> has_exponent s \<and> lit_value s = lit_value (num_string n)"
proof -
  have no_e: "\<not> has_exponent s" if "plain_decimal s" for s
  proof -
    let ?t = "if take 1 s = ''-'' then tl s else s"
    from that have "\<forall>c \<in> set ?t. is_digit c \<or> c = CHR ''.''"
      unfolding plain_decimal_def plain_unsigned_def by (auto simp: list_all_iff)
    moreover have "set s \<subseteq> insert (CHR ''-'') (set ?t)" by (cases s) auto
    ultimately have "\<forall>c \<in> set s. is_digit c \<or> c = CHR ''.'' \<or> c = CHR ''-''" by blast
    then show ?thesis unfolding has_exponent_def by (auto dest: bspec [where x = "CHR ''e''"] bspec [where x = "CHR ''E''"])
  qed
  show ?thesis
  proof (cases "js_isFinite n \<and> has_exponent (num_string n)")
    case True
    with assms no_e have "exponential_parts (num_string n) \<noteq> None" by blast
    from expandExponential_exact [OF this] no_e True show ?thesis by (simp add: toDecimalString_def)
  next
    case False
    with assms exponential_parts_has_exponent no_e show ?thesis by (auto simp: toDecimalString_def)
  qed
qed

theorem toDecimalString_exact_witness:
  "toDecimalString (\<lambda>_. ''1.234e-9'') (JsNum (1234 / 10 ^ 12)) = Inr ''0.000000001234'' \<and>
   toDecimalString (\<lambda>_. ''-12.5e+3'') (JsNum (- 12500)) = Inr ''-12500'' \<and>
   lit_value ''0.000000001234'' = lit_value ''1.234e-9''"
proof -
  have parts: "exponential_parts ''1.234e-9'' = Some ([], ''1'', ''234'', - 9)"
      "exponential_parts ''-12.5e+3'' = Some (''-'', ''12'', ''5'', 3)"
    by (simp_all add: exponential_parts_def js_exponent_def is_digit_def nat_of_string_def digit_val_def Let_def)
  have run: "toDecimalString (\<lambda>_. ''1.234e-9'') (JsNum (1234 / 10 ^ 12)) = Inr ''0.000000001234''"
    "toDecimalString (\<lambda>_. ''-12.5e+3'') (JsNum (- 12500)) = Inr ''-12500''"
    by (simp_all add: toDecimalString_def has_exponent_def expandExponential_def parts Let_def strip_zeros_def strip_point_def
        numeral_eq_Suc)
  from toDecimalString_exact [of "\<lambda>_. ''1.234e-9''" "JsNum (1234 / 10 ^ 12)"] parts run(1)
  have "lit_value ''0.000000001234'' = lit_value ''1.234e-9''" by simp
  with run show ?thesis by blast
qed

end
