(* ===== verification/Price_Http.thy ===== *)
theory Price_Http
  imports Decimal Transport Js_Sort Keyed_Cache
begin

text \<open>
  \<^verbatim>\<open>src/prices/http.ts\<close> and \<^verbatim>\<open>src/prices/coingecko.ts\<close>: one request with no retry, mapped onto the error
  taxonomy, and the price of ADA in fiat with its history.
\<close>

section \<open>One request\<close>

datatype body_read = BodyRead | BodyTimeout | BodyBroken

record 'j price_response =
  pres_ok :: bool
  pres_status :: nat
  pres_json :: "'j json_outcome"
  pres_text :: body_read

datatype 'j price_fetch = PriceTimeout | PriceFailed | PriceResponse "'j price_response"

record ('s, 'j) price_net =
  pn_fetch :: "http_request \<Rightarrow> 's \<Rightarrow> 'j price_fetch \<times> 's"
  pn_now :: "'s \<Rightarrow> int"

record FetchJsonOptions =
  fo_timeoutMs :: int
  fo_headers :: "(string, string) js_map"
  fo_upstream :: string

definition drainErrorBody :: "'j price_response \<Rightarrow> string \<Rightarrow> unit result" where
  "drainErrorBody res upstream = (case pres_text res of
     BodyRead \<Rightarrow> Inr ()
   | BodyTimeout \<Rightarrow> Inl (ProviderTimeoutError (upstream @ '' response timed out''))
   | BodyBroken \<Rightarrow> Inl (ProviderError (upstream @ '' response body could not be read'') (Some (pres_status res)) None))"

definition price_request :: "string \<Rightarrow> FetchJsonOptions \<Rightarrow> http_request" where
  "price_request url opts = \<lparr>req_url = url, req_method = ''GET'',
     req_headers = fold (\<lambda>(k, v). jm_set k v) (fo_headers opts) [(''accept'', ''application/json'')],
     req_body = NoBody, req_timeout = fo_timeoutMs opts, req_redirect = Some ''error''\<rparr>"

text \<open>What is made of a response; \<open>None\<close> is the absence a 404 reports.\<close>

definition price_answer :: "('j, 'a) schema \<Rightarrow> string \<Rightarrow> 'j price_response \<Rightarrow> 'a option result" where
  "price_answer sch upstream res =
     (if pres_status res = 404 then
        (case drainErrorBody res upstream of
           Inl (ProviderTimeoutError m) \<Rightarrow> Inl (ProviderTimeoutError m)
         | _ \<Rightarrow> Inr None)
      else if \<not> pres_ok res then
        bindE (drainErrorBody res upstream) (\<lambda>_.
          Inl (ProviderError (upstream @ '' returned '' @ string_of_nat (pres_status res) @
            (if pres_status res = 429 then '' (rate limited)'' else [])) (Some (pres_status res)) None))
      else (case pres_json res of
         JsonTimeout \<Rightarrow> Inl (ProviderTimeoutError (upstream @ '' response timed out''))
       | JsonInvalid \<Rightarrow> Inl (MalformedUpstreamError (upstream @ '' returned invalid json''))
       | JsonOk v \<Rightarrow> (case sch v of
           None \<Rightarrow> Inl (MalformedUpstreamError (upstream @ '' response shape mismatch''))
         | Some a \<Rightarrow> Inr (Some a))))"

definition fetchJsonOrNotFound :: "('s, 'j) price_net \<Rightarrow> string \<Rightarrow> ('j, 'a) schema \<Rightarrow> FetchJsonOptions \<Rightarrow>
    ('s, 'a option) io_result" where
  "fetchJsonOrNotFound n url sch opts s =
     (case pn_fetch n (price_request url opts) s of
        (PriceTimeout, t) \<Rightarrow> (Inl (ProviderTimeoutError (fo_upstream opts @ '' request timed out'')), t)
      | (PriceFailed, t) \<Rightarrow> (Inl (ProviderError (fo_upstream opts @ '' request failed'') None None), t)
      | (PriceResponse res, t) \<Rightarrow> (price_answer sch (fo_upstream opts) res, t))"

definition fetchJson :: "('s, 'j) price_net \<Rightarrow> string \<Rightarrow> ('j, 'a) schema \<Rightarrow> FetchJsonOptions \<Rightarrow> ('s, 'a) io_result" where
  "fetchJson n url sch opts =
     bindIO (fetchJsonOrNotFound n url sch opts) (\<lambda>r. case r of
       None \<Rightarrow> throwIO (ProviderError (fo_upstream opts @ '' returned 404'') (Some 404) None)
     | Some a \<Rightarrow> returnIO a)"

text \<open>A failure is a 502 or a 504, and never repeats what upstream sent back.\<close>

lemma price_failure:
  assumes "fetchJsonOrNotFound n url sch opts s = (Inl e, t)"
  shows "statusCode_of e \<in> {Some 502, Some 504} \<and> (\<exists>suffix. message_of e = fo_upstream opts @ suffix)"
  using assms
  by (auto simp: fetchJsonOrNotFound_def price_answer_def drainErrorBody_def sum_simps
      split: prod.splits price_fetch.splits body_read.splits if_splits json_outcome.splits option.splits thrown.splits)

text \<open>Absence is only ever what a 404 said.\<close>

lemma price_absence:
  "fetchJsonOrNotFound n url sch opts s = (Inr None, t) \<Longrightarrow>
     \<exists>res. fst (pn_fetch n (price_request url opts) s) = PriceResponse res \<and> pres_status res = 404"
  by (auto simp: fetchJsonOrNotFound_def price_answer_def sum_simps
      split: prod.splits price_fetch.splits if_splits json_outcome.splits option.splits sum.splits thrown.splits)

lemma keeps_fetchJsonOrNotFound:
  "(\<And>req s. I s \<Longrightarrow> I (snd (pn_fetch n req s))) \<Longrightarrow> keeps I (fetchJsonOrNotFound n url sch opts) (\<lambda>_. True)"
  by (auto simp: keeps_def fetchJsonOrNotFound_def split: prod.splits price_fetch.splits)
    (metis snd_conv)+

section \<open>CoinGecko\<close>

definition CARDANO_COIN_ID :: string where "CARDANO_COIN_ID = ''cardano''"
definition DEFAULT_COINGECKO_BASE_URL :: string where "DEFAULT_COINGECKO_BASE_URL = ''https://api.coingecko.com/api/v3''"
definition CG_TIMEOUT_MS :: int where "CG_TIMEOUT_MS = 10000"
definition ADA_PRICE_TTL_MS :: int where "ADA_PRICE_TTL_MS = 60000"
definition ADA_HISTORY_TTL_MS :: int where "ADA_HISTORY_TTL_MS = 5 * 60000"

datatype PriceRange = R_1d | R_1w | R_1m | R_6m | R_1y | R_all
datatype PriceWindow = W_24h | W_7d | W_30d

definition range_name :: "PriceRange \<Rightarrow> string" where
  "range_name r = (case r of R_1d \<Rightarrow> ''1d'' | R_1w \<Rightarrow> ''1w'' | R_1m \<Rightarrow> ''1m'' | R_6m \<Rightarrow> ''6m'' | R_1y \<Rightarrow> ''1y'' | R_all \<Rightarrow> ''all'')"

definition window_name :: "PriceWindow \<Rightarrow> string" where
  "window_name w = (case w of W_24h \<Rightarrow> ''24h'' | W_7d \<Rightarrow> ''7d'' | W_30d \<Rightarrow> ''30d'')"

definition RANGE_TO_DAYS :: "PriceRange \<Rightarrow> string" where
  "RANGE_TO_DAYS r = (case r of R_1d \<Rightarrow> ''1'' | R_1w \<Rightarrow> ''7'' | R_1m \<Rightarrow> ''30'' | R_6m \<Rightarrow> ''180'' | R_1y \<Rightarrow> ''365'' | R_all \<Rightarrow> ''max'')"

record AdaPrice =
  ap_prices :: "(string, rat) js_map"
  ap_changePercent24h :: "(string, rat) js_map"
  ap_asOf :: int

record Ohlc =
  oh_time :: rat
  oh_open :: rat
  oh_high :: rat
  oh_low :: rat
  oh_close :: rat

record coingecko =
  cg_baseUrl :: string
  cg_timeoutMs :: int
  cg_headers :: "(string, string) js_map"

definition createCoingeckoClient :: "string option \<Rightarrow> string option \<Rightarrow> int option \<Rightarrow> coingecko" where
  "createCoingeckoClient apiKey baseUrl timeoutMs =
     \<lparr>cg_baseUrl = strip_slashes (case baseUrl of None \<Rightarrow> DEFAULT_COINGECKO_BASE_URL | Some u \<Rightarrow> u),
      cg_timeoutMs = (case timeoutMs of None \<Rightarrow> CG_TIMEOUT_MS | Some t \<Rightarrow> t),
      cg_headers = (case apiKey of None \<Rightarrow> [] | Some k \<Rightarrow> [(''x-cg-demo-api-key'', k)])\<rparr>"

definition cg_get :: "coingecko \<Rightarrow> ('s, 'j) price_net \<Rightarrow> string \<Rightarrow> ('j, 'a) schema \<Rightarrow> ('s, 'a) io_result" where
  "cg_get c n path sch = fetchJson n (cg_baseUrl c @ path) sch
     \<lparr>fo_timeoutMs = cg_timeoutMs c, fo_headers = cg_headers c, fo_upstream = ''coingecko''\<rparr>"

text \<open>The quote of a currency in a row, when it is a number.\<close>

definition quoted_number :: "(string, rat option) js_map \<Rightarrow> string \<Rightarrow> rat option" where
  "quoted_number row k = (case jm_get row k of Some (Some v) \<Rightarrow> Some v | _ \<Rightarrow> None)"

definition add_quote :: "(string, rat option) js_map \<Rightarrow> string \<Rightarrow> string \<Rightarrow> (string, rat) js_map \<Rightarrow> (string, rat) js_map" where
  "add_quote row suffix currency m = (case quoted_number row (toLowerCase currency @ suffix) of
     Some v \<Rightarrow> jm_set currency v m | None \<Rightarrow> m)"

definition ada_price_of :: "string list \<Rightarrow> (string, rat option) js_map \<Rightarrow> int \<Rightarrow> AdaPrice" where
  "ada_price_of currencies row nowMs = \<lparr>
     ap_prices = fold (add_quote row []) currencies [],
     ap_changePercent24h = fold (add_quote row ''_24h_change'') currencies [],
     ap_asOf = (case quoted_number row ''last_updated_at'' of Some v \<Rightarrow> \<lfloor>v\<rfloor> | None \<Rightarrow> nowMs div 1000)\<rparr>"

definition compare_strings :: "string \<Rightarrow> string \<Rightarrow> int" where
  "compare_strings a b = (if js_string_less a b then - 1 else if a = b then 0 else 1)"

definition getAdaPrice :: "coingecko \<Rightarrow> ('s, 'j) price_net \<Rightarrow> (string \<Rightarrow> string) \<Rightarrow>
    (string \<Rightarrow> policy \<Rightarrow> ('s, AdaPrice) io_result \<Rightarrow> ('s, AdaPrice) io_result) \<Rightarrow>
    ('j, (string, rat option) js_map) schema \<Rightarrow> string list \<Rightarrow> ('s, AdaPrice) io_result" where
  "getAdaPrice c n enc read sch currencies =
     read (''price:ada:'' @ intercalate '','' (js_sort compare_strings currencies)) (PlainTtl ADA_PRICE_TTL_MS)
       (bindIO (cg_get c n (''/simple/price?ids='' @ CARDANO_COIN_ID @ ''&vs_currencies='' @
            enc (intercalate '','' (map toLowerCase currencies)) @
            ''&include_24hr_change=true&include_last_updated_at=true'') sch) (\<lambda>row s.
        (Inr (ada_price_of currencies row (pn_now n s)), s)))"

definition ada_candle :: "rat \<times> rat \<times> rat \<times> rat \<times> rat \<Rightarrow> Ohlc" where
  "ada_candle r = (case r of (timeMs, op, hi, lo, cl) \<Rightarrow>
     \<lparr>oh_time = of_int \<lfloor>timeMs / 1000\<rfloor>, oh_open = op, oh_high = hi, oh_low = lo, oh_close = cl\<rparr>)"

definition getAdaHistory :: "coingecko \<Rightarrow> ('s, 'j) price_net \<Rightarrow> (string \<Rightarrow> string) \<Rightarrow>
    (string \<Rightarrow> policy \<Rightarrow> ('s, Ohlc list) io_result \<Rightarrow> ('s, Ohlc list) io_result) \<Rightarrow>
    ('j \<Rightarrow> (rat \<times> rat \<times> rat \<times> rat \<times> rat) option) \<Rightarrow> PriceRange \<Rightarrow> string \<Rightarrow> ('s, Ohlc list) io_result" where
  "getAdaHistory c n enc read dec rng currency =
     read (''price:ada:history:'' @ range_name rng @ '':'' @ toLowerCase currency) (PlainTtl ADA_HISTORY_TTL_MS)
       (bindIO (cg_get c n (''/coins/'' @ CARDANO_COIN_ID @ ''/ohlc?vs_currency='' @ enc (toLowerCase currency) @
            ''&days='' @ RANGE_TO_DAYS rng) (z_array dec)) (\<lambda>rows. returnIO (map ada_candle rows)))"

text \<open>A currency without a quote is absent; nothing is invented.\<close>

lemma ada_price_quotes:
  "jm_get (ap_prices (ada_price_of currencies row now)) k =
     (if k \<in> set currencies then quoted_number row (toLowerCase k) else None)"
proof -
  have "jm_get (fold (add_quote row suffix) currencies m) k =
     (case quoted_number row (toLowerCase k @ suffix) of Some v \<Rightarrow> if k \<in> set currencies then Some v else jm_get m k
      | None \<Rightarrow> jm_get m k)" for suffix m
    by (induction currencies arbitrary: m) (auto simp: add_quote_def split: option.splits)
  from this [of "[]" "[]"] show ?thesis by (auto simp: ada_price_of_def split: option.splits)
qed

end
