(* ===== verification/Geckoterminal.thy ===== *)
theory Geckoterminal
  imports Price_Http "HOL-Library.Sublist"
begin

text \<open>
  \<^verbatim>\<open>src/prices/geckoterminal.ts\<close>: the price of a native token in ADA, from pools that pair the token
  directly with ADA.  The wait for the shared rate limiter is part of the fetch of the world (the
  limiter is the theory \<open>Token_Bucket\<close>); requests follow one another, so no resolution of another
  request is ever in flight; SHA-256 is a parameter.
\<close>

definition NETWORK :: string where "NETWORK = ''cardano''"
definition NATIVE_TOKEN_ID :: string where "NATIVE_TOKEN_ID = NETWORK @ ''_0x''"
definition DEFAULT_GECKOTERMINAL_BASE_URL :: string where
  "DEFAULT_GECKOTERMINAL_BASE_URL = ''https://api.geckoterminal.com/api/v2''"
definition GT_TIMEOUT_MS :: int where "GT_TIMEOUT_MS = 10000"
definition TOKEN_POOL_TTL_MS :: int where "TOKEN_POOL_TTL_MS = 60000"
definition TOKEN_HISTORY_TTL_MS :: int where "TOKEN_HISTORY_TTL_MS = 5 * 60000"
definition MULTI_TOKEN_BATCH :: nat where "MULTI_TOKEN_BATCH = 30"

text \<open>\<open>/^-?\d+(\.\d+)?$/\<close>.\<close>

definition decimalString_ok :: "string \<Rightarrow> bool" where
  "decimalString_ok s = (let t = (if take 1 s = ''-'' then tl s else s);
       ip = takeWhile is_digit t; r = dropWhile is_digit t in
     ip \<noteq> [] \<and> (r = [] \<or> (hd r = CHR ''.'' \<and> tl r \<noteq> [] \<and> list_all is_digit (tl r))))"

record poolEntry =
  pe_address :: string
  pe_base_price_native :: string
  pe_quote_price_usd :: string
  pe_reserve_in_usd :: "string option"
  pe_change_h24 :: "string option"
  pe_volume_h24 :: "string option"
  pe_base_token :: string
  pe_quote_token :: string

definition poolEntry_ok :: "poolEntry \<Rightarrow> bool" where
  "poolEntry_ok e \<longleftrightarrow> decimalString_ok (pe_base_price_native e) \<and> decimalString_ok (pe_quote_price_usd e) \<and>
     (case pe_reserve_in_usd e of None \<Rightarrow> True | Some v \<Rightarrow> decimalString_ok v) \<and>
     (case pe_change_h24 e of None \<Rightarrow> True | Some v \<Rightarrow> decimalString_ok v) \<and>
     (case pe_volume_h24 e of None \<Rightarrow> True | Some v \<Rightarrow> decimalString_ok v)"

record multiTokensResponse =
  mt_data :: "(string \<times> string list) list"
  mt_included :: "(string \<times> poolEntry) list"

definition multiTokensResponse_ok :: "multiTokensResponse \<Rightarrow> bool" where
  "multiTokensResponse_ok r \<longleftrightarrow> list_all (\<lambda>(_, e). poolEntry_ok e) (mt_included r)"

record OhlcvCandle =
  ca_time :: rat
  ca_open :: rat
  ca_high :: rat
  ca_low :: rat
  ca_close :: rat
  ca_volume :: rat

datatype Timeframe = T_minute | T_hour | T_day

definition timeframe_name :: "Timeframe \<Rightarrow> string" where
  "timeframe_name t = (case t of T_minute \<Rightarrow> ''minute'' | T_hour \<Rightarrow> ''hour'' | T_day \<Rightarrow> ''day'')"

definition RANGE_TO_OHLCV :: "PriceRange \<Rightarrow> Timeframe \<times> nat \<times> nat" where
  "RANGE_TO_OHLCV r = (case r of
     R_1d \<Rightarrow> (T_minute, 15, 96)
   | R_1w \<Rightarrow> (T_hour, 1, 168)
   | R_1m \<Rightarrow> (T_hour, 4, 180)
   | R_6m \<Rightarrow> (T_day, 1, 180)
   | R_1y \<Rightarrow> (T_day, 1, 365)
   | R_all \<Rightarrow> (T_day, 1, 1000))"

record AdaPool =
  ad_address :: string
  ad_priceAda :: string
  ad_adaUsdPrice :: string
  ad_changePercent24h :: "string option"
  ad_volumeUsd24h :: "string option"

record TokenActivity =
  ta_subject :: string
  ta_priceAda :: string
  ta_changePercent :: rat
  ta_volumeAda :: string

section \<open>Choosing a pool\<close>

definition isDirectAdaPool :: "string \<Rightarrow> poolEntry \<Rightarrow> bool" where
  "isDirectAdaPool subject pool \<longleftrightarrow>
     pe_base_token pool = NETWORK @ ''_'' @ subject \<and> pe_quote_token pool = NATIVE_TOKEN_ID"

definition toAdaPool :: "poolEntry \<Rightarrow> AdaPool" where
  "toAdaPool pool = \<lparr>ad_address = pe_address pool, ad_priceAda = pe_base_price_native pool,
     ad_adaUsdPrice = pe_quote_price_usd pool, ad_changePercent24h = pe_change_h24 pool,
     ad_volumeUsd24h = pe_volume_h24 pool\<rparr>"

definition pool_reserve :: "poolEntry \<Rightarrow> jsnum" where
  "pool_reserve pool = js_Number (case pe_reserve_in_usd pool of None \<Rightarrow> ''0'' | Some v \<Rightarrow> v)"

definition better_pool :: "string \<Rightarrow> poolEntry \<Rightarrow> (poolEntry \<times> jsnum) option \<Rightarrow> (poolEntry \<times> jsnum) option" where
  "better_pool subject pool best =
     (if \<not> isDirectAdaPool subject pool then best
      else let reserve = pool_reserve pool in
        case best of
          None \<Rightarrow> Some (pool, reserve)
        | Some (_, bestReserve) \<Rightarrow> if js_less bestReserve reserve then Some (pool, reserve) else best)"

definition pickMostLiquidAdaPool :: "string \<Rightarrow> poolEntry list \<Rightarrow> AdaPool option" where
  "pickMostLiquidAdaPool subject pools =
     map_option (\<lambda>(pool, _). toAdaPool pool) (fold (better_pool subject) pools None)"

definition poolCacheKey :: "string \<Rightarrow> string \<Rightarrow> string" where
  "poolCacheKey cacheNamespace subject = ''price:token:pool:'' @ cacheNamespace @ '':'' @ subject"

definition ohlcvCacheKey :: "(string \<Rightarrow> string) \<Rightarrow> string \<Rightarrow> string \<Rightarrow> string \<Rightarrow> string \<Rightarrow> string \<Rightarrow> string" where
  "ohlcvCacheKey sha256 cacheNamespace subject poolAddress knd rng =
     ''price:token:ohlcv:'' @ cacheNamespace @ '':'' @ subject @ '':pool:'' @ sha256 (toLowerCase poolAddress) @
     '':'' @ knd @ '':'' @ rng"

text \<open>The activity of a pool by its own figures; a subject whose figures do not compute is left out.\<close>

definition activityFromPool :: "(jsnum \<Rightarrow> string) \<Rightarrow> string \<Rightarrow> AdaPool option \<Rightarrow> TokenActivity option result" where
  "activityFromPool num_string subject pool = (case pool of
     None \<Rightarrow> Inr None
   | Some p \<Rightarrow> (case (ad_changePercent24h p, ad_volumeUsd24h p) of
       (Some change, Some volume) \<Rightarrow>
         (case divideDecimalStrings num_string volume (ad_adaUsdPrice p) of
            Inl (JsRangeError _) \<Rightarrow> Inr None
          | Inl e \<Rightarrow> Inl e
          | Inr volumeAda \<Rightarrow> (case js_Number change of
              JsNum q \<Rightarrow> Inr (Some \<lparr>ta_subject = subject, ta_priceAda = ad_priceAda p, ta_changePercent = q,
                 ta_volumeAda = volumeAda\<rparr>)
            | _ \<Rightarrow> Inr None))
     | _ \<Rightarrow> Inr None))"

section \<open>The client\<close>

record ('s, 'j) gecko =
  gt_baseUrl :: string
  gt_timeoutMs :: int
  gt_cacheNamespace :: string
  gt_net :: "('s, 'j) price_net"
  gt_readPool :: "string \<Rightarrow> policy \<Rightarrow> ('s, AdaPool option) io_result \<Rightarrow> ('s, AdaPool option) io_result"
  gt_peekPool :: "string \<Rightarrow> 's \<Rightarrow> AdaPool option option"
  gt_setPool :: "string \<Rightarrow> AdaPool option \<Rightarrow> int \<Rightarrow> 's \<Rightarrow> 's"
  gt_readCandles :: "string \<Rightarrow> policy \<Rightarrow> ('s, OhlcvCandle list) io_result \<Rightarrow> ('s, OhlcvCandle list) io_result"
  gt_num_string :: "jsnum \<Rightarrow> string"
  gt_sha256 :: "string \<Rightarrow> string"
  gt_pools :: "('j, poolEntry list) schema"
  gt_multi :: "('j, multiTokensResponse) schema"
  gt_ohlcv :: "('j, OhlcvCandle list) schema"

definition getOrNotFound :: "('s, 'j) gecko \<Rightarrow> string \<Rightarrow> ('j, 'a) schema \<Rightarrow> ('s, 'a option) io_result" where
  "getOrNotFound g path sch = fetchJsonOrNotFound (gt_net g) (gt_baseUrl g @ path) sch
     \<lparr>fo_timeoutMs = gt_timeoutMs g, fo_headers = [], fo_upstream = ''geckoterminal''\<rparr>"

definition resolveAdaPool :: "('s, 'j) gecko \<Rightarrow> string \<Rightarrow> ('s, AdaPool option) io_result" where
  "resolveAdaPool g subject =
     gt_readPool g (poolCacheKey (gt_cacheNamespace g) subject) (PlainTtl TOKEN_POOL_TTL_MS)
       (bindIO (getOrNotFound g (''/networks/'' @ NETWORK @ ''/tokens/'' @ subject @ ''/pools'')
                  (refine (gt_pools g) (list_all poolEntry_ok))) (\<lambda>body.
        returnIO (pickMostLiquidAdaPool subject (case body of None \<Rightarrow> [] | Some d \<Rightarrow> d))))"

definition setIO :: "('s \<Rightarrow> 's) \<Rightarrow> ('s, unit) io_result" where
  "setIO f s = (Inr (), f s)"

type_synonym pool_map = "(string, AdaPool option) js_map"

text \<open>One token of a multi-token answer: its pool is stored, or it needs its full list of pools.\<close>

definition multi_token :: "('s, 'j) gecko \<Rightarrow> (string, poolEntry) js_map \<Rightarrow> string \<times> string list \<Rightarrow>
    pool_map \<times> string list \<Rightarrow> ('s, pool_map \<times> string list) io_result" where
  "multi_token g poolsById token acc =
     (let subject = toLowerCase (fst token);
          topPools = List.map_filter (jm_get poolsById) (snd token) in
      case pickMostLiquidAdaPool subject topPools of
        Some pool \<Rightarrow> bindIO (setIO (gt_setPool g (poolCacheKey (gt_cacheNamespace g) subject) (Some pool) TOKEN_POOL_TTL_MS))
          (\<lambda>_. returnIO (jm_set subject (Some pool) (fst acc), snd acc))
      | None \<Rightarrow> returnIO (fst acc, snd acc @ [subject]))"

definition absent_token :: "('s, 'j) gecko \<Rightarrow> string list \<Rightarrow> string \<Rightarrow> pool_map \<Rightarrow> ('s, pool_map) io_result" where
  "absent_token g returned subject resolved =
     (if subject \<in> set returned then returnIO resolved
      else bindIO (setIO (gt_setPool g (poolCacheKey (gt_cacheNamespace g) subject) None TOKEN_POOL_TTL_MS))
        (\<lambda>_. returnIO (jm_set subject None resolved)))"

text \<open>\<open>for (\<dots>) await\<close> with an accumulator.\<close>

fun foldIO :: "('a \<Rightarrow> 'b \<Rightarrow> ('s, 'b) io_result) \<Rightarrow> 'a list \<Rightarrow> 'b \<Rightarrow> ('s, 'b) io_result" where
  "foldIO f [] b = returnIO b"
| "foldIO f (x # xs) b = bindIO (f x b) (foldIO f xs)"

definition fetch_chunk :: "('s, 'j) gecko \<Rightarrow> string list \<Rightarrow> pool_map \<times> string list \<Rightarrow>
    ('s, pool_map \<times> string list) io_result" where
  "fetch_chunk g chunk acc =
     bindIO (getOrNotFound g (''/networks/'' @ NETWORK @ ''/tokens/multi/'' @ intercalate '','' chunk @ ''?include=top_pools'')
               (refine (gt_multi g) multiTokensResponse_ok)) (\<lambda>body.
     let tokens = (case body of None \<Rightarrow> [] | Some b \<Rightarrow> mt_data b);
         poolsById = fold (\<lambda>(i, e). jm_set i e) (case body of None \<Rightarrow> [] | Some b \<Rightarrow> mt_included b) [] in
     bindIO (foldIO (multi_token g poolsById) tokens acc) (\<lambda>(resolved, needsFallback).
     bindIO (foldIO (absent_token g (map (toLowerCase \<circ> fst) tokens)) chunk resolved) (\<lambda>resolved.
     returnIO (resolved, needsFallback))))"

function batches_of :: "nat \<Rightarrow> 'a list \<Rightarrow> 'a list list" where
  "batches_of k xs = (if xs = [] \<or> k = 0 then [] else take k xs # batches_of k (drop k xs))"
  by auto
termination
  by (relation "measure (\<lambda>(_, xs). length xs)") auto

declare batches_of.simps [simp del]

definition fetchAdaPools :: "('s, 'j) gecko \<Rightarrow> string list \<Rightarrow> ('s, pool_map) io_result" where
  "fetchAdaPools g subjects =
     bindIO (foldIO (fetch_chunk g) (batches_of MULTI_TOKEN_BATCH subjects) ([], [])) (\<lambda>(resolved, needsFallback).
     bindIO (allIO (resolveAdaPool g) needsFallback) (\<lambda>pools.
     returnIO (fold (\<lambda>(subject, pool). jm_set subject pool) (zip needsFallback pools) resolved)))"

text \<open>Cache hits, and one shared fetch for the rest.\<close>

definition resolveAdaPoolsBatch :: "('s, 'j) gecko \<Rightarrow> string list \<Rightarrow> ('s, pool_map) io_result" where
  "resolveAdaPoolsBatch g subjects s =
     (let peek = (\<lambda>subject. gt_peekPool g (poolCacheKey (gt_cacheNamespace g) subject) s);
          hits = List.map_filter (\<lambda>subject. map_option (\<lambda>v. (subject, v)) (peek subject)) subjects;
          owned = filter (\<lambda>subject. peek subject = None) subjects;
          resolved = fold (\<lambda>(subject, v). jm_set subject v) hits [] in
      if owned = [] then (Inr resolved, s)
      else bindIO (fetchAdaPools g owned) (\<lambda>fetched.
        returnIO (fold (\<lambda>subject. jm_set subject
          (case jm_get fetched subject of None \<Rightarrow> None | Some pool \<Rightarrow> pool)) owned resolved)) s)"

definition fetchOhlcv :: "('s, 'j) gecko \<Rightarrow> string \<Rightarrow> Timeframe \<Rightarrow> nat \<Rightarrow> nat \<Rightarrow> ('s, OhlcvCandle list) io_result" where
  "fetchOhlcv g poolAddress timeframe aggregate most =
     bindIO (getOrNotFound g (''/networks/'' @ NETWORK @ ''/pools/'' @ poolAddress @ ''/ohlcv/'' @ timeframe_name timeframe @
         ''?aggregate='' @ string_of_nat aggregate @ ''&limit='' @ string_of_nat most @ ''&currency=token'') (gt_ohlcv g)) (\<lambda>body.
     returnIO (rev (case body of None \<Rightarrow> [] | Some l \<Rightarrow> l)))"

definition candle_activity :: "(jsnum \<Rightarrow> string) \<Rightarrow> string \<Rightarrow> OhlcvCandle list \<Rightarrow> TokenActivity option result" where
  "candle_activity num_string subject candles =
     (if candles = [] then Inr None
      else
        let oldestOpen = ca_open (hd candles); newestClose = ca_close (last candles) in
        if oldestOpen = 0 \<or> \<not> js_isFinite (js_finite_or_inf ((newestClose - oldestOpen) / oldestOpen * 100)) then Inr None
        else
          bindE (toDecimalString num_string (JsNum newestClose)) (\<lambda>priceAda.
          bindE (toDecimalString num_string (js_finite_or_inf (sum_list (map ca_volume candles)))) (\<lambda>volumeAda.
          Inr (Some \<lparr>ta_subject = subject, ta_priceAda = priceAda,
            ta_changePercent = (newestClose - oldestOpen) / oldestOpen * 100, ta_volumeAda = volumeAda\<rparr>))))"

definition activityFromCandles :: "('s, 'j) gecko \<Rightarrow> string \<Rightarrow> AdaPool option \<Rightarrow> PriceWindow \<Rightarrow>
    ('s, TokenActivity option) io_result" where
  "activityFromCandles g subject pool win = (case pool of
     None \<Rightarrow> returnIO None
   | Some p \<Rightarrow>
       bindIO (gt_readCandles g (ohlcvCacheKey (gt_sha256 g) (gt_cacheNamespace g) subject (ad_address p) ''activity'' (window_name win))
           (PlainTtl TOKEN_HISTORY_TTL_MS) (fetchOhlcv g (ad_address p) T_day 1 (if win = W_7d then 7 else 30))) (\<lambda>candles.
       liftE (candle_activity (gt_num_string g) subject candles)))"

definition pool_of :: "pool_map \<Rightarrow> string \<Rightarrow> AdaPool option" where
  "pool_of pools subject = (case jm_get pools subject of None \<Rightarrow> None | Some p \<Rightarrow> p)"

definition getTokenActivity :: "('s, 'j) gecko \<Rightarrow> string list \<Rightarrow> PriceWindow \<Rightarrow> ('s, TokenActivity list) io_result" where
  "getTokenActivity g subjects win =
     (let normalized = dedupe (map toLowerCase subjects) in
      bindIO (resolveAdaPoolsBatch g normalized) (\<lambda>pools.
      if win = W_24h then
        bindIO (liftE (mapE (\<lambda>subject. activityFromPool (gt_num_string g) subject (pool_of pools subject)) normalized)) (\<lambda>results.
        returnIO (List.map_filter (\<lambda>r. r) results))
      else
        bindIO (allIO (\<lambda>subject. activityFromCandles g subject (pool_of pools subject) win) normalized) (\<lambda>results.
        returnIO (List.map_filter (\<lambda>r. r) results))))"

definition token_candle :: "OhlcvCandle \<Rightarrow> Ohlc" where
  "token_candle c = \<lparr>oh_time = ca_time c, oh_open = ca_open c, oh_high = ca_high c, oh_low = ca_low c, oh_close = ca_close c\<rparr>"

definition getTokenHistory :: "('s, 'j) gecko \<Rightarrow> string \<Rightarrow> PriceRange \<Rightarrow> ('s, Ohlc list) io_result" where
  "getTokenHistory g subject rng =
     (let normalized = toLowerCase subject in
      bindIO (resolveAdaPool g normalized) (\<lambda>pool. case pool of
        None \<Rightarrow> returnIO []
      | Some p \<Rightarrow> (case RANGE_TO_OHLCV rng of (timeframe, aggregate, most) \<Rightarrow>
          bindIO (gt_readCandles g (ohlcvCacheKey (gt_sha256 g) (gt_cacheNamespace g) normalized (ad_address p) ''history'' (range_name rng))
              (PlainTtl TOKEN_HISTORY_TTL_MS) (fetchOhlcv g (ad_address p) timeframe aggregate most)) (\<lambda>candles.
          returnIO (map token_candle candles)))))"

section \<open>Where a price comes from\<close>

text \<open>A pool the source may quote a token from: a listed market of that token against ADA itself.\<close>

definition market_pool :: "string \<Rightarrow> AdaPool \<Rightarrow> bool" where
  "market_pool subject p \<longleftrightarrow> (\<exists>e. isDirectAdaPool subject e \<and> p = toAdaPool e)"

lemma js_less_keeps_max: "\<not> js_less b x \<Longrightarrow> js_less b r \<Longrightarrow> \<not> js_less r x"
  by (cases b; cases x; cases r) auto

definition best_so_far :: "string \<Rightarrow> poolEntry set \<Rightarrow> (poolEntry \<times> jsnum) option \<Rightarrow> bool" where
  "best_so_far subject seen best \<longleftrightarrow> (case best of
     None \<Rightarrow> \<forall>e \<in> seen. \<not> isDirectAdaPool subject e
   | Some (e, r) \<Rightarrow> e \<in> seen \<and> isDirectAdaPool subject e \<and> r = pool_reserve e \<and>
       (\<forall>d \<in> seen. isDirectAdaPool subject d \<longrightarrow> \<not> js_less r (pool_reserve d)))"

lemma js_less_irrefl [simp]: "\<not> js_less r r"
  by (cases r) auto

lemma better_pool_best:
  "best_so_far subject seen best \<Longrightarrow> best_so_far subject (insert pool seen) (better_pool subject pool best)"
  by (auto simp: best_so_far_def better_pool_def Let_def dest: js_less_keeps_max split: option.splits prod.splits)

lemma picked_best: "best_so_far subject seen best \<Longrightarrow>
    best_so_far subject (seen \<union> set pools) (fold (better_pool subject) pools best)"
proof (induction pools arbitrary: seen best)
  case (Cons pool pools)
  from Cons.IH [OF better_pool_best [OF Cons.prems]] show ?case by simp
qed simp

text \<open>The pool chosen is a direct pool with a reserve no other direct pool exceeds; none is missed.\<close>

lemma pickMostLiquidAdaPool_best:
  "case pickMostLiquidAdaPool subject pools of
     None \<Rightarrow> \<forall>e \<in> set pools. \<not> isDirectAdaPool subject e
   | Some p \<Rightarrow> \<exists>e \<in> set pools. isDirectAdaPool subject e \<and> p = toAdaPool e \<and>
       (\<forall>d \<in> set pools. isDirectAdaPool subject d \<longrightarrow> \<not> js_less (pool_reserve e) (pool_reserve d))"
proof -
  have "best_so_far subject {} None" by (simp add: best_so_far_def)
  from picked_best [OF this, where pools = pools] show ?thesis
    by (auto simp: pickMostLiquidAdaPool_def best_so_far_def split: option.splits)
qed

lemma picked_market: "pickMostLiquidAdaPool subject pools = Some p \<Longrightarrow> market_pool subject p"
  using pickMostLiquidAdaPool_best [where subject = subject and pools = pools] by (auto simp: market_pool_def)

section \<open>The caches and the maps hold nothing else\<close>

definition pool_value_ok :: "string \<Rightarrow> string \<Rightarrow> AdaPool option \<Rightarrow> bool" where
  "pool_value_ok ns key v \<longleftrightarrow> (\<forall>subject p. key = poolCacheKey ns subject \<longrightarrow> v = Some p \<longrightarrow> market_pool subject p)"

lemma pool_value_ok_key: "pool_value_ok ns (poolCacheKey ns subject) v \<longleftrightarrow> (\<forall>p. v = Some p \<longrightarrow> market_pool subject p)"
  by (auto simp: pool_value_ok_def poolCacheKey_def)

definition map_ok :: "pool_map \<Rightarrow> bool" where
  "map_ok m \<longleftrightarrow> (\<forall>k p. jm_get m k = Some (Some p) \<longrightarrow> market_pool k p)"

lemma map_ok_set: "map_ok m \<Longrightarrow> (\<And>p. v = Some p \<Longrightarrow> market_pool k p) \<Longrightarrow> map_ok (jm_set k v m)"
  by (auto simp: map_ok_def)

lemma map_ok_empty: "map_ok []"
  by (simp add: map_ok_def)

lemma map_ok_set_all:
  "map_ok m \<Longrightarrow> (\<And>k p. (k, Some p) \<in> set kvs \<Longrightarrow> market_pool k p) \<Longrightarrow> map_ok (fold (\<lambda>(k, v). jm_set k v) kvs m)"
proof (induction kvs arbitrary: m)
  case (Cons kv kvs)
  obtain k v where kv: "kv = (k, v)" by fastforce
  have "map_ok (jm_set k v m)" by (rule map_ok_set [OF Cons.prems(1)]) (simp add: Cons.prems(2) kv)
  then have "map_ok (fold (\<lambda>(k, v). jm_set k v) kvs (jm_set k v m))" by (rule Cons.IH) (simp add: Cons.prems(2))
  then show ?case by (simp add: kv)
qed simp

lemma pool_of_market: "map_ok m \<Longrightarrow> pool_of m k = Some p \<Longrightarrow> market_pool k p"
  by (auto simp: pool_of_def map_ok_def split: option.splits)

definition gecko_world :: "('s \<Rightarrow> bool) \<Rightarrow> ('s, 'j) gecko \<Rightarrow> bool" where
  "gecko_world I g \<longleftrightarrow>
     store_cache I (pool_value_ok (gt_cacheNamespace g)) (gt_readPool g) (gt_peekPool g) (gt_setPool g) \<and>
     keyed_cache I (\<lambda>_ _. True) (gt_readCandles g) \<and> (\<forall>req s. I s \<longrightarrow> I (snd (pn_fetch (gt_net g) req s)))"

lemma keeps_foldIO:
  "(\<And>x b. x \<in> set xs \<Longrightarrow> R b \<Longrightarrow> keeps I (f x b) R) \<Longrightarrow> R b \<Longrightarrow> keeps I (foldIO f xs b) R"
proof (induction xs arbitrary: b)
  case (Cons x xs)
  show ?case
    unfolding foldIO.simps by (rule keeps_bind [where R = R]) (use Cons in auto)
qed (simp add: keeps_return)

lemma gecko_get_keeps: "gecko_world I g \<Longrightarrow> keeps I (getOrNotFound g path sch) (\<lambda>_. True)"
  unfolding getOrNotFound_def by (rule keeps_fetchJsonOrNotFound) (simp add: gecko_world_def)

lemma gecko_set_keeps:
  assumes "gecko_world I g" and "\<And>p. v = Some p \<Longrightarrow> market_pool subject p"
  shows "keeps I (setIO (gt_setPool g (poolCacheKey (gt_cacheNamespace g) subject) v ttl)) (\<lambda>_. True)"
proof -
  have "store_cache I (pool_value_ok (gt_cacheNamespace g)) (gt_readPool g) (gt_peekPool g) (gt_setPool g)"
    using assms(1) by (simp add: gecko_world_def)
  from store_cache.put_ok [OF this] assms(2) show ?thesis by (auto simp: keeps_def setIO_def pool_value_ok_key)
qed

lemma resolveAdaPool_keeps:
  assumes "gecko_world I g"
  shows "keeps I (resolveAdaPool g subject) (\<lambda>v. \<forall>p. v = Some p \<longrightarrow> market_pool subject p)"
proof -
  let ?ok = "pool_value_ok (gt_cacheNamespace g)" and ?key = "poolCacheKey (gt_cacheNamespace g) subject"
  have cache: "keyed_cache I ?ok (gt_readPool g)"
    using assms unfolding gecko_world_def by (blast dest: store_cache.axioms(1))
  have "keeps I (bindIO (getOrNotFound g (''/networks/'' @ NETWORK @ ''/tokens/'' @ subject @ ''/pools'')
      (refine (gt_pools g) (list_all poolEntry_ok))) (\<lambda>body.
        returnIO (pickMostLiquidAdaPool subject (case body of None \<Rightarrow> [] | Some d \<Rightarrow> d)))) (?ok ?key)"
    by (rule keeps_bind [OF gecko_get_keeps [OF assms]], rule keeps_return) (simp add: pool_value_ok_key picked_market)
  from keyed_cache.read_weaken [OF cache this] show ?thesis
    unfolding resolveAdaPool_def by (simp add: pool_value_ok_key)
qed

lemma fetch_chunk_keeps:
  assumes "gecko_world I g" and "map_ok (fst acc)"
  shows "keeps I (fetch_chunk g chunk acc) (\<lambda>acc. map_ok (fst acc))"
proof -
  have token: "keeps I (multi_token g byId tk b) (\<lambda>acc. map_ok (fst acc))" if "map_ok (fst b)" for byId tk b
  proof (cases "pickMostLiquidAdaPool (toLowerCase (fst tk)) (List.map_filter (jm_get byId) (snd tk))")
    case None
    with that show ?thesis by (simp add: multi_token_def Let_def keeps_return)
  next
    case (Some p)
    then have m: "market_pool (toLowerCase (fst tk)) p" by (rule picked_market)
    then show ?thesis
      unfolding multi_token_def Let_def Some option.case
      by (intro keeps_bind [OF gecko_set_keeps [OF assms(1)]] keeps_return) (auto intro!: map_ok_set that)
  qed
  have absent: "keeps I (absent_token g ret tk b) map_ok" if "map_ok b" for ret tk b
  proof (cases "tk \<in> set ret")
    case True
    with that show ?thesis by (simp add: absent_token_def keeps_return)
  next
    case False
    then show ?thesis
      unfolding absent_token_def if_not_P [OF False]
      by (intro keeps_bind [OF gecko_set_keeps [OF assms(1)]] keeps_return) (auto intro!: map_ok_set that)
  qed
  show ?thesis
    unfolding fetch_chunk_def Let_def
  proof (rule keeps_bind [OF gecko_get_keeps [OF assms(1)]], rule keeps_bind [where R = "\<lambda>acc. map_ok (fst acc)"])
    fix body
    show "keeps I (foldIO (multi_token g (fold (\<lambda>(i, e). jm_set i e) (case body of None \<Rightarrow> [] | Some b \<Rightarrow> mt_included b) []))
      (case body of None \<Rightarrow> [] | Some b \<Rightarrow> mt_data b) acc) (\<lambda>acc. map_ok (fst acc))"
      by (rule keeps_foldIO) (auto intro: token assms(2))
  next
    fix body and acc' :: "pool_map \<times> string list"
    assume "map_ok (fst acc')"
    then show "keeps I (case acc' of (resolved, needsFallback) \<Rightarrow>
        bindIO (foldIO (absent_token g (map (toLowerCase \<circ> fst) (case body of None \<Rightarrow> [] | Some b \<Rightarrow> mt_data b))) chunk resolved)
          (\<lambda>resolved. returnIO (resolved, needsFallback))) (\<lambda>acc. map_ok (fst acc))"
      by (cases acc') (auto intro!: keeps_bind [OF keeps_foldIO [where R = map_ok]] keeps_return absent)
  qed
qed

lemma fetchAdaPools_keeps:
  assumes "gecko_world I g"
  shows "keeps I (fetchAdaPools g subjects) map_ok"
  unfolding fetchAdaPools_def
proof (rule keeps_bind [OF keeps_foldIO [where R = "\<lambda>acc. map_ok (fst acc)"]])
  show "keeps I (fetch_chunk g x b) (\<lambda>acc. map_ok (fst acc))" if "map_ok (fst b)" for x b
    using fetch_chunk_keeps [OF assms that] .
  show "map_ok (fst ([], []))" by (simp add: map_ok_empty)
  fix acc :: "pool_map \<times> string list"
  assume acc: "map_ok (fst acc)"
  show "keeps I (case acc of (resolved, needsFallback) \<Rightarrow> bindIO (allIO (resolveAdaPool g) needsFallback) (\<lambda>pools.
     returnIO (fold (\<lambda>(subject, pool). jm_set subject pool) (zip needsFallback pools) resolved))) map_ok"
    unfolding case_prod_beta
  proof (rule keeps_bind [OF keeps_allIO [where Q = "\<lambda>subject v. \<forall>p. v = Some p \<longrightarrow> market_pool subject p"]])
    show "keeps I (resolveAdaPool g x) (\<lambda>v. \<forall>p. v = Some p \<longrightarrow> market_pool x p)" for x
      by (rule resolveAdaPool_keeps [OF assms])
    fix pools
    assume "list_all2 (\<lambda>subject v. \<forall>p. v = Some p \<longrightarrow> market_pool subject p) (snd acc) pools"
    then have "market_pool k p" if "(k, Some p) \<in> set (zip (snd acc) pools)" for k p
      using that by (auto simp: list_all2_iff)
    then have "map_ok (fold (\<lambda>(k, v). jm_set k v) (zip (snd acc) pools) (fst acc))" by (rule map_ok_set_all [OF acc])
    then show "keeps I (returnIO (fold (\<lambda>x. jm_set (fst x) (snd x)) (zip (snd acc) pools) (fst acc))) map_ok"
      by (intro keeps_return) (simp add: case_prod_unfold)
  qed
qed

lemma resolveAdaPoolsBatch_keeps:
  assumes "gecko_world I g"
  shows "keeps I (resolveAdaPoolsBatch g subjects) map_ok"
  unfolding keeps_def
proof (intro allI impI)
  fix s r t
  assume I: "I s" and run: "resolveAdaPoolsBatch g subjects s = (r, t)"
  let ?peek = "\<lambda>subject. gt_peekPool g (poolCacheKey (gt_cacheNamespace g) subject) s"
  let ?hits = "List.map_filter (\<lambda>subject. map_option (\<lambda>v. (subject, v)) (?peek subject)) subjects"
  let ?owned = "filter (\<lambda>subject. ?peek subject = None) subjects"
  let ?resolved = "fold (\<lambda>(subject, v). jm_set subject v) ?hits []"
  have cache: "store_cache I (pool_value_ok (gt_cacheNamespace g)) (gt_readPool g) (gt_peekPool g) (gt_setPool g)"
    using assms by (simp add: gecko_world_def)
  have "market_pool k p" if "(k, Some p) \<in> set ?hits" for k p
  proof -
    from that have "?peek k = Some (Some p)" by (auto simp: List.map_filter_def)
    from store_cache.peek_ok [OF cache I this] show ?thesis by (simp add: pool_value_ok_key)
  qed
  then have resolved: "map_ok ?resolved" by (rule map_ok_set_all [OF map_ok_empty])
  show "I t \<and> (\<forall>m. r = Inr m \<longrightarrow> map_ok m)"
  proof (cases "?owned = []")
    case True
    with run I resolved show ?thesis by (auto simp: resolveAdaPoolsBatch_def Let_def)
  next
    case False
    let ?put = "\<lambda>fetched subject. jm_set subject (case jm_get fetched subject of None \<Rightarrow> None | Some pool \<Rightarrow> pool)"
    have put: "map_ok (fold (?put fetched) xs m)" if "map_ok fetched" "map_ok m" for fetched xs m
      using that(2)
    proof (induction xs arbitrary: m)
      case (Cons x xs)
      have "map_ok (?put fetched x m)"
        using that(1) Cons.prems by (intro map_ok_set) (auto simp: map_ok_def split: option.splits)
      with Cons.IH show ?case by simp
    qed simp
    have "keeps I (bindIO (fetchAdaPools g ?owned) (\<lambda>fetched. returnIO (fold (?put fetched) ?owned ?resolved))) map_ok"
      by (rule keeps_bind [OF fetchAdaPools_keeps [OF assms]], rule keeps_return) (rule put [OF _ resolved])
    moreover from run have "bindIO (fetchAdaPools g ?owned) (\<lambda>fetched. returnIO (fold (?put fetched) ?owned ?resolved)) s = (r, t)"
      unfolding resolveAdaPoolsBatch_def Let_def if_not_P [OF False] .
    ultimately show ?thesis using I unfolding keeps_def by blast
  qed
qed

section \<open>What is answered\<close>

lemma mapE_map_filter:
  "mapE f xs = Inr rs \<Longrightarrow> a \<in> set (List.map_filter (\<lambda>r. r) rs) \<Longrightarrow> \<exists>x \<in> set xs. f x = Inr (Some a)"
proof (induction xs arbitrary: rs)
  case (Cons x xs)
  then obtain r rs' where "f x = Inr r" "mapE f xs = Inr rs'" "rs = r # rs'" by (auto simp: sum_simps)
  with Cons show ?case by (cases r) (auto simp: map_filter_simps)
qed (simp add: map_filter_simps)

lemma mapE_map_filter_subseq:
  assumes "\<And>x a. x \<in> set xs \<Longrightarrow> f x = Inr (Some a) \<Longrightarrow> g a = x"
  shows "mapE f xs = Inr rs \<Longrightarrow> subseq (map g (List.map_filter (\<lambda>r. r) rs)) xs"
  using assms
proof (induction xs arbitrary: rs)
  case (Cons x xs)
  then obtain r rs' where r: "f x = Inr r" "mapE f xs = Inr rs'" "rs = r # rs'" by (auto simp: sum_simps)
  with Cons have "subseq (map g (List.map_filter (\<lambda>r. r) rs')) xs" by simp
  with r Cons.prems(2) show ?case by (cases r) (auto simp: map_filter_simps)
qed (simp add: map_filter_simps)

lemma activityFromPool_Some:
  "activityFromPool num_string subject pool = Inr (Some a) \<Longrightarrow>
    \<exists>p v. pool = Some p \<and> ta_subject a = subject \<and> ta_priceAda a = ad_priceAda p \<and> ad_volumeUsd24h p = Some v \<and>
      divideDecimalStrings num_string v (ad_adaUsdPrice p) = Inr (ta_volumeAda a)"
  by (auto simp: activityFromPool_def split: option.splits sum.splits thrown.splits jsnum.splits)


text \<open>
  A window of several days has a weak spot: each candle is a finite number, but their volumes may
  overflow when added, and formatting the sum then throws, which fails the whole batch.
\<close>

lemma candle_volume_overflow:
  "\<exists>candles e. list_all (\<lambda>c. js_isFinite (js_finite_or_inf (ca_volume c))) candles \<and>
     candle_activity num_string subject candles = Inl (JsRangeError e)"
proof -
  let ?c = "\<lparr>ca_time = 0, ca_open = 1, ca_high = 1, ca_low = 1, ca_close = 1, ca_volume = 2 ^ 1023\<rparr> :: OhlcvCandle"
  have "js_isFinite (js_finite_or_inf (2 ^ 1023))" "js_finite_or_inf (2 ^ 1023 + 2 ^ 1023) = JsInfinity"
    "js_isFinite (js_finite_or_inf 0)"
    by (simp_all add: js_finite_or_inf_def JS_OVERFLOW_def)
  then have "candle_activity num_string subject [?c, ?c] =
      Inl (JsRangeError (''cannot format a non-finite number as a decimal string: '' @ num_string JsInfinity))"
    by (simp add: candle_activity_def toDecimalString_def Let_def)
  with \<open>js_isFinite (js_finite_or_inf (2 ^ 1023))\<close> show ?thesis
    by (intro exI [of _ "[?c, ?c]"] exI conjI) simp_all
qed

section \<open>A concrete upstream\<close>

definition example_pool :: poolEntry where
  "example_pool = \<lparr>pe_address = ''pool'', pe_base_price_native = ''0.25'', pe_quote_price_usd = ''0.5'',
     pe_reserve_in_usd = Some ''1000'', pe_change_h24 = Some ''-3'', pe_volume_h24 = Some ''10'',
     pe_base_token = ''cardano_ab'', pe_quote_token = ''cardano_0x''\<rparr>"

definition example_multi :: multiTokensResponse where
  "example_multi = \<lparr>mt_data = [(''AB'', [''p''])], mt_included = [(''p'', example_pool)]\<rparr>"

definition example_gecko :: "(unit, unit) gecko" where
  "example_gecko = \<lparr>gt_baseUrl = DEFAULT_GECKOTERMINAL_BASE_URL, gt_timeoutMs = GT_TIMEOUT_MS, gt_cacheNamespace = ''mainnet'',
     gt_net = \<lparr>pn_fetch = (\<lambda>req s. (PriceResponse \<lparr>pres_ok = True, pres_status = 200, pres_json = JsonOk (JOther ()),
       pres_text = BodyRead\<rparr>, s)), pn_now = (\<lambda>_. 0)\<rparr>,
     gt_readPool = no_cache_read, gt_peekPool = (\<lambda>_ _. None), gt_setPool = (\<lambda>_ _ _ s. s), gt_readCandles = no_cache_read,
     gt_num_string = (\<lambda>_. ''20''), gt_sha256 = (\<lambda>s. s), gt_pools = (\<lambda>_. None), gt_multi = (\<lambda>_. Some example_multi),
     gt_ohlcv = (\<lambda>_. None)\<rparr>"

lemma example_number: "js_Number ''10'' = JsNum 10" "js_Number ''0.5'' = JsNum (1 / 2)" "js_Number ''-3'' = JsNum (- 3)"
  by (simp_all add: js_Number_def js_trim_def is_js_space_def js_decimal_def js_exponent_def is_digit_def nat_of_string_def
      digit_val_def pow10_def js_finite_or_inf_def JS_OVERFLOW_def Let_def toLowerCase_def lower_char_def)


end
