(* ===== verification/Logging.thy ===== *)
theory Logging
  imports Byron Transport
begin

text \<open>
  \<^verbatim>\<open>src/http/logging.ts\<close>: what may be written about a request.  Strings are bytes; the regular
  expressions are matched the way the engine does, from the left, and a global replacement scans on
  after each match.  \<open>decodeURIComponent\<close> is the language's own, written out with its UTF-8 check.
\<close>

definition REDACTED :: string where "REDACTED = ''[redacted]''"
definition MAX_DECODE_PASSES :: nat where "MAX_DECODE_PASSES = 3"

section \<open>\<open>decodeURIComponent\<close>\<close>

definition hex_value :: "char \<Rightarrow> nat" where
  "hex_value c = (let n = of_char (lower_char c) in if n < 97 then n - 48 else n - 87)"

text \<open>\<open>%XX\<close> at the front.\<close>

definition pct_byte :: "string \<Rightarrow> (nat \<times> string) option" where
  "pct_byte s = (case s of
     p # a # b # r \<Rightarrow> if p = CHR ''%'' \<and> is_hex a \<and> is_hex b then Some (16 * hex_value a + hex_value b, r) else None
   | _ \<Rightarrow> None)"

fun pct_tail :: "nat \<Rightarrow> string \<Rightarrow> (nat list \<times> string) option" where
  "pct_tail 0 s = Some ([], s)"
| "pct_tail (Suc n) s = (case pct_byte s of
     None \<Rightarrow> None
   | Some (b, r) \<Rightarrow> if 128 \<le> b \<and> b < 192 then map_option (\<lambda>(bs, r'). (b # bs, r')) (pct_tail n r) else None)"

definition utf8_length :: "nat \<Rightarrow> nat" where
  "utf8_length b = (if b < 0xc0 then 0 else if b < 0xe0 then 2 else if b < 0xf0 then 3 else if b < 0xf8 then 4 else 0)"

text \<open>No overlong form, no surrogate, nothing above U+10FFFF.\<close>

definition utf8_valid :: "nat list \<Rightarrow> bool" where
  "utf8_valid bs = (case bs of
     b0 # b1 # _ \<Rightarrow>
       0xc2 \<le> b0 \<and> b0 \<le> 0xf4 \<and> (b0 = 0xe0 \<longrightarrow> 0xa0 \<le> b1) \<and> (b0 = 0xed \<longrightarrow> b1 < 0xa0) \<and>
       (b0 = 0xf0 \<longrightarrow> 0x90 \<le> b1) \<and> (b0 = 0xf4 \<longrightarrow> b1 < 0x90)
   | _ \<Rightarrow> False)"

lemma pct_byte_length: "pct_byte s = Some (b, r) \<Longrightarrow> length r < length s"
  by (auto simp: pct_byte_def split: list.splits if_splits)

lemma pct_tail_length: "pct_tail n s = Some (bs, r) \<Longrightarrow> length r \<le> length s"
proof (induction n arbitrary: s bs)
  case (Suc n)
  then obtain b r1 bs' where "pct_byte s = Some (b, r1)" "pct_tail n r1 = Some (bs', r)"
    by (auto split: option.splits if_splits)
  with Suc.IH [of r1 bs'] pct_byte_length [of s b r1] show ?case by simp
qed simp

function decodeURIComponent :: "string \<Rightarrow> string option" where
  "decodeURIComponent s = (case s of
     [] \<Rightarrow> Some []
   | c # r \<Rightarrow>
       if c \<noteq> CHR ''%'' then map_option ((#) c) (decodeURIComponent r)
       else case pct_byte s of
         None \<Rightarrow> None
       | Some (b, r1) \<Rightarrow>
           if b < 128 then map_option ((#) (char_of b)) (decodeURIComponent r1)
           else if utf8_length b = 0 then None
           else case pct_tail (utf8_length b - 1) r1 of
             None \<Rightarrow> None
           | Some (bs, r2) \<Rightarrow>
               if utf8_valid (b # bs) then map_option ((@) (map char_of (b # bs))) (decodeURIComponent r2) else None)"
  by pat_completeness auto
termination
  by (relation "measure length") (auto dest!: pct_byte_length pct_tail_length)

declare decodeURIComponent.simps [simp del]

section \<open>Paths\<close>

definition is_alnum :: "char \<Rightarrow> bool" where
  "is_alnum c \<longleftrightarrow> c \<in> set ''0123456789abcdefghijklmnopqrstuvwxyzABCDEFGHIJKLMNOPQRSTUVWXYZ''"

definition strip_prefix :: "string \<Rightarrow> string \<Rightarrow> string option" where
  "strip_prefix p s = (if take (length p) s = p then Some (drop (length p) s) else None)"

text \<open>\<open>(_test)?1\<close>: the option is taken when it can be.\<close>

definition network_tag :: "string \<Rightarrow> string option" where
  "network_tag s = strip_prefix ''1'' (case strip_prefix ''_test'' s of None \<Rightarrow> s | Some r \<Rightarrow> r)"

text \<open>The pattern of a stake address is matched without regard to case.\<close>

definition is_stake_segment :: "string \<Rightarrow> bool" where
  "is_stake_segment s =
     (case strip_prefix ''stake'' (toLowerCase s) of
        None \<Rightarrow> False
      | Some r \<Rightarrow> (case network_tag r of None \<Rightarrow> False | Some d \<Rightarrow> d \<noteq> [] \<and> list_all is_alnum d))"

definition is_hash_segment :: "string \<Rightarrow> bool" where
  "is_hash_segment s \<longleftrightarrow> length s = 64 \<and> list_all is_hex s"

definition wallet_id :: "string \<Rightarrow> bool" where
  "wallet_id s \<longleftrightarrow> is_stake_segment s \<or> is_hash_segment s"

text \<open>\<open>/%[0-9a-fA-F]{2}/.test(s)\<close>\<close>

fun has_escape :: "string \<Rightarrow> bool" where
  "has_escape [] \<longleftrightarrow> False"
| "has_escape (c # r) \<longleftrightarrow> pct_byte (c # r) \<noteq> None \<or> has_escape r"

fun scrub_passes :: "nat \<Rightarrow> string \<Rightarrow> string \<Rightarrow> string" where
  "scrub_passes 0 segment decoded = REDACTED"
| "scrub_passes (Suc n) segment decoded =
     (case decodeURIComponent decoded of
        None \<Rightarrow> REDACTED
      | Some d \<Rightarrow>
          if wallet_id d then REDACTED
          else if \<not> has_escape d then segment
          else scrub_passes n segment d)"

definition scrubSegment :: "string \<Rightarrow> string" where
  "scrubSegment segment = scrub_passes MAX_DECODE_PASSES segment segment"

definition scrubPath :: "string \<Rightarrow> string" where
  "scrubPath url =
     (let parts = split_on CHR ''?'' url;
          scrubbed = intercalate ''/'' (map scrubSegment (split_on CHR ''/'' (hd parts))) in
      if length parts < 2 then scrubbed else scrubbed @ ''?'' @ parts ! 1)"

section \<open>Messages\<close>

definition is_word :: "char \<Rightarrow> bool" where
  "is_word c \<longleftrightarrow> is_alnum c \<or> c = CHR ''_''"

definition is_base58 :: "char \<Rightarrow> bool" where
  "is_base58 c \<longleftrightarrow> is_alnum c \<and> c \<notin> set ''0OIl''"

text \<open>
  A pattern at a position: given whether the character before is a word character, the length of the
  match that starts here.
\<close>

type_synonym matcher = "bool \<Rightarrow> string \<Rightarrow> nat option"

definition WALLET_BECH32 :: matcher where
  "WALLET_BECH32 pw s =
     (if pw then None
      else let t = toLowerCase s in
        case (case strip_prefix ''stake'' t of None \<Rightarrow> strip_prefix ''addr'' t | Some r \<Rightarrow> Some r) of
          None \<Rightarrow> None
        | Some r \<Rightarrow> (case network_tag r of
              None \<Rightarrow> None
            | Some d \<Rightarrow> (let n = length (takeWhile is_alnum d) in
                if n \<ge> 20 then Some (length s - length d + n) else None)))"

definition HASH_HEX :: matcher where
  "HASH_HEX pw s =
     (if \<not> pw \<and> length (take 64 s) = 64 \<and> list_all is_hex (take 64 s) \<and>
         (drop 64 s = [] \<or> \<not> is_word (hd (drop 64 s))) then Some 64 else None)"

definition BYRON_CANDIDATE :: matcher where
  "BYRON_CANDIDATE pw s =
     (let n = length (takeWhile is_base58 s) in
      if \<not> pw \<and> n \<ge> 40 \<and> (drop n s = [] \<or> \<not> is_word (hd (drop n s))) then Some n else None)"

text \<open>\<open>s.replace(re, f)\<close> with a global pattern whose matches are not empty.\<close>

function replace_all :: "matcher \<Rightarrow> (string \<Rightarrow> string) \<Rightarrow> bool \<Rightarrow> string \<Rightarrow> string" where
  "replace_all m f pw s =
     (case s of
        [] \<Rightarrow> []
      | c # cs \<Rightarrow>
          (case m pw s of
             None \<Rightarrow> c # replace_all m f (is_word c) cs
           | Some n \<Rightarrow>
               if n = 0 then c # replace_all m f (is_word c) cs
               else f (take n s) @ replace_all m f (is_word (last (take n s))) (drop n s)))"
  by pat_completeness auto
termination
  by (relation "measure (\<lambda>(_, _, _, s). length s)") auto

declare replace_all.simps [simp del]

definition scrubMessage :: "(string \<Rightarrow> byte list result) \<Rightarrow> string \<Rightarrow> string" where
  "scrubMessage b58 message =
     replace_all BYRON_CANDIDATE (\<lambda>c. if isByronAddress b58 c then REDACTED else c) False
       (replace_all HASH_HEX (\<lambda>_. REDACTED) False
         (replace_all WALLET_BECH32 (\<lambda>_. REDACTED) False message))"

text \<open>What is logged of a retry and of a request.\<close>

definition scrubRetryEvent :: "(string \<Rightarrow> byte list result) \<Rightarrow> RetryEvent \<Rightarrow> RetryEvent" where
  "scrubRetryEvent b58 ev = ev\<lparr>ev_path := scrubMessage b58 (ev_path ev), ev_message := scrubMessage b58 (ev_message ev)\<rparr>"

definition serializeRequest :: "string \<Rightarrow> string \<Rightarrow> string \<times> string" where
  "serializeRequest method url = (method, scrubPath url)"

section \<open>What a scrubbed path holds\<close>

lemma split_on_nonempty [simp]: "split_on x s \<noteq> []"
  by (induction x s rule: split_on.induct) (auto split: list.split)

lemma split_on_no_sep: "w \<in> set (split_on x s) \<Longrightarrow> x \<notin> set w"
  by (induction x s arbitrary: w rule: split_on.induct) (auto split: list.splits if_splits)

lemma split_on_word: "x \<notin> set w \<Longrightarrow> split_on x w = [w]"
  by (induction w) auto

lemma split_on_append: "x \<notin> set w \<Longrightarrow> split_on x (w @ x # s) = w # split_on x s"
  by (induction w) auto

lemma split_on_subset: "w \<in> set (split_on x s) \<Longrightarrow> set w \<subseteq> set s"
proof (induction s arbitrary: w)
  case (Cons c cs)
  obtain v ws where v: "split_on x cs = v # ws" by (cases "split_on x cs") auto
  with Cons.prems consider "w = []" | "w = c # v" | "w \<in> set (split_on x cs)"
    by (auto split: if_splits)
  then show ?case
  proof cases
    case 2
    with Cons.IH [of v] v show ?thesis by auto
  qed (use Cons.IH in auto)
qed simp

lemma split_on_intercalate:
  "ws \<noteq> [] \<Longrightarrow> \<forall>w \<in> set ws. x \<notin> set w \<Longrightarrow> split_on x (intercalate [x] ws) = ws"
  by (induction "[x]" ws rule: intercalate.induct) (auto simp: split_on_word split_on_append)

lemma set_intercalate_subset: "set (intercalate sep ws) \<subseteq> \<Union> (set ` set ws) \<union> set sep"
  by (induction sep ws rule: intercalate.induct) auto

text \<open>\<open>d\<close> is what some number of decodings, at least one, make of \<open>s\<close>.\<close>

inductive decodes :: "string \<Rightarrow> string \<Rightarrow> bool" where
  once: "decodeURIComponent s = Some d \<Longrightarrow> decodes s d"
| again: "decodeURIComponent s = Some e \<Longrightarrow> decodes e d \<Longrightarrow> decodes s d"

lemma no_escape_decode: "\<not> has_escape s \<Longrightarrow> decodeURIComponent s = Some d \<Longrightarrow> d = s"
proof (induction s arbitrary: d)
  case (Cons c r)
  then have "pct_byte (c # r) = None" by (cases "pct_byte (c # r)") auto
  with Cons show ?case by (auto simp: decodeURIComponent.simps [of "c # r"] split: if_splits)
qed (simp add: decodeURIComponent.simps)

lemma no_escape_decodes: "decodes s d \<Longrightarrow> \<not> has_escape s \<Longrightarrow> d = s"
  by (induction rule: decodes.induct) (auto dest: no_escape_decode)

lemma scrub_passes_cases:
  "scrub_passes n segment decoded = REDACTED \<or>
     scrub_passes n segment decoded = segment \<and> (\<forall>d. decodes decoded d \<longrightarrow> \<not> wallet_id d)"
proof (induction n arbitrary: decoded)
  case (Suc n)
  show ?case
  proof (cases "decodeURIComponent decoded")
    case (Some e)
    show ?thesis
    proof (cases "wallet_id e")
      case False
      have step: "d = e \<or> decodes e d" if "decodes decoded d" for d
        using that Some by (cases rule: decodes.cases) auto
      show ?thesis
      proof (cases "has_escape e")
        case True
        with Some False Suc [of e] step show ?thesis by auto
      next
        case esc: False
        with Some False step no_escape_decodes [of e] show ?thesis by auto
      qed
    qed (simp add: Some)
  qed simp
qed simp

lemma scrubSegment_chars: "x \<notin> set REDACTED \<Longrightarrow> x \<notin> set w \<Longrightarrow> x \<notin> set (scrubSegment w)"
  using scrub_passes_cases [of MAX_DECODE_PASSES w w] by (auto simp: scrubSegment_def)

lemma scrubPath_segments_eq:
  "split_on CHR ''/'' (hd (split_on CHR ''?'' (scrubPath url))) =
     map scrubSegment (split_on CHR ''/'' (hd (split_on CHR ''?'' url)))"
proof -
  let ?path = "hd (split_on CHR ''?'' url)"
  let ?segs = "split_on CHR ''/'' ?path"
  let ?out = "intercalate ''/'' (map scrubSegment ?segs)"
  have fresh: "CHR ''/'' \<notin> set REDACTED" "CHR ''?'' \<notin> set REDACTED" by (simp_all add: REDACTED_def)
  have noq: "CHR ''?'' \<notin> set ?path" by (rule split_on_no_sep [OF hd_in_set]) simp
  have segq: "CHR ''?'' \<notin> set w" if "w \<in> set ?segs" for w
  proof -
    from split_on_subset [OF that] noq show ?thesis by blast
  qed
  have outq: "CHR ''?'' \<notin> set ?out"
    using set_intercalate_subset [of "''/''" "map scrubSegment ?segs"] segq scrubSegment_chars [OF fresh(2)] by fastforce
  have "hd (split_on CHR ''?'' (scrubPath url)) = ?out"
    by (simp add: scrubPath_def Let_def split_on_word [OF outq] split_on_append [OF outq])
  moreover have "split_on CHR ''/'' ?out = map scrubSegment ?segs"
    using scrubSegment_chars [OF fresh(1)] split_on_no_sep by (intro split_on_intercalate) auto
  ultimately show ?thesis by simp
qed

section \<open>What a scrubbed message holds\<close>

text \<open>
  A pattern over word characters: it matches only at the start of a word, what it matches is part of the
  word, and only the word decides; it does not match in the placeholder.
\<close>

definition word_run :: "string \<Rightarrow> string" where
  "word_run s = takeWhile is_word s"

fun unmatched :: "matcher \<Rightarrow> bool \<Rightarrow> string \<Rightarrow> bool" where
  "unmatched m pw [] = True"
| "unmatched m pw (c # cs) = (m pw (c # cs) = None \<and> unmatched m (is_word c) cs)"

fun covered :: "matcher \<Rightarrow> matcher \<Rightarrow> bool \<Rightarrow> string \<Rightarrow> bool" where
  "covered p q pw [] = True"
| "covered p q pw (c # cs) = ((p pw (c # cs) \<noteq> None \<longrightarrow> q pw (c # cs) \<noteq> None) \<and> covered p q (is_word c) cs)"

lemma covered_refl: "covered p p pw s"
  by (induction p pw s rule: unmatched.induct) auto

lemma unmatched_covered: "unmatched p pw s \<Longrightarrow> covered p q pw s"
  by (induction p pw s rule: unmatched.induct) auto

lemma covered_drop:
  "covered p q pw s \<Longrightarrow> 0 < n \<Longrightarrow> n \<le> length s \<Longrightarrow> covered p q (is_word (last (take n s))) (drop n s)"
proof (induction p q pw s arbitrary: n rule: covered.induct)
  case (2 p q pw c cs)
  show ?case
  proof (cases "n = 1")
    case False
    with 2(3) obtain k where "n = Suc k" "0 < k" by (cases n) auto
    with 2 show ?thesis by (cases cs) auto
  qed (use 2 in auto)
qed simp

locale word_matcher =
  fixes m :: matcher
  assumes not_inside: "m True s = None"
    and in_word: "m False s = m False (word_run s)"
    and match_extent: "m False s = Some n \<Longrightarrow> 0 < n \<and> n \<le> length (word_run s)"
begin

lemma match_start: "m pw s = Some n \<Longrightarrow> \<not> pw \<and> 0 < n \<and> n \<le> length s \<and> list_all is_word (take n s)"
proof -
  assume m: "m pw s = Some n"
  then have pw: "\<not> pw" using not_inside by (cases pw) auto
  with m have n: "0 < n" "n \<le> length (word_run s)" using match_extent by auto
  have "length (word_run s) \<le> length s" by (simp add: word_run_def length_takeWhile_le)
  moreover have "take n s = take n (word_run s)"
    using n(2) unfolding word_run_def by (metis append_Nil2 diff_is_0_eq take_0 take_append takeWhile_dropWhile_id)
  moreover have "list_all is_word (word_run s)" by (simp add: word_run_def list_all_iff set_takeWhileD [THEN conjunct2])
  ultimately show "\<not> pw \<and> 0 < n \<and> n \<le> length s \<and> list_all is_word (take n s)"
    using pw n by (auto simp: list_all_iff dest: in_set_takeD)
qed

lemma no_word_no_match: "word_run s = [] \<Longrightarrow> m pw s = None"
  using match_extent [of s] not_inside by (cases pw; cases "m False s") auto

lemma match_nonzero: "m pw s \<noteq> Some 0"
  using match_start by blast

lemma replace_run: "word_run (replace_all m f True s) = word_run s"
proof (induction s)
  case (Cons c cs)
  show ?case
  proof (cases "is_word c")
    case True
    with Cons show ?thesis by (simp add: replace_all.simps [of _ _ _ "c # cs"] not_inside word_run_def)
  qed (simp add: replace_all.simps [of _ _ _ "c # cs"] not_inside word_run_def)
qed (simp add: replace_all.simps)

end

text \<open>
  A pass with \<open>q\<close> that leaves no match of \<open>p\<close>: every match of \<open>p\<close> is one of \<open>q\<close>, and none starts right
  after what \<open>q\<close> took.
\<close>

locale scrub_pass = p: word_matcher p + q: word_matcher q for p q :: matcher +
  assumes placeholder: "p False (''redacted]'' @ s) = None"
    and stop: "q False s = Some n \<Longrightarrow> p False (drop n s) = None"
begin

lemma unmatched_relax: "unmatched p True s \<Longrightarrow> p False s = None \<Longrightarrow> unmatched p False s"
  by (cases s) auto

lemma unmatched_placeholder:
  assumes "unmatched p True s" and "p False s = None"
  shows "unmatched p False (REDACTED @ s)"
proof -
  have "\<not> is_word CHR ''[''" "\<not> is_word CHR '']''" "list_all is_word ''redacted''" by code_simp+
  then have "p pw (CHR ''['' # t) = None" "p pw (CHR '']'' # t) = None" for pw t
    by (simp_all add: p.no_word_no_match word_run_def)
  moreover have "is_word CHR ''r''" "is_word CHR ''e''" "is_word CHR ''d''" "is_word CHR ''a''"
    "is_word CHR ''c''" "is_word CHR ''t''" by code_simp+
  ultimately show ?thesis
    using unmatched_relax [OF assms] placeholder [of s] \<open>\<not> is_word CHR ''[''\<close> \<open>\<not> is_word CHR '']''\<close>
    by (simp add: REDACTED_def p.not_inside)
qed

lemma pass_unmatched: "covered p q pw s \<Longrightarrow> unmatched p pw (replace_all q (\<lambda>_. REDACTED) pw s)"
proof (induction "length s" arbitrary: pw s rule: less_induct)
  case less
  show ?case
  proof (cases s)
    case (Cons c cs)
    show ?thesis
    proof (cases "q pw s")
      case None
      let ?o = "replace_all q (\<lambda>_. REDACTED) (is_word c) cs"
      have ih: "unmatched p (is_word c) ?o" using less(1) [of cs "is_word c"] less(2) Cons by simp
      have out: "replace_all q (\<lambda>_. REDACTED) pw s = c # ?o"
        using None by (simp add: Cons replace_all.simps [of _ _ _ "c # cs"])
      have here: "p pw s = None" using less(2) None Cons by auto
      have "p pw (c # ?o) = None"
      proof (cases "pw \<or> \<not> is_word c")
        case True
        then show ?thesis
          by (cases "pw") (simp_all add: p.not_inside p.no_word_no_match word_run_def)
      next
        case False
        then have "word_run (c # ?o) = word_run s" using q.replace_run [of "\<lambda>_. REDACTED" cs] by (simp add: Cons word_run_def)
        with here False show ?thesis using p.in_word [of "c # ?o"] p.in_word [of s] by simp
      qed
      with ih show ?thesis by (simp add: out)
    next
      case (Some n)
      note n = q.match_start [OF Some]
      have last: "is_word (last (take n s))" using n Cons by (auto simp: list_all_iff)
      have out: "replace_all q (\<lambda>_. REDACTED) pw s = REDACTED @ replace_all q (\<lambda>_. REDACTED) True (drop n s)"
        using Some n last by (simp add: Cons replace_all.simps [of _ _ _ "c # cs"])
      have "covered p q True (drop n s)" using covered_drop [OF less(2), of n] n last by (metis (full_types))
      then have "unmatched p True (replace_all q (\<lambda>_. REDACTED) True (drop n s))"
        using less(1) [of "drop n s" True] n Cons by simp
      moreover have "p False (replace_all q (\<lambda>_. REDACTED) True (drop n s)) = None"
        using stop [of s n] Some n p.in_word [of "drop n s"]
          p.in_word [of "replace_all q (\<lambda>_. REDACTED) True (drop n s)"] by (simp add: q.replace_run)
      ultimately have "unmatched p False (REDACTED @ replace_all q (\<lambda>_. REDACTED) True (drop n s))"
        by (rule unmatched_placeholder)
      then show ?thesis unfolding out using n by (cases pw) simp_all
    qed
  qed (simp add: replace_all.simps)
qed

end

section \<open>The three patterns\<close>

lemma word_chars:
  "is_hex c \<Longrightarrow> is_word c" "is_alnum c \<Longrightarrow> is_word c" "is_base58 c \<Longrightarrow> is_word c"
  by (auto simp: is_hex_def is_word_def is_alnum_def is_base58_def)

lemma word_run_split: obtains t where "s = word_run s @ t" "t = [] \<or> \<not> is_word (hd t)" "list_all is_word (word_run s)"
proof -
  have "list_all is_word (word_run s)" by (auto simp: word_run_def list_all_iff dest: set_takeWhileD)
  moreover have "s = word_run s @ dropWhile is_word s" by (simp add: word_run_def)
  moreover have "dropWhile is_word s = [] \<or> \<not> is_word (hd (dropWhile is_word s))" using hd_dropWhile by blast
  ultimately show thesis using that by blast
qed

lemma word_run_append: "list_all is_word u \<Longrightarrow> t = [] \<or> \<not> is_word (hd t) \<Longrightarrow> word_run (u @ t) = u"
  by (cases t) (auto simp: word_run_def list_all_iff)

text \<open>Where the word ends, so does a run of characters that are all word characters.\<close>

lemma takeWhile_word:
  assumes "\<And>c. P c \<Longrightarrow> is_word c" and "t = [] \<or> \<not> is_word (hd t)"
  shows "takeWhile P (u @ t) = takeWhile P u"
proof (cases "\<forall>x \<in> set u. P x")
  case True
  then have "takeWhile P (u @ t) = u @ takeWhile P t" by (simp add: takeWhile_append2)
  moreover have "takeWhile P t = []" using assms by (cases t) auto
  moreover have "takeWhile P u = u" using True by (simp add: takeWhile_eq_all_conv)
  ultimately show ?thesis by (metis append_Nil2)
qed (auto simp: takeWhile_append1)

lemma take_word_run:
  assumes "\<And>c. P c \<Longrightarrow> is_word c" and "t = [] \<or> \<not> is_word (hd t)"
  shows "length (take n (u @ t)) = n \<and> list_all P (take n (u @ t)) \<longleftrightarrow> n \<le> length u \<and> list_all P (take n u)"
proof (cases "n \<le> length u")
  case False
  then have "take n (u @ t) = u @ take (n - length u) t" by simp
  with False assms show ?thesis by (cases t; cases "n - length u") (auto dest!: assms(1))
qed auto

lemma HASH_HEX_word: "HASH_HEX False (u @ t) = (if length u = 64 \<and> list_all is_hex u then Some 64 else None)"
  if "list_all is_word u" "t = [] \<or> \<not> is_word (hd t)"
proof -
  have "length (take 64 (u @ t)) = 64 \<and> list_all is_hex (take 64 (u @ t)) \<longleftrightarrow> 64 \<le> length u \<and> list_all is_hex (take 64 u)"
    by (rule take_word_run [OF word_chars(1) that(2)])
  moreover have "drop 64 (u @ t) = [] \<or> \<not> is_word (hd (drop 64 (u @ t))) \<longleftrightarrow> length u = 64" if "64 \<le> length u"
  proof (cases "length u = 64")
    case False
    with that have "drop 64 u \<noteq> []" "hd (drop 64 u) \<in> set u" by (auto simp: hd_drop_conv_nth)
    with \<open>list_all is_word u\<close> False that show ?thesis by (auto simp: list_all_iff)
  qed (use \<open>t = [] \<or> \<not> is_word (hd t)\<close> in auto)
  ultimately show ?thesis by (auto simp: HASH_HEX_def)
qed

interpretation hash: word_matcher HASH_HEX
proof unfold_locales
  show "HASH_HEX True s = None" for s by (simp add: HASH_HEX_def)
  fix s n
  obtain t where s: "s = word_run s @ t" "t = [] \<or> \<not> is_word (hd t)" "list_all is_word (word_run s)"
    by (rule word_run_split)
  have run: "HASH_HEX False s = (if length (word_run s) = 64 \<and> list_all is_hex (word_run s) then Some 64 else None)"
    using HASH_HEX_word [OF s(3,2)] s(1) by simp
  show "HASH_HEX False s = HASH_HEX False (word_run s)"
    using HASH_HEX_word [OF s(3), of "[]"] run by simp
  show "HASH_HEX False s = Some n \<Longrightarrow> 0 < n \<and> n \<le> length (word_run s)"
    using run by (auto split: if_splits)
qed

lemma BYRON_CANDIDATE_word: "BYRON_CANDIDATE False (u @ t) =
    (if length u \<ge> 40 \<and> list_all is_base58 u then Some (length u) else None)"
  if "list_all is_word u" "t = [] \<or> \<not> is_word (hd t)"
proof -
  have run: "takeWhile is_base58 (u @ t) = takeWhile is_base58 u"
    by (rule takeWhile_word [OF word_chars(3) that(2)])
  show ?thesis
  proof (cases "list_all is_base58 u")
    case True
    then have "takeWhile is_base58 u = u" by (simp add: takeWhile_eq_all_conv list_all_iff)
    with True that(2) run show ?thesis by (simp add: BYRON_CANDIDATE_def)
  next
    case False
    let ?n = "length (takeWhile is_base58 u)"
    have "?n < length u" using False by (metis length_takeWhile_le le_neq_implies_less list_all_iff takeWhile_eq_all_conv takeWhile_eq_take take_all_iff nle_le)
    then have "drop ?n (u @ t) \<noteq> []" "hd (drop ?n (u @ t)) \<in> set u" by (auto simp: hd_drop_conv_nth nth_append)
    with that(1) have "\<not> (drop ?n (u @ t) = [] \<or> \<not> is_word (hd (drop ?n (u @ t))))" by (auto simp: list_all_iff)
    with False show ?thesis unfolding BYRON_CANDIDATE_def run Let_def by (simp only: simp_thms if_False)
  qed
qed

lemma lower_char_cases: "lower_char c = c \<or> is_alnum c \<and> is_alnum (lower_char c)"
proof (cases "65 \<le> (of_char c :: nat) \<and> (of_char c :: nat) \<le> 90")
  case True
  have all: "list_all (\<lambda>n. is_alnum (char_of n) \<and> is_alnum (char_of (n + 32))) [65..<91]" by code_simp
  from True have "of_char c \<in> set [65..<91]" unfolding set_upt atLeastLessThan_iff by linarith
  with all have "is_alnum (char_of (of_char c :: nat)) \<and> is_alnum (char_of ((of_char c :: nat) + 32))"
    unfolding list_all_iff by blast
  then show ?thesis using True by (simp add: lower_char_def Let_def)
qed (auto simp: lower_char_def Let_def)

lemma lower_alnum [simp]: "is_alnum (lower_char c) \<longleftrightarrow> is_alnum c"
  using lower_char_cases [of c] by auto

lemma lower_word [simp]: "is_word (lower_char c) \<longleftrightarrow> is_word c"
  using lower_char_cases [of c] by (auto simp: is_word_def)

lemma strip_prefix_simps [simp]:
  "strip_prefix [] s = Some s" "strip_prefix (a # p) [] = None"
  "strip_prefix (a # p) (b # s) = (if a = b then strip_prefix p s else None)"
  by (auto simp: strip_prefix_def)

lemma strip_prefix_word:
  "list_all is_word p \<Longrightarrow> t = [] \<or> \<not> is_word (hd t) \<Longrightarrow>
     strip_prefix p (u @ t) = map_option (\<lambda>r. r @ t) (strip_prefix p u)"
proof (induction p arbitrary: u)
  case (Cons a p)
  then show ?case by (cases u; cases t) auto
qed simp

lemma strip_prefix_Some: "strip_prefix p s = Some r \<longleftrightarrow> s = p @ r"
proof
  assume "strip_prefix p s = Some r"
  then have "take (length p) s = p" "drop (length p) s = r" by (simp_all add: strip_prefix_def split: if_splits)
  then show "s = p @ r" by (metis append_take_drop_id)
qed (simp add: strip_prefix_def)

lemma word_literals: "list_all is_word ''stake''" "list_all is_word ''addr''" "list_all is_word ''_test''" "list_all is_word ''1''"
  by code_simp+

lemmas strip_words = word_literals [THEN strip_prefix_word]

lemma network_tag_word:
  "t = [] \<or> \<not> is_word (hd t) \<Longrightarrow> network_tag (u @ t) = map_option (\<lambda>r. r @ t) (network_tag u)"
  by (auto simp: network_tag_def strip_words split: option.split)

lemma network_tag_suffix: "network_tag r = Some d \<Longrightarrow> \<exists>x. r = x @ d"
  by (auto simp: network_tag_def strip_prefix_Some split: option.splits)

definition wallet_prefix :: "string \<Rightarrow> string option" where
  "wallet_prefix t = (case (case strip_prefix ''stake'' t of None \<Rightarrow> strip_prefix ''addr'' t | Some r \<Rightarrow> Some r) of
     None \<Rightarrow> None | Some r \<Rightarrow> network_tag r)"

lemma WALLET_BECH32_eq: "WALLET_BECH32 pw s = (if pw then None else case wallet_prefix (toLowerCase s) of
     None \<Rightarrow> None | Some d \<Rightarrow> if length (takeWhile is_alnum d) \<ge> 20
       then Some (length s - length d + length (takeWhile is_alnum d)) else None)"
  by (auto simp: WALLET_BECH32_def wallet_prefix_def Let_def split: option.splits)

lemma wallet_prefix_word:
  "t = [] \<or> \<not> is_word (hd t) \<Longrightarrow> wallet_prefix (u @ t) = map_option (\<lambda>r. r @ t) (wallet_prefix u)"
  by (auto simp: wallet_prefix_def strip_words network_tag_word split: option.split)

lemma wallet_prefix_suffix: "wallet_prefix s = Some d \<Longrightarrow> \<exists>x. s = x @ d"
  by (auto simp: wallet_prefix_def strip_prefix_Some split: option.splits dest!: network_tag_suffix)

lemma wallet_prefix_start: "wallet_prefix s = Some d \<Longrightarrow> s \<noteq> [] \<and> is_alnum (hd s)"
proof -
  have "is_alnum CHR ''s''" "is_alnum CHR ''a''" by code_simp+
  then show "wallet_prefix s = Some d \<Longrightarrow> s \<noteq> [] \<and> is_alnum (hd s)"
    by (auto simp: wallet_prefix_def strip_prefix_Some split: option.splits)
qed

lemma WALLET_BECH32_word:
  assumes "t = [] \<or> \<not> is_word (hd t)"
  shows "WALLET_BECH32 False (u @ t) = WALLET_BECH32 False u"
proof -
  have low: "toLowerCase t = [] \<or> \<not> is_word (hd (toLowerCase t))"
    using assms by (cases t) (auto simp: toLowerCase_def)
  have "takeWhile is_alnum (d @ toLowerCase t) = takeWhile is_alnum d" for d
    by (rule takeWhile_word [OF word_chars(2) low])
  then show ?thesis
    by (simp add: WALLET_BECH32_eq toLowerCase_append wallet_prefix_word [OF low] split: option.split)
qed

interpretation wallet: word_matcher WALLET_BECH32
proof unfold_locales
  show "WALLET_BECH32 True s = None" for s by (simp add: WALLET_BECH32_def)
  fix s n
  obtain t where s: "s = word_run s @ t" "t = [] \<or> \<not> is_word (hd t)" by (rule word_run_split)
  show word: "WALLET_BECH32 False s = WALLET_BECH32 False (word_run s)"
    using WALLET_BECH32_word [OF s(2), of "word_run s"] s(1) by simp
  assume "WALLET_BECH32 False s = Some n"
  with word have "WALLET_BECH32 False (word_run s) = Some n" by simp
  then obtain d where d: "wallet_prefix (toLowerCase (word_run s)) = Some d" "20 \<le> length (takeWhile is_alnum d)"
    "n = length (word_run s) - length d + length (takeWhile is_alnum d)"
    by (auto simp: WALLET_BECH32_eq split: option.splits if_splits)
  from wallet_prefix_suffix [OF d(1)] have "length d \<le> length (word_run s)"
    by (metis length_append length_toLowerCase le_add2)
  with d(2,3) length_takeWhile_le [of is_alnum d] show "0 < n \<and> n \<le> length (word_run s)" by linarith
qed

lemma WALLET_BECH32_stop:
  assumes "WALLET_BECH32 False s = Some n"
  shows "WALLET_BECH32 False (drop n s) = None"
proof (rule ccontr)
  assume "WALLET_BECH32 False (drop n s) \<noteq> None"
  then obtain e where "wallet_prefix (toLowerCase (drop n s)) = Some e"
    by (auto simp: WALLET_BECH32_eq split: option.splits)
  from wallet_prefix_start [OF this] have hd: "drop n (toLowerCase s) \<noteq> []" "is_alnum (hd (drop n (toLowerCase s)))"
    by (auto simp: toLowerCase_def drop_map)
  from assms obtain d where d: "wallet_prefix (toLowerCase s) = Some d"
    "n = length s - length d + length (takeWhile is_alnum d)"
    by (auto simp: WALLET_BECH32_eq split: option.splits if_splits)
  from wallet_prefix_suffix [OF d(1)] obtain x where x: "toLowerCase s = x @ d" by blast
  have "length s = length x + length d" using arg_cong [OF x, of length] by simp
  then have "drop n (toLowerCase s) = dropWhile is_alnum d" by (simp add: x d(2) dropWhile_eq_drop)
  with hd hd_dropWhile [of is_alnum d] show False by auto
qed

definition BYRON_ADDRESS :: "(string \<Rightarrow> byte list result) \<Rightarrow> matcher" where
  "BYRON_ADDRESS b58 pw s = (case BYRON_CANDIDATE pw s of
     None \<Rightarrow> None | Some n \<Rightarrow> if isByronAddress b58 (take n s) then Some n else None)"

interpretation byron: word_matcher "BYRON_ADDRESS b58" for b58
proof unfold_locales
  show "BYRON_ADDRESS b58 True s = None" for s by (simp add: BYRON_ADDRESS_def BYRON_CANDIDATE_def Let_def)
  fix s n
  obtain t where s: "s = word_run s @ t" "t = [] \<or> \<not> is_word (hd t)" "list_all is_word (word_run s)"
    by (rule word_run_split)
  have run: "BYRON_CANDIDATE False s = BYRON_CANDIDATE False (word_run s)"
    "BYRON_CANDIDATE False s = Some k \<Longrightarrow> k = length (word_run s) \<and> 40 \<le> k" for k
    using BYRON_CANDIDATE_word [OF s(3,2)] BYRON_CANDIDATE_word [OF s(3), of "[]"] s(1) by (auto split: if_splits)
  have "take (length (word_run s)) s = word_run s" using s(1) by (metis append_eq_conv_conj)
  with run show "BYRON_ADDRESS b58 False s = BYRON_ADDRESS b58 False (word_run s)"
    by (auto simp: BYRON_ADDRESS_def split: option.split)
  show "BYRON_ADDRESS b58 False s = Some n \<Longrightarrow> 0 < n \<and> n \<le> length (word_run s)"
    using run(2) by (fastforce simp: BYRON_ADDRESS_def split: option.splits if_splits)
qed

text \<open>None of them matches inside the placeholder, and the last two take whole words.\<close>

lemma placeholder_run: "word_run (''redacted]'' @ s) = ''redacted''"
proof -
  have "list_all is_word ''redacted''" "\<not> is_word CHR '']''" by code_simp+
  then show ?thesis using word_run_append [of "''redacted''" "CHR '']'' # s"] by simp
qed

lemma placeholder_none:
  "WALLET_BECH32 False (''redacted]'' @ s) = None" "HASH_HEX False (''redacted]'' @ s) = None"
  "BYRON_ADDRESS b58 False (''redacted]'' @ s) = None"
proof -
  have w: "WALLET_BECH32 False ''redacted'' = None" "HASH_HEX False ''redacted'' = None"
    "BYRON_CANDIDATE False ''redacted'' = None" by code_simp+
  show "WALLET_BECH32 False (''redacted]'' @ s) = None"
    by (subst wallet.in_word) (simp only: placeholder_run w)
  show "HASH_HEX False (''redacted]'' @ s) = None"
    by (subst hash.in_word) (simp only: placeholder_run w)
  show "BYRON_ADDRESS b58 False (''redacted]'' @ s) = None"
    by (subst byron.in_word) (simp only: placeholder_run, simp add: BYRON_ADDRESS_def w)
qed

lemma whole_word:
  "HASH_HEX False s = Some n \<Longrightarrow> word_run (drop n s) = []"
  "BYRON_ADDRESS b58 False s = Some n \<Longrightarrow> word_run (drop n s) = []"
  by (cases "drop n s";
      auto simp: HASH_HEX_def BYRON_ADDRESS_def BYRON_CANDIDATE_def Let_def word_run_def split: if_splits option.splits)+

interpretation wallet_pass: scrub_pass WALLET_BECH32 WALLET_BECH32
  by unfold_locales (auto simp: placeholder_none [simplified] WALLET_BECH32_stop)

interpretation hash_pass: scrub_pass HASH_HEX HASH_HEX
  by unfold_locales (auto simp: placeholder_none [simplified] intro: hash.no_word_no_match whole_word)

interpretation wallet_hash: scrub_pass WALLET_BECH32 HASH_HEX
  by unfold_locales (auto simp: placeholder_none [simplified] intro: wallet.no_word_no_match whole_word)

interpretation byron_pass: scrub_pass "BYRON_ADDRESS b58" "BYRON_ADDRESS b58" for b58
  by unfold_locales (auto simp: placeholder_none [simplified] intro: byron.no_word_no_match whole_word)

interpretation wallet_byron: scrub_pass WALLET_BECH32 "BYRON_ADDRESS b58" for b58
  by unfold_locales (auto simp: placeholder_none [simplified] intro: wallet.no_word_no_match whole_word)

interpretation hash_byron: scrub_pass HASH_HEX "BYRON_ADDRESS b58" for b58
  by unfold_locales (auto simp: placeholder_none [simplified] intro: hash.no_word_no_match whole_word)

text \<open>A candidate that is not an address is passed over as a whole, which changes nothing.\<close>

lemma replace_inside: "list_all is_word u \<Longrightarrow> replace_all (BYRON_ADDRESS b58) f True (u @ t) =
    u @ replace_all (BYRON_ADDRESS b58) f True t"
  by (induction u) (simp_all add: replace_all.simps [of _ _ _ "_ # _"] byron.not_inside)

lemma replace_candidates:
  "replace_all BYRON_CANDIDATE (\<lambda>c. if isByronAddress b58 c then REDACTED else c) pw s =
     replace_all (BYRON_ADDRESS b58) (\<lambda>_. REDACTED) pw s"
proof (induction "length s" arbitrary: pw s rule: less_induct)
  case less
  show ?case
  proof (cases s)
    case (Cons c cs)
    show ?thesis
    proof (cases "BYRON_CANDIDATE pw s")
      case None
      with Cons less show ?thesis by (simp add: replace_all.simps [of _ _ _ "c # cs"] BYRON_ADDRESS_def)
    next
      case (Some n)
      then have n: "\<not> pw" "0 < n" "n \<le> length s" "list_all is_word (take n s)"
      proof -
        have tw: "n = length (takeWhile is_base58 s)" "\<not> pw" "40 \<le> n"
          using Some by (auto simp: BYRON_CANDIDATE_def Let_def split: if_splits)
        then show "\<not> pw" "0 < n" "n \<le> length s" by (auto simp: length_takeWhile_le)
        have "take n s = takeWhile is_base58 s" unfolding tw(1) by (rule takeWhile_eq_take [symmetric])
        then show "list_all is_word (take n s)" by (auto simp: list_all_iff dest: set_takeWhileD intro: word_chars)
      qed
      then have last: "is_word (last (take n s))" using Cons by (auto simp: list_all_iff)
      have rest: "replace_all BYRON_CANDIDATE (\<lambda>c. if isByronAddress b58 c then REDACTED else c) True (drop n s) =
          replace_all (BYRON_ADDRESS b58) (\<lambda>_. REDACTED) True (drop n s)"
        using less n Cons by simp
      have lhs: "replace_all BYRON_CANDIDATE (\<lambda>c. if isByronAddress b58 c then REDACTED else c) pw s =
          (if isByronAddress b58 (take n s) then REDACTED else take n s) @
          replace_all (BYRON_ADDRESS b58) (\<lambda>_. REDACTED) True (drop n s)"
        using Some n last rest by (simp add: Cons replace_all.simps [of _ _ _ "c # cs"])
      show ?thesis
      proof (cases "isByronAddress b58 (take n s)")
        case True
        then have "BYRON_ADDRESS b58 pw s = Some n" using Some by (simp add: BYRON_ADDRESS_def)
        with lhs n last True show ?thesis by (simp add: Cons replace_all.simps [of _ _ _ "c # cs"])
      next
        case False
        then have "BYRON_ADDRESS b58 pw s = None" using Some by (simp add: BYRON_ADDRESS_def)
        moreover obtain k where k: "n = Suc k" using n(2) by (cases n) auto
        moreover have "is_word c" "list_all is_word (take k cs)" using n(4) by (auto simp: k Cons)
        ultimately have "replace_all (BYRON_ADDRESS b58) (\<lambda>_. REDACTED) pw s =
            c # take k cs @ replace_all (BYRON_ADDRESS b58) (\<lambda>_. REDACTED) True (drop k cs)"
          using replace_inside [of "take k cs" b58 "\<lambda>_. REDACTED" "drop k cs"]
          by (simp add: Cons replace_all.simps [of _ _ _ "c # cs"])
        with lhs False show ?thesis by (simp add: k Cons)
      qed
    qed
  qed (simp add: replace_all.simps)
qed

lemma scrubMessage_unmatched:
  "unmatched WALLET_BECH32 False (scrubMessage b58 message) \<and>
   unmatched HASH_HEX False (scrubMessage b58 message) \<and>
   unmatched (BYRON_ADDRESS b58) False (scrubMessage b58 message)"
proof -
  define w where "w = replace_all WALLET_BECH32 (\<lambda>_. REDACTED) False message"
  define h where "h = replace_all HASH_HEX (\<lambda>_. REDACTED) False w"
  have w: "unmatched WALLET_BECH32 False w" unfolding w_def by (rule wallet_pass.pass_unmatched [OF covered_refl])
  have h: "unmatched HASH_HEX False h" "unmatched WALLET_BECH32 False h"
    unfolding h_def by (rule hash_pass.pass_unmatched [OF covered_refl])
      (rule wallet_hash.pass_unmatched [OF unmatched_covered [OF w]])
  have "scrubMessage b58 message = replace_all (BYRON_ADDRESS b58) (\<lambda>_. REDACTED) False h"
    by (simp add: scrubMessage_def replace_candidates h_def w_def)
  then show ?thesis
    using wallet_byron.pass_unmatched [OF unmatched_covered [OF h(2)], of b58]
      hash_byron.pass_unmatched [OF unmatched_covered [OF h(1)], of b58] byron_pass.pass_unmatched [OF covered_refl, of b58]
    by simp
qed

lemma unmatched_candidate: "unmatched BYRON_CANDIDATE pw s \<Longrightarrow> unmatched (BYRON_ADDRESS b58) pw s"
  by (induction BYRON_CANDIDATE pw s rule: unmatched.induct) (auto simp: BYRON_ADDRESS_def)

section \<open>Properties\<close>

text \<open>
  C25: a logged path still names the endpoint, segment by segment, and names no wallet: each segment is
  either the placeholder or the segment that was requested, and a segment that is kept never becomes a
  stake address or a transaction hash, however many times it is percent-decoded.
\<close>

theorem scrubPath_private:
  assumes "i < length (split_on CHR ''/'' (hd (split_on CHR ''?'' url)))"
  shows "length (split_on CHR ''/'' (hd (split_on CHR ''?'' (scrubPath url)))) =
      length (split_on CHR ''/'' (hd (split_on CHR ''?'' url))) \<and>
    (let kept = split_on CHR ''/'' (hd (split_on CHR ''?'' (scrubPath url))) ! i;
         asked = split_on CHR ''/'' (hd (split_on CHR ''?'' url)) ! i in
     kept = REDACTED \<or> kept = asked \<and> (\<forall>d. decodes asked d \<longrightarrow> \<not> wallet_id d))"
  using assms scrub_passes_cases [of MAX_DECODE_PASSES "split_on CHR ''/'' (hd (split_on CHR ''?'' url)) ! i"
      "split_on CHR ''/'' (hd (split_on CHR ''?'' url)) ! i"]
  by (simp add: scrubPath_segments_eq Let_def) (simp add: scrubSegment_def)

theorem scrubPath_private_witness:
  "split_on CHR ''/'' (hd (split_on CHR ''?'' (scrubPath ''/v1/account/stake1uxyz/utxos?after=1''))) ! 3 = REDACTED \<and>
   split_on CHR ''/'' (hd (split_on CHR ''?'' (scrubPath ''/v1/account/stake1uxyz/utxos?after=1''))) ! 4 = ''utxos''"
proof -
  let ?url = "''/v1/account/stake1uxyz/utxos?after=1''"
  have segs: "split_on CHR ''/'' (hd (split_on CHR ''?'' ?url)) = ['''', ''v1'', ''account'', ''stake1uxyz'', ''utxos'']"
    by code_simp
  have id: "wallet_id ''stake1uxyz''" "decodeURIComponent ''stake1uxyz'' = Some ''stake1uxyz''" by code_simp+
  have ne: "REDACTED \<noteq> ''utxos''" by (simp add: REDACTED_def)
  have four: "scrubSegment ''utxos'' = ''utxos''" by code_simp
  from scrubPath_private [of 3 ?url] have "split_on CHR ''/'' (hd (split_on CHR ''?'' (scrubPath ?url))) ! 3 = REDACTED"
    using id decodes.once [OF id(2)] unfolding segs by (auto simp: Let_def)
  with four show ?thesis by (simp add: scrubPath_segments_eq segs)
qed


end
