(* ===== verification/Http_Routes.thy ===== *)
theory Http_Routes
  imports Identifiers Domain Logging
begin

text \<open>
  The HTTP boundary: the handlers of \<^verbatim>\<open>src/http/routes\<close> for accounts, addresses, transactions, status,
  chain, pools, assets and governance, and the error handler of \<^verbatim>\<open>src/http/server.ts\<close>.  Fastify parses
  the request; a handler gets the strings of the path and query, or the decoded body.  The structural
  part of a zod body schema is done before the handler (\<open>None\<close> is a body of another shape); its
  refinements are checked here.  The provider is a record of functions on the world.
\<close>

record 's provider =
  p_getTip :: "('s, Tip) io_result"
  p_getProtocolParams :: "('s, ProtocolParams) io_result"
  p_getAccountState :: "string \<Rightarrow> ('s, AccountState) io_result"
  p_getAccountUtxos :: "string \<Rightarrow> ('s, Utxo list) io_result"
  p_getTxHistory :: "string \<Rightarrow> nat option \<Rightarrow> ('s, WalletTransaction list) io_result"
  p_getRewardHistory :: "string \<Rightarrow> nat option \<Rightarrow> ('s, AccountReward list) io_result"
  p_filterUsedAddresses :: "string list \<Rightarrow> ('s, string list) io_result"
  p_filterUsedPaymentCredentials :: "string list \<Rightarrow> ('s, string list) io_result"
  p_getUtxosByAddresses :: "string list \<Rightarrow> ('s, Utxo list) io_result"
  p_getTxHistoryByAddresses :: "string list \<Rightarrow> nat option \<Rightarrow> ('s, WalletTransaction list) io_result"
  p_submitTx :: "string \<Rightarrow> ('s, string) io_result"
  p_getTxStatus :: "string \<Rightarrow> ('s, TxStatus) io_result"
  p_getUtxosByRef :: "string list \<Rightarrow> ('s, ResolvedUtxo list) io_result"

text \<open>A non-empty array of at most \<open>k\<close> non-empty strings.\<close>

definition strings_ok :: "nat \<Rightarrow> string list option \<Rightarrow> bool" where
  "strings_ok k b \<longleftrightarrow> (case b of None \<Rightarrow> False | Some xs \<Rightarrow> 1 \<le> length xs \<and> length xs \<le> k \<and> [] \<notin> set xs)"

section \<open>Accounts\<close>

definition assertStakeAddress :: "bech32 \<Rightarrow> string \<Rightarrow> string \<Rightarrow> string result" where
  "assertStakeAddress B v network =
     (if \<not> isStakeAddressForNetwork B v network then Inl (BadRequestError ''invalid stake address'') else Inr v)"

text \<open>\<open>n = Number(after)\<close> is only looked at when the pattern has matched.\<close>

definition after_param :: "string \<Rightarrow> string option \<Rightarrow> nat option result" where
  "after_param message after = (case after of
     None \<Rightarrow> Inr None
   | Some a \<Rightarrow>
       if \<not> all_digits a \<or> \<not> isSafeInteger (int (nat_of_string a)) then Inl (BadRequestError message)
       else Inr (Some (nat_of_string a)))"

definition route_account_state :: "bech32 \<Rightarrow> string \<Rightarrow> 's provider \<Rightarrow> string \<Rightarrow> ('s, AccountState) io_result" where
  "route_account_state B network p stake =
     bindIO (liftE (assertStakeAddress B stake network)) (p_getAccountState p)"

definition route_account_utxos :: "bech32 \<Rightarrow> string \<Rightarrow> 's provider \<Rightarrow> string \<Rightarrow> ('s, Utxo list) io_result" where
  "route_account_utxos B network p stake =
     bindIO (liftE (assertStakeAddress B stake network)) (p_getAccountUtxos p)"

definition route_account_utxos_complete ::
  "bech32 \<Rightarrow> string \<Rightarrow> 's provider \<Rightarrow> string \<Rightarrow> ('s, bool \<times> Utxo list) io_result" where
  "route_account_utxos_complete B network p stake =
     bindIO (liftE (assertStakeAddress B stake network)) (\<lambda>a.
     bindIO (p_getAccountUtxos p a) (\<lambda>utxos. returnIO (True, utxos)))"

definition route_account_txs ::
  "bech32 \<Rightarrow> string \<Rightarrow> 's provider \<Rightarrow> string \<Rightarrow> string option \<Rightarrow> ('s, WalletTransaction list) io_result" where
  "route_account_txs B network p stake after =
     bindIO (liftE (after_param ''after must be a non-negative block height'' after)) (\<lambda>afterBlock.
     bindIO (liftE (assertStakeAddress B stake network)) (\<lambda>a. p_getTxHistory p a afterBlock))"

definition route_account_rewards ::
  "bech32 \<Rightarrow> string \<Rightarrow> 's provider \<Rightarrow> string \<Rightarrow> string option \<Rightarrow> ('s, AccountReward list) io_result" where
  "route_account_rewards B network p stake after =
     bindIO (liftE (after_param ''after must be a non-negative epoch number'' after)) (\<lambda>afterEpoch.
     bindIO (liftE (assertStakeAddress B stake network)) (\<lambda>a. p_getRewardHistory p a afterEpoch))"

section \<open>Address sets\<close>

definition ADDRESSES_BODY_ERROR :: string where
  "ADDRESSES_BODY_ERROR = ''body must be { \"addresses\": [<address>, ...] } (1 to 1000)''"
definition PAYMENT_ADDRESS_ERROR :: string where
  "PAYMENT_ADDRESS_ERROR = ''addresses must be valid payment addresses (bech32 addr / addr_test, or Byron base58)''"
definition FILTER_USED_ERROR :: string where
  "FILTER_USED_ERROR = ''addresses must be valid payment addresses or bech32 payment key hashes (addr_vkh)''"

text \<open>The loop that tells key hashes from payment addresses.\<close>

fun classify :: "bech32 \<Rightarrow> (string \<Rightarrow> byte list result) \<Rightarrow> byte option \<Rightarrow> string list \<Rightarrow>
    (string, string) js_map \<Rightarrow> string list \<Rightarrow> ((string, string) js_map \<times> string list) result" where
  "classify B b58 net [] creds addrs = Inr (creds, addrs)"
| "classify B b58 net (x # xs) creds addrs =
     (case paymentCredentialHex B x of
        Some k \<Rightarrow> classify B b58 net xs (jm_set x k creds) addrs
      | None \<Rightarrow>
          if isPaymentAddress B b58 x net then classify B b58 net xs creds (addrs @ [x])
          else Inl (BadRequestError FILTER_USED_ERROR))"

definition used_inputs :: "(string, string) js_map \<Rightarrow> string set \<Rightarrow> string set \<Rightarrow> string list \<Rightarrow> string list" where
  "used_inputs creds addressSet credentialSet inputs =
     filter (\<lambda>x. case jm_get creds x of None \<Rightarrow> x \<in> addressSet | Some k \<Rightarrow> k \<in> credentialSet) inputs"

definition route_filter_used :: "bech32 \<Rightarrow> (string \<Rightarrow> byte list result) \<Rightarrow> string \<Rightarrow> 's provider \<Rightarrow>
    string list option \<Rightarrow> ('s, string list) io_result" where
  "route_filter_used B b58 network p body =
     (if \<not> strings_ok 1000 body then throwIO (BadRequestError ADDRESSES_BODY_ERROR)
      else let inputs = dedupe (the body) in
        bindIO (liftE (classify B b58 (configuredNetworkId network) inputs [] [])) (\<lambda>(creds, addrs).
        bindIO (bothIO (if addrs = [] then returnIO [] else p_filterUsedAddresses p addrs)
                       (if creds = [] then returnIO [] else p_filterUsedPaymentCredentials p (map snd creds)))
          (\<lambda>(usedAddresses, usedCredentials).
        returnIO (used_inputs creds (set usedAddresses) (set usedCredentials) inputs))))"

definition route_addresses_utxos :: "bech32 \<Rightarrow> (string \<Rightarrow> byte list result) \<Rightarrow> string \<Rightarrow> 's provider \<Rightarrow>
    string list option \<Rightarrow> ('s, Utxo list) io_result" where
  "route_addresses_utxos B b58 network p body =
     (if \<not> strings_ok 1000 body then throwIO (BadRequestError ADDRESSES_BODY_ERROR)
      else if \<not> list_all (\<lambda>a. isPaymentAddress B b58 a (configuredNetworkId network)) (the body)
      then throwIO (BadRequestError PAYMENT_ADDRESS_ERROR)
      else p_getUtxosByAddresses p (dedupe (the body)))"

definition route_addresses_txs :: "bech32 \<Rightarrow> (string \<Rightarrow> byte list result) \<Rightarrow> string \<Rightarrow> 's provider \<Rightarrow>
    (string list \<times> int option) option \<Rightarrow> ('s, WalletTransaction list) io_result" where
  "route_addresses_txs B b58 network p body =
     (if \<not> strings_ok 1000 (map_option fst body) \<or> (\<exists>a. map_option snd body = Some (Some a) \<and> (a < 0 \<or> \<not> isSafeInteger a))
      then throwIO (BadRequestError
        ''body must be { \"addresses\": [<address>, ...], \"after\"?: <block height> } (1 to 1000 addresses)'')
      else let addresses = fst (the body); after = map_option nat (snd (the body)) in
        if \<not> list_all (\<lambda>a. isPaymentAddress B b58 a (configuredNetworkId network)) addresses
        then throwIO (BadRequestError PAYMENT_ADDRESS_ERROR)
        else p_getTxHistoryByAddresses p (dedupe addresses) after)"

section \<open>Transactions\<close>

definition route_tx_submit :: "'s provider \<Rightarrow> string option \<Rightarrow> ('s, string) io_result" where
  "route_tx_submit p cbor =
     (case cbor of
        Some h \<Rightarrow> if h \<noteq> [] \<and> even (length h) \<and> list_all is_hex h then p_submitTx p h
                  else throwIO (BadRequestError ''body must be { \"cbor\": \"<hex-encoded transaction>\" }'')
      | None \<Rightarrow> throwIO (BadRequestError ''body must be { \"cbor\": \"<hex-encoded transaction>\" }''))"

definition publicTxStatus :: "TxStatus \<Rightarrow> TxStatus result" where
  "publicTxStatus st =
     (case ts_status st of
        Tx_unknown \<Rightarrow> Inr unknownTxStatus
      | Tx_pending \<Rightarrow> Inr pendingTxStatus
      | Tx_confirmed \<Rightarrow>
          if \<not> isSafeInteger (ts_confirmations st) \<or> ts_confirmations st < 0
          then Inl (MalformedUpstreamError ''provider returned an invalid transaction confirmation count'')
          else confirmedTxStatus (ts_confirmations st)
      | Tx_rejected \<Rightarrow> Inr rejectedTxStatus
      | Tx_expired \<Rightarrow> Inr expiredTxStatus)"

definition route_tx_status :: "'s provider \<Rightarrow> string \<Rightarrow> ('s, TxStatus) io_result" where
  "route_tx_status p hash =
     (if \<not> isTxHash hash then throwIO (BadRequestError ''invalid transaction hash'')
      else bindIO (p_getTxStatus p (toLowerCase hash)) (\<lambda>st. liftE (publicTxStatus st)))"

definition route_tx_utxos :: "'s provider \<Rightarrow> string list option \<Rightarrow> ('s, ResolvedUtxo list) io_result" where
  "route_tx_utxos p body =
     (case body of
        None \<Rightarrow> throwIO (BadRequestError ''body must be { \"refs\": [\"<txHash>#<index>\", ...] } (1 to 100)'')
      | Some refs \<Rightarrow>
          if \<not> (1 \<le> length refs \<and> length refs \<le> 100)
          then throwIO (BadRequestError ''body must be { \"refs\": [\"<txHash>#<index>\", ...] } (1 to 100)'')
          else
            let bad = filter (\<lambda>r. normalizeUtxoRef r = None) refs in
            if bad \<noteq> []
            then throwIO (BadRequestError (''refs must be \"<64-char tx hash>#<output index>\": '' @
                   intercalate '', '' (take 3 bad)))
            else p_getUtxosByRef p (List.map_filter normalizeUtxoRef refs))"

section \<open>Status and chain\<close>

definition STALE_TIP_SECONDS :: int where "STALE_TIP_SECONDS = 300"

datatype chain_state = Chain_ok | Chain_stale | Chain_down

record status_response =
  sr_info :: StatusInfo
  sr_serverTime :: int
  sr_chain :: chain_state
  sr_behindSeconds :: "int option"
  sr_tip :: "Tip option"

definition available_status :: "StatusInfo \<Rightarrow> Tip \<Rightarrow> int \<Rightarrow> status_response" where
  "available_status info tip serverTime =
     (let behind = max 0 (serverTime div 1000 - tip_blockTime tip) in
      \<lparr>sr_info = info, sr_serverTime = serverTime,
       sr_chain = (if behind \<le> STALE_TIP_SECONDS then Chain_ok else Chain_stale),
       sr_behindSeconds = Some behind, sr_tip = Some tip\<rparr>)"

text \<open>\<open>clock\<close> is \<open>Date.now()\<close>; every failure of the first part, of the provider or of the clock, is caught.\<close>

definition route_status :: "('s \<Rightarrow> int) \<Rightarrow> StatusInfo \<Rightarrow> 's provider \<Rightarrow> ('s, status_response) io_result" where
  "route_status clock info p =
     catchIO
       (bindIO (p_getTip p) (\<lambda>tip s. (bindE (asServerTime (clock s)) (\<lambda>t. Inr (available_status info tip t)), s)))
       (\<lambda>_ s. (bindE (asServerTime (clock s)) (\<lambda>t. Inr
          \<lparr>sr_info = info, sr_serverTime = t, sr_chain = Chain_down, sr_behindSeconds = None, sr_tip = None\<rparr>), s))"

definition toTipResponse :: "Tip \<Rightarrow> Tip" where
  "toTipResponse tip = \<lparr>tip_block = tip_block tip, tip_slot = tip_slot tip, tip_epoch = tip_epoch tip,
     tip_hash = tip_hash tip, tip_blockTime = tip_blockTime tip\<rparr>"

definition toProtocolParamsResponse :: "ProtocolParams \<Rightarrow> ProtocolParams" where
  "toProtocolParamsResponse params = params\<lparr>pp_costModels :=
     (case pp_costModels params of None \<Rightarrow> Some (JObj []) | Some m \<Rightarrow> Some m)\<rparr>"

definition route_tip :: "'s provider \<Rightarrow> ('s, Tip) io_result" where
  "route_tip p = bindIO (p_getTip p) (\<lambda>tip. returnIO (toTipResponse tip))"

definition route_protocol_params :: "'s provider \<Rightarrow> ('s, ProtocolParams) io_result" where
  "route_protocol_params p = bindIO (p_getProtocolParams p) (\<lambda>params. returnIO (toProtocolParamsResponse params))"

section \<open>Lists and batches\<close>

text \<open>A query parameter that must be digits and in a range; absent, it is the fallback.\<close>

definition boundedInt :: "nat \<Rightarrow> nat \<Rightarrow> nat \<Rightarrow> string option \<Rightarrow> nat option" where
  "boundedInt lo hi fallback v = (case v of
     None \<Rightarrow> if lo \<le> fallback \<and> fallback \<le> hi then Some fallback else None
   | Some s \<Rightarrow>
       if all_digits s \<and> lo \<le> nat_of_string s \<and> nat_of_string s \<le> hi then Some (nat_of_string s) else None)"

definition MAX_LIMIT :: nat where "MAX_LIMIT = 250"
definition POOL_MAX_OFFSET :: nat where "POOL_MAX_OFFSET = 100000"
definition PROVIDER_SCAN_BOUND :: nat where "PROVIDER_SCAN_BOUND = 20000"
definition DREP_MAX_OFFSET :: nat where "DREP_MAX_OFFSET = PROVIDER_SCAN_BOUND - MAX_LIMIT"
definition MAX_PROPOSAL_LIMIT :: nat where "MAX_PROPOSAL_LIMIT = 50"
definition MAX_PROPOSAL_OFFSET :: nat where "MAX_PROPOSAL_OFFSET = 10000"

definition ticker_ok :: "string option \<Rightarrow> bool" where
  "ticker_ok t \<longleftrightarrow> (case t of None \<Rightarrow> True | Some s \<Rightarrow> 1 \<le> length s \<and> length s \<le> 15 \<and> list_all is_alnum s)"

text \<open>The capability a list or batch route calls is a parameter: its result type is the provider's.\<close>

definition route_pool_list :: "(nat \<Rightarrow> nat \<Rightarrow> string option \<Rightarrow> ('s, 'a) io_result) \<Rightarrow>
    string option \<Rightarrow> string option \<Rightarrow> string option \<Rightarrow> ('s, 'a) io_result" where
  "route_pool_list getPoolList limit offset ticker =
     (let bad = BadRequestError (''query must be limit (1-'' @ string_of_nat MAX_LIMIT @ ''), offset (0-'' @
            string_of_nat POOL_MAX_OFFSET @ ''), and an optional alphanumeric ticker of 1 to 15 characters'') in
      case (boundedInt 1 MAX_LIMIT 50 limit, boundedInt 0 POOL_MAX_OFFSET 0 offset) of
        (Some l, Some k) \<Rightarrow> if ticker_ok ticker then getPoolList l k ticker else throwIO bad
      | _ \<Rightarrow> throwIO bad)"

definition route_window :: "nat \<Rightarrow> nat \<Rightarrow> nat \<Rightarrow> (nat \<Rightarrow> nat \<Rightarrow> ('s, 'a) io_result) \<Rightarrow>
    string option \<Rightarrow> string option \<Rightarrow> ('s, 'a) io_result" where
  "route_window maxLimit fallback maxOffset get limit offset =
     (case (boundedInt 1 maxLimit fallback limit, boundedInt 0 maxOffset 0 offset) of
        (Some l, Some k) \<Rightarrow> get l k
      | _ \<Rightarrow> throwIO (BadRequestError (''query must be limit (1-'' @ string_of_nat maxLimit @ '') and offset (0-'' @
               string_of_nat maxOffset @ '')'')))"

definition route_drep_list where
  "route_drep_list getDrepList = route_window MAX_LIMIT 50 DREP_MAX_OFFSET getDrepList"

definition route_proposals where
  "route_proposals getProposals = route_window MAX_PROPOSAL_LIMIT 20 MAX_PROPOSAL_OFFSET getProposals"

definition route_batch :: "(string \<Rightarrow> bool) \<Rightarrow> string \<Rightarrow> string \<Rightarrow> (string list \<Rightarrow> ('s, 'a) io_result) \<Rightarrow>
    string list option \<Rightarrow> ('s, 'a) io_result" where
  "route_batch ok shape what get body =
     (if \<not> strings_ok 100 body then throwIO (BadRequestError shape)
      else if \<not> list_all ok (the body) then throwIO (BadRequestError what)
      else get (the body))"

definition route_pool_info where
  "route_pool_info B getPoolInfo = route_batch (isPoolId B)
     ''body must be { \"poolIds\": [<pool id>, ...] } (1 to 100)'' ''poolIds must be bech32 pool ids (pool1...)'' getPoolInfo"

definition route_drep_info where
  "route_drep_info B getDrepInfo = route_batch (isDrepId B)
     ''body must be { \"drepIds\": [<drep id>, ...] } (1 to 100)''
     ''drepIds must be bech32 DRep ids: CIP-129 (drep1...), or the deprecated CIP-105 form'' getDrepInfo"

definition route_asset_info :: "(string list \<Rightarrow> ('s, 'a) io_result) \<Rightarrow> string list option \<Rightarrow> ('s, 'a) io_result" where
  "route_asset_info getTokenMetadata body =
     (if \<not> strings_ok 100 body \<or> \<not> list_all (\<lambda>v. length v \<le> MAX_SUBJECT_HEX_LEN) (the body)
      then throwIO (BadRequestError ''body must be { \"subjects\": [<policyId+assetNameHex>, ...] } (1 to 100)'')
      else if \<not> list_all isSubject (the body)
      then throwIO (BadRequestError
        ''each subject must be a hex policy id (28 bytes) optionally followed by a hex asset name (up to 32 bytes)'')
      else getTokenMetadata (the body))"

section \<open>The error handler\<close>

text \<open>What reaches it: an error the service threw, or one of the framework's with its own status.\<close>

datatype failure = Thrown thrown | Framework "nat option" "string option"

record reply =
  rp_status :: nat
  rp_code :: string
  rp_message :: string

fun code_string :: "error_code \<Rightarrow> string" where
  "code_string UPSTREAM_ERROR = ''UPSTREAM_ERROR''"
| "code_string UPSTREAM_TIMEOUT = ''UPSTREAM_TIMEOUT''"
| "code_string UPSTREAM_MALFORMED = ''UPSTREAM_MALFORMED''"
| "code_string BAD_REQUEST = ''BAD_REQUEST''"
| "code_string NOT_IMPLEMENTED = ''NOT_IMPLEMENTED''"
| "code_string FEATURE_UNAVAILABLE = ''FEATURE_UNAVAILABLE''"
| "code_string CONFIG_ERROR = ''CONFIG_ERROR''"
| "code_string INTERNAL = ''INTERNAL''"

definition internal_reply :: reply where
  "internal_reply = \<lparr>rp_status = 500, rp_code = ''INTERNAL'', rp_message = ''internal server error''\<rparr>"

fun error_reply :: "(string \<Rightarrow> byte list result) \<Rightarrow> failure \<Rightarrow> reply" where
  "error_reply b58 (Thrown e) =
     (case (statusCode_of e, code_of e) of
        (Some st, Some c) \<Rightarrow>
          \<lparr>rp_status = st, rp_code = code_string c, rp_message = scrubMessage b58 (message_of e)\<rparr>
      | _ \<Rightarrow> internal_reply)"
| "error_reply b58 (Framework st message) =
     (case st of
        Some n \<Rightarrow>
          if 400 \<le> n \<and> n < 500 then
            \<lparr>rp_status = n, rp_code = (if n = 429 then ''RATE_LIMITED'' else ''BAD_REQUEST''),
             rp_message = (case message of None \<Rightarrow> ''bad request'' | Some m \<Rightarrow> scrubMessage b58 m)\<rparr>
          else internal_reply
      | None \<Rightarrow> internal_reply)"

section \<open>Properties\<close>

lemma classify_Inr:
  assumes "classify B b58 net xs creds addrs = Inr (creds', addrs')"
    and "\<forall>x k. jm_get creds x = Some k \<longrightarrow> paymentCredentialHex B x = Some k"
  shows "(\<forall>x k. jm_get creds' x = Some k \<longrightarrow> paymentCredentialHex B x = Some k) \<and>
    (\<forall>x \<in> set xs. jm_get creds' x = paymentCredentialHex B x) \<and>
    (\<forall>x k. jm_get creds x = Some k \<longrightarrow> jm_get creds' x = Some k) \<and>
    addrs' = addrs @ filter (\<lambda>x. paymentCredentialHex B x = None) xs"
  using assms
proof (induction xs arbitrary: creds addrs)
  case (Cons x xs)
  show ?case
  proof (cases "paymentCredentialHex B x")
    case None
    with Cons.prems have "classify B b58 net xs creds (addrs @ [x]) = Inr (creds', addrs')" by (auto split: if_splits)
    note ih = Cons.IH [OF this Cons.prems(2)]
    have "jm_get creds' x = None"
    proof (rule ccontr)
      assume "jm_get creds' x \<noteq> None"
      then obtain k where "jm_get creds' x = Some k" by blast
      then have "paymentCredentialHex B x = Some k" using ih by blast
      with None show False by simp
    qed
    then have "\<forall>y \<in> set (x # xs). jm_get creds' y = paymentCredentialHex B y" using ih None by (metis set_ConsD)
    moreover have "addrs' = addrs @ filter (\<lambda>x. paymentCredentialHex B x = None) (x # xs)"
      using ih [THEN conjunct2, THEN conjunct2, THEN conjunct2] by (simp only: None filter.simps append_assoc append.simps simp_thms if_True)
    ultimately show ?thesis using ih by blast
  next
    case (Some k)
    with Cons.prems have "classify B b58 net xs (jm_set x k creds) addrs = Inr (creds', addrs')" by simp
    have old: "jm_get (jm_set x k creds) y = Some l" if "jm_get creds y = Some l" for y l
    proof (cases "y = x")
      case True
      have "paymentCredentialHex B y = Some l" using that Cons.prems(2) by blast
      with True Some show ?thesis by simp
    qed (simp add: that)
    have "\<forall>y l. jm_get (jm_set x k creds) y = Some l \<longrightarrow> paymentCredentialHex B y = Some l"
      using Cons.prems(2) Some by (metis jm_get_set option.inject)
    note ih = Cons.IH [OF \<open>classify B b58 net xs (jm_set x k creds) addrs = _\<close> this]
    have "jm_get (jm_set x k creds) x = Some k" by simp
    then have "jm_get creds' x = paymentCredentialHex B x" using ih Some by metis
    then have "\<forall>y \<in> set (x # xs). jm_get creds' y = paymentCredentialHex B y" using ih by (metis set_ConsD)
    moreover have "addrs' = addrs @ filter (\<lambda>x. paymentCredentialHex B x = None) (x # xs)"
      using ih [THEN conjunct2, THEN conjunct2, THEN conjunct2] by (simp only: Some filter.simps option.simps if_False)
    ultimately show ?thesis using ih old by blast
  qed
qed auto

lemma classify_ok:
  "\<forall>x \<in> set xs. paymentCredentialHex B x \<noteq> None \<or> isPaymentAddress B b58 x net \<Longrightarrow>
     \<exists>creds' addrs'. classify B b58 net xs creds addrs = Inr (creds', addrs')"
  by (induction xs arbitrary: creds addrs) (auto split: option.split)

lemma classify_bad:
  "\<exists>x \<in> set xs. paymentCredentialHex B x = None \<and> \<not> isPaymentAddress B b58 x net \<Longrightarrow>
     classify B b58 net xs creds addrs = Inl (BadRequestError FILTER_USED_ERROR)"
  by (induction xs arbitrary: creds addrs) (auto split: option.split)

lemma jm_wf_classify:
  "classify B b58 net xs creds addrs = Inr (creds', addrs') \<Longrightarrow> jm_wf creds \<Longrightarrow> jm_wf creds'"
  by (induction xs arbitrary: creds addrs) (auto split: option.splits if_splits)

definition input_used :: "bech32 \<Rightarrow> (string \<Rightarrow> bool) \<Rightarrow> (string \<Rightarrow> bool) \<Rightarrow> string \<Rightarrow> bool" where
  "input_used B usedA usedC x = (case paymentCredentialHex B x of None \<Rightarrow> usedA x | Some k \<Rightarrow> usedC k)"

text \<open>
  C27: discovery answers for exactly what was asked: when every input is a payment address or a key
  hash, and the provider tells truly which addresses and which credentials have been used (in any order,
  repeated or not), the answer is the used inputs in the caller's order, each once; when some input is
  neither, the whole batch is refused as a bad request and the provider is not asked at all.
\<close>

theorem filter_used_exact:
  assumes body: "strings_ok 1000 (Some xs)"
    and addrs: "\<And>as s. \<exists>r s'. p_filterUsedAddresses p as s = (Inr r, s') \<and> set r \<inter> set as = {a \<in> set as. usedA a}"
    and creds: "\<And>ks s. \<exists>r s'. p_filterUsedPaymentCredentials p ks s = (Inr r, s') \<and> set r \<inter> set ks = {k \<in> set ks. usedC k}"
  shows "if \<forall>x \<in> set xs. paymentCredentialHex B x \<noteq> None \<or> isPaymentAddress B b58 x (configuredNetworkId network)
    then \<exists>s'. route_filter_used B b58 network p (Some xs) s = (Inr (filter (input_used B usedA usedC) (dedupe xs)), s')
    else route_filter_used B b58 network p (Some xs) s = (Inl (BadRequestError FILTER_USED_ERROR), s)"
proof (cases "\<forall>x \<in> set xs. paymentCredentialHex B x \<noteq> None \<or> isPaymentAddress B b58 x (configuredNetworkId network)")
  case True
  obtain cs as where cl: "classify B b58 (configuredNetworkId network) (dedupe xs) [] [] = Inr (cs, as)"
    using classify_ok [of "dedupe xs" B b58 "configuredNetworkId network" "[]" "[]"] True by auto
  have spec: "\<forall>x \<in> set xs. jm_get cs x = paymentCredentialHex B x"
    "as = filter (\<lambda>x. paymentCredentialHex B x = None) (dedupe xs)"
  proof -
    have "\<forall>x k. jm_get [] x = Some k \<longrightarrow> paymentCredentialHex B x = Some k" by simp
    from classify_Inr [OF cl this] have "\<forall>x \<in> set (dedupe xs). jm_get cs x = paymentCredentialHex B x"
      "as = [] @ filter (\<lambda>x. paymentCredentialHex B x = None) (dedupe xs)" by blast+
    then show "\<forall>x \<in> set xs. jm_get cs x = paymentCredentialHex B x"
      "as = filter (\<lambda>x. paymentCredentialHex B x = None) (dedupe xs)" by (simp_all only: set_dedupe append.simps)
  qed
  have wf: "jm_wf cs" using jm_wf_classify [OF cl] by simp
  obtain ra s1 where ra: "(if as = [] then returnIO [] else p_filterUsedAddresses p as) s = (Inr ra, s1)"
    "set ra \<inter> set as = {a \<in> set as. usedA a}"
    using addrs [of as s] by (cases "as = []") (auto simp: returnIO_def)
  obtain rc s2 where rc: "(if cs = [] then returnIO [] else p_filterUsedPaymentCredentials p (map snd cs)) s1 = (Inr rc, s2)"
    "set rc \<inter> set (map snd cs) = {k \<in> set (map snd cs). usedC k}"
    using creds [of "map snd cs" s1] by (cases "cs = []") (auto simp: returnIO_def)
  have "(case jm_get cs x of None \<Rightarrow> x \<in> set ra | Some k \<Rightarrow> k \<in> set rc) \<longleftrightarrow> input_used B usedA usedC x"
    if x: "x \<in> set (dedupe xs)" for x
  proof (cases "paymentCredentialHex B x")
    case None
    with x spec have "x \<in> set as" "jm_get cs x = None" by auto
    with ra(2) None show ?thesis by (auto simp: input_used_def)
  next
    case (Some k)
    with x spec have g: "jm_get cs x = Some k" by auto
    then have "k \<in> set (map snd cs)" using jm_get_Some_mem by force
    with rc(2) Some g show ?thesis by (auto simp: input_used_def)
  qed
  then have "used_inputs cs (set ra) (set rc) (dedupe xs) = filter (input_used B usedA usedC) (dedupe xs)"
    unfolding used_inputs_def by (rule filter_cong [OF refl])
  moreover have "bothIO (if as = [] then returnIO [] else p_filterUsedAddresses p as)
      (if cs = [] then returnIO [] else p_filterUsedPaymentCredentials p (map snd cs)) s = (Inr (ra, rc), s2)"
    by (simp only: bothIO_def ra(1) rc(1) prod.case bindE.simps)
  moreover have "liftE (classify B b58 (configuredNetworkId network) (dedupe xs) [] []) s = (Inr (cs, as), s)"
    by (simp only: cl liftE_def)
  ultimately have "route_filter_used B b58 network p (Some xs) s =
      (Inr (filter (input_used B usedA usedC) (dedupe xs)), s2)"
    using body by (simp only: route_filter_used_def Let_def option.sel bindIO_run(1) prod.case returnIO_def simp_thms if_False)
  then show ?thesis unfolding if_P [OF True] by blast
next
  case False
  then have "classify B b58 (configuredNetworkId network) (dedupe xs) [] [] = Inl (BadRequestError FILTER_USED_ERROR)"
    by (intro classify_bad) auto
  with False body show ?thesis
    by (auto simp: route_filter_used_def Let_def bindIO_def liftE_def)
qed

text \<open>A codec that knows one mainnet enterprise address and one key hash, and a provider that has seen the address only.\<close>

definition tiny_bech32 :: bech32 where
  "tiny_bech32 = \<lparr>decodeUnsafe = (\<lambda>v _. if v = ''addr1'' then Some (''addr'', [1])
      else if v = ''addr_vkh1'' then Some (''addr_vkh'', [2]) else None),
     fromWordsUnsafe = (\<lambda>ws. if ws = [1] then Some (0x61 # replicate 28 0) else Some (replicate 28 7))\<rparr>"

definition tiny_provider :: "unit provider" where
  "tiny_provider = (let no = JsError ''not asked'' in
     \<lparr>p_getTip = throwIO no, p_getProtocolParams = throwIO no, p_getAccountState = (\<lambda>_. throwIO no),
      p_getAccountUtxos = (\<lambda>_. throwIO no), p_getTxHistory = (\<lambda>_ _. throwIO no), p_getRewardHistory = (\<lambda>_ _. throwIO no),
      p_filterUsedAddresses = (\<lambda>as. returnIO (rev (filter (\<lambda>a. a = ''addr1'') as))),
      p_filterUsedPaymentCredentials = (\<lambda>_. returnIO []),
      p_getUtxosByAddresses = (\<lambda>_. throwIO no), p_getTxHistoryByAddresses = (\<lambda>_ _. throwIO no),
      p_submitTx = (\<lambda>_. throwIO no), p_getTxStatus = (\<lambda>_. throwIO no), p_getUtxosByRef = (\<lambda>_. throwIO no)\<rparr>)"

theorem filter_used_exact_witness:
  "\<exists>s'. route_filter_used tiny_bech32 (\<lambda>_. Inl (JsError ''base58'')) ''mainnet'' tiny_provider
     (Some [''addr_vkh1'', ''addr1'', ''addr1'']) () = (Inr [''addr1''], s')"
proof -
  let ?xs = "[''addr_vkh1'', ''addr1'', ''addr1'']" and ?b58 = "\<lambda>_. Inl (JsError ''base58'')"
  have cred: "paymentCredentialHex tiny_bech32 ''addr_vkh1'' \<noteq> None" "paymentCredentialHex tiny_bech32 ''addr1'' = None"
    by (simp_all add: paymentCredentialHex_def tiny_bech32_def)
  have "drop_bit 4 (0x61 :: byte) = 6" "(0x61 :: byte) AND 0x0f = 1" by (simp_all add: drop_bit_eq_div)
  then have addr: "isPaymentAddress tiny_bech32 ?b58 ''addr1'' (configuredNetworkId ''mainnet'')"
    by (simp add: isPaymentAddress_def isBech32PaymentAddress_def tiny_bech32_def Let_def configuredNetworkId_def
        MAINNET_NETWORK_ID_def ENTERPRISE_ADDRESS_BYTES_def CREDENTIAL_BYTES_def)
  have body: "strings_ok 1000 (Some ?xs)" by (simp add: strings_ok_def)
  have "\<exists>s'. route_filter_used tiny_bech32 ?b58 ''mainnet'' tiny_provider (Some ?xs) () =
     (Inr (filter (input_used tiny_bech32 (\<lambda>a. a = ''addr1'') (\<lambda>_. False)) (dedupe ?xs)), s')"
    using filter_used_exact [OF body, where B = tiny_bech32 and ?b58.0 = ?b58 and network = "''mainnet''" and
        p = tiny_provider and usedA = "\<lambda>a. a = ''addr1''" and usedC = "\<lambda>_. False" and s = "()"] cred addr
    by (auto simp: tiny_provider_def returnIO_def Let_def)
  then show ?thesis using cred by (auto simp: input_used_def dedupe_def)
qed

definition leaves_no_id :: "(string \<Rightarrow> byte list result) \<Rightarrow> string \<Rightarrow> bool" where
  "leaves_no_id b58 s \<longleftrightarrow> unmatched WALLET_BECH32 False s \<and> unmatched HASH_HEX False s \<and>
     unmatched (BYRON_ADDRESS b58) False s"

lemma fixed_messages: "leaves_no_id b58 ''internal server error'' \<and> leaves_no_id b58 ''bad request''"
proof -
  have "unmatched WALLET_BECH32 False ''internal server error'' \<and> unmatched HASH_HEX False ''internal server error'' \<and>
      unmatched BYRON_CANDIDATE False ''internal server error''" by code_simp
  moreover have "unmatched WALLET_BECH32 False ''bad request'' \<and> unmatched HASH_HEX False ''bad request'' \<and>
      unmatched BYRON_CANDIDATE False ''bad request''" by code_simp
  ultimately show ?thesis unfolding leaves_no_id_def using unmatched_candidate by blast
qed

lemma scrubbed_no_id: "leaves_no_id b58 (scrubMessage b58 m)"
  unfolding leaves_no_id_def by (rule scrubMessage_unmatched)

lemma error_reply_cases:
  "400 \<le> rp_status (error_reply b58 f) \<and> rp_status (error_reply b58 f) \<le> 504 \<and>
   leaves_no_id b58 (rp_message (error_reply b58 f))"
proof (cases f)
  case (Thrown e)
  then show ?thesis
    using scrubbed_no_id fixed_messages statusCode_range [of e]
    by (cases "statusCode_of e"; cases "code_of e") (simp_all add: internal_reply_def)
next
  case (Framework st m)
  then show ?thesis
    using scrubbed_no_id fixed_messages by (cases st; cases m) (simp_all add: internal_reply_def)
qed


end
