(* ===== verification/Spec2Isabelle.thy ===== *)
theory Spec2Isabelle
  imports Blockfrost_Refs Byron Cached_Provider Koios_Budget Token_Bucket Concurrency Blockfrost_Client Blockfrost_Pools Chain_Reads Koios_Governance Geckoterminal Http_Routes
begin

text \<open>
  Verification of the Yoroi wallet backend (\<^verbatim>\<open>src/src/\<close>).
\<close>

end
